(* ===== verification/Prelude.thy ===== *)
theory Prelude
  imports Main "HOL-Library.Word"
begin

unbundle bit_operations_syntax

text \<open>
  Shared vocabulary of the development: the machine integers of the kernel (a 32-bit x86
  build, so \<open>u8\<close>, \<open>u16\<close>, \<open>u32\<close> are words that wrap), the error codes of
  \<^verbatim>\<open>include/lib/os/errors.h\<close>, the conversion of an unsigned value to the \<open>int\<close> a
  system call returns, and the generic facts on words and lists that the component theories
  use. The collections declared here are filled by the components: \<open>u32_simps\<close> moves word
  inequalities to natural numbers, \<open>ring_simps\<close> holds the laws of ring buffers,
  \<open>frame_simps\<close> says which fields an operation leaves alone.
\<close>

named_theorems u32_simps \<open>unsigned comparisons and arithmetic as natural numbers\<close>
named_theorems ring_simps \<open>laws of the ring buffer contents\<close>
named_theorems frame_simps \<open>fields that an operation does not write\<close>

type_synonym u8 = "8 word"
type_synonym u16 = "16 word"
type_synonym u32 = "32 word"

subsection \<open>Error codes\<close>

abbreviation ENOMEM :: int where "ENOMEM \<equiv> 101"
abbreviation EAGAIN :: int where "EAGAIN \<equiv> 106"
abbreviation EINVAL :: int where "EINVAL \<equiv> 107"
abbreviation EIO :: int where "EIO \<equiv> 111"
abbreviation ENODEV :: int where "ENODEV \<equiv> 110"
abbreviation ENOENT :: int where "ENOENT \<equiv> 116"
abbreviation ENOSPC :: int where "ENOSPC \<equiv> 117"
abbreviation EPAUSE :: int where "EPAUSE \<equiv> 122"
abbreviation EPIPE :: int where "EPIPE \<equiv> 126"
abbreviation ENETUNREACH :: int where "ENETUNREACH \<equiv> 134"
abbreviation EADDRINUSE :: int where "EADDRINUSE \<equiv> 135"
abbreviation ENOTCONN :: int where "ENOTCONN \<equiv> 136"
abbreviation ETIMEDOUT :: int where "ETIMEDOUT \<equiv> 137"
abbreviation EAFNOSUPPORT :: int where "EAFNOSUPPORT \<equiv> 139"
abbreviation EADDRNOTAVAIL :: int where "EADDRNOTAVAIL \<equiv> 140"
abbreviation ECONNRESET :: int where "ECONNRESET \<equiv> 141"
abbreviation ECONNREFUSED :: int where "ECONNREFUSED \<equiv> 142"
abbreviation EMSGSIZE :: int where "EMSGSIZE \<equiv> 143"
abbreviation ENOBUFS :: int where "ENOBUFS \<equiv> 144"
abbreviation EISCONN :: int where "EISCONN \<equiv> 145"

text \<open>
  Accesses outside an array are undefined behaviour in C and memory corruption in the
  kernel; the model returns them as faults instead of giving them a value.
\<close>

datatype mem_fault = Write_overrun | Read_overrun | Null_pointer

text \<open>Sequencing of computations that may stop with a fault or an error.\<close>

primrec sbind :: "'e + 'a \<Rightarrow> ('a \<Rightarrow> 'e + 'b) \<Rightarrow> 'e + 'b" where
  "sbind (Inl e) f = Inl e"
| "sbind (Inr a) f = f a"

lemma sbind_eq_Inr [simp]: "sbind x f = Inr b \<longleftrightarrow> (\<exists>a. x = Inr a \<and> f a = Inr b)"
  by (cases x) simp_all

subsection \<open>Unsigned words as natural numbers\<close>

declare word_less_nat_alt [u32_simps] word_le_nat_alt [u32_simps]

lemma unat_u32_less [simp]: "unat (x :: u32) < 4294967296"
  using unsigned_less [of x] by simp

lemma unat_sub_le [u32_simps]:
  assumes "b \<le> (a :: 'a::len word)"
  shows "unat (a - b) = unat a - unat b"
  using assms by (rule unat_sub)

lemma unat_add_no_wrap:
  assumes "unat (a :: u32) + unat b < 4294967296"
  shows "unat (a + b) = unat a + unat b"
  using assms by (simp add: unat_word_ariths)

lemma of_nat_unat_u32: "n < 4294967296 \<Longrightarrow> unat (of_nat n :: u32) = n"
  by (simp add: unat_of_nat)

lemma unat_add_of_nat:
  "unat ((a :: u32) + of_nat n) = (unat a + n) mod 4294967296"
  by (simp add: unat_word_ariths unat_of_nat mod_simps)

lemma unat_mod_u32: "unat ((a :: u32) mod b) = unat a mod unat b"
  by (simp add: unat_mod)

text \<open>The distance between two positions of a sequence space that wraps at \<open>2 ^ 32\<close>.\<close>

lemma word_add_diff_cancel [simp]: "(a :: 'a::len word) + (b - a) = b"
  by simp

lemma unat_diff_advance:
  fixes h t :: u32
  assumes "unat (t - h) + n < 4294967296"
  shows "unat (t + of_nat n - h) = unat (t - h) + n"
proof -
  have "t + of_nat n - h = (t - h) + of_nat n" by simp
  then have "unat (t + of_nat n - h) = unat ((t - h) + of_nat n)" by (simp only:)
  also have "\<dots> = (unat (t - h) + n) mod 4294967296" by (rule unat_add_of_nat)
  finally show ?thesis using assms by simp
qed

lemma unat_diff_retreat:
  fixes h t :: u32
  assumes "n \<le> unat (t - h)"
  shows "unat (t - (h + of_nat n)) = unat (t - h) - n"
proof -
  have small: "n < 4294967296" using assms unat_u32_less [of "t - h"] by linarith
  have "unat (t - (h + of_nat n)) = unat ((t - h) - of_nat n)" by (simp add: algebra_simps)
  moreover have "(of_nat n :: u32) \<le> t - h"
    using assms small by (simp add: word_le_nat_alt of_nat_unat_u32)
  ultimately show ?thesis using small by (simp only: unat_sub of_nat_unat_u32)
qed

text \<open>The signed reading of a word, for the \<open>int\<close> that a function returns.\<close>

lemma sint_u32: "sint (w :: u32) = (if unat w < 2147483648 then int (unat w) else int (unat w) - 4294967296)"
proof -
  have b: "0 \<le> uint w" "uint w < 4294967296" using uint_lt2p [of w] by simp_all
  have "sint w = (uint w + 2147483648) mod 4294967296 - 2147483648"
    by (simp add: sint_uint signed_take_bit_eq_take_bit_shift take_bit_eq_mod)
  moreover have "\<dots> = (if uint w < 2147483648 then uint w else uint w - 4294967296)"
  proof (cases "uint w < 2147483648")
    case True
    with b show ?thesis by simp
  next
    case False
    have "uint w + 2147483648 = uint w - 2147483648 + 4294967296" by simp
    then have "(uint w + 2147483648) mod 4294967296 = (uint w - 2147483648 + 4294967296) mod 4294967296"
      by (simp only:)
    also have "\<dots> = uint w - 2147483648"
      using False b by (simp only: mod_add_self2) simp
    finally show ?thesis using False by simp
  qed
  moreover have "uint w < 2147483648 \<longleftrightarrow> unat w < 2147483648"
    using of_nat_less_iff [of "unat w" 2147483648, where 'a = int] by simp
  ultimately show ?thesis by simp
qed

lemma sint_pos_iff: "0 < sint (w :: u32) \<longleftrightarrow> w \<noteq> 0 \<and> unat w < 2147483648"
proof (cases "unat w < 2147483648")
  case True
  then have "sint w = int (unat w)" by (simp only: sint_u32 if_True)
  then show ?thesis using True unat_eq_zero [of w] by linarith
next
  case False
  then have "sint w = int (unat w) - 4294967296" by (simp only: sint_u32 if_False)
  then show ?thesis using False unat_u32_less [of w] by linarith
qed

lemma sint_nonneg_iff: "0 \<le> sint (w :: u32) \<longleftrightarrow> unat w < 2147483648"
proof (cases "unat w < 2147483648")
  case True
  then have "sint w = int (unat w)" by (simp only: sint_u32 if_True)
  then show ?thesis using True by linarith
next
  case False
  then have "sint w = int (unat w) - 4294967296" by (simp only: sint_u32 if_False)
  then show ?thesis using False unat_u32_less [of w] by linarith
qed

lemma sint_nonneg_unat: "0 \<le> sint (w :: u32) \<Longrightarrow> sint w = int (unat w)"
  using sint_nonneg_iff [of w] by (simp only: sint_u32 if_True)

subsection \<open>Lists\<close>

lemma map_upt_append: "map f [0..<n + m] = map f [0..<n] @ map (\<lambda>i. f (n + i)) [0..<m]"
  by (induction m) simp_all

lemma map_upt_drop: "k \<le> n \<Longrightarrow> drop k (map f [0..<n]) = map (\<lambda>i. f (k + i)) [0..<n - k]"
  by (rule nth_equalityI) simp_all

lemma map_upt_take: "k \<le> n \<Longrightarrow> take k (map f [0..<n]) = map f [0..<k]"
  by (rule nth_equalityI) simp_all

end
