(* ===== verification/Wire.thy ===== *)
theory Wire
  imports Prelude
begin

unbundle bit_operations_syntax

text \<open>
  The byte-level layer of the networking stack: byte order conversion
  (\<^verbatim>\<open>lib/std/net.c\<close>), the little-endian loads and stores of a 32-bit x86 through
  which the stack reads a packet buffer as an array of \<open>u16\<close> or as a packed struct, and
  the two Internet checksum routines (\<^verbatim>\<open>net_compute_checksum\<close> in
  \<^verbatim>\<open>kernel/net.c\<close> and \<^verbatim>\<open>compute_checksum\<close> in
  \<^verbatim>\<open>kernel/tcp.c\<close>). A packet buffer is the list of its bytes; a load beyond the end
  of the buffer reads zero. The lemmas relate the carry-folding loop of the checksum to
  arithmetic modulo 65535.
\<close>

subsection \<open>Byte order\<close>

definition ntohs :: "u16 \<Rightarrow> u16" where
  "ntohs netshort = drop_bit 8 netshort + push_bit 8 (netshort AND 0xFF)"

definition htons :: "u16 \<Rightarrow> u16" where
  "htons hostshort = ntohs hostshort"

definition htonl :: "u32 \<Rightarrow> u32" where
  "htonl hostlong =
     ucast (htons (ucast (drop_bit 16 hostlong))) +
     push_bit 16 (ucast (htons (ucast (hostlong AND 0xFFFF))))"

definition ntohl :: "u32 \<Rightarrow> u32" where
  "ntohl netlong = htonl netlong"

subsection \<open>Loads and stores\<close>

definition byte_at :: "u8 list \<Rightarrow> nat \<Rightarrow> u8" where
  "byte_at bs i = (if i < length bs then bs ! i else 0)"

definition ld16 :: "u8 list \<Rightarrow> nat \<Rightarrow> u16" where
  "ld16 bs i = ucast (byte_at bs i) + 256 * ucast (byte_at bs (i + 1))"

definition ld32 :: "u8 list \<Rightarrow> nat \<Rightarrow> u32" where
  "ld32 bs i = ucast (ld16 bs i) + 65536 * ucast (ld16 bs (i + 2))"

definition st16 :: "u16 \<Rightarrow> u8 list" where
  "st16 w = [ucast w, ucast (drop_bit 8 w)]"

definition st32 :: "u32 \<Rightarrow> u8 list" where
  "st32 w = st16 (ucast w) @ st16 (ucast (drop_bit 16 w))"

subsection \<open>Checksums\<close>

text \<open>\<^verbatim>\<open>for (i = 0; i < byte_count / 2; i++) sum = sum + words[i];\<close>\<close>

definition sum_words :: "u8 list \<Rightarrow> nat \<Rightarrow> u32 \<Rightarrow> u32" where
  "sum_words bs n s = fold (\<lambda>i s. s + ucast (ld16 bs (2 * i))) [0..<n] s"

text \<open>\<^verbatim>\<open>while (sum >> 16) sum = (sum >> 16) + (sum & 0xFFFF);\<close>\<close>

function csum_fold :: "u32 \<Rightarrow> u32" where
  "csum_fold s =
     (if drop_bit 16 s \<noteq> 0 then csum_fold (drop_bit 16 s + (s AND 0xFFFF)) else s)"
  by pat_completeness auto

lemma unat_drop16: "unat (drop_bit 16 (s :: u32)) = unat s div 65536"
  by (simp add: drop_bit_eq_div unat_div)

lemma unat_and_ffff: "unat ((s :: u32) AND 0xFFFF) = unat s mod 65536"
proof -
  have "s AND 0xFFFF = take_bit 16 s"
    by (simp add: take_bit_eq_mask mask_eq_exp_minus_1)
  then show ?thesis by (simp add: take_bit_eq_mod unat_mod)
qed

lemma unat_csum_step:
  "unat (drop_bit 16 s + (s AND 0xFFFF) :: u32) = unat s div 65536 + unat s mod 65536"
proof -
  have "unat s div 65536 + unat s mod 65536 < 4294967296"
    using unat_u32_less [of s] by linarith
  then show ?thesis
    by (subst unat_add_no_wrap) (simp_all add: unat_drop16 unat_and_ffff)
qed

termination csum_fold
proof (relation "measure unat")
  fix s :: u32
  assume "drop_bit 16 s \<noteq> 0"
  then have "unat s div 65536 \<noteq> 0"
    by (metis unat_drop16 unat_eq_zero)
  then have "unat s div 65536 + unat s mod 65536 < unat s"
    using div_mult_mod_eq [of "unat s" 65536] by linarith
  then show "(drop_bit 16 s + (s AND 0xFFFF), s) \<in> measure unat"
    by (simp add: unat_csum_step)
qed simp

declare csum_fold.simps [simp del]

text \<open>The words, and the byte left over when their number is odd, added to a start value.\<close>

definition csum_acc :: "u8 list \<Rightarrow> nat \<Rightarrow> u32 \<Rightarrow> u32" where
  "csum_acc bs byte_count s0 =
     (let s = sum_words bs (byte_count div 2) s0
      in if byte_count mod 2 = 1 then s + ucast (byte_at bs (byte_count - 1)) else s)"

definition net_compute_checksum :: "u8 list \<Rightarrow> nat \<Rightarrow> u16" where
  "net_compute_checksum bs byte_count = ntohs (NOT (ucast (csum_fold (csum_acc bs byte_count 0))))"

text \<open>
  The TCP checksum starts with the pseudo header: protocol number 6 and the segment length,
  then both IP addresses, all in network byte order.
\<close>

definition pseudo_sum :: "u16 \<Rightarrow> u32 \<Rightarrow> u32 \<Rightarrow> u32" where
  "pseudo_sum byte_count ip_src ip_dst =
     0x6 * 256 + ucast (htons byte_count)
     + (drop_bit 16 ip_src AND 0xFFFF) + (ip_src AND 0xFFFF)
     + (drop_bit 16 ip_dst AND 0xFFFF) + (ip_dst AND 0xFFFF)"

definition compute_checksum :: "u8 list \<Rightarrow> u16 \<Rightarrow> u32 \<Rightarrow> u32 \<Rightarrow> u16" where
  "compute_checksum bs byte_count ip_src ip_dst =
     (let s = csum_acc bs (unat byte_count) (pseudo_sum byte_count ip_src ip_dst);
          rc = ucast (csum_fold s)
      in htons (NOT rc))"

subsection \<open>Byte order and stores: round trips\<close>

lemma unat_ntohs: "unat (ntohs x) = unat x div 256 + 256 * (unat x mod 256)"
proof -
  have x: "unat x < 65536" using unsigned_less [of x] by simp
  have hi: "unat (drop_bit 8 x) = unat x div 256"
    by (simp add: drop_bit_eq_div unat_div)
  have "x AND 0xFF = take_bit 8 x" by (simp add: take_bit_eq_mask mask_eq_exp_minus_1)
  then have lo: "unat (x AND 0xFF) = unat x mod 256" by (simp add: take_bit_eq_mod unat_mod)
  have sh: "unat (push_bit 8 (x AND 0xFF)) = 256 * (unat x mod 256)"
    by (simp add: push_bit_eq_mult unat_word_ariths lo)
  have "unat x div 256 + 256 * (unat x mod 256) < 65536" using x by linarith
  then show ?thesis unfolding ntohs_def by (simp only: unat_word_ariths(1) hi sh) simp
qed

lemma ntohs_htons [simp]: "ntohs (htons x) = x"
proof -
  have x: "unat x < 65536" using unsigned_less [of x] by simp
  have "unat (ntohs (ntohs x)) = unat x" using x by (simp add: unat_ntohs)
  then show ?thesis by (simp add: htons_def word_unat_eq_iff)
qed

lemma htons_ntohs [simp]: "htons (ntohs x) = x"
  using ntohs_htons [of x] by (simp add: htons_def)

lemma unat_ucast16: "unat (ucast (w :: u32) :: u16) = unat w mod 65536"
  by (simp add: unsigned_ucast_eq take_bit_eq_mod)

lemma unat_u16_less [simp]: "unat (w :: u16) < 65536"
  using unsigned_less [of w] by simp

lemma unat_u16_le [simp]: "unat (w :: u16) \<le> 65535"
  using unat_u16_less [of w] by linarith

lemma unat_u8_less [simp]: "unat (w :: u8) < 256"
  using unsigned_less [of w] by simp

lemma unat_ucast32 [simp]: "unat (ucast (w :: u16) :: u32) = unat w"
  by (subst unsigned_ucast_eq, rule take_bit_nat_eq_self, rule less_trans [OF unat_u16_less]) simp

lemma unat_ucast_8_16 [simp]: "unat (ucast (w :: u8) :: u16) = unat w"
  by (subst unsigned_ucast_eq, rule take_bit_nat_eq_self, rule less_trans [OF unat_u8_less]) simp

lemma unat_ucast_8_32 [simp]: "unat (ucast (w :: u8) :: u32) = unat w"
  by (subst unsigned_ucast_eq, rule take_bit_nat_eq_self, rule less_trans [OF unat_u8_less]) simp

lemma unat_ucast_16_8: "unat (ucast (w :: u16) :: u8) = unat w mod 256"
  by (simp add: unsigned_ucast_eq take_bit_eq_mod)

lemma unat_drop8: "unat (drop_bit 8 (w :: u16)) = unat w div 256"
  by (simp add: drop_bit_eq_div unat_div)

lemma unat_htonl:
  "unat (htonl x) = unat (htons (ucast (drop_bit 16 x))) + 65536 * unat (htons (ucast x))"
proof -
  have lo: "(ucast (x AND 0xFFFF) :: u16) = ucast x"
    by (simp only: word_unat_eq_iff unat_ucast16 unat_and_ffff mod_mod_trivial)
  let ?h = "htons (ucast (drop_bit 16 x))" and ?l = "htons (ucast x)"
  have h: "unat ?h < 65536" and l: "unat ?l < 65536" by simp_all
  have ll: "unat (push_bit 16 (ucast ?l :: u32)) = 65536 * unat ?l"
    using l by (simp add: push_bit_eq_mult unat_word_ariths unat_ucast32)
  have "unat ?h + 65536 * unat ?l < 4294967296" using h l by linarith
  then show ?thesis unfolding htonl_def lo
    by (subst unat_add_no_wrap) (simp_all only: ll unat_ucast32)
qed

lemma htons_htons [simp]: "htons (htons x) = x"
  using ntohs_htons [of x] by (simp add: htons_def)

lemma ntohl_htonl [simp]: "ntohl (htonl x) = x"
proof -
  let ?h = "ucast (drop_bit 16 x) :: u16" and ?l = "ucast x :: u16"
  have u: "unat (htonl x) = unat (htons ?h) + 65536 * unat (htons ?l)" by (rule unat_htonl)
  have hi: "(ucast (drop_bit 16 (htonl x)) :: u16) = htons ?l"
    by (simp only: word_unat_eq_iff unat_ucast16 unat_drop16 u) simp
  have lo: "(ucast (htonl x) :: u16) = htons ?h"
    by (simp only: word_unat_eq_iff unat_ucast16 u) simp
  have "unat (ntohl (htonl x)) = unat ?l + 65536 * unat ?h"
    unfolding ntohl_def by (simp only: unat_htonl [of "htonl x"] hi lo htons_htons)
  also have "\<dots> = unat x mod 65536 + 65536 * (unat x div 65536 mod 65536)"
    by (simp only: unat_ucast16 unat_drop16)
  also have "unat x div 65536 mod 65536 = unat x div 65536"
    using unat_u32_less [of x] by (simp add: div_less_iff_less_mult)
  also have "unat x mod 65536 + 65536 * (unat x div 65536) = unat x"
    by (rule mod_mult_div_eq)
  finally show ?thesis by (simp only: word_unat_eq_iff)
qed

lemma htonl_ntohl [simp]: "htonl (ntohl x) = x"
  using ntohl_htonl [of x] by (simp add: ntohl_def)

lemma unat_ld16: "unat (ld16 bs i) = unat (byte_at bs i) + 256 * unat (byte_at bs (i + 1))"
proof -
  let ?a = "byte_at bs i" and ?b = "byte_at bs (i + 1)"
  have "unat ?a + 256 * unat ?b < 65536"
    using unat_u8_less [of ?a] unat_u8_less [of ?b] by linarith
  then show ?thesis by (simp add: ld16_def unat_word_ariths)
qed

text \<open>A store followed by a load at the same place returns the value.\<close>

lemma byte_at_append_left [simp]: "i < length xs \<Longrightarrow> byte_at (xs @ ys) i = byte_at xs i"
  by (simp add: byte_at_def nth_append)

lemma byte_at_append_right: "byte_at (xs @ ys) (length xs + i) = byte_at ys i"
  by (simp add: byte_at_def nth_append)

lemma ld16_append_right: "ld16 (xs @ ys) (length xs + i) = ld16 ys i"
  using byte_at_append_right [of xs ys i] byte_at_append_right [of xs ys "i + 1"]
  by (simp add: ld16_def)

lemma ld16_append_left: "i + 1 < length xs \<Longrightarrow> ld16 (xs @ ys) i = ld16 xs i"
  by (simp add: ld16_def)

text \<open>Loads at a known offset of a packet that is a concatenation of fields.\<close>

lemma byte_at_skip: "length xs \<le> i \<Longrightarrow> byte_at (xs @ ys) i = byte_at ys (i - length xs)"
  by (auto simp: byte_at_def nth_append)

lemma byte_at_Cons: "byte_at (x # xs) i = (if i = 0 then x else byte_at xs (i - 1))"
  by (cases i) (auto simp: byte_at_def)

lemma ld16_skip: "length xs \<le> i \<Longrightarrow> ld16 (xs @ ys) i = ld16 ys (i - length xs)"
  by (simp add: ld16_def byte_at_skip Suc_diff_le)

lemma ld16_Cons: "0 < i \<Longrightarrow> ld16 (x # xs) i = ld16 xs (i - 1)"
  by (simp add: ld16_def byte_at_Cons)

lemma ld32_skip: "length xs \<le> i \<Longrightarrow> ld32 (xs @ ys) i = ld32 ys (i - length xs)"
  by (simp add: ld32_def ld16_skip Suc_diff_le)

lemma ld32_Cons: "0 < i \<Longrightarrow> ld32 (x # xs) i = ld32 xs (i - 1)"
  by (simp add: ld32_def ld16_Cons)

lemmas field_simps_wire = byte_at_skip byte_at_Cons ld16_skip ld16_Cons ld32_skip ld32_Cons

lemma length_st16 [simp]: "length (st16 w) = 2"
  by (simp add: st16_def)

lemma length_st32 [simp]: "length (st32 w) = 4"
  by (simp add: st32_def)

lemma ld16_st16: "ld16 (st16 w) 0 = w"
proof -
  have "unat w div 256 < 256" by (simp add: div_less_iff_less_mult)
  then have "unat (ld16 (st16 w) 0) = unat w mod 256 + 256 * (unat w div 256)"
    by (simp add: unat_ld16 byte_at_def st16_def unat_ucast_16_8 unat_drop8)
  then show ?thesis by (simp only: word_unat_eq_iff mod_mult_div_eq)
qed

lemma ld16_st16_append [simp]: "ld16 (st16 w @ ys) 0 = w"
  by (simp add: ld16_append_left ld16_st16)

lemma unat_ld32: "unat (ld32 bs i) = unat (ld16 bs i) + 65536 * unat (ld16 bs (i + 2))"
proof -
  let ?a = "ld16 bs i" and ?b = "ld16 bs (i + 2)"
  have "unat ?a + 65536 * unat ?b < 4294967296"
    using unat_u16_less [of ?a] unat_u16_less [of ?b] by linarith
  then show ?thesis by (simp add: ld32_def unat_word_ariths)
qed

lemma ld32_st32_append [simp]: "ld32 (st32 w @ ys) 0 = w"
proof -
  have hi: "ld16 (st32 w @ ys) 2 = ucast (drop_bit 16 w)"
    using ld16_append_right [of "st16 (ucast w)" "st16 (ucast (drop_bit 16 w)) @ ys" 0]
    by (simp add: st32_def)
  have lo: "ld16 (st32 w @ ys) 0 = ucast w" by (simp add: st32_def)
  have "unat w div 65536 < 65536"
    using unat_u32_less [of w] by (simp add: div_less_iff_less_mult)
  then have "unat (ld32 (st32 w @ ys) 0) = unat w mod 65536 + 65536 * (unat w div 65536)"
    using hi lo by (simp add: unat_ld32 unat_ucast16 unat_drop16 numeral_2_eq_2)
  then show ?thesis by (simp only: word_unat_eq_iff mod_mult_div_eq)
qed

subsection \<open>The folding loop is arithmetic modulo 65535\<close>

lemma csum_fold_less: "unat (csum_fold s) < 65536"
proof (induction s rule: csum_fold.induct)
  case (1 s)
  show ?case
  proof (cases "drop_bit 16 s \<noteq> 0")
    case True
    with "1.IH" show ?thesis by (subst csum_fold.simps) simp
  next
    case False
    then have "unat s div 65536 = 0" by (metis unat_drop16 unat_0)
    with False show ?thesis by (subst csum_fold.simps) (simp add: div_eq_0_iff)
  qed
qed

lemma csum_step_mod: "(m div 65536 + m mod 65536) mod 65535 = (m :: nat) mod 65535"
proof -
  have "m = 65535 * (m div 65536) + (m div 65536 + m mod 65536)"
    using div_mult_mod_eq [of m 65536] by linarith
  then show ?thesis by (metis mod_mult_self4 mult.commute)
qed

lemma csum_fold_mod: "unat (csum_fold s) mod 65535 = unat s mod 65535"
proof (induction s rule: csum_fold.induct)
  case (1 s)
  show ?case
  proof (cases "drop_bit 16 s \<noteq> 0")
    case True
    with "1.IH" show ?thesis
      by (subst csum_fold.simps) (simp add: unat_csum_step csum_step_mod)
  next
    case False
    then show ?thesis by (subst csum_fold.simps) simp
  qed
qed

lemma csum_fold_eq_0_iff: "csum_fold s = 0 \<longleftrightarrow> s = 0"
proof (induction s rule: csum_fold.induct)
  case (1 s)
  show ?case
  proof (cases "drop_bit 16 s \<noteq> 0")
    case True
    then have "unat s div 65536 \<noteq> 0" by (metis unat_drop16 unat_eq_zero)
    then have "unat (drop_bit 16 s + (s AND 0xFFFF)) \<noteq> 0" by (simp only: unat_csum_step)
    then have "drop_bit 16 s + (s AND 0xFFFF) \<noteq> 0" and "s \<noteq> 0" using True by auto
    with True "1.IH" show ?thesis by (subst csum_fold.simps) simp
  next
    case False
    then show ?thesis by (subst csum_fold.simps) simp
  qed
qed

text \<open>The result is all ones exactly when the sum is a positive multiple of 65535.\<close>

lemma csum_fold_ones_iff: "csum_fold s = 0xFFFF \<longleftrightarrow> s \<noteq> 0 \<and> unat s mod 65535 = 0"
proof -
  let ?r = "unat (csum_fold s)"
  have "csum_fold s = 0xFFFF \<longleftrightarrow> ?r = 65535" by (simp add: word_unat_eq_iff)
  also have "\<dots> \<longleftrightarrow> ?r \<noteq> 0 \<and> ?r mod 65535 = 0"
  proof
    assume "?r \<noteq> 0 \<and> ?r mod 65535 = 0"
    then obtain k where k: "?r = 65535 * k" and "k \<noteq> 0" by auto
    then show "?r = 65535" using csum_fold_less [of s] by (cases k) auto
  qed simp
  also have "\<dots> \<longleftrightarrow> s \<noteq> 0 \<and> unat s mod 65535 = 0"
    using csum_fold_eq_0_iff [of s] by (simp add: csum_fold_mod unat_eq_zero)
  finally show ?thesis .
qed

subsection \<open>Checksums as sums\<close>

lemma sum_words_Suc:
  "sum_words bs (Suc n) s = sum_words bs n s + ucast (ld16 bs (2 * n))"
  by (simp add: sum_words_def)

lemma unat_sum_words:
  "unat s + 65535 * n < 4294967296 \<Longrightarrow>
   unat (sum_words bs n s) = unat s + (\<Sum>i<n. unat (ld16 bs (2 * i)))"
proof (induction n)
  case 0
  then show ?case by (simp add: sum_words_def)
next
  case (Suc n)
  let ?t = "unat s + (\<Sum>i<n. unat (ld16 bs (2 * i)))"
  have "(\<Sum>i<n. unat (ld16 bs (2 * i))) \<le> (\<Sum>i<n. 65535)"
    by (rule sum_mono) simp
  then have "?t \<le> unat s + 65535 * n" by simp
  moreover have "unat (ld16 bs (2 * n)) \<le> 65535" by simp
  moreover have "unat s + 65535 * n + 65535 < 4294967296" using Suc.prems by simp
  ultimately have "?t + unat (ld16 bs (2 * n)) < 4294967296" by linarith
  with Suc show ?case
    by (simp add: sum_words_Suc unat_add_no_wrap)
qed

text \<open>What both routines add up: the 16-bit words and the byte left over.\<close>

definition csum_total :: "u8 list \<Rightarrow> nat \<Rightarrow> nat" where
  "csum_total bs n = (\<Sum>i<n div 2. unat (ld16 bs (2 * i))) +
     (if n mod 2 = 1 then unat (byte_at bs (n - 1)) else 0)"

lemma csum_total_bound: "csum_total bs n \<le> 65535 * (n div 2) + 255"
proof -
  have "(\<Sum>i<n div 2. unat (ld16 bs (2 * i))) \<le> (\<Sum>i<n div 2. 65535)"
    by (rule sum_mono) simp
  moreover have "unat (byte_at bs (n - 1)) \<le> 255"
    using unat_u8_less [of "byte_at bs (n - 1)"] by linarith
  ultimately show ?thesis by (simp add: csum_total_def)
qed

text \<open>No carry is lost: the sum of a whole datagram fits 32 bits.\<close>

lemma unat_csum_acc:
  assumes "unat s0 < 1048576" and "n < 65536"
  shows "unat (csum_acc bs n s0) = unat s0 + csum_total bs n"
proof -
  have n: "n div 2 \<le> 32767" using assms(2) by linarith
  then have w: "unat (sum_words bs (n div 2) s0)
                = unat s0 + (\<Sum>i<n div 2. unat (ld16 bs (2 * i)))"
    using assms(1) by (intro unat_sum_words) linarith
  have "unat s0 + csum_total bs n < 4294967296"
    using assms(1) n csum_total_bound [of bs n] by linarith
  then show ?thesis using w
    by (cases "n mod 2 = 1") (auto simp: csum_acc_def Let_def csum_total_def unat_add_no_wrap)
qed

lemma unat_not_u16: "unat (NOT (w :: u16)) = 65535 - unat w"
proof -
  have "NOT w = - 1 - w" by (simp add: not_eq_complement)
  moreover have "w \<le> - 1" by simp
  ultimately have "unat (NOT w) = unat (- 1 :: u16) - unat w" by (simp only: unat_sub)
  moreover have "unat (- 1 :: u16) = 65535"
    by (simp add: unsigned_minus_1_eq_mask mask_eq_exp_minus_1)
  ultimately show ?thesis by simp
qed

lemma ntohs_not_eq_0_iff: "ntohs (NOT rc) = 0 \<longleftrightarrow> rc = 0xFFFF"
proof -
  have "ntohs (NOT rc) = 0 \<longleftrightarrow> NOT rc = htons 0" by (metis htons_ntohs ntohs_htons)
  also have "htons 0 = 0" by (simp add: htons_def ntohs_def)
  also have "NOT rc = 0 \<longleftrightarrow> rc = 0xFFFF"
  proof
    assume "NOT rc = 0"
    then have "rc = NOT 0" by (metis bit.double_compl)
    then show "rc = 0xFFFF" by simp
  qed simp
  finally show ?thesis .
qed

lemma ucast_ones_iff: "(ucast (csum_fold s) :: u16) = 0xFFFF \<longleftrightarrow> csum_fold s = 0xFFFF"
  using csum_fold_less [of s] by (simp add: word_unat_eq_iff unat_ucast16)

lemma pseudo_sum_bound: "1536 \<le> unat (pseudo_sum n src dst) \<and> unat (pseudo_sum n src dst) < 1048576"
proof -
  let ?a = "unat (htons n)" and ?b = "unat (drop_bit 16 src AND 0xFFFF)" and ?c = "unat (src AND 0xFFFF)"
  let ?d = "unat (drop_bit 16 dst AND 0xFFFF)" and ?e = "unat (dst AND 0xFFFF)"
  have le: "?a \<le> 65535" "?b \<le> 65535" "?c \<le> 65535" "?d \<le> 65535" "?e \<le> 65535"
    by (simp_all add: unat_and_ffff less_Suc_eq_le [symmetric])
  have "unat (pseudo_sum n src dst) = 1536 + ?a + ?b + ?c + ?d + ?e"
    unfolding pseudo_sum_def using le by (simp add: unat_word_ariths del: unat_u16_le unat_u16_less)
  then show ?thesis using le by linarith
qed

text \<open>
  What a receiver checks: the checksum computes to zero exactly when the sum of the pseudo
  header and of all words of the segment is a multiple of 65535.
\<close>

lemma compute_checksum_eq_0_iff:
  "compute_checksum bs n src dst = 0 \<longleftrightarrow>
   (unat (pseudo_sum n src dst) + csum_total bs (unat n)) mod 65535 = 0"
proof -
  let ?s = "csum_acc bs (unat n) (pseudo_sum n src dst)"
  have u: "unat ?s = unat (pseudo_sum n src dst) + csum_total bs (unat n)"
    using pseudo_sum_bound [of n src dst] by (intro unat_csum_acc) simp_all
  then have "?s \<noteq> 0" using pseudo_sum_bound [of n src dst] by auto
  have "compute_checksum bs n src dst = 0 \<longleftrightarrow> csum_fold ?s = 0xFFFF"
    by (simp add: compute_checksum_def Let_def htons_def ntohs_not_eq_0_iff ucast_ones_iff)
  also have "\<dots> \<longleftrightarrow> unat ?s mod 65535 = 0"
    using \<open>?s \<noteq> 0\<close> by (simp add: csum_fold_ones_iff)
  finally show ?thesis by (simp only: u)
qed

text \<open>What a sender stores: the one's complement of the folded sum, already in memory order.\<close>

lemma htons_compute_checksum:
  "(unat (htons (compute_checksum bs n src dst)) + (unat (pseudo_sum n src dst) + csum_total bs (unat n)))
   mod 65535 = 0"
proof -
  let ?s = "csum_acc bs (unat n) (pseudo_sum n src dst)"
  have u: "unat ?s = unat (pseudo_sum n src dst) + csum_total bs (unat n)"
    using pseudo_sum_bound [of n src dst] by (intro unat_csum_acc) simp_all
  have "htons (compute_checksum bs n src dst) = NOT (ucast (csum_fold ?s))"
    by (simp add: compute_checksum_def Let_def)
  moreover have "unat (NOT (ucast (csum_fold ?s) :: u16)) = 65535 - unat (csum_fold ?s)"
    using csum_fold_less [of ?s] by (simp add: unat_not_u16 unat_ucast16)
  ultimately have "unat (htons (compute_checksum bs n src dst)) + unat (csum_fold ?s) = 65535"
    using csum_fold_less [of ?s] by simp
  then show ?thesis
    by (metis csum_fold_mod mod_add_right_eq mod_self u)
qed

text \<open>Storing a 16-bit field into a packet.\<close>

definition put16 :: "u8 list \<Rightarrow> nat \<Rightarrow> u16 \<Rightarrow> u8 list" where
  "put16 bs i w = bs[i := ucast w, i + 1 := ucast (drop_bit 8 w)]"

lemma length_put16 [simp]: "length (put16 bs i w) = length bs"
  by (simp add: put16_def)

lemma byte_at_put16_other: "j \<noteq> i \<Longrightarrow> j \<noteq> i + 1 \<Longrightarrow> byte_at (put16 bs i w) j = byte_at bs j"
  by (simp add: byte_at_def put16_def)

lemma ld16_put16_same:
  assumes "i + 1 < length bs"
  shows "ld16 (put16 bs i w) i = w"
proof -
  have "ld16 (put16 bs i w) i = ld16 (st16 w) 0"
    using assms by (simp add: ld16_def byte_at_def put16_def st16_def)
  then show ?thesis by (simp add: ld16_st16)
qed

lemma ld16_put16_other:
  "j \<noteq> i \<Longrightarrow> even i \<Longrightarrow> even j \<Longrightarrow> ld16 (put16 bs i w) j = ld16 bs j"
  by (subst (1 2) ld16_def, subst (1 2) byte_at_put16_other) auto

text \<open>A field that lies within the summed words contributes exactly its value.\<close>

lemma csum_total_put16:
  assumes "2 * k + 1 < length bs" and "k < n div 2"
  shows "csum_total (put16 bs (2 * k) w) n = unat w + csum_total (put16 bs (2 * k) 0) n"
proof -
  let ?f = "\<lambda>w i. unat (ld16 (put16 bs (2 * k) w) (2 * i))"
  have tail: "byte_at (put16 bs (2 * k) w) (n - 1) = byte_at bs (n - 1)" if "n mod 2 = 1" for w
    using assms(2) that by (intro byte_at_put16_other) presburger+
  have k: "k \<in> {..<n div 2}" using assms(2) by simp
  have split: "(\<Sum>i<n div 2. ?f w i) = unat w + (\<Sum>i\<in>{..<n div 2} - {k}. unat (ld16 bs (2 * i)))" for w
    using k assms(1) by (simp add: sum.remove [of _ k] ld16_put16_same ld16_put16_other)
  show ?thesis using split [of w] split [of 0] tail by (simp add: csum_total_def)
qed

text \<open>
  Round trip of the checksum: a segment whose checksum field (at offset \<open>2 * k\<close>) was
  filled with the value computed over the zeroed field is accepted by the receiver.
\<close>

lemma checksum_round_trip:
  assumes "2 * k + 1 < length bs" and "k < unat n div 2"
  shows "compute_checksum
           (put16 bs (2 * k) (htons (compute_checksum (put16 bs (2 * k) 0) n src dst))) n src dst = 0"
  using htons_compute_checksum [of "put16 bs (2 * k) 0" n src dst]
  unfolding compute_checksum_eq_0_iff
  by (subst csum_total_put16 [OF assms]) (simp only: add.assoc add.commute add.left_commute)

text \<open>The same for the checksum without a pseudo header.\<close>

lemma net_checksum_round_trip:
  assumes "2 * k + 1 < length bs" and "k < n div 2" and "n < 65536"
  shows "net_compute_checksum
           (put16 bs (2 * k) (htons (net_compute_checksum (put16 bs (2 * k) 0) n))) n = 0"
proof -
  let ?zeroed = "put16 bs (2 * k) 0"
  let ?s = "csum_acc ?zeroed n 0"
  let ?c = "htons (net_compute_checksum ?zeroed n)"
  let ?b = "put16 bs (2 * k) ?c"
  have u: "unat (csum_acc b n 0) = csum_total b n" for b using assms(3) unat_csum_acc [of 0 n b] by simp
  have "?c = NOT (ucast (csum_fold ?s))" by (simp add: net_compute_checksum_def)
  then have "unat ?c = 65535 - unat (csum_fold ?s)"
    using csum_fold_less [of ?s] by (simp add: unat_not_u16 unat_ucast16)
  then have c: "unat ?c + unat (csum_fold ?s) = 65535" using csum_fold_less [of ?s] by simp
  have tot: "csum_total ?b n = unat ?c + csum_total ?zeroed n" by (rule csum_total_put16 [OF assms(1,2)])
  have mod: "csum_total ?b n mod 65535 = 0" using c tot by (metis csum_fold_mod mod_add_right_eq mod_self u)
  have "csum_total ?b n \<noteq> 0"
  proof
    assume "csum_total ?b n = 0"
    then have "?s = 0" "unat ?c = 0" using tot u [of ?zeroed] by (simp_all add: unat_eq_zero [symmetric])
    moreover have "csum_fold 0 = 0" by (subst csum_fold.simps) simp
    ultimately show False using c by simp
  qed
  then have "csum_acc ?b n 0 \<noteq> 0" using u [of ?b] by auto
  then have "csum_fold (csum_acc ?b n 0) = 0xFFFF" using mod by (simp add: csum_fold_ones_iff u)
  then show ?thesis unfolding net_compute_checksum_def [of ?b] ntohs_not_eq_0_iff ucast_ones_iff .
qed

text \<open>The checksum of a header does not depend on what follows it.\<close>

lemma ld16_append: "i + 1 < length xs \<Longrightarrow> ld16 (xs @ ys) i = ld16 xs i"
  by (simp add: ld16_def byte_at_def nth_append)

lemma net_checksum_append:
  assumes "even n" "n \<le> length xs"
  shows "net_compute_checksum (xs @ ys) n = net_compute_checksum xs n"
proof -
  have "sum_words (xs @ ys) (n div 2) s = sum_words xs (n div 2) s" for s
    unfolding sum_words_def using assms by (intro fold_cong) (auto simp: ld16_append)
  then show ?thesis using assms(1) by (simp add: net_compute_checksum_def csum_acc_def Let_def even_iff_mod_2_eq_zero)
qed

end
