(* ===== verification/Ring.thy ===== *)
theory Ring
  imports Prelude
begin

text \<open>
  Ring buffers with free-running \<open>u32\<close> positions, as the kernel uses them for the send and
  receive buffers of a TCP socket (\<^verbatim>\<open>include/net.h\<close>) and for pipes
  (\<^verbatim>\<open>include/fs_pipe.h\<close>): a byte array of \<open>sz\<close> bytes, a head and a tail
  that only ever grow (and wrap at \<open>2 ^ 32\<close>), and accesses at \<open>position % sz\<close>.
  Two loops of the sources move bytes in and out; the locale \<open>ring\<close> proves once, for
  every sz that divides \<open>2 ^ 32\<close>, that they implement a queue of bytes. The clients
  interpret it at their buffer sizes.
\<close>

text \<open>\<^verbatim>\<open>for (...) { buf[tail % sz] = data[i]; tail++; }\<close>\<close>

fun ring_put :: "nat \<Rightarrow> (nat \<Rightarrow> u8) \<Rightarrow> u32 \<Rightarrow> u8 list \<Rightarrow> (nat \<Rightarrow> u8) \<times> u32" where
  "ring_put sz buf tail [] = (buf, tail)"
| "ring_put sz buf tail (b # bs) =
     ring_put sz (buf(unat tail mod sz := b)) (tail + 1) bs"

text \<open>\<^verbatim>\<open>for (i = 0; i < n; i++) out[i] = buf[(head + i) % sz];\<close>\<close>

definition ring_get :: "nat \<Rightarrow> (nat \<Rightarrow> u8) \<Rightarrow> u32 \<Rightarrow> nat \<Rightarrow> u8 list" where
  "ring_get sz buf head n = map (\<lambda>i. buf (unat (head + of_nat i) mod sz)) [0..<n]"

lemma length_ring_get [simp]: "length (ring_get sz buf head n) = n"
  by (simp add: ring_get_def)

lemma ring_get_0 [simp]: "ring_get sz buf head 0 = []"
  by (simp add: ring_get_def)

lemma nth_ring_get [simp]:
  "i < n \<Longrightarrow> ring_get sz buf head n ! i = buf (unat (head + of_nat i) mod sz)"
  by (simp add: ring_get_def)

lemma ring_put_tail [simp]: "snd (ring_put sz buf tail bs) = tail + of_nat (length bs)"
  by (induction bs arbitrary: buf tail) (simp_all add: algebra_simps)

lemma ring_get_take [ring_simps]:
  "k \<le> n \<Longrightarrow> take k (ring_get sz buf head n) = ring_get sz buf head k"
  unfolding ring_get_def by (rule map_upt_take)

lemma ring_get_drop [ring_simps]:
  "k \<le> n \<Longrightarrow> drop k (ring_get sz buf head n) = ring_get sz buf (head + of_nat k) (n - k)"
  unfolding ring_get_def by (simp add: map_upt_drop algebra_simps)

lemma ring_get_append:
  "ring_get sz buf head (n + m) = ring_get sz buf head n @ ring_get sz buf (head + of_nat n) m"
  unfolding ring_get_def by (simp only: map_upt_append) (simp add: add.assoc)

locale ring =
  fixes sz :: nat
  assumes size_dvd: "sz dvd 4294967296"
begin

lemma size_pos: "0 < sz"
  using size_dvd by (cases sz) auto

text \<open>The positions wrap at \<open>2 ^ 32\<close>, the indices at \<open>sz\<close>: the two agree.\<close>

lemma index_add: "unat ((head :: u32) + of_nat i) mod sz = (unat head + i) mod sz"
  by (simp add: unat_add_of_nat mod_mod_cancel [OF size_dvd])

lemma index_eq_iff:
  fixes head :: u32
  assumes "i < sz" and "j < sz"
  shows "unat (head + of_nat i) mod sz = unat (head + of_nat j) mod sz \<longleftrightarrow> i = j"
proof -
  have "(unat head + i) mod sz = (unat head + j) mod sz \<Longrightarrow> i mod sz = j mod sz"
    by (simp add: nat_mod_eq_iff)
  then show ?thesis using assms by (auto simp: index_add)
qed

text \<open>A store at the tail extends the contents by one byte and keeps the bytes before it.\<close>

lemma get_put1:
  assumes "n < sz"
  shows "ring_get sz (buf(unat (head + of_nat n) mod sz := b)) head (Suc n)
         = ring_get sz buf head n @ [b]"
proof (rule nth_equalityI)
  fix i assume "i < length (ring_get sz (buf(unat (head + of_nat n) mod sz := b)) head (Suc n))"
  then have "i < Suc n" by simp
  then show "ring_get sz (buf(unat (head + of_nat n) mod sz := b)) head (Suc n) ! i
             = (ring_get sz buf head n @ [b]) ! i"
    using assms by (cases "i = n") (auto simp: nth_append index_eq_iff)
qed simp

text \<open>
  The enqueue loop appends its bytes to the contents, as long as they fit; the tail moves by
  their number. This is the law every client relies on.
\<close>

lemma get_put:
  assumes "n + length bs \<le> sz"
  shows "ring_get sz (fst (ring_put sz buf (head + of_nat n) bs)) head (n + length bs)
         = ring_get sz buf head n @ bs"
  using assms
proof (induction bs arbitrary: buf n)
  case Nil
  then show ?case by simp
next
  case (Cons b bs)
  let ?buf = "buf(unat (head + of_nat n) mod sz := b)"
  from Cons.prems have fit: "Suc n + length bs \<le> sz" and n: "n < sz" by simp_all
  have tail: "head + of_nat n + 1 = head + of_nat (Suc n)" by (simp add: algebra_simps)
  have "ring_get sz (fst (ring_put sz ?buf (head + of_nat (Suc n)) bs)) head (Suc n + length bs)
        = ring_get sz ?buf head (Suc n) @ bs"
    by (rule Cons.IH [OF fit])
  also have "\<dots> = ring_get sz buf head n @ b # bs" using get_put1 [OF n] by simp
  finally show ?case by (simp add: tail algebra_simps)
qed

text \<open>The same law with the free-running tail of the sources in place of a count.\<close>

lemma get_put_tail:
  assumes "unat (tail - head) + length bs \<le> sz"
  shows "ring_get sz (fst (ring_put sz buf tail bs)) head (unat (tail - head) + length bs)
         = ring_get sz buf head (unat (tail - head)) @ bs"
proof -
  have "tail = head + of_nat (unat (tail - head))" by simp
  then show ?thesis using get_put [OF assms, of buf head] by simp
qed

end

end
