(* ===== verification/Tcp_Base.thy ===== *)
theory Tcp_Base
  imports Wire Ring
begin

unbundle bit_operations_syntax

text \<open>
  Data model of the TCP layer: the constants and sequence number comparisons of
  \<^verbatim>\<open>include/tcp.h\<close>, the packed TCP header with its byte layout, the network messages
  exchanged with the IP layer, and the socket of \<^verbatim>\<open>include/net.h\<close>. The generic
  socket and its TCP part (\<open>socket_t\<close> and \<open>tcp_socket_t\<close>, which the C code converts
  into each other with \<open>TCB2SOCK\<close> and \<open>SOCK2TCB\<close>) are one record and its extension.
  Flag variables (\<open>int\<close> fields that only hold 0 and 1) are \<open>bool\<close>; the two buffers
  are functions from the index, which the code always reduces modulo the buffer size.
\<close>

subsection \<open>Constants\<close>

datatype tcp_status =
    TCP_STATUS_CLOSED | TCP_STATUS_SYN_SENT | TCP_STATUS_SYN_RCVD | TCP_STATUS_ESTABLISHED
  | TCP_STATUS_LISTEN | TCP_STATUS_CLOSE_WAIT | TCP_STATUS_FIN_WAIT_1 | TCP_STATUS_LAST_ACK
  | TCP_STATUS_FIN_WAIT_2 | TCP_STATUS_TIME_WAIT | TCP_STATUS_CLOSING

text \<open>The numbers behind the names: one comparison in the code orders them.\<close>

fun status_code :: "tcp_status \<Rightarrow> nat" where
  "status_code TCP_STATUS_CLOSED = 1"
| "status_code TCP_STATUS_SYN_SENT = 2"
| "status_code TCP_STATUS_SYN_RCVD = 3"
| "status_code TCP_STATUS_ESTABLISHED = 4"
| "status_code TCP_STATUS_LISTEN = 5"
| "status_code TCP_STATUS_CLOSE_WAIT = 6"
| "status_code TCP_STATUS_FIN_WAIT_1 = 7"
| "status_code TCP_STATUS_LAST_ACK = 8"
| "status_code TCP_STATUS_FIN_WAIT_2 = 9"
| "status_code TCP_STATUS_TIME_WAIT = 10"
| "status_code TCP_STATUS_CLOSING = 11"

abbreviation TCP_HZ :: u32 where "TCP_HZ \<equiv> 4"
abbreviation TCP_DEFAULT_MSS :: u32 where "TCP_DEFAULT_MSS \<equiv> 536"
abbreviation TCP_EPHEMERAL_PORT :: nat where "TCP_EPHEMERAL_PORT \<equiv> 49152"
abbreviation RTO_INIT :: u32 where "RTO_INIT \<equiv> 4"
abbreviation RTO_MAX :: u32 where "RTO_MAX \<equiv> 480"
abbreviation TCP_MAX_BACKOFF :: u32 where "TCP_MAX_BACKOFF \<equiv> 10"
abbreviation RTT_NONE :: u32 where "RTT_NONE \<equiv> 0xFFFFFFFF"
abbreviation DELACK_TO :: u32 where "DELACK_TO \<equiv> 1"
abbreviation SYN_TIMEOUT :: u32 where "SYN_TIMEOUT \<equiv> 60"
abbreviation SYN_TIMEOUT_MAX :: u32 where "SYN_TIMEOUT_MAX \<equiv> 2400"
abbreviation SYN_MAX_RTX :: u32 where "SYN_MAX_RTX \<equiv> 5"
abbreviation TCP_MAX_RTX :: u32 where "TCP_MAX_RTX \<equiv> 5"
abbreviation TCP_MSL :: u32 where "TCP_MSL \<equiv> 120"
abbreviation SSTHRESH_INIT :: u32 where "SSTHRESH_INIT \<equiv> 65536"
abbreviation DUPACK_TRIGGER :: u32 where "DUPACK_TRIGGER \<equiv> 3"
abbreviation MAX_TCP_SOCKETS :: nat where "MAX_TCP_SOCKETS \<equiv> 256"
abbreviation MAX_LISTEN_BACKLOG :: nat where "MAX_LISTEN_BACKLOG \<equiv> 15"
abbreviation SND_BUFFER_SIZE :: nat where "SND_BUFFER_SIZE \<equiv> 65536"
abbreviation RCV_BUFFER_SIZE :: nat where "RCV_BUFFER_SIZE \<equiv> 8192"
abbreviation INADDR_ANY :: u32 where "INADDR_ANY \<equiv> 0"
abbreviation AF_INET :: u16 where "AF_INET \<equiv> 2"
abbreviation NET_EVENT_CAN_READ :: nat where "NET_EVENT_CAN_READ \<equiv> 1"
abbreviation NET_EVENT_CAN_WRITE :: nat where "NET_EVENT_CAN_WRITE \<equiv> 2"

interpretation snd_ring: ring SND_BUFFER_SIZE
  by unfold_locales simp

interpretation rcv_ring: ring RCV_BUFFER_SIZE
  by unfold_locales simp

subsection \<open>Comparing sequence numbers\<close>

text \<open>The macros cast the \<open>u32\<close> difference to a signed 32-bit \<open>int\<close>.\<close>

definition TCP_LT :: "u32 \<Rightarrow> u32 \<Rightarrow> bool" where
  "TCP_LT a b \<longleftrightarrow> 0 < sint (b - a)"

definition TCP_LEQ :: "u32 \<Rightarrow> u32 \<Rightarrow> bool" where
  "TCP_LEQ a b \<longleftrightarrow> 0 \<le> sint (b - a)"

definition TCP_GT :: "u32 \<Rightarrow> u32 \<Rightarrow> bool" where
  "TCP_GT a b \<longleftrightarrow> 0 < sint (a - b)"

definition TCP_GEQ :: "u32 \<Rightarrow> u32 \<Rightarrow> bool" where
  "TCP_GEQ a b \<longleftrightarrow> 0 \<le> sint (a - b)"

text \<open>
  A shift by a variable amount, as the compiled code does it: \<open>shl\<close> takes the count
  modulo 32.
\<close>

definition shl32 :: "u32 \<Rightarrow> u32 \<Rightarrow> u32" where
  "shl32 x n = push_bit (unat n mod 32) x"

subsection \<open>Headers and messages\<close>

record tcp_hdr =
  hdr_src_port :: u16
  hdr_dst_port :: u16
  hdr_seq_no :: u32
  hdr_ack_no :: u32
  hdr_rsv1 :: "4 word"
  hdr_hlength :: "4 word"
  hdr_fin :: bool
  hdr_syn :: bool
  hdr_rst :: bool
  hdr_psh :: bool
  hdr_ack :: bool
  hdr_urg :: bool
  hdr_ece :: bool
  hdr_cwr :: bool
  hdr_window :: u16
  hdr_checksum :: u16
  hdr_urgent_ptr :: u16

abbreviation sizeof_tcp_hdr :: nat where "sizeof_tcp_hdr \<equiv> 20"

definition bits_byte :: "bool list \<Rightarrow> u8" where
  "bits_byte bs = horner_sum of_bool 2 bs"

definition tcp_hdr_bytes :: "tcp_hdr \<Rightarrow> u8 list" where
  "tcp_hdr_bytes h =
     st16 (hdr_src_port h) @ st16 (hdr_dst_port h) @ st32 (hdr_seq_no h) @ st32 (hdr_ack_no h) @
     [ucast (hdr_rsv1 h) + 16 * ucast (hdr_hlength h),
      bits_byte [hdr_fin h, hdr_syn h, hdr_rst h, hdr_psh h, hdr_ack h, hdr_urg h, hdr_ece h, hdr_cwr h]] @
     st16 (hdr_window h) @ st16 (hdr_checksum h) @ st16 (hdr_urgent_ptr h)"

definition tcp_hdr_of :: "u8 list \<Rightarrow> tcp_hdr" where
  "tcp_hdr_of bs =
     (let flags = byte_at bs 13 in
      \<lparr>hdr_src_port = ld16 bs 0, hdr_dst_port = ld16 bs 2,
       hdr_seq_no = ld32 bs 4, hdr_ack_no = ld32 bs 8,
       hdr_rsv1 = ucast (byte_at bs 12), hdr_hlength = ucast (drop_bit 4 (byte_at bs 12)),
       hdr_fin = bit flags 0, hdr_syn = bit flags 1, hdr_rst = bit flags 2, hdr_psh = bit flags 3,
       hdr_ack = bit flags 4, hdr_urg = bit flags 5, hdr_ece = bit flags 6, hdr_cwr = bit flags 7,
       hdr_window = ld16 bs 14, hdr_checksum = ld16 bs 16, hdr_urgent_ptr = ld16 bs 18\<rparr>)"

text \<open>
  A network message as TCP sees it: \<open>seg_bytes\<close> are the bytes from the TCP header to the
  end of the buffer.
\<close>

record net_msg =
  seg_bytes :: "u8 list"
  ip_length :: u16
  ip_src :: u32
  ip_dest :: u32
  ip_proto :: u8
  ip_df :: bool

abbreviation msg_hdr :: "net_msg \<Rightarrow> tcp_hdr" where
  "msg_hdr m \<equiv> tcp_hdr_of (seg_bytes m)"

text \<open>Header fields in host byte order and the number of payload bytes of a segment.\<close>

definition seg_seq :: "net_msg \<Rightarrow> u32" where "seg_seq m = ntohl (hdr_seq_no (msg_hdr m))"
definition seg_ack :: "net_msg \<Rightarrow> u32" where "seg_ack m = ntohl (hdr_ack_no (msg_hdr m))"
definition seg_win :: "net_msg \<Rightarrow> u32" where "seg_win m = ucast (ntohs (hdr_window (msg_hdr m)))"
definition seg_hlen :: "net_msg \<Rightarrow> u32" where "seg_hlen m = 4 * ucast (hdr_hlength (msg_hdr m))"
definition seg_len :: "net_msg \<Rightarrow> u32" where "seg_len m = ucast (ip_length m) - seg_hlen m"

subsection \<open>Sockets\<close>

record tcp_timer =
  time :: u32
  backoff :: u32

record sockaddr_in =
  sin_family :: u16
  sin_port :: u16
  s_addr :: u32

record tcp_socket =
  status :: tcp_status
  isn :: u32
  snd_nxt :: u32
  snd_max :: u32
  snd_una :: u32
  rcv_nxt :: u32
  snd_wnd :: u32
  rcv_wnd :: u32
  ref_count :: int
  fin_sent :: bool
  snd_buffer :: "nat \<Rightarrow> u8"
  snd_buffer_head :: u32
  snd_buffer_tail :: u32
  rcv_buffer :: "nat \<Rightarrow> u8"
  rcv_buffer_head :: u32
  rcv_buffer_tail :: u32
  smss :: u32
  rmss :: u32
  max_wnd :: u32
  cwnd :: u32
  right_win_edge :: u32
  rto :: u32
  rtx_timer :: tcp_timer
  delack_timer :: tcp_timer
  persist_timer :: tcp_timer
  time_wait_timer :: tcp_timer
  timed_segment :: u32
  srtt :: u32
  rttvar :: u32
  current_rtt :: u32
  first_rtt :: bool
  ack_count :: u32
  ssthresh :: u32
  tcp_options_cc :: bool
  dupacks :: u32
  rtx_count :: u32
  snd_wl1 :: u32
  snd_wl2 :: u32
  fin_seq_no :: u32
  timeout :: bool
  closed :: bool
  epipe :: bool
  eof :: bool

text \<open>
  The fields of \<open>socket_t\<close> around it. Sockets refer to each other by their number (the
  model's address); \<open>so_lock\<close> is the state of the spinlock \<open>socket->lock\<close>, and
  \<open>events\<close> logs the events posted with \<open>net_post_event\<close>, newest last.
\<close>

record socket = tcp_socket +
  bound :: bool
  connected :: bool
  so_error :: int
  laddr :: sockaddr_in
  faddr :: sockaddr_in
  so_lock :: bool
  so_queue :: "nat list"
  max_connection_backlog :: u32
  so_parent :: "nat option"
  events :: "nat list"

definition net_post_event :: "nat \<Rightarrow> socket \<Rightarrow> socket" where
  "net_post_event ev s = s\<lparr>events := events s @ [ev]\<rparr>"

definition zero_timer :: tcp_timer where
  "zero_timer = \<lparr>time = 0, backoff = 0\<rparr>"

definition zero_addr :: sockaddr_in where
  "zero_addr = \<lparr>sin_family = 0, sin_port = 0, s_addr = 0\<rparr>"

text \<open>The socket that \<open>tcp_create_socket\<close> registers: zeroed, then the defaults.\<close>

definition fresh_socket :: "bool \<Rightarrow> socket" where
  "fresh_socket cc =
     \<lparr>status = TCP_STATUS_CLOSED, isn = 0, snd_nxt = 0, snd_max = 0, snd_una = 0, rcv_nxt = 0,
      snd_wnd = 0, rcv_wnd = of_nat RCV_BUFFER_SIZE, ref_count = 1, fin_sent = False,
      snd_buffer = (\<lambda>_. 0), snd_buffer_head = 0, snd_buffer_tail = 0,
      rcv_buffer = (\<lambda>_. 0), rcv_buffer_head = 0, rcv_buffer_tail = 0,
      smss = TCP_DEFAULT_MSS, rmss = TCP_DEFAULT_MSS, max_wnd = 0, cwnd = TCP_DEFAULT_MSS,
      right_win_edge = 0, rto = RTO_INIT,
      rtx_timer = zero_timer, delack_timer = zero_timer, persist_timer = zero_timer,
      time_wait_timer = zero_timer,
      timed_segment = 0, srtt = 0, rttvar = 0, current_rtt = RTT_NONE, first_rtt = True,
      ack_count = 0, ssthresh = SSTHRESH_INIT, tcp_options_cc = cc,
      dupacks = 0, rtx_count = 0, snd_wl1 = 0, snd_wl2 = 0, fin_seq_no = 0,
      timeout = False, closed = False, epipe = False, eof = False,
      bound = False, connected = False, so_error = 0, laddr = zero_addr, faddr = zero_addr,
      so_lock = False, so_queue = [], max_connection_backlog = 0, so_parent = None, events = []\<rparr>"

lemma fresh_socket_fields [simp]:
  "status (fresh_socket cc) = TCP_STATUS_CLOSED"
  "isn (fresh_socket cc) = 0"
  "snd_nxt (fresh_socket cc) = 0"
  "snd_max (fresh_socket cc) = 0"
  "snd_una (fresh_socket cc) = 0"
  "rcv_nxt (fresh_socket cc) = 0"
  "snd_wnd (fresh_socket cc) = 0"
  "rcv_wnd (fresh_socket cc) = of_nat RCV_BUFFER_SIZE"
  "ref_count (fresh_socket cc) = 1"
  "fin_sent (fresh_socket cc) = False"
  "snd_buffer (fresh_socket cc) = (\<lambda>_. 0)"
  "snd_buffer_head (fresh_socket cc) = 0"
  "snd_buffer_tail (fresh_socket cc) = 0"
  "rcv_buffer (fresh_socket cc) = (\<lambda>_. 0)"
  "rcv_buffer_head (fresh_socket cc) = 0"
  "rcv_buffer_tail (fresh_socket cc) = 0"
  "smss (fresh_socket cc) = TCP_DEFAULT_MSS"
  "rmss (fresh_socket cc) = TCP_DEFAULT_MSS"
  "max_wnd (fresh_socket cc) = 0"
  "cwnd (fresh_socket cc) = TCP_DEFAULT_MSS"
  "right_win_edge (fresh_socket cc) = 0"
  "rto (fresh_socket cc) = RTO_INIT"
  "rtx_timer (fresh_socket cc) = zero_timer"
  "delack_timer (fresh_socket cc) = zero_timer"
  "persist_timer (fresh_socket cc) = zero_timer"
  "time_wait_timer (fresh_socket cc) = zero_timer"
  "timed_segment (fresh_socket cc) = 0"
  "srtt (fresh_socket cc) = 0"
  "rttvar (fresh_socket cc) = 0"
  "current_rtt (fresh_socket cc) = RTT_NONE"
  "first_rtt (fresh_socket cc) = True"
  "ack_count (fresh_socket cc) = 0"
  "ssthresh (fresh_socket cc) = SSTHRESH_INIT"
  "tcp_options_cc (fresh_socket cc) = cc"
  "dupacks (fresh_socket cc) = 0"
  "rtx_count (fresh_socket cc) = 0"
  "snd_wl1 (fresh_socket cc) = 0"
  "snd_wl2 (fresh_socket cc) = 0"
  "fin_seq_no (fresh_socket cc) = 0"
  "timeout (fresh_socket cc) = False"
  "closed (fresh_socket cc) = False"
  "epipe (fresh_socket cc) = False"
  "eof (fresh_socket cc) = False"
  "bound (fresh_socket cc) = False"
  "connected (fresh_socket cc) = False"
  "so_error (fresh_socket cc) = 0"
  "laddr (fresh_socket cc) = zero_addr"
  "faddr (fresh_socket cc) = zero_addr"
  "so_lock (fresh_socket cc) = False"
  "so_queue (fresh_socket cc) = []"
  "max_connection_backlog (fresh_socket cc) = 0"
  "so_parent (fresh_socket cc) = None"
  "events (fresh_socket cc) = []"
  by (simp_all add: fresh_socket_def)

text \<open>The bytes waiting in the two buffers of a socket: what the code stores between head and tail.\<close>

definition snd_content :: "socket \<Rightarrow> u8 list" where
  "snd_content s = ring_get SND_BUFFER_SIZE (snd_buffer s) (snd_buffer_head s)
     (unat (snd_buffer_tail s - snd_buffer_head s))"

definition rcv_content :: "socket \<Rightarrow> u8 list" where
  "rcv_content s = ring_get RCV_BUFFER_SIZE (rcv_buffer s) (rcv_buffer_head s)
     (unat (rcv_buffer_tail s - rcv_buffer_head s))"

subsection \<open>Sequence numbers: the comparisons are exact within half the space\<close>

named_theorems seq_iff \<open>sequence comparisons as distances\<close>

lemma TCP_LT_iff [seq_iff]: "TCP_LT a b \<longleftrightarrow> a \<noteq> b \<and> unat (b - a) < 2147483648"
  by (auto simp: TCP_LT_def sint_pos_iff)

lemma TCP_LEQ_iff [seq_iff]: "TCP_LEQ a b \<longleftrightarrow> unat (b - a) < 2147483648"
  by (simp add: TCP_LEQ_def sint_nonneg_iff)

lemma TCP_GT_LT [seq_iff]: "TCP_GT a b \<longleftrightarrow> TCP_LT b a"
  by (simp add: TCP_GT_def TCP_LT_def)

lemma TCP_GEQ_LEQ [seq_iff]: "TCP_GEQ a b \<longleftrightarrow> TCP_LEQ b a"
  by (simp add: TCP_GEQ_def TCP_LEQ_def)

text \<open>Within half the sequence space after a common origin, the comparisons order the distances.\<close>

lemma unat_diff_dist:
  fixes a b u :: u32
  shows "unat (b - a) = (if unat (a - u) \<le> unat (b - u) then unat (b - u) - unat (a - u)
                         else 4294967296 + unat (b - u) - unat (a - u))"
  using unat_sub_if_size [of "b - u" "a - u"] by (simp add: word_size add.commute [of 4294967296])

lemma TCP_LT_dist:
  assumes "unat (a - u) < 2147483648" and "unat (b - u) < 2147483648"
  shows "TCP_LT a b \<longleftrightarrow> unat (a - u) < unat (b - u)"
proof -
  have "a = b \<longleftrightarrow> a - u = b - u" by simp
  also have "\<dots> \<longleftrightarrow> unat (a - u) = unat (b - u)" by (rule word_unat_eq_iff)
  finally have "a = b \<longleftrightarrow> unat (a - u) = unat (b - u)" .
  moreover note unat_diff_dist [of b a u]
  ultimately show ?thesis
    unfolding TCP_LT_iff using assms by (cases "unat (a - u) \<le> unat (b - u)") auto
qed

lemma TCP_LEQ_dist:
  assumes "unat (a - u) < 2147483648" and "unat (b - u) < 2147483648"
  shows "TCP_LEQ a b \<longleftrightarrow> unat (a - u) \<le> unat (b - u)"
  unfolding TCP_LEQ_iff using assms unat_diff_dist [of b a u]
  by (cases "unat (a - u) \<le> unat (b - u)") auto

text \<open>
  The comment in \<^verbatim>\<open>tcp.h\<close>: sequence numbers are the projections of unbounded numbers,
  and the macros compare those correctly as long as they differ by less than \<open>2 ^ 31\<close>.
\<close>

lemma sint_of_int_diff:
  assumes "\<bar>y - x\<bar> < 2147483648"
  shows "sint (of_int y - of_int x :: u32) = y - x"
proof -
  have "sint (of_int (y - x) :: u32) = signed_take_bit 31 (y - x)"
    by (simp add: sint_sbintrunc' del: of_int_diff)
  then show ?thesis using assms by (simp add: signed_take_bit_int_eq_self)
qed

lemma TCP_LT_real:
  "\<bar>y - x\<bar> < 2147483648 \<Longrightarrow> TCP_LT (of_int x) (of_int y) \<longleftrightarrow> x < y"
  by (simp add: TCP_LT_def sint_of_int_diff)

lemma TCP_LEQ_real:
  "\<bar>y - x\<bar> < 2147483648 \<Longrightarrow> TCP_LEQ (of_int x) (of_int y) \<longleftrightarrow> x \<le> y"
  by (simp add: TCP_LEQ_def sint_of_int_diff)

subsection \<open>The header layout: decoding inverts encoding\<close>

lemma length_tcp_hdr_bytes [simp]: "length (tcp_hdr_bytes h) = sizeof_tcp_hdr"
  by (simp add: tcp_hdr_bytes_def)

lemma ucast_nibbles:
  fixes a b :: "4 word"
  shows "(ucast (ucast a + 16 * ucast b :: u8) :: 4 word) = a"
    and "(ucast (drop_bit 4 (ucast a + 16 * ucast b :: u8)) :: 4 word) = b"
proof -
  have ab: "unat a < 16" "unat b < 16" using unsigned_less [of a] unsigned_less [of b] by simp_all
  have ua: "unat (ucast a :: u8) = unat a"
    by (subst unsigned_ucast_eq, rule take_bit_nat_eq_self) (use ab in simp)
  have ub: "unat (ucast b :: u8) = unat b"
    by (subst unsigned_ucast_eq, rule take_bit_nat_eq_self) (use ab in simp)
  have u: "unat (ucast a + 16 * ucast b :: u8) = unat a + 16 * unat b"
    using ab by (simp add: unat_word_ariths ua ub)
  have d: "unat (drop_bit 4 w) = unat w div 16" for w :: u8
    by (simp add: drop_bit_eq_div unat_div)
  have c: "unat (ucast w :: 4 word) = unat w mod 16" for w :: u8
    by (simp add: unsigned_ucast_eq take_bit_eq_mod)
  show "(ucast (ucast a + 16 * ucast b :: u8) :: 4 word) = a"
    using ab by (simp only: word_unat_eq_iff c u) simp
  show "(ucast (drop_bit 4 (ucast a + 16 * ucast b :: u8)) :: 4 word) = b"
    using ab by (simp only: word_unat_eq_iff c d u) simp
qed

lemma bit_bits_byte: "length bs = 8 \<Longrightarrow> n < 8 \<Longrightarrow> bit (bits_byte bs) n = bs ! n"
  by (simp add: bits_byte_def bit_horner_sum_bit_word_iff)

lemma tcp_hdr_round_trip: "tcp_hdr_of (tcp_hdr_bytes h @ rest) = h"
proof -
  let ?bs = "tcp_hdr_bytes h @ rest"
  let ?fl = "[hdr_fin h, hdr_syn h, hdr_rst h, hdr_psh h, hdr_ack h, hdr_urg h, hdr_ece h, hdr_cwr h]"
  have "ld16 ?bs 0 = hdr_src_port h" "ld16 ?bs 2 = hdr_dst_port h" "ld16 ?bs 14 = hdr_window h"
    "ld16 ?bs 16 = hdr_checksum h" "ld16 ?bs 18 = hdr_urgent_ptr h"
    "ld32 ?bs 4 = hdr_seq_no h" "ld32 ?bs 8 = hdr_ack_no h"
    by (simp_all add: tcp_hdr_bytes_def field_simps_wire)
  moreover have "byte_at ?bs 12 = ucast (hdr_rsv1 h) + 16 * ucast (hdr_hlength h)"
    "byte_at ?bs 13 = bits_byte ?fl"
    by (simp_all add: tcp_hdr_bytes_def field_simps_wire)
  ultimately show ?thesis
    by (simp add: tcp_hdr_of_def Let_def bit_bits_byte ucast_nibbles)
qed

end
