(* ===== verification/Tcp_Output.thy ===== *)
theory Tcp_Output
  imports Tcp_Base
begin

text \<open>
  TCP output processing of \<^verbatim>\<open>kernel/tcp.c\<close>: building a segment, computing the window
  to advertise, sending a segment with the update of the socket that goes with it, and the
  loop of \<^verbatim>\<open>trigger_send\<close> that empties the send buffer. Messages handed to
  \<^verbatim>\<open>ip_tx_msg\<close> are returned in the order of the calls. The parameter \<open>alloc\<close>
  says for which sizes \<^verbatim>\<open>net_msg_new\<close> finds memory.
\<close>

subsection \<open>Building a segment\<close>

text \<open>
  \<open>create_segment\<close> with a socket; the request is only looked at for a reset. The
  window is the one stored in the socket and is overwritten by the caller.
\<close>

definition create_segment :: "socket \<Rightarrow> nat \<Rightarrow> net_msg option \<Rightarrow> bool \<Rightarrow> tcp_hdr" where
  "create_segment socket tcp_options_len request rst =
     \<lparr>hdr_src_port = sin_port (laddr socket),
      hdr_dst_port = sin_port (faddr socket),
      hdr_seq_no = (case request of
          Some m \<Rightarrow> if rst then (if hdr_ack (msg_hdr m) then hdr_ack_no (msg_hdr m) else 0)
                    else htonl (snd_nxt socket)
        | None \<Rightarrow> htonl (snd_nxt socket)),
      hdr_ack_no = (case request of
          Some m \<Rightarrow> if rst then (if hdr_ack (msg_hdr m) then 0 else htonl (seg_seq m + seg_len m))
                    else htonl (rcv_nxt socket)
        | None \<Rightarrow> htonl (rcv_nxt socket)),
      hdr_rsv1 = 0,
      hdr_hlength = of_nat ((sizeof_tcp_hdr + tcp_options_len) div 4),
      hdr_fin = False, hdr_syn = False, hdr_rst = False, hdr_psh = False, hdr_ack = False,
      hdr_urg = False, hdr_ece = False, hdr_cwr = False,
      hdr_window = htons (ucast (rcv_wnd socket)),
      hdr_checksum = 0,
      hdr_urgent_ptr = 0\<rparr>"

text \<open>\<open>create_segment\<close> without a socket: the code panics unless it is a reset for a request.\<close>

definition create_segment_nosock :: "nat \<Rightarrow> net_msg \<Rightarrow> tcp_hdr" where
  "create_segment_nosock tcp_options_len m =
     \<lparr>hdr_src_port = hdr_dst_port (msg_hdr m),
      hdr_dst_port = hdr_src_port (msg_hdr m),
      hdr_seq_no = (if hdr_ack (msg_hdr m) then hdr_ack_no (msg_hdr m) else 0),
      hdr_ack_no = (if hdr_ack (msg_hdr m) then 0 else htonl (seg_seq m + seg_len m)),
      hdr_rsv1 = 0,
      hdr_hlength = of_nat ((sizeof_tcp_hdr + tcp_options_len) div 4),
      hdr_fin = False, hdr_syn = False, hdr_rst = False, hdr_psh = False, hdr_ack = False,
      hdr_urg = False, hdr_ece = False, hdr_cwr = False,
      hdr_window = htons (of_nat RCV_BUFFER_SIZE),
      hdr_checksum = 0,
      hdr_urgent_ptr = 0\<rparr>"

text \<open>
  The second half of the message construction in \<open>send_segment\<close>: the MSS option of a SYN,
  the payload, the flags and window of the header, then the checksum over the whole segment.
\<close>

definition mss_option :: "u32 option \<Rightarrow> bool \<Rightarrow> u8 list" where
  "mss_option options syn =
     (case options of Some mss \<Rightarrow> if syn then [2, 4] @ st16 (htons (ucast mss)) else [] | None \<Rightarrow> [])"

definition finish_segment ::
  "tcp_hdr \<Rightarrow> bool \<Rightarrow> bool \<Rightarrow> bool \<Rightarrow> bool \<Rightarrow> bool \<Rightarrow> u8 list \<Rightarrow> u8 list \<Rightarrow> u32 \<Rightarrow> u32 \<Rightarrow> u32 \<Rightarrow> net_msg" where
  "finish_segment hdr ack syn rst push fin opts payload new_win src dst =
     (let hdr = hdr\<lparr>hdr_syn := syn, hdr_ack := ack, hdr_rst := rst, hdr_psh := push, hdr_fin := fin,
                    hdr_window := htons (ucast new_win)\<rparr>;
          bs = tcp_hdr_bytes hdr @ opts @ payload;
          chksum = compute_checksum bs (of_nat (length bs)) src dst
      in \<lparr>seg_bytes = put16 bs 16 (htons chksum),
          ip_length = of_nat (sizeof_tcp_hdr + length payload),
          ip_src = src, ip_dest = dst, ip_proto = 6, ip_df = True\<rparr>)"

subsection \<open>The window to advertise\<close>

record outflags =
  OF_FORCE :: bool
  OF_NODATA :: bool
  OF_PUSH :: bool
  OF_FAST :: bool

definition no_flags :: outflags where
  "no_flags = \<lparr>OF_FORCE = False, OF_NODATA = False, OF_PUSH = False, OF_FAST = False\<rparr>"

definition compute_win :: "socket \<Rightarrow> outflags \<Rightarrow> u32 \<times> outflags" where
  "compute_win tcb flags =
     (let rcv_user = rcv_buffer_tail tcb - rcv_buffer_head tcb;
          space = of_nat RCV_BUFFER_SIZE - rcv_user;
          space = (if space < smss tcb then 0 else space);
          new_right_edge = rcv_nxt tcb + space;
          (space, new_right_edge) =
            (if TCP_LT new_right_edge (right_win_edge tcb)
             then (right_win_edge tcb - rcv_nxt tcb, right_win_edge tcb)
             else (space, new_right_edge));
          flags =
            (if TCP_GEQ new_right_edge (right_win_edge tcb + 2 * smss tcb) then flags\<lparr>OF_FORCE := True\<rparr>
             else if TCP_GEQ new_right_edge (right_win_edge tcb + of_nat (RCV_BUFFER_SIZE div 4))
             then flags\<lparr>OF_FORCE := True\<rparr>
             else flags)
      in (space, flags))"

subsection \<open>Sending a segment\<close>

text \<open>
  The socket after a segment was handed to the IP layer, in the order of the code: the
  retransmission timer and the RTT measurement, the delayed ACK timer, the state change of a
  FIN, the sequence numbers and the advertised window.
\<close>

definition set_rtx_timer :: "bool \<Rightarrow> socket \<Rightarrow> socket" where
  "set_rtx_timer syn tcb =
     (if time (rtx_timer tcb) = 0 then
        (let t = (if syn then shl32 SYN_TIMEOUT (backoff (rtx_timer tcb))
                  else shl32 (rto tcb) (backoff (rtx_timer tcb)));
             t = (if syn then (if t > SYN_TIMEOUT_MAX then SYN_TIMEOUT_MAX else t)
                  else (if t > RTO_MAX then RTO_MAX else t))
         in tcb\<lparr>rtx_timer := (rtx_timer tcb)\<lparr>time := t\<rparr>,
                persist_timer := (persist_timer tcb)\<lparr>time := 0\<rparr>\<rparr>)
      else tcb)"

definition time_segment :: "socket \<Rightarrow> socket" where
  "time_segment tcb =
     (if current_rtt tcb = RTT_NONE \<and> TCP_GEQ (snd_nxt tcb) (snd_max tcb)
      then tcb\<lparr>timed_segment := snd_nxt tcb, current_rtt := 0\<rparr>
      else if TCP_LT (snd_nxt tcb) (snd_max tcb)
      then tcb\<lparr>current_rtt := RTT_NONE, rtx_count := rtx_count tcb + 1\<rparr>
      else tcb)"

fun fin_status :: "tcp_status \<Rightarrow> tcp_status" where
  "fin_status TCP_STATUS_ESTABLISHED = TCP_STATUS_FIN_WAIT_1"
| "fin_status TCP_STATUS_SYN_RCVD = TCP_STATUS_FIN_WAIT_1"
| "fin_status TCP_STATUS_CLOSE_WAIT = TCP_STATUS_LAST_ACK"
| "fin_status st = st"

definition segment_sent :: "socket \<Rightarrow> bool \<Rightarrow> bool \<Rightarrow> bool \<Rightarrow> u32 \<Rightarrow> u32 \<Rightarrow> u32 \<Rightarrow> socket" where
  "segment_sent tcb ack syn fin seq_no bytes new_win =
     (let tcb = (if bytes \<noteq> 0 \<or> syn \<or> fin then time_segment (set_rtx_timer syn tcb) else tcb);
          tcb = (if ack then tcb\<lparr>delack_timer := (delack_timer tcb)\<lparr>time := 0\<rparr>\<rparr> else tcb);
          tcb = (if fin then tcb\<lparr>fin_sent := True, fin_seq_no := seq_no,
                                 status := fin_status (status tcb)\<rparr> else tcb);
          tcb = (if syn \<or> fin then tcb\<lparr>snd_nxt := snd_nxt tcb + 1\<rparr> else tcb);
          tcb = tcb\<lparr>snd_nxt := snd_nxt tcb + bytes\<rparr>;
          tcb = (if TCP_GT (snd_nxt tcb) (snd_max tcb) then tcb\<lparr>snd_max := snd_nxt tcb\<rparr> else tcb)
      in tcb\<lparr>right_win_edge := new_win + rcv_nxt tcb, rcv_wnd := new_win\<rparr>)"

definition send_segment ::
  "(nat \<Rightarrow> bool) \<Rightarrow> socket \<Rightarrow> bool \<Rightarrow> bool \<Rightarrow> bool \<Rightarrow> bool \<Rightarrow> bool \<Rightarrow> net_msg option \<Rightarrow>
   (nat \<Rightarrow> u8) \<Rightarrow> u32 \<Rightarrow> nat \<Rightarrow> u32 \<Rightarrow> u32 \<Rightarrow> u32 option \<Rightarrow> int \<times> socket \<times> net_msg list" where
  "send_segment alloc socket ack syn rst push fin request data head buffer_size bytes new_win options =
     (let opts = mss_option options syn in
      if \<not> alloc (sizeof_tcp_hdr + length opts + unat bytes) then (- ENOMEM, socket, [])
      else
        (let hdr = create_segment socket (length opts) request rst;
             msg = finish_segment hdr ack syn rst push fin opts
                     (ring_get buffer_size data head (unat bytes)) new_win
                     (s_addr (laddr socket)) (s_addr (faddr socket))
         in (0, segment_sent socket ack syn fin (ntohl (hdr_seq_no hdr)) bytes new_win, [msg])))"

text \<open>A reset in reply to a segment that no socket claims.\<close>

definition send_segment_nosock ::
  "(nat \<Rightarrow> bool) \<Rightarrow> bool \<Rightarrow> net_msg \<Rightarrow> u32 \<Rightarrow> net_msg list" where
  "send_segment_nosock alloc ack request new_win =
     (if \<not> alloc sizeof_tcp_hdr then []
      else [finish_segment (create_segment_nosock 0 request) ack False True False False [] [] new_win
              (ip_dest request) (ip_src request)])"

text \<open>The calls that pass no data.\<close>

definition send_ctrl ::
  "(nat \<Rightarrow> bool) \<Rightarrow> socket \<Rightarrow> bool \<Rightarrow> bool \<Rightarrow> bool \<Rightarrow> net_msg option \<Rightarrow> u32 \<Rightarrow> u32 option \<Rightarrow>
   int \<times> socket \<times> net_msg list" where
  "send_ctrl alloc socket ack syn rst request new_win options =
     send_segment alloc socket ack syn rst False False request (\<lambda>_. 0) 0 0 0 new_win options"

subsection \<open>Emptying the send buffer\<close>

text \<open>
  The quantities one round of the loop in \<open>trigger_send\<close> works with: bytes not sent yet,
  whether a FIN is due, and what the window and the silly window avoidance allow.
\<close>

definition unsent_bytes :: "socket \<Rightarrow> u32" where
  "unsent_bytes tcb =
     (let n = snd_buffer_tail tcb - snd_buffer_head tcb - (snd_nxt tcb - snd_una tcb)
      in if status tcb = TCP_STATUS_SYN_SENT \<or> status tcb = TCP_STATUS_SYN_RCVD then n + 1 else n)"

definition need_fin :: "socket \<Rightarrow> bool" where
  "need_fin tcb \<longleftrightarrow> closed tcb \<and>
     (\<not> fin_sent tcb \<or> (fin_sent tcb \<and> TCP_LEQ (snd_nxt tcb) (fin_seq_no tcb)))"

definition usable_window :: "socket \<Rightarrow> outflags \<Rightarrow> u32" where
  "usable_window tcb flags =
     (let win = snd_wnd tcb;
          win = (if tcp_options_cc tcb \<and> win > cwnd tcb then cwnd tcb else win);
          win = (if win > smss tcb \<and> OF_FAST flags then smss tcb else win)
      in if TCP_GT (snd_una tcb + win) (snd_nxt tcb) then snd_una tcb + win - snd_nxt tcb else 0)"

definition sws_send :: "socket \<Rightarrow> outflags \<Rightarrow> u32 \<Rightarrow> u32 \<Rightarrow> u32 \<Rightarrow> bool" where
  "sws_send tcb flags data_bytes fin usable \<longleftrightarrow>
     (snd_una tcb = snd_max tcb \<and> data_bytes + fin \<le> usable)
     \<or> (snd_una tcb = snd_max tcb \<and> min (data_bytes + fin) usable \<ge> max_wnd tcb div 2)
     \<or> min (data_bytes + fin) usable \<ge> smss tcb
     \<or> OF_FORCE flags
     \<or> (fin \<noteq> 0 \<and> data_bytes = 0)"

text \<open>
  The size of the segment: data is cut to the MSS first (the silly window test looks at the
  result of that), then to the usable window, and a FIN only goes with the last byte. The
  third component is the variable \<open>cont\<close>.
\<close>

definition mss_bytes :: "socket \<Rightarrow> u32" where
  "mss_bytes tcb = (if unsent_bytes tcb > smss tcb then smss tcb else unsent_bytes tcb)"

definition seg_size :: "socket \<Rightarrow> outflags \<Rightarrow> u32 \<times> u32 \<times> bool" where
  "seg_size tcb flags =
     (let max_data_bytes = unsent_bytes tcb;
          fin = of_bool (need_fin tcb);
          data_bytes = mss_bytes tcb;
          cont = (max_data_bytes > smss tcb);
          usable = usable_window tcb flags;
          (data_bytes, fin, cont) =
            (if data_bytes + fin > usable then (usable, 0, True) else (data_bytes, fin, cont))
      in if data_bytes < max_data_bytes then (data_bytes, 0, True) else (data_bytes, fin, cont))"

text \<open>\<open>OF_NODATA\<close> suppresses data, and a forced segment into a closed window is a probe.\<close>

definition probe_size :: "socket \<Rightarrow> outflags \<Rightarrow> u32 \<Rightarrow> u32 \<times> u32 \<times> bool \<Rightarrow> u32 \<times> u32 \<times> bool" where
  "probe_size tcb flags usable sz =
     (let (data_bytes, fin, cont) = sz;
          (data_bytes, cont) = (if OF_NODATA flags then (0, False) else (data_bytes, cont));
          cont = (if usable = 0 then False else cont);
          data_bytes = (if unsent_bytes tcb \<noteq> 0 \<and> OF_FORCE flags \<and> snd_wnd tcb = 0
                        then 1 else data_bytes);
          fin = (if data_bytes = 0 \<and> OF_FORCE flags \<and> snd_wnd tcb = 0 \<and> need_fin tcb
                 then 1 else fin)
      in (data_bytes, fin, cont))"

definition set_persist_timer :: "bool \<Rightarrow> socket \<Rightarrow> socket" where
  "set_persist_timer send tcb =
     (if \<not> send \<and> snd_una tcb = snd_max tcb \<and> unsent_bytes tcb > 0 \<and> time (persist_timer tcb) = 0
      then tcb\<lparr>persist_timer := (persist_timer tcb)\<lparr>time := rto tcb\<rparr>\<rparr> else tcb)"

text \<open>
  One round: the socket, the message sent if any, the flags for the next round, and whether
  there is one.
\<close>

definition trigger_send_round ::
  "(nat \<Rightarrow> bool) \<Rightarrow> socket \<Rightarrow> outflags \<Rightarrow> socket \<times> net_msg list \<times> outflags \<times> bool" where
  "trigger_send_round alloc tcb flags =
     (let old_snd_nxt = snd_nxt tcb;
          tcb = (if OF_FAST flags then tcb\<lparr>snd_nxt := snd_una tcb\<rparr> else tcb);
          max_data_bytes = unsent_bytes tcb;
          usable = usable_window tcb flags;
          sz = seg_size tcb flags;
          (new_win, flags) = compute_win tcb flags;
          send = sws_send tcb flags (mss_bytes tcb) (of_bool (need_fin tcb)) usable;
          tcb = set_persist_timer send tcb
      in if (\<not> send \<or> fst sz + fst (snd sz) = 0) \<and> \<not> OF_FORCE flags then (tcb, [], flags, False)
         else
          (let (data_bytes, fin, cont) = probe_size tcb flags usable sz;
               flags = (if data_bytes = max_data_bytes \<and> data_bytes > 0
                        then flags\<lparr>OF_PUSH := True\<rparr> else flags);
               (rc, tcb, msgs) =
                 send_segment alloc tcb True False False (OF_PUSH flags) (fin \<noteq> 0) None
                   (snd_buffer tcb) (snd_buffer_head tcb + snd_nxt tcb - snd_una tcb)
                   SND_BUFFER_SIZE data_bytes new_win None;
               tcb = (if snd_wnd tcb = 0 \<and> OF_FORCE flags \<and> snd_nxt tcb = snd_una tcb + 1
                      then tcb\<lparr>snd_nxt := snd_una tcb\<rparr> else tcb);
               flags = flags\<lparr>OF_FORCE := False\<rparr>;
               cont = (if OF_FAST flags then False else cont);
               tcb = (if OF_FAST flags \<and> TCP_LT (snd_nxt tcb) old_snd_nxt
                      then tcb\<lparr>snd_nxt := old_snd_nxt\<rparr> else tcb)
           in (tcb, msgs, flags, cont)))"

text \<open>The loop itself need not end, so its result is an option: \<open>None\<close> is a call that never returns.\<close>

partial_function (option) trigger_send_loop ::
  "(nat \<Rightarrow> bool) \<Rightarrow> socket \<Rightarrow> outflags \<Rightarrow> net_msg list \<Rightarrow> (socket \<times> net_msg list) option" where
  "trigger_send_loop alloc tcb flags out =
     (case trigger_send_round alloc tcb flags of
        (tcb', msgs, flags', cont) \<Rightarrow>
          if cont then trigger_send_loop alloc tcb' flags' (out @ msgs) else Some (tcb', out @ msgs))"

definition trigger_send ::
  "(nat \<Rightarrow> bool) \<Rightarrow> socket \<Rightarrow> outflags \<Rightarrow> (socket \<times> net_msg list) option" where
  "trigger_send alloc tcb flags = trigger_send_loop alloc tcb flags []"

subsection \<open>What sending changes in the socket\<close>

lemma set_rtx_timer_frame [frame_simps]:
  "snd_una (set_rtx_timer syn s) = snd_una s"
  "snd_nxt (set_rtx_timer syn s) = snd_nxt s"
  "snd_max (set_rtx_timer syn s) = snd_max s"
  "rcv_nxt (set_rtx_timer syn s) = rcv_nxt s"
  "status (set_rtx_timer syn s) = status s"
  "smss (set_rtx_timer syn s) = smss s"
  "rto (set_rtx_timer syn s) = rto s"
  "snd_wnd (set_rtx_timer syn s) = snd_wnd s"
  "cwnd (set_rtx_timer syn s) = cwnd s"
  "closed (set_rtx_timer syn s) = closed s"
  "tcp_options_cc (set_rtx_timer syn s) = tcp_options_cc s"
  "fin_sent (set_rtx_timer syn s) = fin_sent s"
  "fin_seq_no (set_rtx_timer syn s) = fin_seq_no s"
  "snd_buffer (set_rtx_timer syn s) = snd_buffer s"
  "snd_buffer_head (set_rtx_timer syn s) = snd_buffer_head s"
  "snd_buffer_tail (set_rtx_timer syn s) = snd_buffer_tail s"
  "rcv_buffer (set_rtx_timer syn s) = rcv_buffer s"
  "rcv_buffer_head (set_rtx_timer syn s) = rcv_buffer_head s"
  "rcv_buffer_tail (set_rtx_timer syn s) = rcv_buffer_tail s"
  by (simp_all add: set_rtx_timer_def Let_def)

lemma time_segment_frame [frame_simps]:
  "snd_una (time_segment s) = snd_una s"
  "snd_nxt (time_segment s) = snd_nxt s"
  "snd_max (time_segment s) = snd_max s"
  "rcv_nxt (time_segment s) = rcv_nxt s"
  "status (time_segment s) = status s"
  "smss (time_segment s) = smss s"
  "rto (time_segment s) = rto s"
  "snd_wnd (time_segment s) = snd_wnd s"
  "cwnd (time_segment s) = cwnd s"
  "closed (time_segment s) = closed s"
  "tcp_options_cc (time_segment s) = tcp_options_cc s"
  "fin_sent (time_segment s) = fin_sent s"
  "fin_seq_no (time_segment s) = fin_seq_no s"
  "snd_buffer (time_segment s) = snd_buffer s"
  "snd_buffer_head (time_segment s) = snd_buffer_head s"
  "snd_buffer_tail (time_segment s) = snd_buffer_tail s"
  "rcv_buffer (time_segment s) = rcv_buffer s"
  "rcv_buffer_head (time_segment s) = rcv_buffer_head s"
  "rcv_buffer_tail (time_segment s) = rcv_buffer_tail s"
  "rtx_timer (time_segment s) = rtx_timer s"
  "persist_timer (time_segment s) = persist_timer s"
  by (simp_all add: time_segment_def)

lemma segment_sent_frame [frame_simps]:
  "snd_una (segment_sent s ack syn fin q n w) = snd_una s"
  "rcv_nxt (segment_sent s ack syn fin q n w) = rcv_nxt s"
  "smss (segment_sent s ack syn fin q n w) = smss s"
  "rto (segment_sent s ack syn fin q n w) = rto s"
  "snd_wnd (segment_sent s ack syn fin q n w) = snd_wnd s"
  "cwnd (segment_sent s ack syn fin q n w) = cwnd s"
  "closed (segment_sent s ack syn fin q n w) = closed s"
  "tcp_options_cc (segment_sent s ack syn fin q n w) = tcp_options_cc s"
  "snd_buffer (segment_sent s ack syn fin q n w) = snd_buffer s"
  "snd_buffer_head (segment_sent s ack syn fin q n w) = snd_buffer_head s"
  "snd_buffer_tail (segment_sent s ack syn fin q n w) = snd_buffer_tail s"
  "rcv_buffer (segment_sent s ack syn fin q n w) = rcv_buffer s"
  "rcv_buffer_head (segment_sent s ack syn fin q n w) = rcv_buffer_head s"
  "rcv_buffer_tail (segment_sent s ack syn fin q n w) = rcv_buffer_tail s"
  by (simp_all add: segment_sent_def Let_def frame_simps)

lemma segment_sent_fields [frame_simps]:
  "status (segment_sent s ack syn fin q n w) = (if fin then fin_status (status s) else status s)"
  "snd_nxt (segment_sent s ack syn fin q n w) = snd_nxt s + of_bool (syn \<or> fin) + n"
  "snd_max (segment_sent s ack syn fin q n w) =
     (if TCP_GT (snd_nxt s + of_bool (syn \<or> fin) + n) (snd_max s)
      then snd_nxt s + of_bool (syn \<or> fin) + n else snd_max s)"
  "fin_sent (segment_sent s ack syn fin q n w) = (fin \<or> fin_sent s)"
  "fin_seq_no (segment_sent s ack syn fin q n w) = (if fin then q else fin_seq_no s)"
  "right_win_edge (segment_sent s ack syn fin q n w) = w + rcv_nxt s"
  "rcv_wnd (segment_sent s ack syn fin q n w) = w"
  by (simp_all add: segment_sent_def Let_def frame_simps)

subsection \<open>The segments that are sent\<close>

lemma list_update_at: "i = length xs \<Longrightarrow> (xs @ y # ys)[i := z] = xs @ z # ys"
  by simp

lemma put16_checksum_field:
  "put16 (tcp_hdr_bytes h @ rest) 16 w = tcp_hdr_bytes (h\<lparr>hdr_checksum := w\<rparr>) @ rest"
proof -
  let ?pre = "st16 (hdr_src_port h) @ st16 (hdr_dst_port h) @ st32 (hdr_seq_no h) @ st32 (hdr_ack_no h) @
     [ucast (hdr_rsv1 h) + 16 * ucast (hdr_hlength h),
      bits_byte [hdr_fin h, hdr_syn h, hdr_rst h, hdr_psh h, hdr_ack h, hdr_urg h, hdr_ece h, hdr_cwr h]] @
     st16 (hdr_window h)"
  let ?post = "st16 (hdr_urgent_ptr h) @ rest"
  have pre: "length ?pre = 16" by simp
  have "tcp_hdr_bytes h @ rest = ?pre @ st16 (hdr_checksum h) @ ?post"
    by (simp add: tcp_hdr_bytes_def)
  then have "put16 (tcp_hdr_bytes h @ rest) 16 w = ?pre @ st16 w @ ?post"
    by (simp add: put16_def st16_def list_update_append)
  then show ?thesis by (simp add: tcp_hdr_bytes_def)
qed

text \<open>The bytes of a finished segment are its header, with the checksum filled in, options and payload.\<close>

definition finished_hdr ::
  "tcp_hdr \<Rightarrow> bool \<Rightarrow> bool \<Rightarrow> bool \<Rightarrow> bool \<Rightarrow> bool \<Rightarrow> u32 \<Rightarrow> u16 \<Rightarrow> tcp_hdr" where
  "finished_hdr hdr ack syn rst push fin new_win chksum =
     hdr\<lparr>hdr_syn := syn, hdr_ack := ack, hdr_rst := rst, hdr_psh := push, hdr_fin := fin,
         hdr_window := htons (ucast new_win), hdr_checksum := chksum\<rparr>"

lemma finish_segment_bytes:
  "\<exists>c. seg_bytes (finish_segment hdr ack syn rst push fin opts payload new_win src dst) =
       tcp_hdr_bytes (finished_hdr hdr ack syn rst push fin new_win c) @ opts @ payload"
  unfolding finish_segment_def Let_def
  by (auto simp: put16_checksum_field finished_hdr_def)

lemma finish_segment_length [simp]:
  "length (seg_bytes (finish_segment hdr ack syn rst push fin opts payload new_win src dst)) =
   sizeof_tcp_hdr + length opts + length payload"
  by (simp add: finish_segment_def Let_def)

lemma finish_segment_hdr:
  "\<exists>c. msg_hdr (finish_segment hdr ack syn rst push fin opts payload new_win src dst) =
       finished_hdr hdr ack syn rst push fin new_win c"
  using finish_segment_bytes [of hdr ack syn rst push fin opts payload new_win src dst]
  by (auto simp: tcp_hdr_round_trip)

lemma finish_segment_addr [simp]:
  "ip_src (finish_segment hdr ack syn rst push fin opts payload new_win src dst) = src"
  "ip_dest (finish_segment hdr ack syn rst push fin opts payload new_win src dst) = dst"
  by (simp_all add: finish_segment_def Let_def)

lemma finish_segment_checksum:
  assumes "hdr_checksum hdr = 0" and "sizeof_tcp_hdr + length opts + length payload < 65536"
  shows "compute_checksum
           (seg_bytes (finish_segment hdr ack syn rst push fin opts payload new_win src dst))
           (of_nat (sizeof_tcp_hdr + length opts + length payload)) src dst = 0"
proof -
  let ?h = "finished_hdr hdr ack syn rst push fin new_win 0"
  let ?bs = "tcp_hdr_bytes ?h @ opts @ payload"
  let ?n = "of_nat (sizeof_tcp_hdr + length opts + length payload) :: u16"
  have eq: "hdr\<lparr>hdr_syn := syn, hdr_ack := ack, hdr_rst := rst, hdr_psh := push, hdr_fin := fin,
                hdr_window := htons (ucast new_win)\<rparr> = ?h"
    using assms(1) by (cases hdr) (simp add: finished_hdr_def)
  have z: "put16 ?bs (2 * 8) 0 = ?bs"
    by (simp add: put16_checksum_field finished_hdr_def)
  have n: "unat ?n = sizeof_tcp_hdr + length opts + length payload"
    using assms(2) by (simp add: unat_of_nat del: of_nat_add)
  have "compute_checksum (put16 ?bs (2 * 8) (htons (compute_checksum (put16 ?bs (2 * 8) 0) ?n src dst)))
          ?n src dst = 0"
    by (rule checksum_round_trip) (simp_all only: n, simp_all)
  from this [unfolded z] show ?thesis by (simp add: finish_segment_def Let_def eq add.assoc)
qed

subsection \<open>Properties\<close>



end
