(* ===== verification/Tcp_Input.thy ===== *)
theory Tcp_Input
  imports Tcp_Output
begin

text \<open>
  The building blocks of TCP input processing in \<^verbatim>\<open>kernel/tcp.c\<close>: round trip time
  estimation, the acceptance test of RFC 793, acknowledgements with slow start and congestion
  avoidance, delivery of text into the receive buffer, the option parser, duplicate
  acknowledgements, and the send window.
\<close>

subsection \<open>Round trip time\<close>

text \<open>Division of signed integers in C truncates towards zero.\<close>

definition c_div :: "int \<Rightarrow> int \<Rightarrow> int" where
  "c_div a b = sgn a * sgn b * (\<bar>a\<bar> div \<bar>b\<bar>)"

definition update_srtt :: "socket \<Rightarrow> u32 \<Rightarrow> socket" where
  "update_srtt tcb rtt_sample =
     (let tcb =
        (if first_rtt tcb then
           (let r = push_bit 3 rtt_sample
            in tcb\<lparr>first_rtt := False, srtt := r, rttvar := drop_bit 1 r\<rparr>)
         else
           (let delta = sint (push_bit 3 rtt_sample - srtt tcb)
            in tcb\<lparr>srtt := srtt tcb + of_int (c_div delta 8),
                   rttvar := rttvar tcb - rttvar tcb div 4 + of_int (\<bar>delta\<bar> div 4)\<rparr>));
        r = drop_bit 3 (srtt tcb + max 8 (4 * rttvar tcb));
        r = (if r < RTO_INIT then RTO_INIT else r);
        r = (if r > RTO_MAX then RTO_MAX else r)
      in tcb\<lparr>rto := r, current_rtt := RTT_NONE\<rparr>)"

subsection \<open>The send window\<close>

definition update_snd_window :: "socket \<Rightarrow> net_msg \<Rightarrow> socket" where
  "update_snd_window s m =
     s\<lparr>snd_wnd := seg_win m,
       max_wnd := (if seg_win m > max_wnd s then seg_win m else max_wnd s),
       snd_wl1 := seg_seq m,
       snd_wl2 := seg_ack m\<rparr>"

subsection \<open>Establishing a connection\<close>

definition establish_connection :: "socket \<Rightarrow> net_msg \<Rightarrow> socket" where
  "establish_connection s m =
     (let s = s\<lparr>snd_una := seg_ack m, status := TCP_STATUS_ESTABLISHED, cwnd := 1 * smss s,
                connected := True, snd_wl1 := seg_seq m, snd_wl2 := seg_ack m, snd_wnd := seg_win m\<rparr>;
          s = (if snd_wnd s > max_wnd s then s\<lparr>max_wnd := snd_wnd s\<rparr> else s);
          s = s\<lparr>rtx_count := 0\<rparr>;
          s = update_srtt s (current_rtt s);
          s = s\<lparr>rtx_timer := (rtx_timer s)\<lparr>time := 0\<rparr>\<rparr>
      in net_post_event NET_EVENT_CAN_WRITE s)"

subsection \<open>Acceptance\<close>

text \<open>
  The result is \<open>None\<close> for an unacceptable segment, otherwise the offsets of the first
  and last byte to process and whether a FIN lies within the window.
\<close>

definition acceptable :: "socket \<Rightarrow> net_msg \<Rightarrow> (u32 \<times> u32 \<times> bool) option" where
  "acceptable tcb segment =
     (let hdr = msg_hdr segment;
          seq = seg_seq segment;
          len = seg_len segment;
          ctrl = of_bool (hdr_syn hdr) + of_bool (hdr_fin hdr) :: u32;
          right = rcv_nxt tcb + rcv_wnd tcb
      in if rcv_wnd tcb = 0 \<and> rcv_nxt tcb = seq then Some (0, 0, False)
         else if len = 0 \<and> ctrl = 0 \<and> TCP_LEQ (rcv_nxt tcb) seq \<and> TCP_LT seq right
         then Some (0, 0, False)
         else if TCP_LEQ (rcv_nxt tcb) seq \<and> TCP_LT seq right then
           (let acc = min (len + ctrl) (rcv_wnd tcb - (seq - rcv_nxt tcb));
                last_byte = acc - 1
            in if hdr_fin hdr \<and> acc = len + ctrl
               then Some (0, if last_byte > 0 then last_byte - 1 else last_byte, True)
               else Some (0, last_byte, False))
         else if TCP_LEQ (rcv_nxt tcb) (seq + len + ctrl - 1) \<and> TCP_LT (seq + len + ctrl - 1) right then
           (let first_byte = rcv_nxt tcb - seq;
                last_byte = len + ctrl - 1
            in if hdr_fin hdr
               then Some (first_byte, if last_byte > 0 then last_byte - 1 else last_byte, True)
               else Some (first_byte, last_byte, False))
         else None)"

subsection \<open>Acknowledgements\<close>

datatype ack_result = ACK_OK | ACK_DUP | ACK_TOOMUCH | ACK_IGN

text \<open>The congestion window after \<open>acked\<close> new bytes were acknowledged in state ESTABLISHED.\<close>

definition update_cwnd :: "socket \<Rightarrow> u32 \<Rightarrow> socket" where
  "update_cwnd tcb acked =
     (let tcb = tcb\<lparr>ack_count := ack_count tcb + acked\<rparr>
      in if TCP_LT (cwnd tcb) (ssthresh tcb)
         then tcb\<lparr>cwnd := cwnd tcb + min (smss tcb) acked, ack_count := 0\<rparr>
         else if TCP_GEQ (ack_count tcb) (cwnd tcb)
         then tcb\<lparr>cwnd := cwnd tcb + smss tcb, ack_count := 0\<rparr>
         else tcb)"

definition process_ack :: "socket \<Rightarrow> net_msg \<Rightarrow> ack_result \<times> socket" where
  "process_ack tcb segment =
     (let hdr = msg_hdr segment;
          ack_no = seg_ack segment;
          len = seg_len segment
      in if TCP_LT (snd_una tcb) ack_no \<and> TCP_LEQ ack_no (snd_max tcb) then
           (let tcb = (if status tcb = TCP_STATUS_ESTABLISHED then
                         update_cwnd
                           (net_post_event NET_EVENT_CAN_WRITE
                             (tcb\<lparr>snd_buffer_head := snd_buffer_head tcb + (ack_no - snd_una tcb)\<rparr>))
                           (ack_no - snd_una tcb)
                       else tcb);
                tcb = tcb\<lparr>snd_una := ack_no\<rparr>;
                tcb = (if TCP_GEQ (dupacks tcb) DUPACK_TRIGGER then tcb\<lparr>cwnd := ssthresh tcb\<rparr> else tcb);
                tcb = tcb\<lparr>dupacks := 0, rtx_count := 0\<rparr>;
                tcb = (if TCP_GT (snd_una tcb) (snd_nxt tcb) then tcb\<lparr>snd_nxt := snd_una tcb\<rparr> else tcb);
                tcb = tcb\<lparr>rtx_timer :=
                            \<lparr>time = (if snd_una tcb = snd_max tcb then 0 else rto tcb), backoff = 0\<rparr>\<rparr>;
                tcb = (if current_rtt tcb \<noteq> RTT_NONE \<and> TCP_GEQ ack_no (timed_segment tcb)
                       then (update_srtt tcb (current_rtt tcb))\<lparr>current_rtt := RTT_NONE\<rparr> else tcb)
            in (ACK_OK, tcb))
         else if TCP_GEQ (snd_una tcb) ack_no then
           (if TCP_LT (snd_una tcb) (snd_max tcb) \<and> len = 0 \<and> \<not> hdr_syn hdr \<and> \<not> hdr_fin hdr
               \<and> snd_una tcb = ack_no \<and> snd_wnd tcb = seg_win segment
            then (ACK_DUP, tcb) else (ACK_IGN, tcb))
         else (ACK_TOOMUCH, tcb))"

definition process_dup_ack :: "socket \<Rightarrow> outflags \<Rightarrow> socket \<times> outflags" where
  "process_dup_ack tcb flags =
     (let tcb = tcb\<lparr>dupacks := dupacks tcb + 1\<rparr>;
          (tcb, flags) =
            (if dupacks tcb = DUPACK_TRIGGER \<and> tcp_options_cc tcb then
               (let th = max (2 * smss tcb) ((snd_max tcb - snd_una tcb) div 2)
                in (tcb\<lparr>ssthresh := th, cwnd := th + DUPACK_TRIGGER * smss tcb,
                        rtx_timer := (rtx_timer tcb)\<lparr>time := 0\<rparr>\<rparr>,
                    flags\<lparr>OF_FAST := True, OF_FORCE := True\<rparr>))
             else (tcb, flags))
      in (if DUPACK_TRIGGER < dupacks tcb then tcb\<lparr>cwnd := cwnd tcb + smss tcb\<rparr> else tcb, flags))"

subsection \<open>Text\<close>

text \<open>The payload bytes \<open>first_byte, \<dots>, first_byte + n - 1\<close> of a segment.\<close>

definition seg_text :: "net_msg \<Rightarrow> u32 \<Rightarrow> nat \<Rightarrow> u8 list" where
  "seg_text m first_byte n =
     map (\<lambda>i. byte_at (seg_bytes m) (unat (seg_hlen m) + unat (first_byte + of_nat i))) [0..<n]"

definition text_bytes :: "u32 \<Rightarrow> u32 \<Rightarrow> u32" where
  "text_bytes first_byte last_byte = (if last_byte \<noteq> 0 then last_byte - first_byte + 1 else 0)"

text \<open>The flag returned says that an immediate ACK is due (the C function returns 1).\<close>

definition process_text :: "socket \<Rightarrow> net_msg \<Rightarrow> u32 \<Rightarrow> u32 \<Rightarrow> bool \<Rightarrow> bool \<times> socket" where
  "process_text tcb segment first_byte last_byte fin =
     (let bytes = text_bytes first_byte last_byte;
          ctrl_bytes = of_bool fin :: u32
      in if rcv_wnd tcb = 0 \<and> ucast (ip_length segment) > seg_hlen segment then (True, tcb)
         else if bytes + ctrl_bytes = 0 then (False, tcb)
         else if rcv_buffer_tail tcb - rcv_buffer_head tcb + bytes > of_nat RCV_BUFFER_SIZE then (True, tcb)
         else if TCP_LEQ (seg_seq segment) (rcv_nxt tcb) then
           (let tcb = (if \<not> eof tcb then
                         (let (buf, tail) = ring_put RCV_BUFFER_SIZE (rcv_buffer tcb) (rcv_buffer_tail tcb)
                                              (seg_text segment first_byte (unat bytes))
                          in net_post_event NET_EVENT_CAN_READ
                               (tcb\<lparr>rcv_buffer := buf, rcv_buffer_tail := tail\<rparr>))
                       else tcb);
                tcb = tcb\<lparr>rcv_nxt := rcv_nxt tcb + (bytes + ctrl_bytes)\<rparr>;
                tcb = (if time (delack_timer tcb) = 0
                       then tcb\<lparr>delack_timer := (delack_timer tcb)\<lparr>time := DELACK_TO\<rparr>\<rparr> else tcb)
            in (False, tcb))
         else (True, tcb))"

subsection \<open>Options\<close>

text \<open>
  The option loop walks the bytes between the fixed header and \<open>4 * hlength\<close>; an option
  of length zero makes it walk on the spot, hence the option type.
\<close>

definition process_option :: "socket \<Rightarrow> net_msg \<Rightarrow> nat \<Rightarrow> socket" where
  "process_option s segment off =
     (if byte_at (seg_bytes segment) off = 2
         \<and> hdr_syn (msg_hdr segment) \<and> status s \<noteq> TCP_STATUS_ESTABLISHED
      then (let mss = ucast (ntohs (ld16 (seg_bytes segment) (off + 2)))
            in s\<lparr>smss := (if mss > rmss s then rmss s else mss)\<rparr>)
      else s)"

definition option_len :: "net_msg \<Rightarrow> nat \<Rightarrow> nat" where
  "option_len segment off =
     (if byte_at (seg_bytes segment) off = 1 \<or> byte_at (seg_bytes segment) off = 0 then 1
      else unat (byte_at (seg_bytes segment) (off + 1)))"

partial_function (option) option_loop :: "socket \<Rightarrow> net_msg \<Rightarrow> nat \<Rightarrow> socket option" where
  "option_loop s segment off =
     (if off < unat (seg_hlen segment) then
        (if byte_at (seg_bytes segment) off = 0 then Some (process_option s segment off)
         else option_loop (process_option s segment off) segment (off + option_len segment off))
      else Some s)"

definition process_options :: "socket \<Rightarrow> net_msg \<Rightarrow> socket option" where
  "process_options s segment =
     (let opt_bytes = seg_hlen segment - of_nat sizeof_tcp_hdr
      in if opt_bytes = 0 then Some s
         else if opt_bytes + of_nat sizeof_tcp_hdr > ucast (ip_length segment) then Some s
         else option_loop s segment sizeof_tcp_hdr)"

end
