(* ===== verification/Tcp_Sockets.thy ===== *)
theory Tcp_Sockets
  imports Tcp_Input "HOL-Library.Monad_Syntax"
begin

text \<open>
  The socket registry of \<^verbatim>\<open>kernel/tcp.c\<close>: reference counts, the list of TCP sockets
  used for multiplexing, local ports, and the creation, binding and listening of sockets.
  The global state holds the sockets by number, the list, and the messages sent so far.
  Operations that follow a pointer to a freed socket, take a spinlock that is already held,
  hit a \<^verbatim>\<open>PANIC\<close> or never return give \<open>None\<close>; a result \<open>Some\<close> therefore
  includes that none of this happens.
\<close>

record tcp_state =
  socks :: "nat \<Rightarrow> socket option"
  socket_list :: "nat list"
  ip_tx :: "net_msg list"
  msgs_destroyed :: nat
  next_sock :: nat

text \<open>
  What the TCP layer asks of the rest of the kernel: the time of day (\<open>None\<close> if it is not
  available), the MTU of the interface with an address (\<open>-1\<close> if there is none), the source
  address for a destination, memory, the boot parameter \<open>tcp_disable_cc\<close>, and the value
  that an uninitialised variable of \<open>unregister_socket\<close> happens to have.
\<close>

record net_env =
  gettimeofday :: "(u32 \<times> u32) option"
  ip_get_mtu :: "u32 \<Rightarrow> u32"
  ip_get_src_addr :: "u32 \<Rightarrow> u32"
  net_msg_new :: "nat \<Rightarrow> bool"
  kmalloc_socket :: bool
  tcp_disable_cc :: bool
  stack_garbage :: bool

subsection \<open>Access to sockets\<close>

definition put_sock :: "nat \<Rightarrow> socket \<Rightarrow> tcp_state \<Rightarrow> tcp_state" where
  "put_sock i s st = st\<lparr>socks := (socks st)(i \<mapsto> s)\<rparr>"

definition upd_sock :: "nat \<Rightarrow> (socket \<Rightarrow> socket) \<Rightarrow> tcp_state \<Rightarrow> tcp_state option" where
  "upd_sock i f st = do { s \<leftarrow> socks st i; Some (put_sock i (f s) st) }"

definition emit :: "net_msg list \<Rightarrow> tcp_state \<Rightarrow> tcp_state" where
  "emit msgs st = st\<lparr>ip_tx := ip_tx st @ msgs\<rparr>"

definition spinlock_get :: "nat \<Rightarrow> tcp_state \<Rightarrow> tcp_state option" where
  "spinlock_get i st = do {
     s \<leftarrow> socks st i;
     if so_lock s then None else Some (put_sock i (s\<lparr>so_lock := True\<rparr>) st) }"

definition spinlock_release :: "nat \<Rightarrow> tcp_state \<Rightarrow> tcp_state option" where
  "spinlock_release i st = upd_sock i (\<lambda>s. s\<lparr>so_lock := False\<rparr>) st"

text \<open>Sending on a socket of the state.\<close>

definition sock_ctrl ::
  "net_env \<Rightarrow> nat \<Rightarrow> bool \<Rightarrow> bool \<Rightarrow> bool \<Rightarrow> net_msg option \<Rightarrow> u32 \<Rightarrow> u32 option \<Rightarrow> tcp_state
   \<Rightarrow> (int \<times> tcp_state) option" where
  "sock_ctrl env i ack syn rst request new_win options st = do {
     s \<leftarrow> socks st i;
     let (rc, s', msgs) = send_ctrl (net_msg_new env) s ack syn rst request new_win options;
     Some (rc, put_sock i s' (emit msgs st)) }"

definition sock_trigger :: "net_env \<Rightarrow> nat \<Rightarrow> outflags \<Rightarrow> tcp_state \<Rightarrow> tcp_state option" where
  "sock_trigger env i flags st = do {
     s \<leftarrow> socks st i;
     (s', msgs) \<leftarrow> trigger_send (net_msg_new env) s flags;
     Some (put_sock i s' (emit msgs st)) }"

subsection \<open>Reference counts\<close>

definition clone_socket :: "nat \<Rightarrow> tcp_state \<Rightarrow> tcp_state option" where
  "clone_socket i st = upd_sock i (\<lambda>s. s\<lparr>ref_count := ref_count s + 1\<rparr>) st"

definition kfree_socket :: "nat \<Rightarrow> tcp_state \<Rightarrow> tcp_state" where
  "kfree_socket i st = st\<lparr>socks := (socks st)(i := None)\<rparr>"

partial_function (option) tcp_release_socket :: "nat \<Rightarrow> tcp_state \<Rightarrow> tcp_state option" where
  "tcp_release_socket i st =
     (case socks st i of
        None \<Rightarrow> None
      | Some s \<Rightarrow>
          (let s' = s\<lparr>ref_count := ref_count s - 1\<rparr>;
               st' = put_sock i s' st
           in if ref_count s' = 0 then
                (case so_parent s' of
                   None \<Rightarrow> Some (kfree_socket i st')
                 | Some p \<Rightarrow> Option.bind (tcp_release_socket p st') (\<lambda>st''. Some (kfree_socket i st'')))
              else Some st'))"

subsection \<open>The list of sockets\<close>

definition list_socks :: "tcp_state \<Rightarrow> (nat \<times> socket) list" where
  "list_socks st = List.map_filter (\<lambda>i. map_option (Pair i) (socks st i)) (socket_list st)"

text \<open>Compare one component of an address: 1 for equal, 0 for a wildcard, \<open>None\<close> for no match.\<close>

definition match_field :: "'a::zero \<Rightarrow> 'a \<Rightarrow> int option" where
  "match_field own other = (if own = other then Some 1 else if own \<noteq> 0 \<and> other \<noteq> 0 then None else Some 0)"

definition match_level :: "socket \<Rightarrow> u32 \<Rightarrow> u32 \<Rightarrow> u16 \<Rightarrow> int option" where
  "match_level s local_ip foreign_ip foreign_port = do {
     a \<leftarrow> match_field (s_addr (laddr s)) local_ip;
     b \<leftarrow> match_field (s_addr (faddr s)) foreign_ip;
     c \<leftarrow> match_field (sin_port (faddr s)) foreign_port;
     Some (a + b + c) }"

text \<open>
  The scan of \<open>get_matching_tcb\<close>. A socket with the right local port that does not match
  ends the loop (the code says \<open>break\<close>).
\<close>

fun match_scan ::
  "u32 \<Rightarrow> u32 \<Rightarrow> u16 \<Rightarrow> u16 \<Rightarrow> (nat \<times> socket) list \<Rightarrow> int \<Rightarrow> nat option \<Rightarrow> nat option" where
  "match_scan local_ip foreign_ip local_port foreign_port [] matchlevel best = best"
| "match_scan local_ip foreign_ip local_port foreign_port ((i, s) # rest) matchlevel best =
     (if sin_port (laddr s) = local_port then
        (case match_level s local_ip foreign_ip foreign_port of
           None \<Rightarrow> best
         | Some l \<Rightarrow>
             if l > matchlevel
             then match_scan local_ip foreign_ip local_port foreign_port rest l (Some i)
             else match_scan local_ip foreign_ip local_port foreign_port rest matchlevel best)
      else match_scan local_ip foreign_ip local_port foreign_port rest matchlevel best)"

definition get_matching_tcb :: "tcp_state \<Rightarrow> u32 \<Rightarrow> u32 \<Rightarrow> u16 \<Rightarrow> u16 \<Rightarrow> nat option" where
  "get_matching_tcb st local_ip foreign_ip local_port foreign_port =
     match_scan local_ip foreign_ip local_port foreign_port (list_socks st) (- 1) None"

definition locate_socket :: "u32 \<Rightarrow> u16 \<Rightarrow> u32 \<Rightarrow> u16 \<Rightarrow> tcp_state \<Rightarrow> (nat option \<times> tcp_state) option" where
  "locate_socket l_ip l_port f_ip f_port st =
     (case get_matching_tcb st l_ip f_ip l_port f_port of
        None \<Rightarrow> Some (None, st)
      | Some i \<Rightarrow> do { st \<leftarrow> clone_socket i st; Some (Some i, st) })"

text \<open>
  \<open>found\<close> is never initialised to zero: for a socket that is not in the list it has the
  value left on the stack, and a non-zero value makes \<open>LIST_REMOVE\<close> follow stale links.
\<close>

definition unregister_socket :: "net_env \<Rightarrow> nat \<Rightarrow> tcp_state \<Rightarrow> tcp_state option" where
  "unregister_socket env i st =
     (if i \<in> set (socket_list st) then do {
        let st = st\<lparr>socket_list := remove1 i (socket_list st)\<rparr>;
        s \<leftarrow> socks st i;
        if ref_count s = 0 then None else tcp_release_socket i st }
      else if stack_garbage env then None
      else Some st)"

definition register_socket :: "nat \<Rightarrow> tcp_state \<Rightarrow> (int \<times> tcp_state) option" where
  "register_socket i st =
     (if length (socket_list st) \<ge> MAX_TCP_SOCKETS then Some (- ENOMEM, st)
      else do { st \<leftarrow> clone_socket i st;
                Some (0, st\<lparr>socket_list := socket_list st @ [i]\<rparr>) })"

definition same_address :: "socket \<Rightarrow> socket \<Rightarrow> bool" where
  "same_address s t \<longleftrightarrow>
     s_addr (laddr s) = s_addr (laddr t) \<and> s_addr (faddr s) = s_addr (faddr t)
     \<and> sin_port (laddr s) = sin_port (laddr t) \<and> sin_port (faddr s) = sin_port (faddr t)"

definition fully_qualified :: "socket \<Rightarrow> bool" where
  "fully_qualified s \<longleftrightarrow> s_addr (laddr s) \<noteq> INADDR_ANY \<and> s_addr (faddr s) \<noteq> INADDR_ANY
     \<and> sin_port (laddr s) \<noteq> 0 \<and> sin_port (faddr s) \<noteq> 0"

definition add_socket_check :: "nat \<Rightarrow> tcp_state \<Rightarrow> (int \<times> tcp_state) option" where
  "add_socket_check i st = do {
     s \<leftarrow> socks st i;
     if \<not> fully_qualified s then Some (- EINVAL, st)
     else if length (socket_list st) \<ge> MAX_TCP_SOCKETS then Some (- ENOMEM, st)
     else if list_ex (\<lambda>(j, t). same_address s t) (list_socks st) then Some (- EADDRINUSE, st)
     else do { st \<leftarrow> clone_socket i st;
               Some (0, st\<lparr>socket_list := socket_list st @ [i]\<rparr>) } }"

text \<open>The first ephemeral port that no socket of the list is bound to.\<close>

definition port_used :: "tcp_state \<Rightarrow> nat \<Rightarrow> bool" where
  "port_used st p \<longleftrightarrow> list_ex (\<lambda>(i, s). sin_port (laddr s) = htons (of_nat p)) (list_socks st)"

function find_port_from :: "tcp_state \<Rightarrow> nat \<Rightarrow> nat option" where
  "find_port_from st i =
     (if i < 65536 then (if port_used st i then find_port_from st (Suc i) else Some i) else None)"
  by pat_completeness auto
termination
  by (relation "measure (\<lambda>(st, i). 65536 - i)") auto

declare find_port_from.simps [simp del]

definition find_free_port :: "tcp_state \<Rightarrow> nat option" where
  "find_free_port st = find_port_from st TCP_EPHEMERAL_PORT"

subsection \<open>Creating sockets\<close>

definition set_isn :: "net_env \<Rightarrow> socket \<Rightarrow> socket" where
  "set_isn env s =
     (let iss = (case gettimeofday env of None \<Rightarrow> 1 | Some (seconds, useconds) \<Rightarrow> useconds)
      in s\<lparr>snd_max := iss, snd_una := iss, isn := iss, snd_nxt := iss\<rparr>)"

definition set_rmss :: "net_env \<Rightarrow> socket \<Rightarrow> socket" where
  "set_rmss env s =
     s\<lparr>rmss := (if s_addr (laddr s) = INADDR_ANY then TCP_DEFAULT_MSS
                else if ip_get_mtu env (s_addr (laddr s)) = - 1 then TCP_DEFAULT_MSS
                else ip_get_mtu env (s_addr (laddr s)) - 20 - 20)\<rparr>"

text \<open>\<open>socket->proto.tcp.tcp_options\<close> enables congestion control unless it is disabled at boot.\<close>

definition new_socket :: "net_env \<Rightarrow> socket" where
  "new_socket env = fresh_socket (\<not> tcp_disable_cc env)"

definition tcp_create_socket :: "net_env \<Rightarrow> nat \<Rightarrow> tcp_state \<Rightarrow> (int \<times> tcp_state) option" where
  "tcp_create_socket env i st = register_socket i (put_sock i (new_socket env) st)"

definition set_local_address :: "net_env \<Rightarrow> nat \<Rightarrow> u32 \<Rightarrow> tcp_state \<Rightarrow> (int \<times> tcp_state) option" where
  "set_local_address env i ip_dst st =
     (if ip_get_src_addr env ip_dst = INADDR_ANY then Some (- ENETUNREACH, st)
      else do {
        s \<leftarrow> socks st i;
        let s = s\<lparr>laddr := (laddr s)\<lparr>s_addr := ip_get_src_addr env ip_dst, sin_family := AF_INET\<rparr>\<rparr>;
        let s = set_rmss env s;
        let st = put_sock i s st;
        (case find_free_port st of
           None \<Rightarrow> Some (- EADDRINUSE, st)
         | Some port \<Rightarrow>
             Some (0, put_sock i (s\<lparr>laddr := (laddr s)\<lparr>sin_port := htons (of_nat port)\<rparr>\<rparr>) st)) })"

text \<open>A new socket for a SYN that arrives at a listening socket; the parent is referenced.\<close>

definition copy_socket ::
  "net_env \<Rightarrow> nat \<Rightarrow> u32 \<Rightarrow> u16 \<Rightarrow> u32 \<Rightarrow> u16 \<Rightarrow> tcp_state \<Rightarrow> (nat option \<times> tcp_state) option" where
  "copy_socket env listen l_ip l_port f_ip f_port st =
     (if \<not> kmalloc_socket env then Some (None, st)
      else do {
        s \<leftarrow> socks st listen;
        let i = next_sock st;
        let s' = s\<lparr>ref_count := 1, so_lock := False, bound := True, connected := False,
                   timeout := False, so_queue := [], events := [], so_parent := Some listen,
                   laddr := \<lparr>sin_family = AF_INET, sin_port = l_port, s_addr = l_ip\<rparr>,
                   faddr := \<lparr>sin_family = AF_INET, sin_port = f_port, s_addr = f_ip\<rparr>\<rparr>;
        st \<leftarrow> clone_socket listen st;
        Some (Some i, (put_sock i s' st)\<lparr>next_sock := i + 1\<rparr>) })"

definition remove_queued_connection :: "nat \<Rightarrow> nat \<Rightarrow> tcp_state \<Rightarrow> tcp_state option" where
  "remove_queued_connection parent i st = do {
     st \<leftarrow> spinlock_get parent st;
     p \<leftarrow> socks st parent;
     st \<leftarrow> (if i \<in> set (so_queue p)
            then tcp_release_socket i (put_sock parent (p\<lparr>so_queue := remove1 i (so_queue p)\<rparr>) st)
            else Some st);
     spinlock_release parent st }"

subsection \<open>Binding and listening\<close>

definition tcp_listen :: "nat \<Rightarrow> tcp_state \<Rightarrow> (int \<times> tcp_state) option" where
  "tcp_listen i st = do {
     s \<leftarrow> socks st i;
     if \<not> bound s then
       (case find_free_port st of
          None \<Rightarrow> Some (- EADDRINUSE, st)
        | Some port \<Rightarrow>
            Some (0, put_sock i (s\<lparr>bound := True,
                       laddr := (laddr s)\<lparr>sin_port := ntohs (of_nat port)\<rparr>,
                       status := TCP_STATUS_LISTEN\<rparr>) st))
     else Some (0, put_sock i (s\<lparr>status := TCP_STATUS_LISTEN\<rparr>) st) }"

text \<open>\<open>address\<close> is \<open>None\<close> for a null pointer; \<open>addrlen\<close> is the length passed.\<close>

definition tcp_bind ::
  "net_env \<Rightarrow> nat \<Rightarrow> sockaddr_in option \<Rightarrow> nat \<Rightarrow> tcp_state \<Rightarrow> (int \<times> tcp_state) option" where
  "tcp_bind env i address addrlen st =
     (if addrlen \<noteq> 16 then Some (- EINVAL, st)
      else case address of
        None \<Rightarrow> Some (- EINVAL, st)
      | Some a \<Rightarrow>
          if sin_family a \<noteq> AF_INET then Some (- EAFNOSUPPORT, st)
          else do {
            s \<leftarrow> socks st i;
            if bound s then Some (- EINVAL, st)
            else if ip_get_mtu env (s_addr a) = - 1 then Some (- EADDRNOTAVAIL, st)
            else
              (let bind_to = (\<lambda>port. Some (0, put_sock i
                      (set_rmss env (s\<lparr>laddr := \<lparr>sin_family = AF_INET, sin_port = htons port,
                                                 s_addr = s_addr a\<rparr>, bound := True\<rparr>)) st))
               in if ntohs (sin_port a) = 0 then
                    (case find_free_port st of
                       None \<Rightarrow> Some (- EADDRINUSE, st)
                     | Some p \<Rightarrow> bind_to (of_nat p))
                  else if get_matching_tcb st (s_addr a) INADDR_ANY (ntohs (ntohs (sin_port a))) 0 \<noteq> None
                  then Some (- EADDRINUSE, st)
                  else bind_to (ntohs (sin_port a))) })"

text \<open>What a select on the socket finds: 1 for readable, 2 for writable.\<close>

definition tcp_select :: "socket \<Rightarrow> bool \<Rightarrow> bool \<Rightarrow> nat" where
  "tcp_select s read write =
     (if read \<and> rcv_buffer_head s \<noteq> rcv_buffer_tail s then NET_EVENT_CAN_READ else 0) +
     (if write \<and> snd_buffer_tail s - snd_buffer_head s \<noteq> of_nat SND_BUFFER_SIZE
      then NET_EVENT_CAN_WRITE else 0)"

end
