(* ===== verification/Tcp.thy ===== *)
theory Tcp
  imports Tcp_Sockets
begin

text \<open>
  The entry points of the TCP layer (\<^verbatim>\<open>kernel/tcp.c\<close>): the socket calls, the
  reception of a segment with its state machine, and the timers. The reception handler is
  split where the C function is: one definition per group of states of its outer
  \<open>switch\<close>, and one per step of the processing in the synchronised states.
\<close>

definition tcp_init :: "tcp_state \<Rightarrow> tcp_state" where
  "tcp_init st = st\<lparr>socket_list := []\<rparr>"

subsection \<open>Closing\<close>

text \<open>
  \<open>drop_socket\<close> closes the connections queued at a listening socket, which may in turn
  drop them: the two functions call each other. The first argument bounds the depth of that
  recursion; a queued socket has no queue of its own, so a depth of 2 is enough.
\<close>

fun drop_socket :: "nat \<Rightarrow> net_env \<Rightarrow> nat \<Rightarrow> tcp_state \<Rightarrow> tcp_state option"
  and close_queued :: "nat \<Rightarrow> net_env \<Rightarrow> nat list \<Rightarrow> tcp_state \<Rightarrow> tcp_state option"
  and tcp_close_rec :: "nat \<Rightarrow> net_env \<Rightarrow> nat \<Rightarrow> tcp_state \<Rightarrow> tcp_state option" where
  "drop_socket 0 env i st = None"
| "drop_socket (Suc n) env i st = do {
     st \<leftarrow> upd_sock i (\<lambda>s. net_post_event (NET_EVENT_CAN_READ + NET_EVENT_CAN_WRITE)
                            (s\<lparr>status := TCP_STATUS_CLOSED, eof := True, epipe := True\<rparr>)) st;
     st \<leftarrow> unregister_socket env i st;
     s \<leftarrow> socks st i;
     let queued = so_queue s;
     if length queued > MAX_LISTEN_BACKLOG - 1 then None
     else do {
       let st = put_sock i (s\<lparr>so_queue := []\<rparr>) st;
       st \<leftarrow> spinlock_release i st;
       st \<leftarrow> close_queued n env queued st;
       spinlock_get i st } }"
| "close_queued n env [] st = Some st"
| "close_queued n env (i # is) st = do {
     st \<leftarrow> spinlock_get i st;
     st \<leftarrow> tcp_close_rec n env i st;
     st \<leftarrow> spinlock_release i st;
     st \<leftarrow> tcp_release_socket i st;
     close_queued n env is st }"
| "tcp_close_rec n env i st = do {
     s \<leftarrow> socks st i;
     if status s \<in> {TCP_STATUS_ESTABLISHED, TCP_STATUS_CLOSE_WAIT, TCP_STATUS_SYN_RCVD}
     then sock_trigger env i no_flags
            (put_sock i (s\<lparr>eof := True, epipe := True, closed := True\<rparr>) st)
     else drop_socket n env i st }"

abbreviation close_depth :: nat where "close_depth \<equiv> 2"

definition tcp_close :: "net_env \<Rightarrow> nat \<Rightarrow> tcp_state \<Rightarrow> tcp_state option" where
  "tcp_close env i st = tcp_close_rec close_depth env i st"

subsection \<open>Receiving a segment\<close>

text \<open>
  The handlers return the state and whether they leave the outer \<open>switch\<close> with
  \<open>break\<close>; \<open>False\<close> is a \<open>return\<close> from the middle of \<open>tcp_rx_msg\<close>.
\<close>

definition rx_closed :: "net_env \<Rightarrow> nat \<Rightarrow> net_msg \<Rightarrow> tcp_state \<Rightarrow> (bool \<times> tcp_state) option" where
  "rx_closed env i m st =
     (if \<not> hdr_rst (msg_hdr m) then do {
        (rc, st) \<leftarrow> sock_ctrl env i (\<not> hdr_ack (msg_hdr m)) False True (Some m) 0 None st;
        Some (True, st) }
      else Some (True, st))"

text \<open>
  A SYN at a listening socket: the new socket \<open>j\<close> is registered, put into the queue of the
  listening socket \<open>i\<close>, and answers with a SYN-ACK. \<open>clone_socket\<close> is an argument of the
  macro \<open>LIST_ADD_END\<close>, which evaluates its argument four times.
\<close>

definition queue_connection ::
  "net_env \<Rightarrow> nat \<Rightarrow> nat \<Rightarrow> net_msg \<Rightarrow> u32 \<Rightarrow> u32 \<Rightarrow> tcp_state \<Rightarrow> tcp_state option" where
  "queue_connection env i j m new_win mss st = do {
     (rc, st) \<leftarrow> add_socket_check j st;
     if rc < 0 then Some (kfree_socket j st)
     else do {
       st \<leftarrow> clone_socket j st;
       st \<leftarrow> clone_socket j st;
       st \<leftarrow> clone_socket j st;
       st \<leftarrow> clone_socket j st;
       st \<leftarrow> upd_sock i (\<lambda>s. s\<lparr>so_queue := so_queue s @ [j]\<rparr>) st;
       (rc, st) \<leftarrow> sock_ctrl env j True True False (Some m) new_win (Some mss) st;
       Some st } }"

definition accept_syn :: "net_env \<Rightarrow> nat \<Rightarrow> net_msg \<Rightarrow> tcp_state \<Rightarrow> tcp_state option" where
  "accept_syn env i m st = do {
     (new, st) \<leftarrow> copy_socket env i (ip_dest m) (hdr_dst_port (msg_hdr m)) (ip_src m)
                    (hdr_src_port (msg_hdr m)) st;
     case new of
       None \<Rightarrow> Some st
     | Some j \<Rightarrow> do {
         t \<leftarrow> socks st j;
         t \<leftarrow> process_options (update_snd_window (set_rmss env (set_isn env t)) m) m;
         let t = t\<lparr>rcv_nxt := seg_seq m + 1, status := TCP_STATUS_SYN_RCVD\<rparr>;
         queue_connection env i j m (rcv_wnd t) (rmss t) (put_sock j t st) } }"

definition rx_listen :: "net_env \<Rightarrow> nat \<Rightarrow> net_msg \<Rightarrow> tcp_state \<Rightarrow> (bool \<times> tcp_state) option" where
  "rx_listen env i m st =
     (let hdr = msg_hdr m in
      if hdr_rst hdr then Some (True, st)
      else if hdr_ack hdr then do {
        (rc, st) \<leftarrow> sock_ctrl env i False False True (Some m) 0 None st;
        Some (True, st) }
      else if \<not> hdr_syn hdr \<or> hdr_fin hdr then Some (True, st)
      else do {
        s \<leftarrow> socks st i;
        if of_nat (length (so_queue s)) \<ge> max_connection_backlog s then Some (True, st)
        else do { st \<leftarrow> accept_syn env i m st; Some (True, st) } })"

definition rx_syn_sent :: "net_env \<Rightarrow> nat \<Rightarrow> net_msg \<Rightarrow> tcp_state \<Rightarrow> (bool \<times> tcp_state) option" where
  "rx_syn_sent env i m st = do {
     s \<leftarrow> socks st i;
     let hdr = msg_hdr m;
     let ack_no = seg_ack m;
     if hdr_ack hdr \<and> (TCP_LEQ ack_no (isn s) \<or> TCP_GT ack_no (snd_nxt s)) then
       (if \<not> hdr_rst hdr then do {
          (rc, st) \<leftarrow> sock_ctrl env i False False True (Some m) (rcv_wnd s) None st;
          Some (False, st) }
        else Some (False, st))
     else if hdr_rst hdr then
       (if hdr_ack hdr then do {
          st \<leftarrow> unregister_socket env i (put_sock i (s\<lparr>status := TCP_STATUS_CLOSED\<rparr>) st);
          Some (False, st) }
        else Some (False, st))
     else if hdr_syn hdr then
       (let s = s\<lparr>rcv_nxt := seg_seq m + 1\<rparr> in
        if hdr_ack hdr then do {
          let s = establish_connection s m;
          (rc, st) \<leftarrow> sock_ctrl env i True False False None (rcv_wnd s) None (put_sock i s st);
          Some (True, st) }
        else do {
          let s = s\<lparr>status := TCP_STATUS_SYN_RCVD, snd_nxt := isn s\<rparr>;
          let s = update_snd_window s m;
          (rc, st) \<leftarrow> sock_ctrl env i True True False None (rcv_wnd s) (Some (rmss s)) (put_sock i s st);
          Some (True, st) })
     else Some (True, st) }"

text \<open>The synchronised states. First a RST (which does not end the processing), then a SYN.\<close>

definition reset_socket :: "socket \<Rightarrow> socket" where
  "reset_socket s =
     (net_post_event (NET_EVENT_CAN_READ + NET_EVENT_CAN_WRITE) (s\<lparr>eof := True, epipe := True\<rparr>))
       \<lparr>status := TCP_STATUS_CLOSED\<rparr>"

definition rx_sync_rst :: "net_env \<Rightarrow> nat \<Rightarrow> tcp_state \<Rightarrow> tcp_state option" where
  "rx_sync_rst env i st = do {
     s \<leftarrow> socks st i;
     st \<leftarrow> (if status s = TCP_STATUS_SYN_RCVD then
              (case so_parent s of
                 Some p \<Rightarrow> do {
                   st \<leftarrow> remove_queued_connection p i st;
                   upd_sock i (\<lambda>s. s\<lparr>status := TCP_STATUS_CLOSED\<rparr>) st }
               | None \<Rightarrow> Some (put_sock i (s\<lparr>so_error := - ECONNREFUSED\<rparr>) st))
            else Some st);
     st \<leftarrow> upd_sock i reset_socket st;
     st \<leftarrow> unregister_socket env i st;
     upd_sock i (\<lambda>s. if so_error s \<noteq> - ECONNREFUSED then s\<lparr>so_error := - ECONNRESET\<rparr> else s) st }"

definition rx_sync_syn :: "net_env \<Rightarrow> nat \<Rightarrow> net_msg \<Rightarrow> tcp_state \<Rightarrow> tcp_state option" where
  "rx_sync_syn env i m st = do {
     s \<leftarrow> socks st i;
     (rc, st) \<leftarrow> sock_ctrl env i False False True (Some m) (rcv_wnd s) None st;
     st \<leftarrow> upd_sock i reset_socket st;
     st \<leftarrow> unregister_socket env i st;
     upd_sock i (\<lambda>s. s\<lparr>so_error := - ECONNRESET\<rparr>) st }"

definition promote_socket :: "nat \<Rightarrow> net_msg \<Rightarrow> tcp_state \<Rightarrow> tcp_state option" where
  "promote_socket i m st = do {
     s \<leftarrow> socks st i;
     case so_parent s of
       Some p \<Rightarrow> do {
         st \<leftarrow> spinlock_get p st;
         st \<leftarrow> upd_sock i (\<lambda>s. establish_connection s m) st;
         st \<leftarrow> upd_sock p (net_post_event NET_EVENT_CAN_READ) st;
         spinlock_release p st }
     | None \<Rightarrow> upd_sock i (\<lambda>s. establish_connection s m) st }"

text \<open>State changes due to a valid acknowledgement after our FIN, and the send window.\<close>

definition stop_timers :: "socket \<Rightarrow> socket" where
  "stop_timers s =
     s\<lparr>rtx_timer := (rtx_timer s)\<lparr>time := 0\<rparr>,
       persist_timer := (persist_timer s)\<lparr>time := 0\<rparr>,
       delack_timer := (delack_timer s)\<lparr>time := 0\<rparr>,
       time_wait_timer := (time_wait_timer s)\<lparr>time := 2 * TCP_MSL\<rparr>\<rparr>"

definition fin_acked :: "socket \<Rightarrow> bool" where
  "fin_acked s \<longleftrightarrow> TCP_GT (snd_una s) (fin_seq_no s)"

definition ack_transitions :: "socket \<Rightarrow> net_msg \<Rightarrow> socket" where
  "ack_transitions s m =
     (let s = (if status s = TCP_STATUS_FIN_WAIT_1 \<and> fin_acked s
               then s\<lparr>status := TCP_STATUS_FIN_WAIT_2\<rparr> else s);
          s = (if status s = TCP_STATUS_CLOSING \<and> fin_acked s
               then stop_timers (s\<lparr>status := TCP_STATUS_TIME_WAIT\<rparr>) else s)
      in if TCP_LT (snd_wl1 s) (seg_seq m)
            \<or> (snd_wl1 s = seg_seq m \<and> TCP_LEQ (snd_wl2 s) (seg_ack m))
         then update_snd_window s m else s)"

text \<open>Processing of the acknowledgement; \<open>None\<close> in the first component: stop here.\<close>

definition ack_state_change ::
  "net_env \<Rightarrow> nat \<Rightarrow> net_msg \<Rightarrow> tcp_state \<Rightarrow> (outflags option \<times> tcp_state) option" where
  "ack_state_change env i m st = do {
     s \<leftarrow> socks st i;
     if status s = TCP_STATUS_LAST_ACK \<and> fin_acked s then do {
       st \<leftarrow> unregister_socket env i (put_sock i (s\<lparr>status := TCP_STATUS_CLOSED\<rparr>) st);
       Some (None, st) }
     else Some (Some no_flags, put_sock i (ack_transitions s m) st) }"

definition rx_sync_ack ::
  "net_env \<Rightarrow> nat \<Rightarrow> net_msg \<Rightarrow> tcp_state \<Rightarrow> (outflags option \<times> tcp_state) option" where
  "rx_sync_ack env i m st = do {
     s \<leftarrow> socks st i;
     let (ack_valid, s) = process_ack s m;
     let st = put_sock i s st;
     if status s = TCP_STATUS_SYN_RCVD \<and> ack_valid \<noteq> ACK_OK then do {
       (rc, st) \<leftarrow> sock_ctrl env i False False True (Some m) 0 None st;
       Some (None, st) }
     else if ack_valid = ACK_TOOMUCH \<and> status s = TCP_STATUS_ESTABLISHED then do {
       st \<leftarrow> sock_trigger env i (no_flags\<lparr>OF_NODATA := True, OF_FORCE := True\<rparr>) st;
       Some (None, st) }
     else if ack_valid = ACK_DUP \<and> status s = TCP_STATUS_ESTABLISHED then
       (let (s, flags) = process_dup_ack s no_flags in Some (Some flags, put_sock i s st))
     else do {
       st \<leftarrow> (if status s = TCP_STATUS_SYN_RCVD \<and> ack_valid = ACK_OK
              then promote_socket i m st else Some st);
       ack_state_change env i m st } }"

text \<open>The FIN bit.\<close>

definition process_fin :: "socket \<Rightarrow> socket" where
  "process_fin s =
     (let s = (if status s = TCP_STATUS_FIN_WAIT_1
               then s\<lparr>status := TCP_STATUS_CLOSING, eof := True\<rparr> else s);
          s = (if status s = TCP_STATUS_ESTABLISHED \<or> status s = TCP_STATUS_SYN_RCVD
               then s\<lparr>status := TCP_STATUS_CLOSE_WAIT, eof := True\<rparr> else s);
          s = (if status s = TCP_STATUS_FIN_WAIT_2
               then s\<lparr>status := TCP_STATUS_TIME_WAIT, eof := True\<rparr> else s)
      in if status s = TCP_STATUS_TIME_WAIT then stop_timers s else s)"

definition text_and_fin ::
  "socket \<Rightarrow> net_msg \<Rightarrow> u32 \<Rightarrow> u32 \<Rightarrow> bool \<Rightarrow> outflags \<Rightarrow> socket \<times> outflags" where
  "text_and_fin s m first_byte last_byte fin flags =
     (let (s, flags) =
        (if status s \<in> {TCP_STATUS_ESTABLISHED, TCP_STATUS_FIN_WAIT_1, TCP_STATUS_FIN_WAIT_2}
         then (let (ack_now, s) = process_text s m first_byte last_byte fin
               in (s, if ack_now then flags\<lparr>OF_FORCE := True, OF_NODATA := True\<rparr> else flags))
         else (s, flags))
      in if hdr_fin (msg_hdr m) then (process_fin s, flags\<lparr>OF_FORCE := True\<rparr>) else (s, flags))"

definition rx_sync :: "net_env \<Rightarrow> nat \<Rightarrow> net_msg \<Rightarrow> tcp_state \<Rightarrow> (bool \<times> tcp_state) option" where
  "rx_sync env i m st = do {
     s \<leftarrow> socks st i;
     let hdr = msg_hdr m;
     case acceptable s m of
       None \<Rightarrow> do {
         st \<leftarrow> (if \<not> hdr_rst hdr then
                  do { (rc, st) \<leftarrow> sock_ctrl env i True False False (Some m) (rcv_wnd s) None st; Some st }
                else Some st);
         st \<leftarrow> (if hdr_fin hdr \<and> status s = TCP_STATUS_TIME_WAIT then
                  upd_sock i (\<lambda>s. s\<lparr>time_wait_timer := (time_wait_timer s)\<lparr>time := 2 * TCP_MSL\<rparr>\<rparr>) st
                else Some st);
         Some (True, st) }
     | Some (first_byte, last_byte, fin) \<Rightarrow> do {
         st \<leftarrow> (if hdr_rst hdr then rx_sync_rst env i st else Some st);
         if hdr_syn hdr then do { st \<leftarrow> rx_sync_syn env i m st; Some (True, st) }
         else if \<not> hdr_ack hdr then Some (True, st)
         else do {
           (cont, st) \<leftarrow> rx_sync_ack env i m st;
           case cont of
             None \<Rightarrow> Some (True, st)
           | Some flags \<Rightarrow> do {
               s \<leftarrow> socks st i;
               let (s, flags) = text_and_fin s m first_byte last_byte fin flags;
               st \<leftarrow> sock_trigger env i flags (put_sock i s st);
               Some (True, st) } } } }"

definition rx_dispatch ::
  "tcp_status \<Rightarrow> net_env \<Rightarrow> nat \<Rightarrow> net_msg \<Rightarrow> tcp_state \<Rightarrow> (bool \<times> tcp_state) option" where
  "rx_dispatch stat env i m st =
     (case stat of
        TCP_STATUS_CLOSED \<Rightarrow> rx_closed env i m st
      | TCP_STATUS_LISTEN \<Rightarrow> rx_listen env i m st
      | TCP_STATUS_SYN_SENT \<Rightarrow> rx_syn_sent env i m st
      | _ \<Rightarrow> rx_sync env i m st)"

definition net_msg_destroy :: "tcp_state \<Rightarrow> tcp_state" where
  "net_msg_destroy st = st\<lparr>msgs_destroyed := msgs_destroyed st + 1\<rparr>"

definition tcp_rx_msg :: "net_env \<Rightarrow> net_msg \<Rightarrow> tcp_state \<Rightarrow> tcp_state option" where
  "tcp_rx_msg env m st =
     (let hdr = msg_hdr m in
      if compute_checksum (seg_bytes m) (ip_length m) (ip_src m) (ip_dest m) \<noteq> 0 then Some st
      else do {
        (sock, st) \<leftarrow> locate_socket (ip_dest m) (hdr_dst_port hdr) (ip_src m) (hdr_src_port hdr) st;
        case sock of
          None \<Rightarrow>
            Some (net_msg_destroy
              (if \<not> hdr_rst hdr
               then emit (send_segment_nosock (net_msg_new env) (\<not> hdr_ack hdr) m (of_nat RCV_BUFFER_SIZE)) st
               else st))
        | Some i \<Rightarrow> do {
            st \<leftarrow> spinlock_get i st;
            s \<leftarrow> socks st i;
            s \<leftarrow> process_options s m;
            (left_switch, st) \<leftarrow> rx_dispatch (status s) env i m (put_sock i s st);
            if left_switch then do {
              st \<leftarrow> spinlock_release i st;
              tcp_release_socket i (net_msg_destroy st) }
            else Some st } })"

subsection \<open>Socket calls\<close>

definition tcp_send ::
  "(nat \<Rightarrow> bool) \<Rightarrow> socket \<Rightarrow> u8 list \<Rightarrow> (int \<times> socket \<times> net_msg list) option" where
  "tcp_send alloc s buffer =
     (if epipe s then Some (- EPIPE, s, [])
      else if snd_buffer_tail s - snd_buffer_head s = of_nat SND_BUFFER_SIZE then Some (- EAGAIN, s, [])
      else
        (let bytes = of_nat SND_BUFFER_SIZE - (snd_buffer_tail s - snd_buffer_head s) mod of_nat SND_BUFFER_SIZE;
             bytes = (if bytes > of_nat (length buffer) then of_nat (length buffer) else bytes);
             (buf, tail) = ring_put SND_BUFFER_SIZE (snd_buffer s) (snd_buffer_tail s)
                             (take (unat bytes) buffer)
         in do {
           (s, msgs) \<leftarrow> trigger_send alloc (s\<lparr>snd_buffer := buf, snd_buffer_tail := tail\<rparr>) no_flags;
           Some (int (unat bytes), s, msgs) }))"

text \<open>
  Receiving up to \<open>len\<close> bytes; \<open>peek\<close> is \<open>MSG_PEEK\<close>. The data copied to the
  caller is part of the result.
\<close>

definition tcp_recv ::
  "(nat \<Rightarrow> bool) \<Rightarrow> socket \<Rightarrow> u32 \<Rightarrow> bool \<Rightarrow> (int \<times> u8 list \<times> socket \<times> net_msg list) option" where
  "tcp_recv alloc s len peek =
     (if status_code TCP_STATUS_ESTABLISHED > status_code (status s) then Some (- ENOTCONN, [], s, [])
      else if timeout s then Some (- ETIMEDOUT, [], s, [])
      else if rcv_buffer_head s = rcv_buffer_tail s then
        (if eof s then Some (0, [], s, []) else Some (- EAGAIN, [], s, []))
      else
        (let bytes = min len (rcv_buffer_tail s - rcv_buffer_head s);
             data = ring_get RCV_BUFFER_SIZE (rcv_buffer s) (rcv_buffer_head s) (unat bytes)
         in if peek then Some (int (unat bytes), data, s, [])
            else do {
              (s, msgs) \<leftarrow> trigger_send alloc (s\<lparr>rcv_buffer_head := rcv_buffer_head s + bytes\<rparr>) no_flags;
              Some (int (unat bytes), data, s, msgs) }))"

text \<open>
  The variants with an address. \<open>addr\<close> says whether the caller passed a buffer for the
  address and \<open>addrlen\<close> what it passed for its length; the last component of the result
  is the address copied, cut to the given length, and the new length.
\<close>

definition tcp_sendto ::
  "(nat \<Rightarrow> bool) \<Rightarrow> socket \<Rightarrow> u8 list \<Rightarrow> (int \<times> socket \<times> net_msg list) option" where
  "tcp_sendto alloc s buffer = tcp_send alloc s buffer"

definition tcp_recvfrom ::
  "(nat \<Rightarrow> bool) \<Rightarrow> socket \<Rightarrow> u32 \<Rightarrow> bool \<Rightarrow> bool \<Rightarrow> u32 option
   \<Rightarrow> (int \<times> u8 list \<times> socket \<times> net_msg list \<times> (sockaddr_in \<times> u32 \<times> u32) option) option" where
  "tcp_recvfrom alloc s len peek addr addrlen = do {
     (rc, data, s, msgs) \<leftarrow> tcp_recv alloc s len peek;
     if rc < 0 then Some (rc, data, s, msgs, None)
     else if \<not> addr then Some (rc, data, s, msgs, None)
     else (case addrlen of
             None \<Rightarrow> Some (- EINVAL, data, s, msgs, None)
           | Some n \<Rightarrow> Some (rc, data, s, msgs, Some (faddr s, min 16 n, 16))) }"

definition tcp_connect ::
  "net_env \<Rightarrow> nat \<Rightarrow> sockaddr_in \<Rightarrow> nat \<Rightarrow> tcp_state \<Rightarrow> (int \<times> tcp_state) option" where
  "tcp_connect env i addr addrlen st =
     (if addrlen \<noteq> 16 then Some (- EINVAL, st)
      else do {
        s \<leftarrow> socks st i;
        if status s \<noteq> TCP_STATUS_CLOSED then Some (- EISCONN, st)
        else do {
          let s = set_isn env s;
          let st = put_sock i s st;
          (rc, st) \<leftarrow> (if \<not> bound s \<or> s_addr (laddr s) = INADDR_ANY
                       then set_local_address env i (s_addr addr) st else Some (0, st));
          if rc \<noteq> 0 then Some (- ENETUNREACH, st)
          else do {
            s \<leftarrow> socks st i;
            let s = s\<lparr>bound := True, faddr := addr\<rparr>;
            (rc, st) \<leftarrow> sock_ctrl env i False True False None (rcv_wnd s) (Some (rmss s)) (put_sock i s st);
            if rc \<noteq> 0 then Some (rc, st)
            else do {
              st \<leftarrow> upd_sock i (\<lambda>s. s\<lparr>status := TCP_STATUS_SYN_SENT\<rparr>) st;
              Some (- EAGAIN, st) } } } })"

subsection \<open>Timers\<close>

definition start_rtx :: "socket \<Rightarrow> socket" where
  "start_rtx tcb =
     (let tcb = (if backoff (rtx_timer tcb) < TCP_MAX_BACKOFF
                 then tcb\<lparr>rtx_timer := (rtx_timer tcb)\<lparr>backoff := backoff (rtx_timer tcb) + 1\<rparr>\<rparr> else tcb);
          tcb = (if tcp_options_cc tcb
                 then tcb\<lparr>ack_count := 0, cwnd := 1 * smss tcb, dupacks := 0,
                          ssthresh := max ((snd_max tcb - snd_una tcb) div 2) (2 * smss tcb)\<rparr> else tcb)
      in tcb\<lparr>snd_nxt := snd_una tcb\<rparr>)"

definition mark_timeout :: "socket \<Rightarrow> socket" where
  "mark_timeout s = s\<lparr>timeout := True, so_error := - ETIMEDOUT\<rparr>"

definition rtx_expired :: "net_env \<Rightarrow> nat \<Rightarrow> tcp_state \<Rightarrow> tcp_state option" where
  "rtx_expired env i st = do {
     s \<leftarrow> socks st i;
     if status s = TCP_STATUS_CLOSED \<or> status s = TCP_STATUS_LISTEN then Some st
     else if status s = TCP_STATUS_SYN_SENT \<or> status s = TCP_STATUS_SYN_RCVD then
       (if rtx_count s < SYN_MAX_RTX then do {
          let s = s\<lparr>snd_nxt := isn s, snd_una := isn s\<rparr>;
          (rc, st) \<leftarrow> sock_ctrl env i (status s \<noteq> TCP_STATUS_SYN_SENT) True False None (rcv_wnd s)
                         (Some (rmss s)) (put_sock i s st);
          upd_sock i (\<lambda>s. let b = backoff (rtx_timer s) + 1
                          in s\<lparr>rtx_timer := \<lparr>time = shl32 SYN_TIMEOUT b, backoff = b\<rparr>\<rparr>) st }
        else do {
          (rc, st) \<leftarrow> sock_ctrl env i (status s \<noteq> TCP_STATUS_SYN_SENT) False True None 0 None st;
          st \<leftarrow> upd_sock i mark_timeout st;
          drop_socket close_depth env i st })
     else
       (if rtx_count s \<ge> TCP_MAX_RTX \<and> snd_wnd s \<noteq> 0 then do {
          (rc, st) \<leftarrow> sock_ctrl env i True False True None 0 None st;
          st \<leftarrow> upd_sock i mark_timeout st;
          drop_socket close_depth env i st }
        else sock_trigger env i (no_flags\<lparr>OF_FORCE := True\<rparr>) (put_sock i (start_rtx s) st)) }"

text \<open>The four timers of a socket, one after the other; each may send and so change the next.\<close>

definition tick_rtt :: "socket \<Rightarrow> socket" where
  "tick_rtt s = (if current_rtt s \<noteq> RTT_NONE then s\<lparr>current_rtt := current_rtt s + 1\<rparr> else s)"

definition tick_rtx :: "net_env \<Rightarrow> nat \<Rightarrow> tcp_state \<Rightarrow> tcp_state option" where
  "tick_rtx env i st = do {
     s \<leftarrow> socks st i;
     let t = time (rtx_timer s);
     if t = 0 then Some st
     else do {
       let st = put_sock i (s\<lparr>rtx_timer := (rtx_timer s)\<lparr>time := t - 1\<rparr>\<rparr>) st;
       if t - 1 = 0 then rtx_expired env i st else Some st } }"

definition tick_delack :: "net_env \<Rightarrow> nat \<Rightarrow> tcp_state \<Rightarrow> tcp_state option" where
  "tick_delack env i st = do {
     s \<leftarrow> socks st i;
     let t = time (delack_timer s);
     if t = 0 then Some st
     else do {
       let st = put_sock i (s\<lparr>delack_timer := (delack_timer s)\<lparr>time := t - 1\<rparr>\<rparr>) st;
       if t - 1 = 0 then sock_trigger env i (no_flags\<lparr>OF_FORCE := True\<rparr>) st else Some st } }"

definition tick_persist :: "net_env \<Rightarrow> nat \<Rightarrow> tcp_state \<Rightarrow> tcp_state option" where
  "tick_persist env i st = do {
     s \<leftarrow> socks st i;
     let t = time (persist_timer s);
     if t = 0 then Some st
     else do {
       let s = s\<lparr>persist_timer := (persist_timer s)\<lparr>time := t - 1\<rparr>\<rparr>;
       if t - 1 = 0
       then sock_trigger env i (no_flags\<lparr>OF_FORCE := True\<rparr>)
              (put_sock i (s\<lparr>rtx_timer := (rtx_timer s)\<lparr>backoff := backoff (rtx_timer s) + 1\<rparr>\<rparr>) st)
       else Some (put_sock i s st) } }"

definition tick_time_wait :: "net_env \<Rightarrow> nat \<Rightarrow> tcp_state \<Rightarrow> tcp_state option" where
  "tick_time_wait env i st = do {
     s \<leftarrow> socks st i;
     let t = time (time_wait_timer s);
     if t = 0 then Some st
     else do {
       let st = put_sock i (s\<lparr>time_wait_timer := (time_wait_timer s)\<lparr>time := t - 1\<rparr>\<rparr>) st;
       if t - 1 = 0 then drop_socket close_depth env i st else Some st } }"

definition process_timers :: "net_env \<Rightarrow> nat \<Rightarrow> tcp_state \<Rightarrow> tcp_state option" where
  "process_timers env i st = do {
     st \<leftarrow> spinlock_get i st;
     s \<leftarrow> socks st i;
     if status s = TCP_STATUS_CLOSED then spinlock_release i st
     else do {
       st \<leftarrow> upd_sock i tick_rtt st;
       st \<leftarrow> tick_rtx env i st;
       st \<leftarrow> tick_delack env i st;
       st \<leftarrow> tick_persist env i st;
       st \<leftarrow> tick_time_wait env i st;
       spinlock_release i st } }"

text \<open>A tick works on a copy of the list, with a reference on each socket of it.\<close>

fun clone_all :: "nat list \<Rightarrow> tcp_state \<Rightarrow> tcp_state option" where
  "clone_all [] st = Some st"
| "clone_all (i # is) st = do { st \<leftarrow> clone_socket i st; clone_all is st }"

fun tick_all :: "net_env \<Rightarrow> nat list \<Rightarrow> tcp_state \<Rightarrow> tcp_state option" where
  "tick_all env [] st = Some st"
| "tick_all env (i # is) st = do {
     st \<leftarrow> process_timers env i st;
     st \<leftarrow> tcp_release_socket i st;
     tick_all env is st }"

definition tcp_do_tick :: "net_env \<Rightarrow> tcp_state \<Rightarrow> tcp_state option" where
  "tcp_do_tick env st = do {
     let sockets = take MAX_TCP_SOCKETS (socket_list st);
     st \<leftarrow> clone_all sockets st;
     tick_all env sockets st }"

end
