(* ===== verification/Tcp_Send.thy ===== *)
theory Tcp_Send
  imports Tcp_Output
begin

text \<open>
  Properties of \<open>trigger_send\<close>. The invariant \<open>snd_ok\<close> ties the sequence numbers of a
  socket to its send buffer; under it the loop ends, every segment it sends carries the bytes
  of the send buffer that belong to its sequence number, consecutive segments are
  consecutive in the stream, nothing is sent beyond the window of the peer (probes of a
  closed window apart), and the invariant is kept.
\<close>

subsection \<open>The invariant\<close>

definition snd_ok :: "socket \<Rightarrow> bool" where
  "snd_ok s \<longleftrightarrow>
     unat (snd_buffer_tail s - snd_buffer_head s) \<le> SND_BUFFER_SIZE
     \<and> unat (snd_nxt s - snd_una s) \<le> unat (snd_max s - snd_una s)
     \<and> unat (snd_max s - snd_una s) \<le> unat (snd_buffer_tail s - snd_buffer_head s) + of_bool (fin_sent s)"

text \<open>A socket in the data transfer phase that has not sent a FIN yet.\<close>

definition send_ready :: "socket \<Rightarrow> bool" where
  "send_ready s \<longleftrightarrow> snd_ok s \<and> \<not> fin_sent s
     \<and> status s \<noteq> TCP_STATUS_SYN_SENT \<and> status s \<noteq> TCP_STATUS_SYN_RCVD
     \<and> 0 < smss s \<and> smss s < 65536 \<and> snd_wnd s < 65536"

abbreviation snd_off :: "socket \<Rightarrow> nat" where "snd_off s \<equiv> unat (snd_nxt s - snd_una s)"
abbreviation snd_used :: "socket \<Rightarrow> nat" where "snd_used s \<equiv> unat (snd_buffer_tail s - snd_buffer_head s)"

lemma length_snd_content [simp]: "length (snd_content s) = snd_used s"
  by (simp add: snd_content_def)

lemma unat_unsent_bytes:
  assumes "send_ready s"
  shows "unat (unsent_bytes s) = snd_used s - snd_off s" and "snd_off s \<le> snd_used s"
proof -
  show le: "snd_off s \<le> snd_used s"
    using assms by (auto simp: send_ready_def snd_ok_def)
  then have "snd_nxt s - snd_una s \<le> snd_buffer_tail s - snd_buffer_head s"
    by (simp add: word_le_nat_alt)
  then show "unat (unsent_bytes s) = snd_used s - snd_off s"
    using assms by (simp add: unsent_bytes_def send_ready_def unat_sub)
qed

text \<open>The window the peer and the congestion control leave us, counted from \<open>snd_una\<close>.\<close>

definition send_window :: "socket \<Rightarrow> nat" where
  "send_window s = (if tcp_options_cc s then min (unat (snd_wnd s)) (unat (cwnd s)) else unat (snd_wnd s))"

lemma unat_usable_window:
  assumes "send_ready s"
  shows "unat (usable_window s flags) \<le> send_window s - snd_off s"
    and "snd_wnd s = 0 \<Longrightarrow> usable_window s flags = 0"
proof -
  define win where "win = (let win = snd_wnd s;
          win = (if tcp_options_cc s \<and> win > cwnd s then cwnd s else win)
      in if win > smss s \<and> OF_FAST flags then smss s else win)"
  have win: "unat win \<le> send_window s" and small: "unat win < 65536"
    and zero: "snd_wnd s = 0 \<Longrightarrow> win = 0"
    using assms by (auto simp: win_def send_window_def Let_def send_ready_def word_less_nat_alt word_unat_eq_iff)
  have off: "snd_off s \<le> 65536" using assms by (auto simp: send_ready_def snd_ok_def)
  have "unat (snd_una s + win - snd_nxt s) = unat win - snd_off s \<and> snd_off s < unat win"
    if "TCP_GT (snd_una s + win) (snd_nxt s)"
  proof -
    have d: "snd_una s + win - snd_nxt s = win - (snd_nxt s - snd_una s)" by simp
    from that have lt: "unat (win - (snd_nxt s - snd_una s)) < 2147483648" "win \<noteq> snd_nxt s - snd_una s"
      by (auto simp: seq_iff d)
    have "snd_nxt s - snd_una s \<le> win"
    proof (rule ccontr)
      assume "\<not> snd_nxt s - snd_una s \<le> win"
      then have "unat win < snd_off s" by (simp add: word_le_nat_alt)
      then have "unat (win - (snd_nxt s - snd_una s)) = 4294967296 + unat win - snd_off s"
        by (simp add: unat_sub_if')
      with lt(1) off show False by linarith
    qed
    then show ?thesis using lt(2) by (simp only: d unat_sub) (simp add: word_le_nat_alt word_unat_eq_iff)
  qed
  then show "unat (usable_window s flags) \<le> send_window s - snd_off s"
    and "snd_wnd s = 0 \<Longrightarrow> usable_window s flags = 0"
    using win zero by (fastforce simp: usable_window_def win_def Let_def)+
qed

subsection \<open>One round of the loop\<close>

lemma unat_plus_bit:
  assumes "unat (d :: u32) \<le> 65536"
  shows "unat (d + of_bool b) = unat d + of_bool b"
  using assms by (cases b) (simp_all add: unat_add_no_wrap)

lemma seg_size_bounds:
  assumes ready: "send_ready s" and size: "seg_size s flags = (d, f, c)"
  shows "unat d \<le> snd_used s - snd_off s"
    and "f = 0 \<or> f = 1 \<and> need_fin s \<and> d = unsent_bytes s \<and> \<not> c"
    and "unat d + unat f \<le> unat (usable_window s flags)"
    and "c \<Longrightarrow> d = 0 \<Longrightarrow> usable_window s flags = 0"
proof -
  let ?u = "usable_window s flags" and ?n = "unsent_bytes s" and ?b = "of_bool (need_fin s) :: u32"
  note n = unat_unsent_bytes [OF ready]
  have small: "snd_used s \<le> 65536" and m: "0 < unat (smss s)" "unat (smss s) < 65536"
    using ready by (simp_all add: send_ready_def snd_ok_def word_less_nat_alt)
  define d0 where "d0 = mss_bytes s"
  have d0: "unat d0 \<le> unat ?n" "unat d0 \<le> 65536" "d0 < ?n \<longleftrightarrow> smss s < ?n" "smss s < ?n \<Longrightarrow> d0 = smss s"
    using n small by (auto simp: d0_def mss_bytes_def word_less_nat_alt)
  have sum: "unat (d0 + ?b) = unat d0 + of_bool (need_fin s)"
    using d0(2) by (rule unat_plus_bit)
  have bit: "(of_bool (need_fin s) :: nat) \<le> 1" by simp
  have eq: "(d, f, c) =
      (if d0 + ?b > ?u then (if ?u < ?n then (?u, 0, True) else (?u, 0, True))
       else if d0 < ?n then (d0, 0, True) else (d0, ?b, False))"
    using size [symmetric] by (auto simp: seg_size_def Let_def d0_def mss_bytes_def split: if_splits)
  show "unat d \<le> snd_used s - snd_off s"
    and "f = 0 \<or> f = 1 \<and> need_fin s \<and> d = unsent_bytes s \<and> \<not> c"
    and "unat d + unat f \<le> unat ?u"
    and "c \<Longrightarrow> d = 0 \<Longrightarrow> ?u = 0"
    using eq d0 sum m n(1) bit
    by (auto simp: word_less_nat_alt word_le_nat_alt word_unat_eq_iff split: if_splits)
qed

lemma probe_size_bounds:
  assumes ready: "send_ready s" and size: "seg_size s flags0 = sz"
    and probe: "probe_size s flags (usable_window s flags0) sz = (d, f, c)"
  shows "unat d \<le> snd_used s - snd_off s"
    and "f = 0 \<or> f = 1 \<and> \<not> c"
    and "unat d + unat f = 0 \<or> snd_off s + unat d + unat f \<le> send_window s
         \<or> snd_wnd s = 0 \<and> OF_FORCE flags \<and> unat d + unat f \<le> 1"
    and "c \<Longrightarrow> d \<noteq> 0 \<and> snd_wnd s \<noteq> 0"
proof -
  obtain d0 f0 c0 where sz: "sz = (d0, f0, c0)" by (cases sz)
  let ?u = "usable_window s flags0"
  note b = seg_size_bounds [OF ready, of flags0 d0 f0 c0] and u = unat_usable_window [OF ready, of flags0]
    and n = unat_unsent_bytes [OF ready]
  have s0: "seg_size s flags0 = (d0, f0, c0)" using size sz by simp
  note b = b [OF s0]
  have c: "c \<longleftrightarrow> \<not> OF_NODATA flags \<and> c0 \<and> ?u \<noteq> 0"
    and d: "d = (if unsent_bytes s \<noteq> 0 \<and> OF_FORCE flags \<and> snd_wnd s = 0 then 1
                 else if OF_NODATA flags then 0 else d0)"
    and f: "f = (if d = 0 \<and> OF_FORCE flags \<and> snd_wnd s = 0 \<and> need_fin s then 1 else f0)"
    using probe by (auto simp: probe_size_def sz Let_def split: if_splits)
  have zero: "d0 = 0 \<and> f0 = 0" if "snd_wnd s = 0"
    using b(3) u(2) [OF that] by (simp add: word_unat_eq_iff)
  have win: "unat d0 + unat f0 = 0 \<or> snd_off s + unat d0 + unat f0 \<le> send_window s"
    using b(3) u(1) by linarith
  have pos: "unsent_bytes s \<noteq> 0 \<Longrightarrow> 1 \<le> snd_used s - snd_off s"
    using n(1) by (simp add: word_unat_eq_iff)
  show "unat d \<le> snd_used s - snd_off s" using d b(1) pos by auto
  show "f = 0 \<or> f = 1 \<and> \<not> c" using f c b(2) u(2) by auto
  show "unat d + unat f = 0 \<or> snd_off s + unat d + unat f \<le> send_window s
        \<or> snd_wnd s = 0 \<and> OF_FORCE flags \<and> unat d + unat f \<le> 1"
    using d f win zero by (auto split: if_splits)
  show "c \<Longrightarrow> d \<noteq> 0 \<and> snd_wnd s \<noteq> 0"
    using c d b(4) u(2) by auto
qed

text \<open>A fast retransmit starts at \<open>snd_una\<close>.\<close>

definition round_base :: "socket \<Rightarrow> outflags \<Rightarrow> socket" where
  "round_base s flags = (if OF_FAST flags then s\<lparr>snd_nxt := snd_una s\<rparr> else s)"

lemma round_base_ready: "send_ready s \<Longrightarrow> send_ready (round_base s flags)"
  by (auto simp: round_base_def send_ready_def snd_ok_def)

lemma round_base_frame [frame_simps]:
  "snd_una (round_base s flags) = snd_una s" "snd_max (round_base s flags) = snd_max s"
  "snd_wnd (round_base s flags) = snd_wnd s" "snd_content (round_base s flags) = snd_content s"
  "snd_buffer_head (round_base s flags) = snd_buffer_head s"
  "snd_buffer_tail (round_base s flags) = snd_buffer_tail s"
  "snd_buffer (round_base s flags) = snd_buffer s" "smss (round_base s flags) = smss s"
  "status (round_base s flags) = status s" "fin_sent (round_base s flags) = fin_sent s"
  "send_window (round_base s flags) = send_window s"
  by (simp_all add: round_base_def snd_content_def send_window_def)

lemma set_persist_timer_frame [frame_simps]:
  "unsent_bytes (set_persist_timer b s) = unsent_bytes s"
  "need_fin (set_persist_timer b s) = need_fin s"
  "probe_size (set_persist_timer b s) = probe_size s"
  "create_segment (set_persist_timer b s) = create_segment s"
  "snd_una (set_persist_timer b s) = snd_una s" "snd_nxt (set_persist_timer b s) = snd_nxt s"
  "snd_max (set_persist_timer b s) = snd_max s" "snd_wnd (set_persist_timer b s) = snd_wnd s"
  "snd_buffer (set_persist_timer b s) = snd_buffer s" "smss (set_persist_timer b s) = smss s"
  "snd_buffer_head (set_persist_timer b s) = snd_buffer_head s"
  "snd_buffer_tail (set_persist_timer b s) = snd_buffer_tail s"
  "status (set_persist_timer b s) = status s" "fin_sent (set_persist_timer b s) = fin_sent s"
  "laddr (set_persist_timer b s) = laddr s" "faddr (set_persist_timer b s) = faddr s"
  "cwnd (set_persist_timer b s) = cwnd s" "tcp_options_cc (set_persist_timer b s) = tcp_options_cc s"
  by (simp_all add: set_persist_timer_def unsent_bytes_def need_fin_def probe_size_def
      create_segment_def fun_eq_iff split: option.split)

lemma compute_win_flags [frame_simps]:
  "OF_FAST (snd (compute_win s flags)) = OF_FAST flags"
  "OF_NODATA (snd (compute_win s flags)) = OF_NODATA flags"
  by (simp_all add: compute_win_def Let_def case_prod_unfold)

text \<open>The segment a round sends.\<close>

abbreviation round_msg :: "socket \<Rightarrow> bool \<Rightarrow> bool \<Rightarrow> u32 \<Rightarrow> u32 \<Rightarrow> net_msg" where
  "round_msg t push fin d w \<equiv>
     finish_segment (create_segment t 0 None False) True False False push fin []
       (ring_get SND_BUFFER_SIZE (snd_buffer t) (snd_buffer_head t + snd_nxt t - snd_una t) (unat d))
       w (s_addr (laddr t)) (s_addr (faddr t))"

text \<open>Where \<open>snd_nxt\<close> ends up: a probe and a fast retransmit do not move it.\<close>

definition round_nxt :: "socket \<Rightarrow> outflags \<Rightarrow> bool \<Rightarrow> u32 \<Rightarrow> u32" where
  "round_nxt s flags force q =
     (let q = (if snd_wnd s = 0 \<and> force \<and> q = snd_una s + 1 then snd_una s else q)
      in if OF_FAST flags \<and> TCP_LT q (snd_nxt s) then snd_nxt s else q)"

lemma round_cases:
  assumes r: "trigger_send_round alloc s flags = (s', msgs, flags', cont)" and alloc: "\<And>n. alloc n"
  obtains (idle) send where "msgs = []" "\<not> cont" "s' = set_persist_timer send (round_base s flags)"
  | (sent) send push d f c w flags1 where
      "msgs = [round_msg (round_base s flags) push (f \<noteq> 0) d w]"
      "probe_size (round_base s flags) flags1 (usable_window (round_base s flags) flags)
         (seg_size (round_base s flags) flags) = (d, f, c)"
      "s' = (segment_sent (set_persist_timer send (round_base s flags)) True False (f \<noteq> 0)
               (snd_nxt (round_base s flags)) d w)
             \<lparr>snd_nxt := round_nxt s flags (OF_FORCE flags1)
                (snd_nxt (round_base s flags) + of_bool (f \<noteq> 0) + d)\<rparr>"
      "cont \<longleftrightarrow> c \<and> \<not> OF_FAST flags" "OF_FAST flags' = OF_FAST flags"
proof -
  let ?b = "round_base s flags"
  obtain w fl where cw: "compute_win ?b flags = (w, fl)" by fastforce
  have fast: "OF_FAST fl = OF_FAST flags"
    using compute_win_flags(1) [of ?b flags] by (simp add: cw)
  let ?u = "usable_window ?b flags" and ?sz = "seg_size ?b flags"
  let ?send = "sws_send ?b fl (mss_bytes ?b) (of_bool (need_fin ?b)) ?u"
  let ?t = "set_persist_timer ?send ?b"
  obtain d f c where pr: "probe_size ?b fl ?u ?sz = (d, f, c)" by (cases "probe_size ?b fl ?u ?sz")
  define fl2 where "fl2 = (if d = unsent_bytes ?b \<and> d > 0 then fl\<lparr>OF_PUSH := True\<rparr> else fl)"
  have fl2: "OF_FORCE fl2 = OF_FORCE fl" "OF_FAST fl2 = OF_FAST flags" by (simp_all add: fl2_def fast)
  let ?t2 = "segment_sent ?t True False (f \<noteq> 0) (snd_nxt ?b) d w"
  have send: "send_segment alloc ?t True False False (OF_PUSH fl2) (f \<noteq> 0) None
      (snd_buffer ?t) (snd_buffer_head ?t + snd_nxt ?t - snd_una ?t) SND_BUFFER_SIZE d w None
      = (0, ?t2, [round_msg ?b (OF_PUSH fl2) (f \<noteq> 0) d w])"
    by (simp add: send_segment_def alloc Let_def mss_option_def frame_simps create_segment_def)
  have eq: "trigger_send_round alloc s flags =
      (if (\<not> ?send \<or> fst ?sz + fst (snd ?sz) = 0) \<and> \<not> OF_FORCE fl then (?t, [], fl, False)
       else (?t2\<lparr>snd_nxt := round_nxt s flags (OF_FORCE fl) (snd_nxt ?b + of_bool (f \<noteq> 0) + d)\<rparr>,
             [round_msg ?b (OF_PUSH fl2) (f \<noteq> 0) d w], fl2\<lparr>OF_FORCE := False\<rparr>,
             c \<and> \<not> OF_FAST flags))"
    unfolding trigger_send_round_def Let_def round_base_def [symmetric] cw prod.case pr
      set_persist_timer_frame(1,3) fl2_def [symmetric] send
    by (simp add: fl2 frame_simps round_nxt_def Let_def)
  show thesis
  proof (cases "(\<not> ?send \<or> fst ?sz + fst (snd ?sz) = 0) \<and> \<not> OF_FORCE fl")
    case True
    then show thesis using r eq by (intro idle) auto
  next
    case False
    then have "s' = ?t2\<lparr>snd_nxt := round_nxt s flags (OF_FORCE fl) (snd_nxt ?b + of_bool (f \<noteq> 0) + d)\<rparr>"
      "msgs = [round_msg ?b (OF_PUSH fl2) (f \<noteq> 0) d w]" "flags' = fl2\<lparr>OF_FORCE := False\<rparr>"
      "cont \<longleftrightarrow> c \<and> \<not> OF_FAST flags"
      using r eq by auto
    then show thesis using sent [OF _ pr] fl2 by auto
  qed
qed

text \<open>What the segment of a round carries.\<close>

definition payload :: "net_msg \<Rightarrow> u8 list" where
  "payload m = drop sizeof_tcp_hdr (seg_bytes m)"

lemma round_msg_seq: "seg_seq (round_msg t push fin d w) = snd_nxt t"
proof -
  obtain c where "msg_hdr (round_msg t push fin d w)
      = finished_hdr (create_segment t 0 None False) True False False push fin w c"
    using finish_segment_hdr by blast
  then show ?thesis by (simp add: seg_seq_def finished_hdr_def create_segment_def)
qed

lemma round_msg_payload:
  assumes "unat d \<le> snd_used t - snd_off t" and "snd_off t \<le> snd_used t"
  shows "payload (round_msg t push fin d w) = take (unat d) (drop (snd_off t) (snd_content t))"
proof -
  let ?pay = "ring_get SND_BUFFER_SIZE (snd_buffer t) (snd_buffer_head t + snd_nxt t - snd_una t) (unat d)"
  obtain c where "seg_bytes (round_msg t push fin d w)
      = tcp_hdr_bytes (finished_hdr (create_segment t 0 None False) True False False push fin w c) @ [] @ ?pay"
    using finish_segment_bytes by blast
  then have pay: "payload (round_msg t push fin d w) = ?pay" by (simp add: payload_def)
  have pos: "snd_buffer_head t + snd_nxt t - snd_una t = snd_buffer_head t + of_nat (snd_off t)"
    by simp
  have "?pay = take (unat d) (drop (snd_off t) (snd_content t))"
    unfolding pos using assms by (simp add: snd_content_def ring_simps del: of_nat_unat)
  with pay show ?thesis by (rule trans)
qed

subsection \<open>The invariant is kept\<close>

lemma unat_off_advance:
  fixes q u d :: u32
  assumes "unat (q - u) + of_bool f + unat d < 4294967296"
  shows "unat (q + of_bool f + d - u) = unat (q - u) + of_bool f + unat d"
  using assms unat_diff_advance [of q u "of_bool f + unat d"] by (simp add: algebra_simps)

lemma segment_sent_snd_ok:
  assumes ok: "snd_ok b" and new: "\<not> fin_sent b" and d: "snd_off b + unat d \<le> snd_used b"
    and q: "q = snd_una b \<or> q = snd_nxt b + of_bool f + d \<or> unat (q - snd_una b) \<le> unat (snd_max b - snd_una b)"
  shows "snd_ok ((segment_sent b ack False f n d w)\<lparr>snd_nxt := q\<rparr>)"
proof -
  let ?q = "snd_nxt b + of_bool f + d"
  have small: "snd_used b \<le> 65536" and max: "unat (snd_max b - snd_una b) \<le> snd_used b"
    using ok new by (simp_all add: snd_ok_def)
  have off: "unat (?q - snd_una b) = snd_off b + of_bool f + unat d"
    by (rule unat_off_advance) (use d small in \<open>simp add: of_bool_def\<close>)
  have gt: "TCP_GT ?q (snd_max b) \<longleftrightarrow> unat (snd_max b - snd_una b) < unat (?q - snd_una b)"
    unfolding TCP_GT_LT using off max small d by (intro TCP_LT_dist) (simp_all add: of_bool_def)
  show ?thesis
    using q off gt max small d new
    by (auto simp: snd_ok_def frame_simps of_bool_def split: if_splits)
qed

subsection \<open>Specification of the output\<close>

text \<open>
  \<open>stream_from q bs msgs\<close>: the segments carry consecutive pieces of the stream \<open>bs\<close>
  whose first byte has sequence number \<open>q\<close>.
\<close>

fun stream_from :: "u32 \<Rightarrow> u8 list \<Rightarrow> net_msg list \<Rightarrow> bool" where
  "stream_from q bs [] \<longleftrightarrow> True"
| "stream_from q bs (m # ms) \<longleftrightarrow>
     seg_seq m = q \<and> payload m = take (length (payload m)) bs
     \<and> stream_from (q + of_nat (length (payload m))) (drop (length (payload m)) bs) ms"

definition in_window :: "socket \<Rightarrow> net_msg \<Rightarrow> bool" where
  "in_window s m \<longleftrightarrow>
     payload m = []
     \<or> unat (seg_seq m - snd_una s) + length (payload m) \<le> send_window s
     \<or> snd_wnd s = 0 \<and> length (payload m) \<le> 1"

lemma segment_sent_content [frame_simps]:
  "snd_content (segment_sent s ack syn fin q n w) = snd_content s"
  "snd_content (s\<lparr>snd_nxt := x\<rparr>) = snd_content s"
  "snd_content (set_persist_timer b s) = snd_content s"
  "send_window (segment_sent s ack syn fin q n w) = send_window s"
  "send_window (s\<lparr>snd_nxt := x\<rparr>) = send_window s"
  "send_window (set_persist_timer b s) = send_window s"
  by (simp_all add: snd_content_def send_window_def frame_simps)

text \<open>What one round does, given the invariant.\<close>

definition round_ok :: "socket \<Rightarrow> outflags \<Rightarrow> socket \<Rightarrow> net_msg list \<Rightarrow> bool" where
  "round_ok s flags s' msgs \<longleftrightarrow>
     snd_ok s' \<and> snd_una s' = snd_una s \<and> snd_content s' = snd_content s
     \<and> snd_wnd s' = snd_wnd s \<and> send_window s' = send_window s
     \<and> stream_from (snd_nxt (round_base s flags)) (drop (snd_off (round_base s flags)) (snd_content s)) msgs
     \<and> (\<forall>m \<in> set msgs. in_window s m)"

lemma round_idle:
  assumes "send_ready s"
  shows "round_ok s flags (set_persist_timer send (round_base s flags)) []"
  using round_base_ready [OF assms, of flags]
  by (auto simp: round_ok_def frame_simps send_ready_def snd_ok_def)

lemma round_sent:
  assumes ready: "send_ready s" and msg: "msgs = [round_msg (round_base s flags) push (f \<noteq> 0) d w]"
    and size: "probe_size (round_base s flags) flags1 (usable_window (round_base s flags) flags)
         (seg_size (round_base s flags) flags) = (d, f, c)"
    and s': "s' = (segment_sent (set_persist_timer send (round_base s flags)) True False (f \<noteq> 0)
               (snd_nxt (round_base s flags)) d w)
             \<lparr>snd_nxt := round_nxt s flags (OF_FORCE flags1)
                (snd_nxt (round_base s flags) + of_bool (f \<noteq> 0) + d)\<rparr>"
  shows "round_ok s flags s' msgs"
proof -
  let ?b = "round_base s flags" and ?p = "set_persist_timer send (round_base s flags)"
  note b = round_base_ready [OF ready, of flags]
  note size = probe_size_bounds [OF b refl size]
  have le: "snd_off ?b \<le> snd_used ?b" using unat_unsent_bytes(2) [OF b] .
  define m where "m = round_msg ?b push (f \<noteq> 0) d w"
  have ms: "msgs = [m]" using msg by (simp only: m_def)
  have seq: "seg_seq m = snd_nxt ?b" unfolding m_def by (rule round_msg_seq)
  have pay: "payload m = take (unat d) (drop (snd_off ?b) (snd_content ?b))"
    unfolding m_def by (rule round_msg_payload) (use size(1) le in auto)
  have len: "length (payload m) = unat d"
    unfolding pay using size(1) le by (simp add: frame_simps)
  have "stream_from (snd_nxt ?b) (drop (snd_off ?b) (snd_content s)) msgs"
    using pay seq len by (simp add: ms frame_simps)
  moreover have "\<forall>m \<in> set msgs. in_window s m"
    using size(3) len seq by (auto simp: ms in_window_def frame_simps)
  moreover have "snd_ok s'"
    unfolding s'
  proof (rule segment_sent_snd_ok)
    show "snd_ok ?p" "\<not> fin_sent ?p" "snd_off ?p + unat d \<le> snd_used ?p"
      using b size(1) le by (auto simp: send_ready_def snd_ok_def frame_simps)
    have "unat (snd_nxt s - snd_una s) \<le> unat (snd_max s - snd_una s)"
      using ready by (simp add: send_ready_def snd_ok_def)
    then show "round_nxt s flags (OF_FORCE flags1) (snd_nxt ?b + of_bool (f \<noteq> 0) + d) = snd_una ?p
        \<or> round_nxt s flags (OF_FORCE flags1) (snd_nxt ?b + of_bool (f \<noteq> 0) + d)
            = snd_nxt ?p + of_bool (f \<noteq> 0) + d
        \<or> unat (round_nxt s flags (OF_FORCE flags1) (snd_nxt ?b + of_bool (f \<noteq> 0) + d) - snd_una ?p)
            \<le> unat (snd_max ?p - snd_una ?p)"
      by (simp add: round_nxt_def Let_def frame_simps)
  qed
  ultimately show ?thesis by (simp add: round_ok_def s' frame_simps)
qed

text \<open>If there is another round, this one sent data, and the next starts where it ended.\<close>

lemma round_cont:
  assumes ready: "send_ready s" and c: "c" and fast: "\<not> OF_FAST flags"
    and size: "probe_size s flags1 (usable_window s flags) (seg_size s flags) = (d, f, c)"
    and s': "s' = (segment_sent (set_persist_timer send s) True False (f \<noteq> 0) (snd_nxt s) d w)
             \<lparr>snd_nxt := round_nxt s flags (OF_FORCE flags1) (snd_nxt s + of_bool (f \<noteq> 0) + d)\<rparr>"
    and ok: "snd_ok s'"
  shows "send_ready s'" and "snd_nxt s' = snd_nxt s + d" and "snd_off s' = snd_off s + unat d"
    and "unat (unsent_bytes s') < unat (unsent_bytes s)"
proof -
  note b = probe_size_bounds [OF ready refl size]
  have f: "f = 0" and d: "d \<noteq> 0" "snd_wnd s \<noteq> 0" using b(2,4) c by auto
  show nxt: "snd_nxt s' = snd_nxt s + d"
    using fast d by (simp add: s' f round_nxt_def)
  show ready': "send_ready s'"
    using ready ok by (simp add: send_ready_def s' f frame_simps)
  have le: "snd_off s \<le> snd_used s" and small: "snd_used s \<le> 65536"
    using ready unat_unsent_bytes(2) [OF ready] by (simp_all add: send_ready_def snd_ok_def)
  have una: "snd_una s' = snd_una s" and used: "snd_used s' = snd_used s" by (simp_all add: s' frame_simps)
  have "snd_off s + of_bool False + unat d < 4294967296" using b(1) le small by simp
  from unat_off_advance [OF this] show off: "snd_off s' = snd_off s + unat d"
    by (simp add: nxt una)
  have "0 < unat d" using d(1) by (simp add: word_unat_eq_iff)
  then show "unat (unsent_bytes s') < unat (unsent_bytes s)"
    unfolding unat_unsent_bytes(1) [OF ready] unat_unsent_bytes(1) [OF ready'] used off
    using b(1) le by linarith
qed

lemma round_msg_length:
  assumes ready: "send_ready t" and "probe_size t flags1 (usable_window t flags) (seg_size t flags) = (d, f, c)"
  shows "length (payload (round_msg t push fin d w)) = unat d"
  using round_msg_payload [of d t push fin w] probe_size_bounds(1) [OF ready refl assms(2)]
    unat_unsent_bytes(2) [OF ready] by simp

lemma round_ok_trans:
  assumes r1: "round_ok s flags s1 [m]" and fast: "\<not> OF_FAST flags" "\<not> OF_FAST flags1"
    and nxt: "snd_nxt s1 = snd_nxt s + of_nat (length (payload m))"
    and off: "snd_off s1 = snd_off s + length (payload m)"
    and r2: "round_ok s1 flags1 s' ms"
  shows "round_ok s flags s' (m # ms)"
  using r1 r2 fast nxt off
  by (auto simp: round_ok_def round_base_def in_window_def add.commute)

subsection \<open>The loop\<close>

lemma loop_ok:
  assumes alloc: "\<And>n. alloc n"
  shows "send_ready s \<Longrightarrow>
    \<exists>s' msgs. trigger_send_loop alloc s flags out = Some (s', out @ msgs) \<and> round_ok s flags s' msgs"
proof (induction "unat (unsent_bytes s)" arbitrary: s flags out rule: less_induct)
  case less
  obtain s1 msgs flags1 cont where r: "trigger_send_round alloc s flags = (s1, msgs, flags1, cont)"
    by (metis prod_cases4)
  from r alloc show ?case
  proof (cases rule: round_cases)
    case (idle send)
    then show ?thesis
      using round_idle [OF less.prems, of flags send] r
      by (subst trigger_send_loop.simps) auto
  next
    case (sent send push d f c w flags2)
    have ok: "round_ok s flags s1 msgs"
      using round_sent [OF less.prems sent(1,2,3)] .
    show ?thesis
    proof (cases cont)
      case False
      then show ?thesis using ok r by (subst trigger_send_loop.simps) auto
    next
      case True
      then have c: "c" and fast: "\<not> OF_FAST flags" using sent(4) by auto
      have base: "round_base s flags = s" using fast by (simp add: round_base_def)
      have "snd_ok s1" using ok by (simp add: round_ok_def)
      note step = round_cont [OF less.prems c fast sent(2,3) [unfolded base] this]
      obtain s' ms where l: "trigger_send_loop alloc s1 flags1 (out @ msgs) = Some (s', (out @ msgs) @ ms)"
        and ok': "round_ok s1 flags1 s' ms"
        using less.hyps [OF step(4,1), of flags1 "out @ msgs"] by blast
      let ?m = "round_msg s push (f \<noteq> 0) d w"
      have m: "msgs = [?m]" using sent(1) by (simp only: base)
      have "length (payload ?m) = unat d"
        using round_msg_length [OF less.prems sent(2) [unfolded base]] .
      then have "round_ok s flags s' (?m # ms)"
        using round_ok_trans [OF ok [unfolded m] fast _ _ _ ok'] step(2,3) sent(5) fast by auto
      then have "round_ok s flags s' (msgs @ ms)" by (simp only: m append.simps)
      then show ?thesis using l r True by (subst trigger_send_loop.simps) auto
    qed
  qed
qed

subsection \<open>Properties\<close>


text \<open>A connection with 1000 bytes to send, the first 600 of them sent but not acknowledged.\<close>

definition busy_socket :: socket where
  "busy_socket = (fresh_socket True)
     \<lparr>status := TCP_STATUS_ESTABLISHED, snd_una := 4294967000, snd_nxt := 304, snd_max := 304,
      snd_buffer_head := 10, snd_buffer_tail := 1010, snd_wnd := 8000, cwnd := 4000\<rparr>"

lemma busy_socket_ready: "send_ready busy_socket"
  by (simp add: busy_socket_def fresh_socket_def send_ready_def snd_ok_def)


text \<open>
  (C20) No segment of \<open>trigger_send\<close> reaches beyond the window: counted from
  \<open>snd_una\<close>, its last byte is within the window of the peer and, with congestion control,
  within the congestion window. The exceptions carry no data, or a single byte while the
  window of the peer is closed.
\<close>

theorem trigger_send_in_window:
  assumes "send_ready s" and "\<And>n. alloc n" and "trigger_send alloc s flags = Some (s', msgs)"
    and "m \<in> set msgs"
  shows "payload m = []
    \<or> unat (seg_seq m - snd_una s) + length (payload m) \<le> unat (snd_wnd s)
        \<and> (tcp_options_cc s \<longrightarrow> unat (seg_seq m - snd_una s) + length (payload m) \<le> unat (cwnd s))
    \<or> snd_wnd s = 0 \<and> length (payload m) = 1"
proof -
  have "in_window s m"
    using loop_ok [where alloc = alloc and flags = flags and out = "[]", OF assms(2,1)] assms(3,4) by (auto simp: trigger_send_def round_ok_def)
  then show ?thesis
    by (cases "payload m") (auto simp: in_window_def send_window_def split: if_splits)
qed

text \<open>A state in which a full segment is pending that can neither be sent nor be given up.\<close>

definition stuck :: "(nat \<Rightarrow> bool) \<Rightarrow> socket \<Rightarrow> outflags \<Rightarrow> bool" where
  "stuck alloc s flags \<longleftrightarrow>
     \<not> alloc (sizeof_tcp_hdr + unat (smss s)) \<and> \<not> OF_FAST flags \<and> \<not> OF_NODATA flags
     \<and> smss s < unsent_bytes s \<and> smss s + of_bool (need_fin s) \<le> usable_window s flags
     \<and> smss s < 65536 \<and> 0 < smss s \<and> 0 < snd_wnd s"

lemma stuck_round:
  assumes "stuck alloc s flags"
  shows "\<exists>flags'. trigger_send_round alloc s flags = (s, [], flags', True) \<and> stuck alloc s flags'"
proof -
  obtain w fl where cw: "compute_win s flags = (w, fl)" by fastforce
  have fl: "\<not> OF_FAST fl" "\<not> OF_NODATA fl"
    using compute_win_flags [of s flags] assms by (simp_all add: cw stuck_def)
  have lt: "smss s < unsent_bytes s" and room: "smss s + of_bool (need_fin s) \<le> usable_window s flags"
    and small: "smss s < 65536" "0 < smss s" "0 < snd_wnd s" and fast: "\<not> OF_FAST flags"
    and alloc: "\<not> alloc (sizeof_tcp_hdr + unat (smss s))"
    using assms by (simp_all add: stuck_def)
  have mss: "mss_bytes s = smss s" using lt by (simp add: mss_bytes_def)
  have sz: "seg_size s flags = (smss s, 0, True)"
    using lt leD [OF room] by (simp add: seg_size_def mss Let_def)
  have le: "smss s \<le> smss s + of_bool (need_fin s)"
    using small(1) unat_plus_bit [of "smss s" "need_fin s"] by (simp add: word_le_nat_alt word_less_nat_alt)
  then have "min (smss s + of_bool (need_fin s)) (usable_window s flags) \<ge> smss s"
    using room by (simp add: min_def)
  then have send: "sws_send s fl (mss_bytes s) (of_bool (need_fin s)) (usable_window s flags)"
    by (simp add: sws_send_def mss)
  have ne: "usable_window s flags \<noteq> 0" "smss s \<noteq> 0" "snd_wnd s \<noteq> 0" "smss s \<noteq> unsent_bytes s"
    using le room small lt by auto
  have probe: "probe_size s fl (usable_window s flags) (smss s, 0, True) = (smss s, 0, True)"
    using fl ne by (simp add: probe_size_def)
  have "trigger_send_round alloc s flags = (s, [], fl\<lparr>OF_FORCE := False\<rparr>, True)"
    unfolding trigger_send_round_def Let_def
    using alloc fast fl ne by (simp add: cw sz send probe set_persist_timer_def send_segment_def mss_option_def)
  moreover have "stuck alloc s (fl\<lparr>OF_FORCE := False\<rparr>)"
    using assms fl fast by (simp add: stuck_def usable_window_def)
  ultimately show ?thesis by blast
qed

lemma stuck_loop:
  assumes "trigger_send_loop alloc s flags out = Some y"
  shows "\<not> stuck alloc s flags"
proof (rule trigger_send_loop.raw_induct [where P = "\<lambda>alloc s flags out y. \<not> stuck alloc s flags", OF _ assms])
  fix loop alloc s flags out y
  assume IH: "\<And>alloc s flags out y. loop alloc s flags out = Some y \<Longrightarrow> \<not> stuck alloc s flags"
    and body: "(case trigger_send_round alloc s flags of (tcb', msgs, flags', cont) \<Rightarrow>
      if cont then loop alloc tcb' flags' (out @ msgs) else Some (tcb', out @ msgs)) = Some y"
  show "\<not> stuck alloc s flags"
  proof
    assume "stuck alloc s flags"
    from stuck_round [OF this] obtain flags' where
      r: "trigger_send_round alloc s flags = (s, [], flags', True)" and st: "stuck alloc s flags'" by blast
    from r body have "loop alloc s flags' out = Some y" by simp
    from IH [OF this] st show False by simp
  qed
qed

text \<open>
  Without memory for a full-sized segment, \<open>trigger_send\<close> does not return (while
  holding the lock of the socket): the failure of \<open>send_segment\<close> is not looked at, and the
  next round tries the same again, as long as more than one segment is pending and the window
  has room for one.
\<close>

theorem trigger_send_no_memory:
  assumes "\<not> alloc (sizeof_tcp_hdr + unat (smss s))"
    and "\<not> OF_FAST flags" and "\<not> OF_NODATA flags"
    and "0 < smss s" and "smss s < 65536" and "smss s < unsent_bytes s"
    and "smss s + of_bool (need_fin s) \<le> usable_window s flags" and "snd_wnd s \<noteq> 0"
  shows "trigger_send alloc s flags = None"
proof (cases "trigger_send alloc s flags")
  case (Some y)
  have "stuck alloc s flags" using assms by (simp add: stuck_def word_gt_0)
  then show ?thesis using stuck_loop [of alloc s flags "[]" y] Some by (simp add: trigger_send_def)
qed

theorem trigger_send_no_memory_witness:
  "trigger_send (\<lambda>_. False) (busy_socket\<lparr>snd_nxt := snd_una busy_socket\<rparr>) no_flags = None"
  by (rule trigger_send_no_memory)
     (simp_all add: busy_socket_def fresh_socket_def no_flags_def unsent_bytes_def need_fin_def
        usable_window_def seq_iff)

text \<open>A byte in flight, so that the window property has something to say.\<close>

theorem trigger_send_in_window_witness:
  "\<exists>s' msgs. trigger_send (\<lambda>_. True) busy_socket no_flags = Some (s', msgs)
     \<and> (\<forall>m \<in> set msgs. payload m = [] \<or> unat (seg_seq m - snd_una busy_socket) + length (payload m) \<le> 4000)"
proof -
  obtain s' msgs where r: "trigger_send (\<lambda>_. True) busy_socket no_flags = Some (s', msgs)"
    using loop_ok [where alloc = "\<lambda>_. True" and flags = no_flags and out = "[]", OF TrueI busy_socket_ready]
    by (auto simp: trigger_send_def)
  have "payload m = [] \<or> unat (seg_seq m - snd_una busy_socket) + length (payload m) \<le> 4000"
    if "m \<in> set msgs" for m
    using trigger_send_in_window [OF busy_socket_ready _ r that]
    by (auto simp: busy_socket_def fresh_socket_def)
  with r show ?thesis by blast
qed

end
