(* ===== verification/Tcp_Window.thy ===== *)
theory Tcp_Window
  imports Tcp_Send
begin

text \<open>
  The window advertised to the peer (\<open>compute_win\<close>) and the retransmission timer
  (\<open>set_rtx_timer\<close>, \<open>update_srtt\<close>).
\<close>

subsection \<open>The advertised window\<close>

lemma sint_diff_uint:
  fixes e n :: u32
  assumes "- 1073741824 \<le> sint e" "sint e \<le> 8192" "unat n \<le> 8192"
  shows "sint (e - n) = sint e - int (unat n)" and "sint (n - e) = int (unat n) - sint e"
proof -
  have e: "e = of_int (sint e)" and n: "n = of_int (int (unat n))" by simp_all
  have "sint (of_int (sint e) - of_int (int (unat n)) :: u32) = sint e - int (unat n)"
    by (rule sint_of_int_diff) (use assms in linarith)
  then show "sint (e - n) = sint e - int (unat n)" by simp
  have "sint (of_int (int (unat n)) - of_int (sint e) :: u32) = int (unat n) - sint e"
    by (rule sint_of_int_diff) (use assms in linarith)
  then show "sint (n - e) = int (unat n) - sint e" by simp
qed

text \<open>
  (C22) The window computed for the next segment never promises more than the free part of the
  receive buffer, never moves the right edge of the window back, and obeys the silly window
  rule: it is zero, or at least one segment, or leaves the right edge where it was.
\<close>

theorem compute_win_safe:
  assumes "unat (rcv_buffer_tail s - rcv_buffer_head s) \<le> RCV_BUFFER_SIZE"
    and "- 1073741824 \<le> sint (right_win_edge s - rcv_nxt s)"
    and "sint (right_win_edge s - rcv_nxt s)
           \<le> int RCV_BUFFER_SIZE - int (unat (rcv_buffer_tail s - rcv_buffer_head s))"
  shows "unat (fst (compute_win s flags)) + unat (rcv_buffer_tail s - rcv_buffer_head s) \<le> RCV_BUFFER_SIZE
    \<and> TCP_LEQ (right_win_edge s) (rcv_nxt s + fst (compute_win s flags))
    \<and> (fst (compute_win s flags) = 0 \<or> smss s \<le> fst (compute_win s flags)
       \<or> rcv_nxt s + fst (compute_win s flags) = right_win_edge s)"
proof -
  let ?used = "rcv_buffer_tail s - rcv_buffer_head s" and ?e = "right_win_edge s - rcv_nxt s"
  define space where "space = (let sp = of_nat RCV_BUFFER_SIZE - ?used in if sp < smss s then 0 else sp)"
  have "?used \<le> of_nat RCV_BUFFER_SIZE" using assms(1) by (simp add: word_le_nat_alt)
  then have "unat (of_nat RCV_BUFFER_SIZE - ?used) = RCV_BUFFER_SIZE - unat ?used"
    by (simp add: unat_sub)
  then have space: "unat space \<le> RCV_BUFFER_SIZE - unat ?used" and mss: "space = 0 \<or> smss s \<le> space"
    by (auto simp: space_def Let_def)
  have d: "sint (?e - space) = sint ?e - int (unat space)" "sint (space - ?e) = int (unat space) - sint ?e"
    by (rule sint_diff_uint; use assms space in linarith)+
  have lt: "TCP_LT (rcv_nxt s + space) (right_win_edge s) \<longleftrightarrow> int (unat space) < sint ?e"
  proof -
    have "right_win_edge s - (rcv_nxt s + space) = ?e - space" by simp
    then show ?thesis unfolding TCP_LT_def by (simp only: d(1)) linarith
  qed
  have w: "fst (compute_win s flags) =
      (if TCP_LT (rcv_nxt s + space) (right_win_edge s) then ?e else space)"
    by (simp add: compute_win_def Let_def space_def)
  show ?thesis
  proof (cases "int (unat space) < sint ?e")
    case True
    then have "sint ?e = int (unat ?e)"
      by (intro sint_nonneg_unat) linarith
    then have "unat ?e + unat ?used \<le> RCV_BUFFER_SIZE" using assms(3) by linarith
    then show ?thesis using True w lt by (simp add: TCP_LEQ_def)
  next
    case False
    have "rcv_nxt s + space - right_win_edge s = space - ?e" by simp
    then have "TCP_LEQ (right_win_edge s) (rcv_nxt s + space)"
      unfolding TCP_LEQ_def using False by (simp only: d(2))
    then show ?thesis using False space mss w lt assms(1) by auto
  qed
qed

text \<open>A socket with 100 bytes in its receive buffer and a right edge behind the free space.\<close>

theorem compute_win_safe_witness:
  "let s = (fresh_socket True)\<lparr>rcv_buffer_tail := 50, rcv_buffer_head := 4294967246,
              rcv_nxt := 1000, right_win_edge := 2000\<rparr>
   in unat (fst (compute_win s no_flags)) + 100 \<le> RCV_BUFFER_SIZE
      \<and> TCP_LEQ 2000 (1000 + fst (compute_win s no_flags))"
  unfolding Let_def
  using compute_win_safe [of "(fresh_socket True)\<lparr>rcv_buffer_tail := 50, rcv_buffer_head := 4294967246,
              rcv_nxt := 1000, right_win_edge := 2000\<rparr>" no_flags]
  by simp

subsection \<open>Timers\<close>

text \<open>The retransmission timeout is kept within its bounds.\<close>

definition rto_ok :: "socket \<Rightarrow> bool" where
  "rto_ok s \<longleftrightarrow> RTO_INIT \<le> rto s \<and> rto s \<le> RTO_MAX"

lemma shl32_small:
  assumes "unat x < 2 ^ 10" and "unat n \<le> 10"
  shows "unat (shl32 x n) = unat x * 2 ^ unat n"
proof -
  have "unat x * 2 ^ unat n < 2 ^ 10 * 2 ^ 10"
    using assms by (intro mult_less_le_imp_less power_increasing) simp_all
  then have "unat x * 2 ^ unat n < 2 ^ 32" by simp
  then show ?thesis
    using assms(2) unfolding shl32_def unsigned_push_bit_eq
    by (simp add: push_bit_eq_mult take_bit_nat_eq_self)
qed

lemma segment_sent_rtx_timer:
  "n \<noteq> 0 \<or> syn \<or> fin \<Longrightarrow>
     rtx_timer (segment_sent s ack syn fin q n w) = rtx_timer (set_rtx_timer syn s)"
  by (auto simp: segment_sent_def Let_def frame_simps)



text \<open>
  The bound on the backoff is not kept by the persist timer, which increments it each time
  it fires. After enough probes the shift leaves no bit of the timeout, and a segment is sent
  without a running retransmission timer.
\<close>

theorem rtx_timer_lost:
  assumes "rto s = RTO_INIT" and "backoff (rtx_timer s) = 30" and "time (rtx_timer s) = 0"
    and "n \<noteq> 0 \<or> fin"
  shows "time (rtx_timer (segment_sent s ack False fin q n w)) = 0"
proof -
  have "n \<noteq> 0 \<or> False \<or> fin" using assms(4) by blast
  from segment_sent_rtx_timer [OF this] show ?thesis
    using assms(1-3) by (simp add: set_rtx_timer_def shl32_def)
qed

theorem rtx_timer_lost_witness:
  "time (rtx_timer (segment_sent
     ((fresh_socket True)\<lparr>rtx_timer := \<lparr>time = 0, backoff = 30\<rparr>\<rparr>) True False False 0 5 8192)) = 0"
  by (rule rtx_timer_lost) (simp_all add: fresh_socket_def)

end
