(* ===== verification/Tcp_Receive.thy ===== *)
theory Tcp_Receive
  imports Tcp_Input Tcp_Window
begin

text \<open>
  Properties of the building blocks of input processing: the acceptance test against the one
  of RFC 793, acknowledgements against the send buffer, in-order delivery into the receive
  buffer, and the option parser. Where a block does not do what the code means it to do, the
  theorem says what it does.
\<close>

subsection \<open>What the blocks leave alone\<close>

lemma net_post_event_frame [frame_simps]:
  "snd_una (net_post_event e s) = snd_una s" "snd_nxt (net_post_event e s) = snd_nxt s"
  "snd_max (net_post_event e s) = snd_max s" "fin_sent (net_post_event e s) = fin_sent s"
  "snd_buffer (net_post_event e s) = snd_buffer s" "snd_buffer_head (net_post_event e s) = snd_buffer_head s"
  "snd_buffer_tail (net_post_event e s) = snd_buffer_tail s" "status (net_post_event e s) = status s"
  "rcv_buffer (net_post_event e s) = rcv_buffer s" "rcv_buffer_head (net_post_event e s) = rcv_buffer_head s"
  "rcv_buffer_tail (net_post_event e s) = rcv_buffer_tail s" "rcv_nxt (net_post_event e s) = rcv_nxt s"
  "rto (net_post_event e s) = rto s" "smss (net_post_event e s) = smss s"
  "snd_wnd (net_post_event e s) = snd_wnd s" "delack_timer (net_post_event e s) = delack_timer s"
  by (simp_all add: net_post_event_def)

lemma update_cwnd_frame [frame_simps]:
  "snd_una (update_cwnd s n) = snd_una s" "snd_nxt (update_cwnd s n) = snd_nxt s"
  "snd_max (update_cwnd s n) = snd_max s" "fin_sent (update_cwnd s n) = fin_sent s"
  "snd_buffer (update_cwnd s n) = snd_buffer s" "snd_buffer_head (update_cwnd s n) = snd_buffer_head s"
  "snd_buffer_tail (update_cwnd s n) = snd_buffer_tail s" "status (update_cwnd s n) = status s"
  "rto (update_cwnd s n) = rto s" "smss (update_cwnd s n) = smss s" "snd_wnd (update_cwnd s n) = snd_wnd s"
  by (simp_all add: update_cwnd_def Let_def)

lemma update_srtt_frame [frame_simps]:
  "snd_una (update_srtt s n) = snd_una s" "snd_nxt (update_srtt s n) = snd_nxt s"
  "snd_max (update_srtt s n) = snd_max s" "fin_sent (update_srtt s n) = fin_sent s"
  "snd_buffer (update_srtt s n) = snd_buffer s" "snd_buffer_head (update_srtt s n) = snd_buffer_head s"
  "snd_buffer_tail (update_srtt s n) = snd_buffer_tail s" "status (update_srtt s n) = status s"
  "smss (update_srtt s n) = smss s" "snd_wnd (update_srtt s n) = snd_wnd s"
  by (simp_all add: update_srtt_def Let_def)

subsection \<open>Acceptance\<close>

text \<open>The table on page 69 of RFC 793, for a segment that occupies \<open>len\<close> sequence numbers.\<close>

definition rfc793_acceptable :: "u32 \<Rightarrow> u32 \<Rightarrow> u32 \<Rightarrow> u32 \<Rightarrow> bool" where
  "rfc793_acceptable nxt wnd seq len =
     (if len = 0 then (if wnd = 0 then seq = nxt else unat (seq - nxt) < unat wnd)
      else wnd \<noteq> 0 \<and> (unat (seq - nxt) < unat wnd \<or> unat (seq + len - 1 - nxt) < unat wnd))"

definition seg_space :: "net_msg \<Rightarrow> u32" where
  "seg_space m = seg_len m + of_bool (hdr_syn (msg_hdr m)) + of_bool (hdr_fin (msg_hdr m))"

lemma in_window_iff:
  assumes "unat wnd < 2147483648"
  shows "TCP_LEQ nxt x \<and> TCP_LT x (nxt + wnd) \<longleftrightarrow> unat (x - nxt) < unat wnd"
proof (cases "unat (x - nxt) < 2147483648")
  case True
  then have "TCP_LT x (nxt + wnd) \<longleftrightarrow> unat (x - nxt) < unat (nxt + wnd - nxt)"
    by (rule TCP_LT_dist) (use assms in simp)
  then show ?thesis using True by (simp add: TCP_LEQ_iff)
next
  case False
  then show ?thesis using assms by (simp add: TCP_LEQ_iff)
qed

lemma unat_pred_less:
  fixes x w :: u32
  assumes "w \<noteq> 0"
  shows "unat (x - 1) < unat w \<longleftrightarrow> x \<noteq> 0 \<and> unat x < unat w \<or> x = w"
proof (cases "x = 0")
  case True
  then have "unat (x - 1) = 4294967295" by (simp add: unsigned_minus_1_eq_mask mask_eq_exp_minus_1)
  moreover have "\<not> 4294967295 < unat w" using unat_u32_less [of w] by linarith
  ultimately show ?thesis using True assms by simp
next
  case False
  then have "unat (x - 1) = unat x - 1" "0 < unat x" by (simp_all add: unat_minus_one unat_gt_0)
  then show ?thesis using False by (auto simp: word_unat_eq_iff)
qed

text \<open>
  (C25) The acceptance test accepts what RFC 793 accepts, and two kinds of segments more: any
  segment at the expected sequence number while the window is closed, and an empty segment
  exactly at the right edge of the window.
\<close>

theorem acceptable_rfc793:
  assumes "unat (rcv_wnd s) < 2147483648"
  shows "acceptable s m \<noteq> None \<longleftrightarrow>
    rfc793_acceptable (rcv_nxt s) (rcv_wnd s) (seg_seq m) (seg_space m)
    \<or> rcv_wnd s = 0 \<and> seg_seq m = rcv_nxt s
    \<or> seg_space m = 0 \<and> rcv_wnd s \<noteq> 0 \<and> seg_seq m = rcv_nxt s + rcv_wnd s"
proof -
  let ?n = "rcv_nxt s" and ?w = "rcv_wnd s" and ?q = "seg_seq m" and ?l = "seg_space m"
  note win = in_window_iff [OF assms, of ?n]
  have l: "?q + seg_len m + (of_bool (hdr_syn (msg_hdr m)) + of_bool (hdr_fin (msg_hdr m))) - 1 = ?q + ?l - 1"
    by (simp add: seg_space_def algebra_simps)
  have acc: "acceptable s m \<noteq> None \<longleftrightarrow>
      ?w = 0 \<and> ?n = ?q \<or> unat (?q - ?n) < unat ?w \<or> unat (?q + ?l - 1 - ?n) < unat ?w"
    unfolding acceptable_def Let_def l using win [of ?q] win [of "?q + ?l - 1"]
    by (auto simp del: TCP_LEQ_iff)
  have zero: "unat (?q + 0 - 1 - ?n) < unat ?w \<longleftrightarrow> ?q \<noteq> ?n \<and> unat (?q - ?n) < unat ?w \<or> ?q = ?n + ?w"
    if "?w \<noteq> 0"
    using unat_pred_less [OF that, of "?q - ?n"] by (simp add: algebra_simps eq_diff_eq diff_eq_eq)
  show ?thesis
    unfolding acc rfc793_acceptable_def
    using zero by (cases "?w = 0"; cases "?l = 0") auto
qed

text \<open>Segments for the witnesses: no options, ports 80 and 90.\<close>

definition sample_segment :: "u32 \<Rightarrow> u32 \<Rightarrow> u8 list \<Rightarrow> bool \<Rightarrow> net_msg" where
  "sample_segment seq ack_no data fin =
     \<lparr>seg_bytes = tcp_hdr_bytes
        \<lparr>hdr_src_port = 80, hdr_dst_port = 90, hdr_seq_no = htonl seq, hdr_ack_no = htonl ack_no, hdr_rsv1 = 0,
         hdr_hlength = 5, hdr_fin = fin, hdr_syn = False, hdr_rst = False, hdr_psh = False, hdr_ack = True,
         hdr_urg = False, hdr_ece = False, hdr_cwr = False, hdr_window = 0, hdr_checksum = 0,
         hdr_urgent_ptr = 0\<rparr> @ data,
      ip_length = 20 + of_nat (length data), ip_src = 1, ip_dest = 2, ip_proto = 6, ip_df = True\<rparr>"

lemma sample_segment_fields:
  "seg_seq (sample_segment seq ack_no data fin) = seq"
  "seg_ack (sample_segment seq ack_no data fin) = ack_no"
  "hdr_fin (msg_hdr (sample_segment seq ack_no data fin)) = fin"
  "hdr_syn (msg_hdr (sample_segment seq ack_no data fin)) = False"
  "hdr_rst (msg_hdr (sample_segment seq ack_no data fin)) = False"
  "hdr_ack (msg_hdr (sample_segment seq ack_no data fin)) = True"
  "seg_hlen (sample_segment seq ack_no data fin) = 20"
  by (simp_all add: sample_segment_def seg_seq_def seg_ack_def seg_hlen_def tcp_hdr_round_trip)

lemma sample_segment_len:
  "length data < 65000 \<Longrightarrow> seg_len (sample_segment seq ack_no data fin) = of_nat (length data)"
proof -
  assume n: "length data < 65000"
  let ?n = "length data"
  have "unat (20 + of_nat ?n :: u16) = 20 + ?n"
    using n by (simp add: unat_word_ariths unat_of_nat)
  then have "unat (ucast (20 + of_nat ?n :: u16) :: u32) = 20 + ?n"
    by (simp add: unsigned_ucast_eq take_bit_nat_eq_self)
  moreover have "unat (of_nat (20 + ?n) :: u32) = 20 + ?n" using n by (simp only: of_nat_unat_u32)
  ultimately have "(ucast (20 + of_nat ?n :: u16) :: u32) = of_nat (20 + ?n)"
    by (simp only: word_unat_eq_iff)
  then show ?thesis by (simp add: seg_len_def sample_segment_fields) (simp add: sample_segment_def)
qed

theorem acceptable_rfc793_witness:
  "acceptable ((fresh_socket True)\<lparr>rcv_nxt := 100\<rparr>) (sample_segment (100 + 8192) 0 [] False) \<noteq> None
   \<and> acceptable ((fresh_socket True)\<lparr>rcv_nxt := 100\<rparr>) (sample_segment (100 + 8193) 0 [] False) = None"
  using acceptable_rfc793 [of "(fresh_socket True)\<lparr>rcv_nxt := 100\<rparr>" "sample_segment (100 + 8192) 0 [] False"]
    acceptable_rfc793 [of "(fresh_socket True)\<lparr>rcv_nxt := 100\<rparr>" "sample_segment (100 + 8193) 0 [] False"]
  by (simp add: sample_segment_fields sample_segment_len seg_space_def rfc793_acceptable_def
      del: not_None_eq)

subsection \<open>Acknowledgements\<close>

lemma ack_range:
  assumes "snd_ok s"
  shows "TCP_LT (snd_una s) a \<and> TCP_LEQ a (snd_max s)
     \<longleftrightarrow> 0 < unat (a - snd_una s) \<and> unat (a - snd_una s) \<le> unat (snd_max s - snd_una s)"
proof -
  have m: "unat (snd_max s - snd_una s) < 2147483648"
    using assms by (auto simp: snd_ok_def of_bool_def split: if_splits)
  show ?thesis
  proof (cases "unat (a - snd_una s) < 2147483648")
    case True
    then show ?thesis
      using TCP_LT_dist [of "snd_una s" "snd_una s" a] TCP_LEQ_dist [OF True m] by simp
  next
    case False
    then have "\<not> TCP_LT (snd_una s) a" by (simp add: TCP_LT_iff)
    then show ?thesis using False m by simp
  qed
qed

lemma process_ack_invalid:
  "\<not> (TCP_LT (snd_una s) (seg_ack m) \<and> TCP_LEQ (seg_ack m) (snd_max s)) \<Longrightarrow>
   snd (process_ack s m) = s \<and> fst (process_ack s m) \<noteq> ACK_OK"
  by (simp add: process_ack_def Let_def)

lemma process_ack_valid:
  assumes "TCP_LT (snd_una s) (seg_ack m) \<and> TCP_LEQ (seg_ack m) (snd_max s)"
  shows "fst (process_ack s m) = ACK_OK" and "snd_una (snd (process_ack s m)) = seg_ack m"
    and "snd_nxt (snd (process_ack s m)) = (if TCP_GT (seg_ack m) (snd_nxt s) then seg_ack m else snd_nxt s)"
    and "snd_max (snd (process_ack s m)) = snd_max s" and "fin_sent (snd (process_ack s m)) = fin_sent s"
    and "snd_buffer (snd (process_ack s m)) = snd_buffer s"
    and "snd_buffer_tail (snd (process_ack s m)) = snd_buffer_tail s"
    and "snd_buffer_head (snd (process_ack s m)) =
          (if status s = TCP_STATUS_ESTABLISHED then snd_buffer_head s + (seg_ack m - snd_una s)
           else snd_buffer_head s)"
    and "status (snd (process_ack s m)) = status s"
  using assms by (simp_all add: process_ack_def Let_def frame_simps)



text \<open>
  In the other states with data in flight, the acknowledgement moves \<open>snd_una\<close> but not
  the head of the send buffer: the acknowledged bytes count as unsent again and the next call
  of \<open>trigger_send\<close> offers them to the peer as new data.
\<close>

theorem process_ack_close_wait:
  assumes "snd_ok s" and "status s = TCP_STATUS_CLOSE_WAIT"
    and "0 < unat (seg_ack m - snd_una s)" and "unat (seg_ack m - snd_una s) \<le> unat (snd_nxt s - snd_una s)"
  shows "fst (process_ack s m) = ACK_OK
    \<and> unsent_bytes (snd (process_ack s m)) = unsent_bytes s + (seg_ack m - snd_una s)"
proof -
  have nxt: "snd_off s \<le> unat (snd_max s - snd_una s)" and small: "unat (snd_max s - snd_una s) < 2147483648"
    using assms(1) by (auto simp: snd_ok_def of_bool_def split: if_splits)
  have valid: "TCP_LT (snd_una s) (seg_ack m) \<and> TCP_LEQ (seg_ack m) (snd_max s)"
    using assms(3,4) nxt ack_range [OF assms(1)] by auto
  note f = process_ack_valid [OF valid]
  have "\<not> TCP_GT (seg_ack m) (snd_nxt s)"
    unfolding TCP_GT_LT using assms(4) nxt small
    by (subst TCP_LT_dist [of _ "snd_una s"]) linarith+
  then show ?thesis using assms(2) by (simp add: f unsent_bytes_def)
qed

theorem process_ack_close_wait_witness:
  "let s = busy_socket\<lparr>status := TCP_STATUS_CLOSE_WAIT\<rparr>
   in unsent_bytes s = 400 \<and> unsent_bytes (snd (process_ack s (sample_segment 5 304 [] False))) = 1000"
proof -
  let ?s = "busy_socket\<lparr>status := TCP_STATUS_CLOSE_WAIT\<rparr>" and ?m = "sample_segment 5 304 [] False"
  have u: "unsent_bytes ?s = 400" and a: "seg_ack ?m - snd_una busy_socket = 600" "snd_off busy_socket = 600"
    by (simp_all add: unsent_bytes_def busy_socket_def sample_segment_fields)
  have "snd_ok ?s" using busy_socket_ready by (auto simp: send_ready_def snd_ok_def)
  then have "unsent_bytes (snd (process_ack ?s ?m)) = unsent_bytes ?s + (seg_ack ?m - snd_una ?s)"
    using process_ack_close_wait [of ?s ?m] by (simp add: a)
  then show ?thesis using u a by simp
qed

subsection \<open>Text\<close>

abbreviation rcv_used :: "socket \<Rightarrow> nat" where "rcv_used s \<equiv> unat (rcv_buffer_tail s - rcv_buffer_head s)"

lemma acceptable_cases:
  assumes "acceptable s m = Some (f, l, fin)"
  obtains (none) "f = 0" "l = 0" "\<not> fin"
  | (inside) acc where "TCP_LEQ (rcv_nxt s) (seg_seq m)" "TCP_LT (seg_seq m) (rcv_nxt s + rcv_wnd s)"
      "f = 0" "acc = min (seg_space m) (rcv_wnd s - (seg_seq m - rcv_nxt s))"
      "l = (if fin \<and> acc - 1 > 0 then acc - 1 - 1 else acc - 1)"
  | (across) "TCP_LEQ (rcv_nxt s) (seg_seq m + seg_space m - 1)"
      "TCP_LT (seg_seq m + seg_space m - 1) (rcv_nxt s + rcv_wnd s)"
      "f = rcv_nxt s - seg_seq m"
      "l = (if fin \<and> seg_space m - 1 > 0 then seg_space m - 1 - 1 else seg_space m - 1)"
proof -
  have sp: "seg_len m + (of_bool (hdr_syn (msg_hdr m)) + of_bool (hdr_fin (msg_hdr m))) = seg_space m"
    "seg_seq m + seg_len m + (of_bool (hdr_syn (msg_hdr m)) + of_bool (hdr_fin (msg_hdr m)))
       = seg_seq m + seg_space m"
    by (simp_all add: seg_space_def algebra_simps)
  let ?right = "rcv_nxt s + rcv_wnd s" and ?last = "seg_seq m + seg_space m - 1"
  consider (z) "rcv_wnd s = 0 \<and> rcv_nxt s = seg_seq m \<or> seg_len m = 0
      \<and> (of_bool (hdr_syn (msg_hdr m)) + of_bool (hdr_fin (msg_hdr m)) :: u32) = 0
      \<and> TCP_LEQ (rcv_nxt s) (seg_seq m) \<and> TCP_LT (seg_seq m) ?right"
    | (i) "TCP_LEQ (rcv_nxt s) (seg_seq m)" "TCP_LT (seg_seq m) ?right"
        "\<not> (rcv_wnd s = 0 \<and> rcv_nxt s = seg_seq m)"
        "\<not> (seg_len m = 0 \<and> (of_bool (hdr_syn (msg_hdr m)) + of_bool (hdr_fin (msg_hdr m)) :: u32) = 0)"
    | (a) "\<not> (TCP_LEQ (rcv_nxt s) (seg_seq m) \<and> TCP_LT (seg_seq m) ?right)"
        "\<not> (rcv_wnd s = 0 \<and> rcv_nxt s = seg_seq m)"
    by blast
  then show thesis
  proof cases
    case z
    then show thesis using assms none unfolding acceptable_def Let_def by (auto split: if_splits)
  next
    case i
    then show thesis
      using assms inside [of "min (seg_space m) (rcv_wnd s - (seg_seq m - rcv_nxt s))"]
      unfolding acceptable_def Let_def sp by (auto split: if_splits)
  next
    case a
    then show thesis
      using assms across unfolding acceptable_def Let_def sp by (auto split: if_splits)
  qed
qed

lemma unat_pred: "x \<noteq> 0 \<Longrightarrow> unat (x - 1 :: u32) = unat x - 1 \<and> 0 < unat x"
  by (simp add: unat_minus_one unat_gt_0)

lemma text_bytes_bound:
  assumes acc: "acceptable s m = Some (f, l, fin)" and wnd: "unat (rcv_wnd s) < 2147483648"
    and some: "text_bytes f l + of_bool fin \<noteq> 0"
  shows "unat (text_bytes f l) \<le> unat (rcv_wnd s)"
  using acc
proof (cases rule: acceptable_cases)
  case none
  then show ?thesis by (simp add: text_bytes_def)
next
  case (inside a)
  have "unat (seg_seq m - rcv_nxt s) < unat (rcv_wnd s)"
    using in_window_iff [OF wnd] inside(1,2) by blast
  then have "rcv_wnd s - (seg_seq m - rcv_nxt s) \<le> rcv_wnd s"
    by (simp add: word_le_nat_alt unat_sub)
  then have a: "unat a \<le> unat (rcv_wnd s)" using inside(4) by (simp add: min_def word_le_nat_alt split: if_splits)
  show ?thesis
  proof (cases "a = 0")
    case True
    then have "text_bytes f l + of_bool fin = 0" using inside(3,5) by (auto simp: text_bytes_def word_gt_0)
    then show ?thesis using some by contradiction
  next
    case False
    then show ?thesis using a unat_pred [OF False] inside(3,5) by (auto simp: text_bytes_def)
  qed
next
  case across
  let ?x = "seg_seq m + seg_space m - 1 - rcv_nxt s"
  have x: "unat ?x < unat (rcv_wnd s)" using in_window_iff [OF wnd] across(1,2) by blast
  have "unat (?x + 1) = unat ?x + unat (1 :: u32)"
    by (rule unat_add_no_wrap) (use x wnd in simp)
  moreover have "text_bytes f l = 0 \<or> text_bytes f l = ?x \<or> text_bytes f l = ?x + 1"
    unfolding text_bytes_def across(3,4) by (simp add: algebra_simps)
  ultimately show ?thesis using x by auto
qed

lemma TCP_LEQ_antisym: "TCP_LEQ a b \<Longrightarrow> TCP_LEQ b a \<Longrightarrow> a = b"
proof -
  assume "TCP_LEQ a b" "TCP_LEQ b a"
  then have "0 \<le> sint (b - a)" "unat (a - b) < 2147483648" by (simp_all add: TCP_LEQ_def sint_nonneg_iff)
  moreover have "unat (b - a) = 4294967296 - unat (a - b)" if "a \<noteq> b"
    using unat_diff_dist [of b a b] that by (simp add: unat_eq_zero)
  ultimately show ?thesis by (force simp: sint_nonneg_iff)
qed

lemma accepted_at_nxt:
  assumes "acceptable s m = Some (f, l, fin)" and "text_bytes f l + of_bool fin \<noteq> 0"
    and "TCP_LEQ (seg_seq m) (rcv_nxt s)"
  shows "seg_seq m + f = rcv_nxt s"
  using assms(1)
proof (cases rule: acceptable_cases)
  case none
  then show ?thesis using assms(2) by (simp add: text_bytes_def)
next
  case (inside acc)
  then show ?thesis using TCP_LEQ_antisym [OF assms(3)] by simp
next
  case across
  then show ?thesis by simp
qed

lemma length_seg_text [simp]: "length (seg_text m f n) = n"
  by (simp add: seg_text_def)

lemma process_text_store:
  assumes fit: "rcv_used s + unat n \<le> RCV_BUFFER_SIZE"
    and put: "ring_put RCV_BUFFER_SIZE (rcv_buffer s) (rcv_buffer_tail s) (seg_text m f (unat n)) = (buf, t)"
  shows "unat (t - rcv_buffer_head s) = rcv_used s + unat n"
    and "ring_get RCV_BUFFER_SIZE buf (rcv_buffer_head s) (unat (t - rcv_buffer_head s))
         = rcv_content s @ seg_text m f (unat n)"
proof -
  have t: "t = rcv_buffer_tail s + of_nat (unat n)"
    using ring_put_tail [of RCV_BUFFER_SIZE "rcv_buffer s" "rcv_buffer_tail s" "seg_text m f (unat n)"] put
    by simp
  show u: "unat (t - rcv_buffer_head s) = rcv_used s + unat n"
    unfolding t by (rule unat_diff_advance) (use fit in linarith)
  show "ring_get RCV_BUFFER_SIZE buf (rcv_buffer_head s) (unat (t - rcv_buffer_head s))
        = rcv_content s @ seg_text m f (unat n)"
    using rcv_ring.get_put_tail [of "rcv_buffer_tail s" "rcv_buffer_head s" "seg_text m f (unat n)" "rcv_buffer s"]
      fit put by (simp add: u rcv_content_def)
qed

lemma process_text_cases:
  assumes acc: "acceptable s m = Some (f, l, fin)" and wnd: "unat (rcv_wnd s) < 2147483648"
    and ok: "rcv_used s \<le> RCV_BUFFER_SIZE"
  shows "let s' = snd (process_text s m f l fin) in
    rcv_used s' \<le> RCV_BUFFER_SIZE
    \<and> (rcv_nxt s' = rcv_nxt s \<and> rcv_content s' = rcv_content s
       \<or> seg_seq m + f = rcv_nxt s
         \<and> rcv_nxt s' = rcv_nxt s + text_bytes f l + of_bool fin
         \<and> rcv_content s' = rcv_content s @ (if eof s then [] else seg_text m f (unat (text_bytes f l))))"
proof -
  let ?n = "text_bytes f l" and ?s = "snd (process_text s m f l fin)"
  let ?full = "rcv_buffer_tail s - rcv_buffer_head s + ?n > of_nat RCV_BUFFER_SIZE"
  show ?thesis
  proof (cases "rcv_wnd s = 0 \<and> ucast (ip_length m) > seg_hlen m \<or> ?n + of_bool fin = 0 \<or> ?full
      \<or> \<not> TCP_LEQ (seg_seq m) (rcv_nxt s)")
    case True
    then have "?s = s" by (auto simp: process_text_def Let_def)
    then show ?thesis using ok by (simp add: Let_def)
  next
    case False
    have bound: "unat ?n \<le> unat (rcv_wnd s)" by (rule text_bytes_bound [OF acc wnd]) (use False in simp)
    have "unat (rcv_buffer_tail s - rcv_buffer_head s + ?n) = rcv_used s + unat ?n"
      by (rule unat_add_no_wrap) (use ok bound wnd in linarith)
    then have fit: "rcv_used s + unat ?n \<le> RCV_BUFFER_SIZE"
      using False by (simp add: word_less_nat_alt)
    obtain buf t where put:
      "ring_put RCV_BUFFER_SIZE (rcv_buffer s) (rcv_buffer_tail s) (seg_text m f (unat ?n)) = (buf, t)"
      by fastforce
    note store = process_text_store [OF fit put]
    have at: "seg_seq m + f = rcv_nxt s" by (rule accepted_at_nxt [OF acc]) (use False in simp_all)
    have nxt: "rcv_nxt ?s = rcv_nxt s + (?n + of_bool fin)"
      and head: "rcv_buffer_head ?s = rcv_buffer_head s"
      and tail: "rcv_buffer_tail ?s = (if eof s then rcv_buffer_tail s else t)"
      and buf: "rcv_buffer ?s = (if eof s then rcv_buffer s else buf)"
      using False by (auto simp: process_text_def Let_def put frame_simps)
    show ?thesis
      unfolding Let_def using store fit at ok
      by (simp add: nxt rcv_content_def head tail buf add.assoc)
  qed
qed

text \<open>
  (C6) Text is delivered in order and never overflows the receive buffer. Either the socket
  keeps its receive sequence number and buffer contents, or the segment continues the stream
  exactly at \<open>rcv_nxt\<close>: the accepted bytes are appended to the receive buffer (and dropped
  once the reader is gone), and \<open>rcv_nxt\<close> moves past them and past an accepted FIN.
\<close>

theorem process_text_in_order:
  assumes acc: "acceptable s m = Some (f, l, fin)" and wnd: "unat (rcv_wnd s) < 2147483648"
    and ok: "rcv_used s \<le> RCV_BUFFER_SIZE"
  shows "let s' = snd (process_text s m f l fin) in
    rcv_used s' \<le> RCV_BUFFER_SIZE
    \<and> (rcv_nxt s' = rcv_nxt s \<and> rcv_content s' = rcv_content s
       \<or> seg_seq m + f = rcv_nxt s
         \<and> rcv_nxt s' = rcv_nxt s + text_bytes f l + of_bool fin
         \<and> rcv_content s' = rcv_content s @ (if eof s then [] else seg_text m f (unat (text_bytes f l))))"
  by (rule process_text_cases [OF acc wnd ok])

theorem process_text_in_order_witness:
  "let s = (fresh_socket True)\<lparr>rcv_nxt := 100, rcv_buffer_head := 4294967295, rcv_buffer_tail := 4294967295\<rparr>;
       m = sample_segment 98 0 [1, 2, 3, 4, 5] True
   in acceptable s m = Some (2, 4, True)
      \<and> rcv_content (snd (process_text s m 2 4 True)) = [3, 4, 5]"
proof -
  let ?s = "(fresh_socket True)\<lparr>rcv_nxt := 100, rcv_buffer_head := 4294967295, rcv_buffer_tail := 4294967295\<rparr>"
  let ?m = "sample_segment 98 0 [1, 2, 3, 4, 5] True"
  have acc: "acceptable ?s ?m = Some (2, 4, True)"
    by (simp add: acceptable_def sample_segment_fields sample_segment_len seq_iff)
  have c: "rcv_content ?s = []" by (simp add: rcv_content_def)
  have t: "seg_text ?m 2 (unat (text_bytes 2 4)) = [3, 4, 5]"
    by (simp add: text_bytes_def seg_text_def upt_rec sample_segment_fields byte_at_def)
       (simp add: sample_segment_def nth_append)
  have "rcv_nxt (snd (process_text ?s ?m 2 4 True)) \<noteq> rcv_nxt ?s"
    by (simp add: process_text_def text_bytes_def sample_segment_fields seq_iff case_prod_unfold
        net_post_event_def Let_def zero_timer_def)
  then have "rcv_content (snd (process_text ?s ?m 2 4 True)) = [3, 4, 5]"
    using process_text_in_order [OF acc] c t by (simp add: Let_def)
  with acc show ?thesis by (simp add: Let_def)
qed

text \<open>
  (C26) A segment of two or more bytes that arrives in order, fits the window and the free part
  of the buffer, and finds the reader still there is delivered completely, with its FIN.
\<close>

theorem segment_delivered:
  assumes seq: "seg_seq m = rcv_nxt s" and syn: "\<not> hdr_syn (msg_hdr m)" and two: "2 \<le> unat (seg_len m)"
    and wnd: "unat (seg_len m) + of_bool (hdr_fin (msg_hdr m)) \<le> unat (rcv_wnd s)" "unat (rcv_wnd s) < 2147483648"
    and fit: "rcv_used s + unat (seg_len m) \<le> RCV_BUFFER_SIZE" and reader: "\<not> eof s"
  shows "acceptable s m = Some (0, seg_len m - 1, hdr_fin (msg_hdr m))
    \<and> (let s' = snd (process_text s m 0 (seg_len m - 1) (hdr_fin (msg_hdr m))) in
         rcv_content s' = rcv_content s @ seg_text m 0 (unat (seg_len m))
         \<and> rcv_nxt s' = rcv_nxt s + seg_len m + of_bool (hdr_fin (msg_hdr m)))"
proof -
  let ?n = "seg_len m" and ?fin = "hdr_fin (msg_hdr m)"
  have n: "unat (?n + of_bool ?fin) = unat ?n + of_bool ?fin"
    using wnd by (cases ?fin) (simp_all add: unat_add_no_wrap)
  have ne: "?n \<noteq> 0" "?n - 1 \<noteq> 0" "rcv_wnd s \<noteq> 0" using two wnd by auto
  have le: "?n + of_bool ?fin \<le> rcv_wnd s" using wnd(1) n by (simp add: word_le_nat_alt)
  have win: "TCP_LEQ (rcv_nxt s) (rcv_nxt s) \<and> TCP_LT (rcv_nxt s) (rcv_nxt s + rcv_wnd s)"
    using in_window_iff [OF wnd(2), of "rcv_nxt s" "rcv_nxt s"] ne(3) by (simp add: unat_gt_0)
  have acc: "acceptable s m = Some (0, ?n - 1, ?fin)"
    using syn ne win le by (cases ?fin) (auto simp: acceptable_def Let_def seq min_absorb1 word_gt_0)
  have b: "text_bytes 0 (?n - 1) = ?n" using ne by (simp add: text_bytes_def)
  have "unat (rcv_buffer_tail s - rcv_buffer_head s + ?n) = rcv_used s + unat ?n"
    by (rule unat_add_no_wrap) (use fit in simp)
  then have notfull: "\<not> rcv_buffer_tail s - rcv_buffer_head s + ?n > of_nat RCV_BUFFER_SIZE"
    using fit by (simp add: word_less_nat_alt)
  have sum: "?n + of_bool ?fin \<noteq> 0" using n two by (metis add_is_0 not_numeral_le_zero unat_0)
  let ?s = "snd (process_text s m 0 (?n - 1) ?fin)"
  have "rcv_nxt ?s = rcv_nxt s + (?n + of_bool ?fin)"
    using sum notfull ne(3) win
    by (auto simp: process_text_def Let_def b seq case_prod_unfold frame_simps)
  moreover then have "rcv_nxt ?s \<noteq> rcv_nxt s" using sum by simp
  ultimately show ?thesis
    using process_text_cases [OF acc wnd(2)] fit reader acc b by (simp add: Let_def add.assoc)
qed

theorem segment_delivered_witness:
  "let s = (fresh_socket True)\<lparr>rcv_nxt := 100\<rparr>; m = sample_segment 100 0 [7, 8] False
   in acceptable s m = Some (0, 1, False) \<and> rcv_content (snd (process_text s m 0 1 False)) = [7, 8]"
proof -
  let ?s = "(fresh_socket True)\<lparr>rcv_nxt := 100\<rparr>" and ?m = "sample_segment 100 0 [7, 8] False"
  have "seg_text ?m 0 2 = [7, 8]"
    by (simp add: seg_text_def upt_rec sample_segment_fields byte_at_def) (simp add: sample_segment_def nth_append)
  then show ?thesis
    using segment_delivered [of ?m ?s]
    by (simp add: sample_segment_fields sample_segment_len rcv_content_def Let_def)
qed

text \<open>
  A segment with a single byte is accepted but not processed: the offset 0 of its last byte
  is taken for the absence of text. The byte is not delivered, \<open>rcv_nxt\<close> stays, and no
  acknowledgement is asked for.
\<close>

theorem one_byte_segment_dropped:
  assumes seq: "seg_seq m = rcv_nxt s" and one: "seg_len m = 1"
    and flags: "\<not> hdr_syn (msg_hdr m)" "\<not> hdr_fin (msg_hdr m)"
    and wnd: "rcv_wnd s \<noteq> 0" "unat (rcv_wnd s) < 2147483648"
  shows "acceptable s m = Some (0, 0, False) \<and> process_text s m 0 0 False = (False, s)"
proof -
  have win: "TCP_LEQ (rcv_nxt s) (rcv_nxt s) \<and> TCP_LT (rcv_nxt s) (rcv_nxt s + rcv_wnd s)"
    using in_window_iff [OF wnd(2), of "rcv_nxt s" "rcv_nxt s"] wnd(1) by (simp add: unat_gt_0)
  have "min 1 (rcv_wnd s) = 1" using wnd(1) by (simp add: min_def word_le_nat_alt unat_gt_0 Suc_le_eq)
  then show ?thesis
    using win flags wnd(1) by (simp add: acceptable_def process_text_def text_bytes_def Let_def seq one)
qed

theorem one_byte_segment_dropped_witness:
  "let s = (fresh_socket True)\<lparr>rcv_nxt := 100\<rparr>; m = sample_segment 100 0 [7] False
   in acceptable s m = Some (0, 0, False) \<and> process_text s m 0 0 False = (False, s)"
  unfolding Let_def by (rule one_byte_segment_dropped) (simp_all add: sample_segment_fields sample_segment_len)

subsection \<open>Options\<close>

text \<open>
  Every option on the way from the fixed header to the end of the options has a length. The
  options take at most 40 bytes, so 41 steps are enough for the walk.
\<close>

fun opt_walk :: "nat \<Rightarrow> net_msg \<Rightarrow> nat \<Rightarrow> bool" where
  "opt_walk 0 m off \<longleftrightarrow> False"
| "opt_walk (Suc n) m off \<longleftrightarrow>
     (off < unat (seg_hlen m) \<and> byte_at (seg_bytes m) off \<noteq> 0
        \<longrightarrow> option_len m off \<noteq> 0 \<and> opt_walk n m (off + option_len m off))"

lemma opt_walk_numeral [simp]:
  "opt_walk (numeral v) m off \<longleftrightarrow>
     (off < unat (seg_hlen m) \<and> byte_at (seg_bytes m) off \<noteq> 0
        \<longrightarrow> option_len m off \<noteq> 0 \<and> opt_walk (pred_numeral v) m (off + option_len m off))"
  by (simp add: numeral_eq_Suc)

definition options_ok :: "net_msg \<Rightarrow> bool" where
  "options_ok m \<longleftrightarrow> opt_walk 41 m sizeof_tcp_hdr"

definition mss_clamped :: "socket \<Rightarrow> socket \<Rightarrow> bool" where
  "mss_clamped s s' \<longleftrightarrow> s' = s\<lparr>smss := smss s'\<rparr> \<and> (smss s' = smss s \<or> smss s' \<le> rmss s)"

lemma process_option_clamped: "mss_clamped s (process_option s m off)"
  by (auto simp: mss_clamped_def process_option_def Let_def)

lemma mss_clamped_trans:
  assumes "mss_clamped a b" and "mss_clamped b c"
  shows "mss_clamped a c"
proof -
  obtain x y where b: "b = a\<lparr>smss := x\<rparr>" and c: "c = b\<lparr>smss := y\<rparr>"
    using assms unfolding mss_clamped_def by blast
  show ?thesis using assms by (auto simp: mss_clamped_def b c)
qed

lemma option_loop_returns:
  "opt_walk n m off \<Longrightarrow> \<exists>s'. option_loop s m off = Some s' \<and> mss_clamped s s'"
proof (induction n arbitrary: s off)
  case (Suc n)
  show ?case
  proof (cases "off < unat (seg_hlen m) \<and> byte_at (seg_bytes m) off \<noteq> 0")
    case True
    then have "opt_walk n m (off + option_len m off)" using Suc.prems by simp
    from Suc.IH [OF this, of "process_option s m off"] True show ?thesis
      by (subst option_loop.simps) (auto intro: mss_clamped_trans [OF process_option_clamped])
  next
    case False
    then show ?thesis
      by (subst option_loop.simps) (auto simp: process_option_clamped, auto simp: mss_clamped_def)
  qed
qed simp


text \<open>A SYN with an MSS option of 1460 bytes, and one with an option of length zero.\<close>

definition syn_segment :: "u8 list \<Rightarrow> net_msg" where
  "syn_segment opts =
     \<lparr>seg_bytes = tcp_hdr_bytes
        \<lparr>hdr_src_port = 80, hdr_dst_port = 90, hdr_seq_no = 0, hdr_ack_no = 0, hdr_rsv1 = 0,
         hdr_hlength = 6, hdr_fin = False, hdr_syn = True, hdr_rst = False, hdr_psh = False, hdr_ack = False,
         hdr_urg = False, hdr_ece = False, hdr_cwr = False, hdr_window = 0, hdr_checksum = 0,
         hdr_urgent_ptr = 0\<rparr> @ opts,
      ip_length = 24, ip_src = 1, ip_dest = 2, ip_proto = 6, ip_df = True\<rparr>"

lemma option_loop_stuck:
  assumes "option_loop s m off = Some y"
  shows "\<not> (off < unat (seg_hlen m) \<and> byte_at (seg_bytes m) off \<notin> {0, 1} \<and> byte_at (seg_bytes m) (off + 1) = 0)"
proof (rule option_loop.raw_induct [where P = "\<lambda>s m off y. \<not> (off < unat (seg_hlen m)
    \<and> byte_at (seg_bytes m) off \<notin> {0, 1} \<and> byte_at (seg_bytes m) (off + 1) = 0)", OF _ assms])
  fix loop s m off y
  assume IH: "\<And>s m off y. loop s m off = Some y \<Longrightarrow> \<not> (off < unat (seg_hlen m)
      \<and> byte_at (seg_bytes m) off \<notin> {0, 1} \<and> byte_at (seg_bytes m) (off + 1) = 0)"
    and body: "(if off < unat (seg_hlen m) then
        (if byte_at (seg_bytes m) off = 0 then Some (process_option s m off)
         else loop (process_option s m off) m (off + option_len m off))
      else Some s) = Some y"
  show "\<not> (off < unat (seg_hlen m) \<and> byte_at (seg_bytes m) off \<notin> {0, 1} \<and> byte_at (seg_bytes m) (off + 1) = 0)"
  proof
    assume h: "off < unat (seg_hlen m) \<and> byte_at (seg_bytes m) off \<notin> {0, 1} \<and> byte_at (seg_bytes m) (off + 1) = 0"
    then have "option_len m off = 0" by (simp add: option_len_def)
    then have "loop (process_option s m off) m off = Some y" using body h by simp
    from IH [OF this] h show False by blast
  qed
qed

text \<open>
  An option of length zero makes the option parser, and with it the reception of the
  segment, run forever: the parser does not move to the next option.
\<close>

theorem process_options_diverges:
  assumes "of_nat sizeof_tcp_hdr < seg_hlen m" and "seg_hlen m \<le> ucast (ip_length m)"
    and "byte_at (seg_bytes m) 20 \<notin> {0, 1}" and "byte_at (seg_bytes m) 21 = 0"
  shows "process_options s m = None"
proof -
  have "20 < unat (seg_hlen m)" using assms(1) by (simp add: word_less_nat_alt)
  then have "option_loop s m 20 = None"
    using option_loop_stuck [of s m 20] assms(3,4) by (cases "option_loop s m 20") auto
  moreover have "seg_hlen m - 20 \<noteq> 0" using assms(1) by auto
  ultimately show ?thesis using assms(2) by (simp add: process_options_def Let_def)
qed

lemma syn_segment_bytes:
  "seg_bytes (syn_segment opts) = [80, 0, 90, 0, 0, 0, 0, 0, 0, 0, 0, 0, 96, 2, 0, 0, 0, 0, 0, 0] @ opts"
  by (simp add: syn_segment_def tcp_hdr_bytes_def st16_def st32_def bits_byte_def)

lemma syn_segment_fields: "seg_hlen (syn_segment opts) = 24" "ip_length (syn_segment opts) = 24"
  by (simp_all add: syn_segment_def seg_hlen_def tcp_hdr_round_trip)


theorem process_options_diverges_witness:
  "process_options (fresh_socket True) (syn_segment [3, 0, 0, 0]) = None"
  by (rule process_options_diverges) (simp_all add: syn_segment_fields syn_segment_bytes byte_at_def)

subsection \<open>Round trip time\<close>

text \<open>The timeout stays within its bounds, whatever the sample.\<close>

lemma update_srtt_rto_ok [simp]: "rto_ok (update_srtt s r)"
  by (simp add: rto_ok_def update_srtt_def Let_def not_less)

text \<open>
  When a connection is established after its SYN was retransmitted, no round trip is being
  timed, but the code takes the marker \<open>RTT_NONE\<close> for a sample: the timeout of the new
  connection is the maximum of two minutes.
\<close>

theorem establish_without_sample:
  assumes "current_rtt s = RTT_NONE" and "first_rtt s"
  shows "rto (establish_connection s m) = RTO_MAX"
  using assms
  by (simp add: establish_connection_def update_srtt_def Let_def net_post_event_def)

theorem establish_without_sample_witness:
  "rto (establish_connection (fresh_socket True) (sample_segment 1 1 [] False)) = 480"
  by (rule establish_without_sample) simp_all

end
