(* ===== verification/Tcp_Machine.thy ===== *)
theory Tcp_Machine
  imports Tcp Tcp_Receive
begin

text \<open>
  What the entry points of the TCP layer do to a single socket. The locale
  \<open>socket_steps\<close> takes a relation between the old and the new value of a socket that is
  reflexive and transitive and holds for each elementary update the code makes, and proves
  that it then holds for every socket across a received segment, a timer tick and a close,
  however these are composed of releases, drops and retransmissions. It extends
  \<open>send_steps\<close>, which does the same for the loop of \<open>trigger_send\<close> alone. Its interpretations
  instantiate the relation: the edges of the TCP state diagram, the bounds of the
  retransmission timeout, and the addresses of a connection.
\<close>

definition state_rel :: "(socket \<Rightarrow> socket \<Rightarrow> bool) \<Rightarrow> tcp_state \<Rightarrow> tcp_state \<Rightarrow> bool" where
  "state_rel R st st' \<longleftrightarrow> (\<forall>i s'. socks st' i = Some s' \<longrightarrow> (\<exists>s. socks st i = Some s \<and> R s s'))"

locale send_steps =
  fixes R :: "socket \<Rightarrow> socket \<Rightarrow> bool"
  assumes refl: "R s s"
    and trans: "R s1 s2 \<Longrightarrow> R s2 s3 \<Longrightarrow> R s1 s3"
    and sent: "R s (segment_sent s ack syn fin x n w)" "R s (s\<lparr>snd_nxt := x\<rparr>)" "R s (set_persist_timer b s)"
begin

lemma R_if: "R s a \<Longrightarrow> R s b \<Longrightarrow> R s (if c then a else b)"
  by simp

lemma R_send_segment:
  "R t (fst (snd (send_segment alloc t ack syn rst push fin request data head sz n w options)))"
  using refl sent(1) by (simp add: send_segment_def Let_def)

lemma R_round: "R s (fst (trigger_send_round alloc s flags))"
  unfolding trigger_send_round_def Let_def case_prod_unfold if_distrib [of fst] fst_conv
  by (intro R_if trans [OF _ sent(2)] trans [OF _ R_send_segment] trans [OF _ sent(3)] refl)

lemma R_trigger_send:
  assumes "trigger_send alloc s flags = Some (s', msgs)"
  shows "R s s'"
proof -
  have "R s (fst y)" if "trigger_send_loop alloc s flags out = Some y" for out y
  proof (rule trigger_send_loop.raw_induct [where P = "\<lambda>alloc s flags out y. R s (fst y)", OF _ that])
    fix loop alloc s flags out y
    assume IH: "\<And>alloc s flags out y. loop alloc s flags out = Some y \<Longrightarrow> R s (fst y)"
      and body: "(case trigger_send_round alloc s flags of (tcb', msgs, flags', cont) \<Rightarrow>
        if cont then loop alloc tcb' flags' (out @ msgs) else Some (tcb', out @ msgs)) = Some y"
    have "R s (fst (trigger_send_round alloc s flags))" by (rule R_round)
    then show "R s (fst y)"
      using body IH trans by (auto simp: case_prod_unfold split: if_splits)
  qed
  from this [of "[]"] assms show ?thesis by (simp add: trigger_send_def)
qed

end

locale socket_steps = send_steps +
  assumes admin: "R s (s\<lparr>ref_count := k\<rparr>)" "R s (s\<lparr>so_lock := b\<rparr>)" "R s (s\<lparr>so_queue := queue\<rparr>)"
      "R s (s\<lparr>so_error := k\<rparr>)" "R s (net_post_event ev s)" "R s (mark_timeout s)"
    and flags: "R s (s\<lparr>eof := True, epipe := True\<rparr>)" "R s (s\<lparr>closed := True\<rparr>)"
    and timers: "R s (s\<lparr>rtx_timer := t\<rparr>)" "R s (s\<lparr>delack_timer := t\<rparr>)" "R s (s\<lparr>persist_timer := t\<rparr>)"
      "R s (s\<lparr>time_wait_timer := t\<rparr>)" "R s (tick_rtt s)" "R s (start_rtx s)"
    and closed: "R s (s\<lparr>status := TCP_STATUS_CLOSED\<rparr>)"
    and una: "R s (s\<lparr>snd_una := x\<rparr>)"
    and rcvd: "process_options s m = Some s' \<Longrightarrow> R s s'" "R s (snd (process_ack s m))"
      "R s (fst (process_dup_ack s fl))" "R s (snd (process_text s m n w fin))"
      "R s (ack_transitions s m)" "R s (process_fin s)" "R s (s\<lparr>rcv_nxt := x\<rparr>)"
    and established: "status s \<in> {TCP_STATUS_SYN_SENT, TCP_STATUS_SYN_RCVD} \<Longrightarrow> R s (establish_connection s m)"
    and simultaneous: "status s = TCP_STATUS_SYN_SENT \<Longrightarrow>
      R s (update_snd_window (s\<lparr>rcv_nxt := x, status := TCP_STATUS_SYN_RCVD, snd_nxt := isn s\<rparr>) m)"
begin

abbreviation rel :: "tcp_state \<Rightarrow> tcp_state \<Rightarrow> bool" where
  "rel \<equiv> state_rel R"

lemma rel_refl [simp, intro]: "rel st st"
  using refl by (auto simp: state_rel_def)

lemma rel_trans [trans]: "rel a b \<Longrightarrow> rel b c \<Longrightarrow> rel a c"
  using trans unfolding state_rel_def by meson

lemma rel_socks: "socks st' = socks st \<Longrightarrow> rel st st'"
  using refl by (auto simp: state_rel_def)

lemma rel_put: "socks st i = Some s \<Longrightarrow> R s s' \<Longrightarrow> rel st (put_sock i s' st)"
  using refl by (auto simp: state_rel_def put_sock_def)

lemma rel_put_emit: "socks st i = Some s \<Longrightarrow> R s s' \<Longrightarrow> rel st (put_sock i s' (emit ms st))"
  using refl by (auto simp: state_rel_def put_sock_def emit_def)

lemma rel_emit: "rel st (emit ms st)" and rel_destroy: "rel st (net_msg_destroy st)"
  and rel_list: "rel st (st\<lparr>socket_list := l\<rparr>)"
  by (simp_all add: rel_socks emit_def net_msg_destroy_def)

lemma rel_kfree: "rel st (kfree_socket i st)"
  using refl by (auto simp: state_rel_def kfree_socket_def)

lemma rel_upd: "upd_sock i f st = Some st' \<Longrightarrow> (\<And>s. R s (f s)) \<Longrightarrow> rel st st'"
  by (auto simp: upd_sock_def bind_eq_Some_conv intro: rel_put)

lemma rel_lock: "spinlock_get i st = Some st' \<Longrightarrow> rel st st'"
  by (auto simp: spinlock_get_def bind_eq_Some_conv admin intro: rel_put split: if_splits)

lemma rel_unlock: "spinlock_release i st = Some st' \<Longrightarrow> rel st st'"
  unfolding spinlock_release_def by (erule rel_upd) (rule admin)

lemma rel_clone: "clone_socket i st = Some st' \<Longrightarrow> rel st st'"
  unfolding clone_socket_def by (erule rel_upd) (rule admin)

lemma rel_release:
  assumes "tcp_release_socket i st = Some st'"
  shows "rel st st'"
proof (rule tcp_release_socket.raw_induct [where P = "\<lambda>i st st'. rel st st'", OF _ assms])
  fix release i st st'
  assume IH: "\<And>i st st'. release i st = Some st' \<Longrightarrow> rel st st'"
    and body: "(case socks st i of None \<Rightarrow> None
      | Some s \<Rightarrow>
          (let s' = s\<lparr>ref_count := ref_count s - 1\<rparr>; st' = put_sock i s' st
           in if ref_count s' = 0 then
                (case so_parent s' of
                   None \<Rightarrow> Some (kfree_socket i st')
                 | Some p \<Rightarrow> Option.bind (release p st') (\<lambda>st''. Some (kfree_socket i st'')))
              else Some st')) = Some st'"
  then obtain s where s: "socks st i = Some s" by (auto split: option.splits)
  have "rel st (put_sock i (s\<lparr>ref_count := ref_count s - 1\<rparr>) st)"
    using s admin(1) by (rule rel_put)
  then show "rel st st'"
    using body s IH rel_kfree
    by (auto simp: Let_def bind_eq_Some_conv split: option.splits if_splits intro: rel_trans)
       (meson rel_trans)
qed

lemma rel_unregister: "unregister_socket env i st = Some st' \<Longrightarrow> rel st st'"
  unfolding unregister_socket_def
  by (auto simp: bind_eq_Some_conv split: if_splits intro: rel_trans [OF rel_list rel_release])

lemma rel_remove_queued: "remove_queued_connection p i st = Some st' \<Longrightarrow> rel st st'"
proof -
  assume r: "remove_queued_connection p i st = Some st'"
  then obtain st1 s st2 where l: "spinlock_get p st = Some st1" and s: "socks st1 p = Some s"
    and q: "(if i \<in> set (so_queue s)
             then tcp_release_socket i (put_sock p (s\<lparr>so_queue := remove1 i (so_queue s)\<rparr>) st1)
             else Some st1) = Some st2" and u: "spinlock_release p st2 = Some st'"
    by (auto simp: remove_queued_connection_def bind_eq_Some_conv)
  have "rel st1 st2"
    using q by (auto split: if_splits intro: rel_trans [OF rel_put [OF s admin(3)] rel_release])
  with l u show ?thesis by (blast intro: rel_trans rel_lock rel_unlock)
qed

subsection \<open>Sending\<close>

lemma rel_ctrl: "sock_ctrl env i ack syn rst request w options st = Some (rc, st') \<Longrightarrow> rel st st'"
proof -
  assume "sock_ctrl env i ack syn rst request w options st = Some (rc, st')"
  then obtain s where s: "socks st i = Some s" and st': "st' =
      put_sock i (fst (snd (send_ctrl (net_msg_new env) s ack syn rst request w options)))
        (emit (snd (snd (send_ctrl (net_msg_new env) s ack syn rst request w options))) st)"
    by (auto simp: sock_ctrl_def bind_eq_Some_conv Let_def case_prod_unfold)
  have "R s (fst (snd (send_ctrl (net_msg_new env) s ack syn rst request w options)))"
    unfolding send_ctrl_def by (rule R_send_segment)
  with s show ?thesis unfolding st' by (rule rel_put_emit)
qed

lemma rel_trigger: "sock_trigger env i flags st = Some st' \<Longrightarrow> rel st st'"
  by (auto simp: sock_trigger_def bind_eq_Some_conv intro: rel_put_emit R_trigger_send)

subsection \<open>Closing\<close>

lemma R_drop: "R s (net_post_event ev (s\<lparr>status := TCP_STATUS_CLOSED, eof := True, epipe := True\<rparr>))"
  using trans [OF trans [OF closed flags(1)] admin(5)] by simp

lemma R_close: "R s (s\<lparr>eof := True, epipe := True, closed := True\<rparr>)"
  using trans [OF flags(1) flags(2)] by simp

lemma rel_close_all:
  "drop_socket n env i st = Some st' \<Longrightarrow> rel st st'"
  "close_queued n env is st = Some st' \<Longrightarrow> rel st st'"
  "tcp_close_rec n env i st = Some st' \<Longrightarrow> rel st st'"
proof (induction n env i st and n env "is" st and n env i st arbitrary: st' and st' and st'
    rule: drop_socket_close_queued_tcp_close_rec.induct)
  case (1 env i st)
  then show ?case by simp
next
  case (2 n env i st)
  then obtain st1 st2 s st3 st4 where
    u: "upd_sock i (\<lambda>s. net_post_event (NET_EVENT_CAN_READ + NET_EVENT_CAN_WRITE)
          (s\<lparr>status := TCP_STATUS_CLOSED, eof := True, epipe := True\<rparr>)) st = Some st1"
    and r: "unregister_socket env i st1 = Some st2" and s: "socks st2 i = Some s"
    and k: "\<not> MAX_LISTEN_BACKLOG - 1 < length (so_queue s)"
    and l: "spinlock_release i (put_sock i (s\<lparr>so_queue := []\<rparr>) st2) = Some st3"
    and q: "close_queued n env (so_queue s) st3 = Some st4" and g: "spinlock_get i st4 = Some st'"
    by (auto simp: bind_eq_Some_conv Let_def split: if_splits)
  have "rel st3 st4" using 2(1) u r s k l q by (auto simp: bind_eq_Some_conv Let_def)
  moreover have "rel st st1" using u R_drop by (rule rel_upd)
  moreover have "rel st2 (put_sock i (s\<lparr>so_queue := []\<rparr>) st2)" using s admin(3) by (rule rel_put)
  ultimately show ?case
    using rel_unregister [OF r] rel_unlock [OF l] rel_lock [OF g] by (meson rel_trans)
next
  case (3 n env st)
  then show ?case by simp
next
  case (4 n env i "is" st)
  then obtain st1 st2 st3 st4 where g: "spinlock_get i st = Some st1"
    and c: "tcp_close_rec n env i st1 = Some st2" and l: "spinlock_release i st2 = Some st3"
    and r: "tcp_release_socket i st3 = Some st4" and q: "close_queued n env is st4 = Some st'"
    by (auto simp: bind_eq_Some_conv)
  have "rel st1 st2" "rel st4 st'" using 4(1,2) g c l r q by (auto simp: bind_eq_Some_conv)
  then show ?case using rel_lock [OF g] rel_unlock [OF l] rel_release [OF r] by (meson rel_trans)
next
  case (5 n env i st)
  then obtain s where s: "socks st i = Some s" by (auto simp: bind_eq_Some_conv)
  have "rel st (put_sock i (s\<lparr>eof := True, epipe := True, closed := True\<rparr>) st)"
    using s R_close by (rule rel_put)
  then show ?case using 5 s by (auto split: if_splits dest!: rel_trigger intro: rel_trans)
qed

lemma rel_close: "tcp_close env i st = Some st' \<Longrightarrow> rel st st'"
  unfolding tcp_close_def by (rule rel_close_all)

subsection \<open>Receiving\<close>

lemma rel_rx_closed: "rx_closed env i m st = Some (b, st') \<Longrightarrow> rel st st'"
  by (auto simp: rx_closed_def bind_eq_Some_conv split: if_splits intro: rel_ctrl)

lemma rel_rx_syn_sent:
  assumes s: "socks st i = Some s" "status s = TCP_STATUS_SYN_SENT"
    and r: "rx_syn_sent env i m st = Some (b, st')"
  shows "rel st st'"
proof -
  have c: "rel st (put_sock i (s\<lparr>status := TCP_STATUS_CLOSED\<rparr>) st)"
    using s(1) closed by (rule rel_put)
  have n: "R s (s\<lparr>rcv_nxt := seg_seq m + 1\<rparr>)" by (rule rcvd)
  have "R s (establish_connection (s\<lparr>rcv_nxt := seg_seq m + 1\<rparr>) m)"
    using trans [OF n established] s(2) by simp
  then have e: "rel st (put_sock i (establish_connection (s\<lparr>rcv_nxt := seg_seq m + 1\<rparr>) m) st)"
    using s(1) by (intro rel_put)
  have "R s (update_snd_window (s\<lparr>rcv_nxt := seg_seq m + 1, status := TCP_STATUS_SYN_RCVD, snd_nxt := isn s\<rparr>) m)"
    using s(2) by (rule simultaneous)
  then have w: "rel st (put_sock i (update_snd_window
      (s\<lparr>rcv_nxt := seg_seq m + 1, status := TCP_STATUS_SYN_RCVD, snd_nxt := isn s\<rparr>) m) st)"
    using s(1) by (intro rel_put)
  show ?thesis
    using r s(1) by (auto simp: rx_syn_sent_def bind_eq_Some_conv Let_def split: if_splits
        intro: rel_ctrl rel_trans [OF c rel_unregister] rel_trans [OF e rel_ctrl] rel_trans [OF w rel_ctrl])
qed

lemma R_reset: "R s (reset_socket s)"
  unfolding reset_socket_def by (rule trans [OF trans [OF flags(1) admin(5)] closed])

lemma rel_rx_sync_rst: "rx_sync_rst env i st = Some st' \<Longrightarrow> rel st st'"
proof -
  assume "rx_sync_rst env i st = Some st'"
  then obtain s st1 st2 st3 where s: "socks st i = Some s"
    and q: "(if status s = TCP_STATUS_SYN_RCVD then
              (case so_parent s of
                 Some p \<Rightarrow> Option.bind (remove_queued_connection p i st)
                             (upd_sock i (\<lambda>s. s\<lparr>status := TCP_STATUS_CLOSED\<rparr>))
               | None \<Rightarrow> Some (put_sock i (s\<lparr>so_error := - ECONNREFUSED\<rparr>) st))
            else Some st) = Some st1"
    and r: "upd_sock i reset_socket st1 = Some st2" and u: "unregister_socket env i st2 = Some st3"
    and e: "upd_sock i (\<lambda>s. if so_error s \<noteq> - ECONNREFUSED then s\<lparr>so_error := - ECONNRESET\<rparr> else s) st3 = Some st'"
    by (auto simp: rx_sync_rst_def bind_eq_Some_conv)
  have "rel st st1"
    using q s by (auto simp: bind_eq_Some_conv split: if_splits option.splits
        intro: rel_put admin(4) rel_trans [OF rel_remove_queued rel_upd] closed)
  moreover have "rel st1 st2" using r R_reset by (rule rel_upd)
  moreover have "rel st3 st'" using e by (rule rel_upd) (simp add: admin(4) refl)
  ultimately show ?thesis using rel_unregister [OF u] by (meson rel_trans)
qed

lemma rel_rx_sync_syn: "rx_sync_syn env i m st = Some st' \<Longrightarrow> rel st st'"
proof -
  assume "rx_sync_syn env i m st = Some st'"
  then obtain s :: socket and rc st1 st2 st3 where
    c: "sock_ctrl env i False False True (Some m) (rcv_wnd s) None st = Some (rc, st1)"
    and r: "upd_sock i reset_socket st1 = Some st2" and u: "unregister_socket env i st2 = Some st3"
    and e: "upd_sock i (\<lambda>s. s\<lparr>so_error := - ECONNRESET\<rparr>) st3 = Some st'"
    by (auto simp: rx_sync_syn_def bind_eq_Some_conv)
  show ?thesis
    using rel_ctrl [OF c] rel_upd [OF r R_reset] rel_unregister [OF u] rel_upd [OF e admin(4)]
    by (meson rel_trans)
qed

lemma rel_promote:
  assumes s: "socks st i = Some s" "status s = TCP_STATUS_SYN_RCVD"
    and r: "promote_socket i m st = Some st'"
  shows "rel st st'"
proof (cases "so_parent s")
  case None
  have "rel st (put_sock i (establish_connection s m) st)"
    by (rule rel_put [OF s(1) established]) (simp add: s(2))
  with None show ?thesis using r s(1) by (auto simp: promote_socket_def upd_sock_def)
next
  case (Some p)
  then obtain st1 st2 st3 where l: "spinlock_get p st = Some st1"
    and e: "upd_sock i (\<lambda>s. establish_connection s m) st1 = Some st2"
    and n: "upd_sock p (net_post_event NET_EVENT_CAN_READ) st2 = Some st3"
    and u: "spinlock_release p st3 = Some st'"
    using r s(1) by (auto simp: promote_socket_def bind_eq_Some_conv)
  obtain t where t: "socks st1 i = Some t" and st2: "st2 = put_sock i (establish_connection t m) st1"
    using e by (auto simp: upd_sock_def bind_eq_Some_conv)
  have "status t = TCP_STATUS_SYN_RCVD"
    using l s t by (auto simp: spinlock_get_def bind_eq_Some_conv put_sock_def split: if_splits)
  then have "rel st1 st2" unfolding st2 by (intro rel_put [OF t] established) simp
  then show ?thesis
    using rel_lock [OF l] rel_upd [OF n admin(5)] rel_unlock [OF u] by (meson rel_trans)
qed

lemma rel_state_change: "ack_state_change env i m st = Some (c, st') \<Longrightarrow> rel st st'"
  by (auto simp: ack_state_change_def bind_eq_Some_conv split: if_splits
      intro: rel_put rcvd(5) rel_trans [OF rel_put [OF _ closed] rel_unregister])

lemma rel_rx_sync_ack: "rx_sync_ack env i m st = Some (c, st') \<Longrightarrow> rel st st'"
proof -
  assume r: "rx_sync_ack env i m st = Some (c, st')"
  then obtain s where s: "socks st i = Some s" by (auto simp: rx_sync_ack_def bind_eq_Some_conv)
  define s1 where "s1 = snd (process_ack s m)"
  define v where "v = fst (process_ack s m)"
  have pa: "process_ack s m = (v, s1)" by (simp add: s1_def v_def)
  let ?st = "put_sock i s1 st"
  have st: "rel st ?st" using s rcvd(2) unfolding s1_def by (rule rel_put)
  have s1: "socks ?st i = Some s1" by (simp add: put_sock_def)
  have dup: "rel ?st (put_sock i (fst (process_dup_ack s1 no_flags)) ?st)"
    using s1 rcvd(3) by (rule rel_put)
  have prom: "rel ?st st2" if "promote_socket i m ?st = Some st2" "status s1 = TCP_STATUS_SYN_RCVD" for st2
    using rel_promote [OF s1 that(2,1)] .
  have "rel ?st st'"
    using r s unfolding rx_sync_ack_def
    by (auto simp: pa bind_eq_Some_conv Let_def case_prod_unfold split: if_splits
        intro: dup rel_ctrl rel_trigger rel_state_change rel_trans [OF prom rel_state_change])
  with st show ?thesis by (rule rel_trans)
qed

lemma R_text_and_fin: "R s (fst (text_and_fin s m f l fin flags))"
  unfolding text_and_fin_def Let_def case_prod_unfold if_distrib [of fst] fst_conv
  by (intro R_if trans [OF _ rcvd(6)] rcvd(4) refl)

lemma rel_rx_sync: "rx_sync env i m st = Some (b, st') \<Longrightarrow> rel st st'"
proof -
  assume r: "rx_sync env i m st = Some (b, st')"
  then obtain s where s: "socks st i = Some s" by (auto simp: rx_sync_def bind_eq_Some_conv)
  show ?thesis
  proof (cases "acceptable s m")
    case None
    then obtain st1 where
      c: "(if \<not> hdr_rst (msg_hdr m) then
             Option.bind (sock_ctrl env i True False False (Some m) (rcv_wnd s) None st) (\<lambda>(rc, st). Some st)
           else Some st) = Some st1"
      and w: "(if hdr_fin (msg_hdr m) \<and> status s = TCP_STATUS_TIME_WAIT then
             upd_sock i (\<lambda>s. s\<lparr>time_wait_timer := (time_wait_timer s)\<lparr>time := 2 * TCP_MSL\<rparr>\<rparr>) st1
           else Some st1) = Some st'"
      using r s by (auto simp: rx_sync_def bind_eq_Some_conv Let_def)
    have "rel st st1" using c by (auto simp: bind_eq_Some_conv split: if_splits intro: rel_ctrl)
    moreover have "rel st1 st'" using w by (auto split: if_splits intro: rel_upd timers(4))
    ultimately show ?thesis by (rule rel_trans)
  next
    case (Some p)
    obtain f l fin where p: "p = (f, l, fin)" by (cases p)
    obtain st1 where q: "(if hdr_rst (msg_hdr m) then rx_sync_rst env i st else Some st) = Some st1"
      and k: "(if hdr_syn (msg_hdr m) then Option.bind (rx_sync_syn env i m st1) (\<lambda>st. Some (True, st))
         else if \<not> hdr_ack (msg_hdr m) then Some (True, st1)
         else Option.bind (rx_sync_ack env i m st1) (\<lambda>(cont, st).
           case cont of None \<Rightarrow> Some (True, st)
           | Some flags \<Rightarrow> Option.bind (socks st i) (\<lambda>s.
               let (s, flags) = text_and_fin s m f l fin flags
               in Option.bind (sock_trigger env i flags (put_sock i s st)) (\<lambda>st. Some (True, st))))) = Some (b, st')"
      using r s Some p by (auto simp: rx_sync_def bind_eq_Some_conv Let_def)
    have "rel st st1" using q by (auto split: if_splits intro: rel_rx_sync_rst)
    moreover have "rel st1 st'"
      using k by (auto simp: bind_eq_Some_conv Let_def case_prod_unfold split: if_splits option.splits
          intro: rel_rx_sync_syn rel_rx_sync_ack
            rel_trans [OF rel_rx_sync_ack rel_trans [OF rel_put [OF _ R_text_and_fin] rel_trigger]])
    ultimately show ?thesis by (rule rel_trans)
  qed
qed

text \<open>
  A SYN at a listening socket creates a socket, so here the relation is only about the sockets
  that existed before.
\<close>

abbreviation old_rel :: "tcp_state \<Rightarrow> tcp_state \<Rightarrow> bool" where
  "old_rel st st' \<equiv> \<forall>i s s'. socks st i = Some s \<longrightarrow> socks st' i = Some s' \<longrightarrow> R s s'"

lemma rel_old: "rel st st' \<Longrightarrow> old_rel st st'"
  by (fastforce simp: state_rel_def)

lemma old_rel_trans: "old_rel a b \<Longrightarrow> rel b c \<Longrightarrow> old_rel a c"
  unfolding state_rel_def using trans by meson

lemma rel_add_check: "add_socket_check j st = Some (rc, st') \<Longrightarrow> rel st st'"
  by (auto simp: add_socket_check_def bind_eq_Some_conv split: if_splits
      intro: rel_trans [OF rel_clone rel_list])

lemma copy_old_rel:
  assumes c: "copy_socket env i l_ip l_port f_ip f_port st = Some (Some j, st1)"
    and fresh: "socks st (next_sock st) = None"
  shows "old_rel st (put_sock j t st1)"
proof -
  obtain s' st0 where j: "j = next_sock st" and cl: "clone_socket i st = Some st0"
    and st1: "st1 = (put_sock j s' st0)\<lparr>next_sock := j + 1\<rparr>"
    using c by (auto simp: copy_socket_def bind_eq_Some_conv Let_def split: if_splits)
  have "old_rel st st0" by (rule rel_old [OF rel_clone [OF cl]])
  then show ?thesis using fresh j by (auto simp: st1 put_sock_def)
qed

lemma rel_queue_connection:
  assumes "queue_connection env i j m w mss st = Some st'"
  shows "rel st st'"
proof -
  obtain rc st0 where a: "add_socket_check j st = Some (rc, st0)"
    using assms by (auto simp: queue_connection_def bind_eq_Some_conv)
  show ?thesis
  proof (cases "rc < 0")
    case True
    then have "st' = kfree_socket j st0" using assms a by (simp add: queue_connection_def)
    then show ?thesis using rel_trans [OF rel_add_check [OF a] rel_kfree] by simp
  next
    case False
    then obtain st1 st2 st3 st4 st5 rc' where
      c: "clone_socket j st0 = Some st1" "clone_socket j st1 = Some st2" "clone_socket j st2 = Some st3"
        "clone_socket j st3 = Some st4"
      and q: "upd_sock i (\<lambda>s. s\<lparr>so_queue := so_queue s @ [j]\<rparr>) st4 = Some st5"
      and k: "sock_ctrl env j True True False (Some m) w (Some mss) st5 = Some (rc', st')"
      using assms a by (auto simp: queue_connection_def bind_eq_Some_conv)
    have "rel st4 st5" using q admin(3) by (rule rel_upd)
    then show ?thesis using rel_add_check [OF a] c [THEN rel_clone] rel_ctrl [OF k] by (meson rel_trans)
  qed
qed

lemma old_rel_accept:
  assumes r: "accept_syn env i m st = Some st'" and fresh: "socks st (next_sock st) = None"
  shows "old_rel st st'"
proof -
  obtain new st1 where c: "copy_socket env i (ip_dest m) (hdr_dst_port (msg_hdr m)) (ip_src m)
      (hdr_src_port (msg_hdr m)) st = Some (new, st1)"
    using r by (auto simp: accept_syn_def bind_eq_Some_conv)
  show ?thesis
  proof (cases new)
    case None
    then have "st1 = st" using c by (auto simp: copy_socket_def bind_eq_Some_conv Let_def split: if_splits)
    then show ?thesis using r c None rel_old [OF rel_refl] by (simp add: accept_syn_def)
  next
    case (Some j)
    then obtain t w mss where q: "queue_connection env i j m w mss (put_sock j t st1) = Some st'"
      using r c by (auto simp: accept_syn_def bind_eq_Some_conv Let_def)
    from c have "old_rel st (put_sock j t st1)" unfolding Some using fresh by (rule copy_old_rel)
    then show ?thesis using rel_queue_connection [OF q] by (rule old_rel_trans)
  qed
qed

lemma old_rel_listen:
  assumes r: "rx_listen env i m st = Some (b, st')" and fresh: "socks st (next_sock st) = None"
  shows "old_rel st st'"
proof -
  have ctrl: "old_rel st st1"
    if "sock_ctrl env i False False True (Some m) 0 None st = Some (rc, st1)" for rc st1
    by (rule rel_old [OF rel_ctrl [OF that]])
  show ?thesis
    using r rel_old [OF rel_refl, of st] ctrl old_rel_accept [OF _ fresh, of env i m]
    by (auto simp: rx_listen_def Let_def bind_eq_Some_conv split: if_splits)
qed

text \<open>Steps that keep every socket alive, as taken before the dispatch on the state.\<close>

definition alive_rel :: "tcp_state \<Rightarrow> tcp_state \<Rightarrow> bool" where
  "alive_rel st st' \<longleftrightarrow> rel st st' \<and> dom (socks st') = dom (socks st) \<and> next_sock st' = next_sock st"

lemma alive_put: "socks st i = Some s \<Longrightarrow> R s s' \<Longrightarrow> alive_rel st (put_sock i s' st)"
  by (auto simp: alive_rel_def rel_put) (auto simp: put_sock_def split: if_splits)

lemma alive_trans: "alive_rel a b \<Longrightarrow> alive_rel b c \<Longrightarrow> alive_rel a c"
  by (auto simp: alive_rel_def intro: rel_trans)

lemma alive_old_rel: "alive_rel a b \<Longrightarrow> old_rel b c \<Longrightarrow> old_rel a c"
proof (intro allI impI)
  fix i s s'
  assume "alive_rel a b" and old: "old_rel b c" and s: "socks a i = Some s" and s': "socks c i = Some s'"
  then have rel: "rel a b" and "i \<in> dom (socks b)" by (auto simp: alive_rel_def)
  then obtain t where t: "socks b i = Some t" by blast
  then have "R s t" using rel s unfolding state_rel_def by fastforce
  then show "R s s'" using old t s' trans by blast
qed

lemma alive_fresh:
  "alive_rel a b \<Longrightarrow> socks a (next_sock a) = None \<Longrightarrow> socks b (next_sock b) = None"
  unfolding alive_rel_def by (metis domIff)

lemma alive_lock: "spinlock_get i st = Some st' \<Longrightarrow> alive_rel st st'"
  by (auto simp: spinlock_get_def bind_eq_Some_conv admin intro: alive_put split: if_splits)

lemma alive_clone: "clone_socket i st = Some st' \<Longrightarrow> alive_rel st st'"
  by (auto simp: clone_socket_def upd_sock_def bind_eq_Some_conv admin intro: alive_put)

lemma dispatch_old_rel:
  assumes r: "rx_dispatch (status s) env i m st = Some (b, st')" and s: "socks st i = Some s"
    and fresh: "socks st (next_sock st) = None"
  shows "old_rel st st'"
proof (cases "status s = TCP_STATUS_LISTEN")
  case True
  then show ?thesis using r fresh old_rel_listen by (simp add: rx_dispatch_def)
next
  case False
  have "rel st st'"
    using r s False
    by (cases "status s")
       (auto simp: rx_dispatch_def intro: rel_rx_closed rel_rx_sync rel_rx_syn_sent)
  then show ?thesis by (rule rel_old)
qed

lemma rx_msg_old_rel:
  assumes r: "tcp_rx_msg env m st = Some st'" and fresh: "socks st (next_sock st) = None"
  shows "old_rel st st'"
proof (cases "compute_checksum (seg_bytes m) (ip_length m) (ip_src m) (ip_dest m) \<noteq> 0")
  case True
  then show ?thesis using r rel_old [OF rel_refl] by (simp add: tcp_rx_msg_def)
next
  case False
  then obtain sock st1 where l: "locate_socket (ip_dest m) (hdr_dst_port (msg_hdr m)) (ip_src m)
      (hdr_src_port (msg_hdr m)) st = Some (sock, st1)"
    using r by (auto simp: tcp_rx_msg_def bind_eq_Some_conv Let_def)
  show ?thesis
  proof (cases sock)
    case None
    then have "st1 = st" using l by (auto simp: locate_socket_def bind_eq_Some_conv split: option.splits)
    then have "socks st' = socks st"
      using r l False None by (auto simp: tcp_rx_msg_def Let_def net_msg_destroy_def emit_def)
    then show ?thesis by (intro rel_old rel_socks)
  next
    case (Some i)
    then have c: "alive_rel st st1"
      using l by (auto simp: locate_socket_def bind_eq_Some_conv alive_clone split: option.splits)
    obtain st2 s t b st3 where g: "spinlock_get i st1 = Some st2" and s: "socks st2 i = Some s"
      and o: "process_options s m = Some t"
      and d: "rx_dispatch (status t) env i m (put_sock i t st2) = Some (b, st3)"
      and k: "(if b then Option.bind (spinlock_release i st3) (\<lambda>st. tcp_release_socket i (net_msg_destroy st))
               else Some st3) = Some st'"
      using r l False Some by (auto simp: tcp_rx_msg_def Let_def bind_eq_Some_conv)
    have a: "alive_rel st (put_sock i t st2)"
      using c alive_lock [OF g] alive_put [OF s rcvd(1) [OF o]] by (blast intro: alive_trans)
    have "old_rel (put_sock i t st2) st3"
      using d _ alive_fresh [OF a fresh] by (rule dispatch_old_rel) (simp add: put_sock_def)
    with a have "old_rel st st3" by (rule alive_old_rel)
    moreover have "rel st3 st'"
      using k rel_trans [OF rel_unlock rel_trans [OF rel_destroy rel_release]]
      by (auto simp: bind_eq_Some_conv split: if_splits)
    ultimately show ?thesis by (rule old_rel_trans)
  qed
qed

subsection \<open>Timers\<close>

lemma rel_upd': "socks st i = Some s \<Longrightarrow> upd_sock i f st = Some st' \<Longrightarrow> R s (f s) \<Longrightarrow> rel st st'"
  by (auto simp: upd_sock_def intro: rel_put)

lemma rel_timeout_drop:
  assumes "Option.bind (sock_ctrl env i ack False True None 0 None st) (\<lambda>(rc, st).
     Option.bind (upd_sock i mark_timeout st) (drop_socket n env i)) = Some st'"
  shows "rel st st'"
proof -
  obtain rc st1 st2 where c: "sock_ctrl env i ack False True None 0 None st = Some (rc, st1)"
    and u: "upd_sock i mark_timeout st1 = Some st2" and d: "drop_socket n env i st2 = Some st'"
    using assms by (auto simp: bind_eq_Some_conv)
  show ?thesis using rel_ctrl [OF c] rel_upd [OF u admin(6)] rel_close_all(1) [OF d] by (meson rel_trans)
qed

lemma rel_rtx_expired: "rtx_expired env i st = Some st' \<Longrightarrow> rel st st'"
proof -
  assume r: "rtx_expired env i st = Some st'"
  then obtain s where s: "socks st i = Some s" by (auto simp: rtx_expired_def bind_eq_Some_conv)
  have p: "rel st (put_sock i (s\<lparr>snd_nxt := isn s, snd_una := isn s\<rparr>) st)"
    using s trans [OF sent(2) una] by (rule rel_put)
  have b: "rel st1 st'" if "upd_sock i (\<lambda>s. s\<lparr>rtx_timer := \<lparr>time = shl32 SYN_TIMEOUT (backoff (rtx_timer s) + 1),
      backoff = backoff (rtx_timer s) + 1\<rparr>\<rparr>) st1 = Some st'" for st1
    using that by (rule rel_upd) (rule timers(1))
  have t: "rel st (put_sock i (start_rtx s) st)" using s timers(6) by (rule rel_put)
  consider (idle) "status s = TCP_STATUS_CLOSED \<or> status s = TCP_STATUS_LISTEN"
    | (syn) "status s = TCP_STATUS_SYN_SENT \<or> status s = TCP_STATUS_SYN_RCVD" "rtx_count s < SYN_MAX_RTX"
    | (dead) "\<exists>ack. Option.bind (sock_ctrl env i ack False True None 0 None st) (\<lambda>(rc, st).
         Option.bind (upd_sock i mark_timeout st) (drop_socket close_depth env i)) = Some st'"
    | (data) "sock_trigger env i (no_flags\<lparr>OF_FORCE := True\<rparr>) (put_sock i (start_rtx s) st) = Some st'"
    using r s by (auto simp: rtx_expired_def split: if_splits)
  then show ?thesis
  proof cases
    case idle
    then show ?thesis using r s by (auto simp: rtx_expired_def)
  next
    case syn
    then show ?thesis
      using r s b p by (auto simp: rtx_expired_def bind_eq_Some_conv Let_def
          intro: rel_trans [OF p rel_trans [OF rel_ctrl b]])
  next
    case dead
    then show ?thesis using rel_timeout_drop by blast
  next
    case data
    then show ?thesis using rel_trans [OF t rel_trigger] by blast
  qed
qed

lemma rel_ticks:
  "tick_rtx env i st = Some st' \<Longrightarrow> rel st st'"
  "tick_delack env i st = Some st' \<Longrightarrow> rel st st'"
  "tick_persist env i st = Some st' \<Longrightarrow> rel st st'"
  "tick_time_wait env i st = Some st' \<Longrightarrow> rel st st'"
  by (auto simp: tick_rtx_def tick_delack_def tick_persist_def tick_time_wait_def bind_eq_Some_conv Let_def
      split: if_splits intro: rel_put timers
        rel_trans [OF rel_put [OF _ timers(1)] rel_rtx_expired]
        rel_trans [OF rel_put [OF _ timers(2)] rel_trigger]
        rel_trans [OF rel_put [OF _ trans [OF timers(3) timers(1)]] rel_trigger]
        rel_trans [OF rel_put [OF _ timers(4)] rel_close_all(1)])

lemma rel_process_timers: "process_timers env i st = Some st' \<Longrightarrow> rel st st'"
proof -
  assume r: "process_timers env i st = Some st'"
  then obtain st1 s where g: "spinlock_get i st = Some st1" and s: "socks st1 i = Some s"
    by (auto simp: process_timers_def bind_eq_Some_conv)
  show ?thesis
  proof (cases "status s = TCP_STATUS_CLOSED")
    case True
    then have "spinlock_release i st1 = Some st'" using r g s by (simp add: process_timers_def)
    then show ?thesis using rel_trans [OF rel_lock [OF g] rel_unlock] by blast
  next
    case False
    then obtain st2 st3 st4 st5 st6 where u: "upd_sock i tick_rtt st1 = Some st2"
      and t: "tick_rtx env i st2 = Some st3" "tick_delack env i st3 = Some st4"
        "tick_persist env i st4 = Some st5" "tick_time_wait env i st5 = Some st6"
      and l: "spinlock_release i st6 = Some st'"
      using r g s by (auto simp: process_timers_def bind_eq_Some_conv)
    show ?thesis
      using rel_lock [OF g] rel_upd [OF u timers(5)] rel_ticks(1) [OF t(1)] rel_ticks(2) [OF t(2)]
        rel_ticks(3) [OF t(3)] rel_ticks(4) [OF t(4)] rel_unlock [OF l] by (meson rel_trans)
  qed
qed

lemma rel_tick_all: "tick_all env is st = Some st' \<Longrightarrow> rel st st'"
proof (induction "is" arbitrary: st)
  case (Cons i "is")
  then obtain st1 st2 where "process_timers env i st = Some st1" "tcp_release_socket i st1 = Some st2"
    "tick_all env is st2 = Some st'" by (auto simp: bind_eq_Some_conv)
  then show ?case using Cons.IH by (meson rel_trans rel_process_timers rel_release)
qed simp

lemma rel_clone_all: "clone_all is st = Some st' \<Longrightarrow> rel st st'"
proof (induction "is" arbitrary: st)
  case (Cons i "is")
  then obtain st1 where "clone_socket i st = Some st1" "clone_all is st1 = Some st'"
    by (auto simp: bind_eq_Some_conv)
  then show ?case using Cons.IH by (meson rel_trans rel_clone)
qed simp

lemma rel_do_tick: "tcp_do_tick env st = Some st' \<Longrightarrow> rel st st'"
  by (auto simp: tcp_do_tick_def bind_eq_Some_conv Let_def intro: rel_trans [OF rel_clone_all rel_tick_all])

end

subsection \<open>The state diagram\<close>

text \<open>
  The transitions of RFC 793 for an open connection, and the abort to CLOSED from every state.
\<close>

inductive tcp_edge :: "tcp_status \<Rightarrow> tcp_status \<Rightarrow> bool" where
  syn_ack: "tcp_edge TCP_STATUS_SYN_SENT TCP_STATUS_ESTABLISHED"
| syn: "tcp_edge TCP_STATUS_SYN_SENT TCP_STATUS_SYN_RCVD"
| ack_of_syn: "tcp_edge TCP_STATUS_SYN_RCVD TCP_STATUS_ESTABLISHED"
| close_early: "tcp_edge TCP_STATUS_SYN_RCVD TCP_STATUS_FIN_WAIT_1"
| fin_early: "tcp_edge TCP_STATUS_SYN_RCVD TCP_STATUS_CLOSE_WAIT"
| close: "tcp_edge TCP_STATUS_ESTABLISHED TCP_STATUS_FIN_WAIT_1"
| fin: "tcp_edge TCP_STATUS_ESTABLISHED TCP_STATUS_CLOSE_WAIT"
| ack_of_fin: "tcp_edge TCP_STATUS_FIN_WAIT_1 TCP_STATUS_FIN_WAIT_2"
| both_fin: "tcp_edge TCP_STATUS_FIN_WAIT_1 TCP_STATUS_CLOSING"
| fin_after: "tcp_edge TCP_STATUS_FIN_WAIT_2 TCP_STATUS_TIME_WAIT"
| ack_closing: "tcp_edge TCP_STATUS_CLOSING TCP_STATUS_TIME_WAIT"
| close_last: "tcp_edge TCP_STATUS_CLOSE_WAIT TCP_STATUS_LAST_ACK"
| abort: "tcp_edge st TCP_STATUS_CLOSED"

code_pred tcp_edge .

abbreviation tcp_path :: "tcp_status \<Rightarrow> tcp_status \<Rightarrow> bool" where
  "tcp_path \<equiv> tcp_edge\<^sup>*\<^sup>*"

lemmas tcp_path_intros = tcp_edge.intros [THEN r_into_rtranclp [of tcp_edge]]

lemma status_simps:
  "status (mark_timeout s) = status s" "status (tick_rtt s) = status s" "status (start_rtx s) = status s"
  "status (set_persist_timer b s) = status s" "status (net_post_event e s) = status s"
  "status (fst (process_dup_ack s fl)) = status s" "status (snd (process_text s m f l fin)) = status s"
  "status (update_snd_window s m) = status s" "status (stop_timers s) = status s"
  "status (establish_connection s m) = TCP_STATUS_ESTABLISHED"
  by (simp_all add: mark_timeout_def tick_rtt_def start_rtx_def set_persist_timer_def net_post_event_def
      process_dup_ack_def process_text_def update_snd_window_def stop_timers_def establish_connection_def
      update_srtt_frame Let_def case_prod_unfold)

lemma process_ack_status: "status (snd (process_ack s m)) = status s"
  by (cases "TCP_LT (snd_una s) (seg_ack m) \<and> TCP_LEQ (seg_ack m) (snd_max s)")
     (simp_all add: process_ack_valid process_ack_invalid)

lemma fin_status_path: "tcp_path st (fin_status st)"
  by (cases st) (auto intro: tcp_path_intros)

lemma ack_transitions_path: "tcp_path (status s) (status (ack_transitions s m))"
  by (auto simp: ack_transitions_def Let_def status_simps intro: tcp_path_intros)

lemma process_fin_path: "tcp_path (status s) (status (process_fin s))"
  by (cases "status s") (auto simp: process_fin_def Let_def status_simps intro: tcp_path_intros)

lemma process_options_only_mss: "process_options s m = Some s' \<Longrightarrow> s' = s\<lparr>smss := smss s'\<rparr>"
proof -
  have "y = s\<lparr>smss := smss y\<rparr>" if "option_loop s m off = Some y" for off y
  proof (rule option_loop.raw_induct [where P = "\<lambda>s m off y. y = s\<lparr>smss := smss y\<rparr>", OF _ that])
    fix loop s m off y
    assume IH: "\<And>s m off y. loop s m off = Some y \<Longrightarrow> y = s\<lparr>smss := smss y\<rparr>"
      and body: "(if off < unat (seg_hlen m) then
        (if byte_at (seg_bytes m) off = 0 then Some (process_option s m off)
         else loop (process_option s m off) m (off + option_len m off)) else Some s) = Some y"
    have p: "process_option s m off = s\<lparr>smss := smss (process_option s m off)\<rparr>"
      using process_option_clamped [of s m off] by (simp add: mss_clamped_def)
    show "y = s\<lparr>smss := smss y\<rparr>"
    proof (cases "off < unat (seg_hlen m) \<and> byte_at (seg_bytes m) off \<noteq> 0")
      case True
      then have "loop (process_option s m off) m (off + option_len m off) = Some y" using body by simp
      from IH [OF this] have "y = (process_option s m off)\<lparr>smss := smss y\<rparr>" .
      then show ?thesis by (subst (asm) p) simp
    next
      case False
      then show ?thesis using body p by (auto split: if_splits)
    qed
  qed
  then show "process_options s m = Some s' \<Longrightarrow> s' = s\<lparr>smss := smss s'\<rparr>"
    by (auto simp: process_options_def Let_def split: if_splits)
qed

lemma process_options_frame:
  assumes "process_options s m = Some s'"
  shows "status s' = status s" "rto s' = rto s" "laddr s' = laddr s" "faddr s' = faddr s"
  by (subst process_options_only_mss [OF assms], simp)+

interpretation status_steps: socket_steps "\<lambda>s s'. tcp_path (status s) (status s')"
  by unfold_locales
     (auto simp: status_simps process_ack_status process_options_frame segment_sent_fields fin_status_path
       ack_transitions_path process_fin_path intro: tcp_path_intros rtranclp_trans)

subsection \<open>Addresses and the retransmission timeout\<close>

abbreviation addresses :: "socket \<Rightarrow> sockaddr_in \<times> sockaddr_in" where
  "addresses s \<equiv> (laddr s, faddr s)"

lemma address_simps:
  "addresses (net_post_event e s) = addresses s" "addresses (mark_timeout s) = addresses s"
  "addresses (tick_rtt s) = addresses s" "addresses (start_rtx s) = addresses s"
  "addresses (set_persist_timer b s) = addresses s" "addresses (update_srtt s n) = addresses s"
  "addresses (update_cwnd s n) = addresses s" "addresses (fst (process_dup_ack s fl)) = addresses s"
  "addresses (update_snd_window s m) = addresses s" "addresses (stop_timers s) = addresses s"
  "addresses (set_rtx_timer b s) = addresses s" "addresses (time_segment s) = addresses s"
  by (simp_all add: net_post_event_def mark_timeout_def tick_rtt_def start_rtx_def set_persist_timer_def
      update_srtt_def update_cwnd_def process_dup_ack_def update_snd_window_def stop_timers_def
      set_rtx_timer_def time_segment_def Let_def case_prod_unfold)

lemma address_simps2:
  "addresses (segment_sent s ack syn fin q n w) = addresses s"
  "addresses (snd (process_ack s m)) = addresses s"
  "addresses (snd (process_text s m f l fin)) = addresses s"
  "addresses (establish_connection s m) = addresses s"
  "addresses (ack_transitions s m) = addresses s"
  "addresses (process_fin s) = addresses s"
  using address_simps
  by (simp_all add: segment_sent_def process_ack_def process_text_def establish_connection_def
      ack_transitions_def process_fin_def Let_def case_prod_unfold)

interpretation address_steps: socket_steps "\<lambda>s s'. addresses s' = addresses s"
  by unfold_locales
     (simp_all only: address_simps address_simps2, auto simp: process_options_frame address_simps [simplified])

lemma rto_simps:
  "rto (net_post_event e s) = rto s" "rto (mark_timeout s) = rto s" "rto (tick_rtt s) = rto s"
  "rto (start_rtx s) = rto s" "rto (set_persist_timer b s) = rto s" "rto (update_cwnd s n) = rto s"
  "rto (fst (process_dup_ack s fl)) = rto s" "rto (update_snd_window s m) = rto s"
  "rto (stop_timers s) = rto s" "rto (snd (process_text s m f l fin)) = rto s"
  by (simp_all add: net_post_event_def mark_timeout_def tick_rtt_def start_rtx_def set_persist_timer_def
      update_cwnd_def process_dup_ack_def update_snd_window_def stop_timers_def process_text_def
      Let_def case_prod_unfold)

lemma rto_simps2:
  "rto (ack_transitions s m) = rto s" "rto (process_fin s) = rto s"
  by (simp_all add: ack_transitions_def process_fin_def Let_def rto_simps)

lemma establish_rto_ok: "rto_ok (establish_connection s m)"
  using update_srtt_rto_ok by (simp add: establish_connection_def Let_def rto_ok_def rto_simps)

lemma process_ack_rto_ok: "rto_ok s \<Longrightarrow> rto_ok (snd (process_ack s m))"
  using update_srtt_rto_ok by (simp add: process_ack_def Let_def rto_ok_def rto_simps)

interpretation rto_steps: socket_steps "\<lambda>s s'. rto_ok s \<longrightarrow> rto_ok s'"
  by unfold_locales
     (auto simp: establish_rto_ok process_ack_rto_ok,
      auto simp: rto_ok_def rto_simps rto_simps2 frame_simps process_options_frame)

end
