(* ===== verification/Tcp_Properties.thy ===== *)
theory Tcp_Properties
  imports Tcp_Machine
begin

text \<open>
  Properties of the TCP layer as a whole: the state diagram, the socket registry, the socket
  calls against the byte streams they implement, and executions that show where an entry
  point does not return or leaves its locks behind.
\<close>

subsection \<open>A connection for the witnesses\<close>

definition sample_env :: net_env where
  "sample_env = \<lparr>gettimeofday = None, ip_get_mtu = (\<lambda>_. 1500), ip_get_src_addr = (\<lambda>_. 1),
     net_msg_new = (\<lambda>_. True), kmalloc_socket = True, tcp_disable_cc = False, stack_garbage = False\<rparr>"

definition conn_socket :: socket where
  "conn_socket = (fresh_socket True)\<lparr>status := TCP_STATUS_ESTABLISHED, ref_count := 2, rcv_nxt := 100,
     laddr := \<lparr>sin_family = AF_INET, sin_port = 80, s_addr = 1\<rparr>,
     faddr := \<lparr>sin_family = AF_INET, sin_port = 90, s_addr = 2\<rparr>\<rparr>"

definition one_socket :: "socket \<Rightarrow> tcp_state" where
  "one_socket s = \<lparr>socks = [0 \<mapsto> s], socket_list = [0], ip_tx = [], msgs_destroyed = 0, next_sock = 1\<rparr>"

definition sample_hdr :: "u32 \<Rightarrow> tcp_hdr" where
  "sample_hdr seq = \<lparr>hdr_src_port = 90, hdr_dst_port = 80, hdr_seq_no = htonl seq, hdr_ack_no = 0, hdr_rsv1 = 0,
     hdr_hlength = 5, hdr_fin = False, hdr_syn = False, hdr_rst = False, hdr_psh = False, hdr_ack = False,
     hdr_urg = False, hdr_ece = False, hdr_cwr = False, hdr_window = 0, hdr_checksum = 0, hdr_urgent_ptr = 0\<rparr>"

definition rst_msg :: net_msg where
  "rst_msg = finish_segment (sample_hdr 100) False False True False False [] [] 0 2 1"

lemma rst_msg_fields:
  "hdr_src_port (msg_hdr rst_msg) = 90" "hdr_dst_port (msg_hdr rst_msg) = 80"
  "hdr_rst (msg_hdr rst_msg)" "\<not> hdr_syn (msg_hdr rst_msg)" "\<not> hdr_ack (msg_hdr rst_msg)"
  "\<not> hdr_fin (msg_hdr rst_msg)" "seg_seq rst_msg = 100" "seg_hlen rst_msg = 20"
  "ip_src rst_msg = 2" "ip_dest rst_msg = 1" "ip_length rst_msg = 20" "seg_len rst_msg = 0"
proof -
  obtain c where h: "msg_hdr rst_msg = finished_hdr (sample_hdr 100) False False True False False 0 c"
    unfolding rst_msg_def using finish_segment_hdr by blast
  show "hdr_src_port (msg_hdr rst_msg) = 90" "hdr_dst_port (msg_hdr rst_msg) = 80"
    "hdr_rst (msg_hdr rst_msg)" "\<not> hdr_syn (msg_hdr rst_msg)" "\<not> hdr_ack (msg_hdr rst_msg)"
    "\<not> hdr_fin (msg_hdr rst_msg)" "seg_seq rst_msg = 100" "seg_hlen rst_msg = 20"
    by (simp_all add: seg_seq_def seg_hlen_def h finished_hdr_def sample_hdr_def)
  moreover show "ip_src rst_msg = 2" "ip_dest rst_msg = 1" "ip_length rst_msg = 20"
    by (simp_all add: rst_msg_def finish_segment_def Let_def)
  ultimately show "seg_len rst_msg = 0" by (simp add: seg_len_def)
qed

lemma rst_msg_checksum: "compute_checksum (seg_bytes rst_msg) 20 2 1 = 0"
  using finish_segment_checksum [of "sample_hdr 100" "[]" "[]" False False True False False 0 2 1]
  by (simp add: rst_msg_def sample_hdr_def)

lemma rst_msg_rx:
  "\<exists>st'. tcp_rx_msg sample_env rst_msg (one_socket conn_socket) = Some st'
     \<and> map_option status (socks st' 0) = Some TCP_STATUS_CLOSED"
  unfolding tcp_rx_msg_def
  by (simp add: rst_msg_checksum rst_msg_fields locate_socket_def get_matching_tcb_def list_socks_def
     one_socket_def conn_socket_def match_level_def match_field_def clone_socket_def upd_sock_def put_sock_def
     spinlock_get_def process_options_def rx_dispatch_def rx_sync_def acceptable_def seq_iff rx_sync_rst_def
     reset_socket_def net_post_event_def unregister_socket_def tcp_release_socket.simps Let_def
     spinlock_release_def net_msg_destroy_def List.map_filter_def)

subsection \<open>The state diagram\<close>

text \<open>
  (C19) A received segment moves a socket only along the transitions of RFC 793 (several of them,
  if it carries a FIN as well as an acknowledgement), or aborts it; its addresses stay.
\<close>

theorem rx_msg_state_machine:
  assumes "tcp_rx_msg env m st = Some st'" and "socks st (next_sock st) = None"
    and "socks st i = Some s" and "socks st' i = Some s'"
  shows "tcp_path (status s) (status s') \<and> laddr s' = laddr s \<and> faddr s' = faddr s"
  using status_steps.rx_msg_old_rel [OF assms(1,2)] address_steps.rx_msg_old_rel [OF assms(1,2)] assms(3,4)
  by blast

theorem rx_msg_state_machine_witness:
  "\<exists>st' s'. tcp_rx_msg sample_env rst_msg (one_socket conn_socket) = Some st' \<and> socks st' 0 = Some s'
     \<and> status s' = TCP_STATUS_CLOSED \<and> tcp_path TCP_STATUS_ESTABLISHED (status s') \<and> laddr s' = laddr conn_socket"
proof -
  obtain st' s' where r: "tcp_rx_msg sample_env rst_msg (one_socket conn_socket) = Some st'"
    and s': "socks st' 0 = Some s'" "status s' = TCP_STATUS_CLOSED"
    using rst_msg_rx by auto
  have "socks (one_socket conn_socket) (next_sock (one_socket conn_socket)) = None"
    "socks (one_socket conn_socket) 0 = Some conn_socket" by (simp_all add: one_socket_def)
  from rx_msg_state_machine [OF r this s'(1)] r s' show ?thesis by (auto simp: conn_socket_def)
qed



subsection \<open>Releasing a reference\<close>

text \<open>A release frees sockets and changes reference counts, nothing else.\<close>

definition only_refs :: "tcp_state \<Rightarrow> tcp_state \<Rightarrow> bool" where
  "only_refs st st' \<longleftrightarrow>
     (\<forall>i s'. socks st' i = Some s' \<longrightarrow> (\<exists>s. socks st i = Some s \<and> s' = s\<lparr>ref_count := ref_count s'\<rparr>))
     \<and> msgs_destroyed st' = msgs_destroyed st \<and> ip_tx st' = ip_tx st"

lemma only_refs_refl: "only_refs st st"
  by (simp add: only_refs_def)

lemma only_refs_trans:
  assumes "only_refs a b" and "only_refs b c"
  shows "only_refs a c"
proof -
  have "\<exists>s. socks a i = Some s \<and> s' = s\<lparr>ref_count := ref_count s'\<rparr>" if c: "socks c i = Some s'" for i s'
  proof -
    obtain t where t: "socks b i = Some t" and s': "s' = t\<lparr>ref_count := ref_count s'\<rparr>"
      using assms(2) c unfolding only_refs_def by blast
    then obtain s where s: "socks a i = Some s" and t': "t = s\<lparr>ref_count := ref_count t\<rparr>"
      using assms(1) unfolding only_refs_def by blast
    have "s' = s\<lparr>ref_count := ref_count s'\<rparr>" by (subst s', subst t') simp
    with s show ?thesis by blast
  qed
  then show ?thesis using assms by (auto simp: only_refs_def)
qed

lemma only_refs_put:
  "socks st i = Some s \<Longrightarrow> only_refs st (put_sock i (s\<lparr>ref_count := n\<rparr>) st)"
  by (auto simp: only_refs_def put_sock_def)

lemma only_refs_kfree: "only_refs st (kfree_socket i st)"
  by (auto simp: only_refs_def kfree_socket_def)

lemma release_only_refs:
  assumes "tcp_release_socket i st = Some st'"
  shows "only_refs st st'"
proof (rule tcp_release_socket.raw_induct [where P = "\<lambda>i st st'. only_refs st st'", OF _ assms])
  fix release i st st'
  assume IH: "\<And>i st st'. release i st = Some st' \<Longrightarrow> only_refs st st'"
    and body: "(case socks st i of None \<Rightarrow> None
      | Some s \<Rightarrow>
          (let s' = s\<lparr>ref_count := ref_count s - 1\<rparr>; st' = put_sock i s' st
           in if ref_count s' = 0 then
                (case so_parent s' of
                   None \<Rightarrow> Some (kfree_socket i st')
                 | Some p \<Rightarrow> Option.bind (release p st') (\<lambda>st''. Some (kfree_socket i st'')))
              else Some st')) = Some st'"
  then obtain s where s: "socks st i = Some s" by (auto split: option.splits)
  have "only_refs st (put_sock i (s\<lparr>ref_count := ref_count s - 1\<rparr>) st)"
    using s by (rule only_refs_put)
  then show "only_refs st st'"
    using body s IH only_refs_kfree
    by (auto simp: Let_def bind_eq_Some_conv split: option.splits if_splits intro: only_refs_trans)
       (meson only_refs_trans)
qed

lemma unregister_only_refs:
  assumes "unregister_socket env i st = Some st'"
  shows "only_refs st st'"
proof (cases "i \<in> set (socket_list st)")
  case True
  then have "tcp_release_socket i (st\<lparr>socket_list := remove1 i (socket_list st)\<rparr>) = Some st'"
    using assms by (auto simp: unregister_socket_def bind_eq_Some_conv split: if_splits)
  from release_only_refs [OF this] show ?thesis by (simp add: only_refs_def)
next
  case False
  then show ?thesis using assms by (auto simp: unregister_socket_def only_refs_refl split: if_splits)
qed

subsection \<open>Calls that do not come back\<close>

text \<open>
  A listening socket with as many connections in its queue as the backlog may allow (15)
  cannot be closed: the code panics while it collects them.
\<close>

theorem close_full_queue_panics:
  assumes "socks st i = Some s" and "status s = TCP_STATUS_LISTEN"
    and "MAX_LISTEN_BACKLOG \<le> length (so_queue s)"
  shows "tcp_close env i st = None"
proof (rule ccontr)
  let ?f = "\<lambda>s. net_post_event (NET_EVENT_CAN_READ + NET_EVENT_CAN_WRITE)
              (s\<lparr>status := TCP_STATUS_CLOSED, eof := True, epipe := True\<rparr>)"
  assume "tcp_close env i st \<noteq> None"
  then obtain st1 st2 t where u: "unregister_socket env i (put_sock i (?f s) st) = Some st2"
    and t: "socks st2 i = Some t" "\<not> MAX_LISTEN_BACKLOG - 1 < length (so_queue t)"
    using assms(1,2)
    by (auto simp: tcp_close_def numeral_2_eq_2 upd_sock_def bind_eq_Some_conv Let_def split: if_splits)
  obtain r where r: "socks (put_sock i (?f s) st) i = Some r" and t': "t = r\<lparr>ref_count := ref_count t\<rparr>"
    using unregister_only_refs [OF u] t(1) unfolding only_refs_def by blast
  have "so_queue t = so_queue r" by (subst t') simp
  moreover have "so_queue r = so_queue s" using r by (auto simp: put_sock_def net_post_event_def)
  ultimately show False using t(2) assms(3) by simp
qed

theorem close_full_queue_panics_witness:
  "tcp_close sample_env 0
     (one_socket (conn_socket\<lparr>status := TCP_STATUS_LISTEN, so_queue := replicate 15 1\<rparr>)) = None"
  by (rule close_full_queue_panics
        [where s = "conn_socket\<lparr>status := TCP_STATUS_LISTEN, so_queue := replicate 15 1\<rparr>"])
     (simp_all add: one_socket_def)

lemma rx_syn_sent_rst:
  assumes "hdr_rst (msg_hdr m)" and "socks st i = Some s" and "rx_syn_sent env i m st = Some (b, st')"
  shows "\<not> b \<and> (\<exists>t. t \<in> {s, s\<lparr>status := TCP_STATUS_CLOSED\<rparr>} \<and> only_refs (put_sock i t st) st')"
proof -
  have "put_sock i s st = st" using assms(2) by (simp add: put_sock_def fun_upd_idem)
  then show ?thesis
    using assms only_refs_refl [of st]
    by (auto simp: rx_syn_sent_def bind_eq_Some_conv Let_def split: if_splits
        dest!: unregister_only_refs)
qed

text \<open>
  A reset that arrives in state SYN_SENT makes \<open>tcp_rx_msg\<close> return with the lock of the
  socket held, without destroying the message, and without telling anybody who waits for the
  connection. The next timer tick on that socket then waits for the lock forever.
\<close>

theorem syn_sent_reset_keeps_lock:
  assumes rx: "tcp_rx_msg env m st = Some st'"
    and sum: "compute_checksum (seg_bytes m) (ip_length m) (ip_src m) (ip_dest m) = 0"
    and match: "get_matching_tcb st (ip_dest m) (ip_src m) (hdr_dst_port (msg_hdr m)) (hdr_src_port (msg_hdr m)) = Some i"
    and s: "socks st i = Some s" "status s = TCP_STATUS_SYN_SENT"
    and rst: "hdr_rst (msg_hdr m)" and s': "socks st' i = Some s'"
  shows "so_lock s' \<and> events s' = events s \<and> msgs_destroyed st' = msgs_destroyed st
         \<and> process_timers env i st' = None"
proof -
  let ?s1 = "s\<lparr>ref_count := ref_count s + 1, so_lock := True\<rparr>"
  obtain t b st5 where o: "process_options ?s1 m = Some t"
    and d: "rx_dispatch (status t) env i m
              (put_sock i t (put_sock i ?s1 (put_sock i (s\<lparr>ref_count := ref_count s + 1\<rparr>) st))) = Some (b, st5)"
    and k: "(if b then Option.bind (spinlock_release i st5) (\<lambda>st. tcp_release_socket i (net_msg_destroy st))
             else Some st5) = Some st'"
    using rx sum match s(1)
    by (auto simp: tcp_rx_msg_def locate_socket_def clone_socket_def upd_sock_def spinlock_get_def Let_def
        bind_eq_Some_conv put_sock_def split: if_splits)
  let ?st = "put_sock i t (put_sock i ?s1 (put_sock i (s\<lparr>ref_count := ref_count s + 1\<rparr>) st))"
  note t = process_options_only_mss [OF o]
  have stat: "status t = TCP_STATUS_SYN_SENT" and lock: "so_lock t" "events t = events s"
    by (subst t; simp add: s(2))+
  from d have "rx_syn_sent env i m ?st = Some (b, st5)" by (simp add: rx_dispatch_def stat)
  from rx_syn_sent_rst [OF rst _ this, of t] obtain u where b: "\<not> b"
    and u: "u \<in> {t, t\<lparr>status := TCP_STATUS_CLOSED\<rparr>}" and refs: "only_refs (put_sock i u ?st) st5"
    by (auto simp: put_sock_def)
  have st': "st' = st5" using b k by simp
  then obtain v where v: "socks (put_sock i u ?st) i = Some v" "s' = v\<lparr>ref_count := ref_count s'\<rparr>"
    using refs s' unfolding only_refs_def by blast
  have "so_lock s' = so_lock v" "events s' = events v" by (subst v(2); simp)+
  then have "so_lock s' \<and> events s' = events s"
    using u v(1) lock by (auto simp: put_sock_def)
  moreover have "msgs_destroyed st' = msgs_destroyed st"
    using refs st' by (simp add: only_refs_def put_sock_def)
  ultimately show ?thesis
    using s' by (simp add: process_timers_def spinlock_get_def)
qed

theorem syn_sent_reset_keeps_lock_witness:
  "\<exists>st' s'. tcp_rx_msg sample_env rst_msg (one_socket (conn_socket\<lparr>status := TCP_STATUS_SYN_SENT\<rparr>)) = Some st'
     \<and> socks st' 0 = Some s' \<and> so_lock s' \<and> process_timers sample_env 0 st' = None"
proof -
  let ?s = "conn_socket\<lparr>status := TCP_STATUS_SYN_SENT\<rparr>"
  obtain st' s' where r: "tcp_rx_msg sample_env rst_msg (one_socket ?s) = Some st'" "socks st' 0 = Some s'"
    unfolding tcp_rx_msg_def
    by (simp add: rst_msg_checksum rst_msg_fields locate_socket_def get_matching_tcb_def list_socks_def
       one_socket_def conn_socket_def match_level_def match_field_def clone_socket_def upd_sock_def put_sock_def
       spinlock_get_def process_options_def rx_dispatch_def rx_syn_sent_def Let_def List.map_filter_def)
  have "get_matching_tcb (one_socket ?s) (ip_dest rst_msg) (ip_src rst_msg)
      (hdr_dst_port (msg_hdr rst_msg)) (hdr_src_port (msg_hdr rst_msg)) = Some 0"
    by (simp add: rst_msg_fields get_matching_tcb_def list_socks_def one_socket_def conn_socket_def
        match_level_def match_field_def List.map_filter_def)
  from syn_sent_reset_keeps_lock [OF r(1) _ this _ _ _ r(2), of ?s] r show ?thesis
    by (auto simp: rst_msg_fields rst_msg_checksum one_socket_def)
qed

subsection \<open>Ports and addresses\<close>

lemma find_port_from_free:
  "find_port_from st i = Some p \<Longrightarrow> i \<le> p \<and> p < 65536 \<and> \<not> port_used st p"
  by (induction st i rule: find_port_from.induct)
     (metis Suc_leD find_port_from.simps option.distinct(1) option.inject order_refl)

lemma find_port_from_none:
  "find_port_from st i = None \<Longrightarrow> i \<le> p \<Longrightarrow> p < 65536 \<Longrightarrow> port_used st p"
  by (induction st i rule: find_port_from.induct)
     (metis Suc_leI find_port_from.simps nat_less_le option.distinct(1) order_le_less_trans)

lemma htons_inj: "htons a = htons b \<Longrightarrow> a = b"
  by (metis ntohs_htons)

lemma used_ports_bound:
  assumes "finite P" and "P \<subseteq> {p. p < 65536 \<and> port_used st p}"
  shows "card P \<le> length (socket_list st)"
proof -
  let ?ports = "(\<lambda>(i, s). sin_port (laddr s)) ` set (list_socks st)"
  have sub: "(\<lambda>p. htons (of_nat p)) ` P \<subseteq> ?ports"
  proof
    fix x assume "x \<in> (\<lambda>p. htons (of_nat p)) ` P"
    then obtain p where x: "x = htons (of_nat p)" and "port_used st p" using assms(2) by blast
    then obtain i s where "(i, s) \<in> set (list_socks st)" "sin_port (laddr s) = x"
      by (auto simp: port_used_def list_ex_iff)
    then show "x \<in> ?ports" by (auto intro: image_eqI [of _ _ "(i, s)"])
  qed
  have inj: "inj_on (\<lambda>p. htons (of_nat p)) P"
  proof (rule inj_onI)
    fix p q assume "p \<in> P" "q \<in> P" and eq: "htons (of_nat p) = htons (of_nat q)"
    then have "p < 65536" "q < 65536" using assms(2) by auto
    moreover have "unat (of_nat p :: u16) = unat (of_nat q :: u16)" using htons_inj [OF eq] by simp
    ultimately show "p = q" by (simp add: unat_of_nat)
  qed
  have "card P = card ((\<lambda>p. htons (of_nat p)) ` P)" using card_image [OF inj] by simp
  also have "\<dots> \<le> card ?ports" by (rule card_mono [OF _ sub]) simp
  also have "\<dots> \<le> card (set (list_socks st))" by (rule card_image_le) simp
  also have "\<dots> \<le> length (list_socks st)" by (rule card_length)
  also have "\<dots> \<le> length (socket_list st)" by (simp add: list_socks_def List.map_filter_def)
  finally show ?thesis .
qed

text \<open>
  As long as the table of sockets is within its limit, the search for a free port succeeds,
  and the port found is an ephemeral port that no registered socket uses.
\<close>

theorem find_free_port_succeeds:
  assumes "length (socket_list st) \<le> MAX_TCP_SOCKETS"
  shows "\<exists>p. find_free_port st = Some p \<and> TCP_EPHEMERAL_PORT \<le> p \<and> p < 65536
           \<and> (\<forall>i \<in> set (socket_list st). \<forall>s. socks st i = Some s \<longrightarrow> sin_port (laddr s) \<noteq> htons (of_nat p))"
proof (cases "find_free_port st")
  case None
  then have "{TCP_EPHEMERAL_PORT..<65536} \<subseteq> {p. p < 65536 \<and> port_used st p}"
    using find_port_from_none by (auto simp: find_free_port_def)
  from used_ports_bound [OF _ this] assms show ?thesis by simp
next
  case (Some p)
  then have p: "TCP_EPHEMERAL_PORT \<le> p" "p < 65536" "\<not> port_used st p"
    using find_port_from_free unfolding find_free_port_def by blast+
  have "sin_port (laddr s) \<noteq> htons (of_nat p)" if "i \<in> set (socket_list st)" "socks st i = Some s" for i s
    using p(3) that by (force simp: port_used_def list_ex_iff list_socks_def List.map_filter_def)
  with Some p show ?thesis by blast
qed

theorem find_free_port_succeeds_witness:
  "\<exists>p. find_free_port (one_socket conn_socket) = Some p \<and> sin_port (laddr conn_socket) \<noteq> htons (of_nat p)"
proof -
  have "length (socket_list (one_socket conn_socket)) \<le> MAX_TCP_SOCKETS"
    "socks (one_socket conn_socket) 0 = Some conn_socket" "0 \<in> set (socket_list (one_socket conn_socket))"
    by (simp_all add: one_socket_def)
  with find_free_port_succeeds [of "one_socket conn_socket"] show ?thesis by blast
qed

subsection \<open>The socket calls as byte streams\<close>

abbreviation rcv_part :: "socket \<Rightarrow> (nat \<Rightarrow> u8) \<times> u32 \<times> u32" where
  "rcv_part s \<equiv> (rcv_buffer s, rcv_buffer_head s, rcv_buffer_tail s)"

interpretation rcv_untouched: send_steps "\<lambda>s s'. rcv_part s' = rcv_part s"
  by unfold_locales (simp_all add: frame_simps set_persist_timer_def)



text \<open>
  (C24) \<open>tcp_recv\<close> hands out the oldest bytes of the receive buffer, as many as the caller has
  room for, and removes them unless the caller only peeks.
\<close>

theorem tcp_recv_takes:
  assumes ready: "send_ready s" and alloc: "\<And>n. alloc n"
    and conn: "status_code TCP_STATUS_ESTABLISHED \<le> status_code (status s)" "\<not> timeout s"
    and data: "rcv_content s \<noteq> []"
  shows "\<exists>n s' msgs. tcp_recv alloc s len peek = Some (int n, take n (rcv_content s), s', msgs)
     \<and> n = min (unat len) (length (rcv_content s))
     \<and> rcv_content s' = (if peek then rcv_content s else drop n (rcv_content s))"
proof -
  let ?used = "rcv_buffer_tail s - rcv_buffer_head s"
  define b where "b = min len ?used"
  have b: "unat b = min (unat len) (unat ?used)" by (simp add: b_def min_def word_le_nat_alt)
  have l: "length (rcv_content s) = unat ?used" by (simp add: rcv_content_def)
  have ne: "rcv_buffer_head s \<noteq> rcv_buffer_tail s" using data by (auto simp: rcv_content_def)
  have get: "ring_get RCV_BUFFER_SIZE (rcv_buffer s) (rcv_buffer_head s) (unat b) = take (unat b) (rcv_content s)"
    using b by (simp add: rcv_content_def ring_simps)
  let ?s = "s\<lparr>rcv_buffer_head := rcv_buffer_head s + b\<rparr>"
  have "send_ready ?s" using ready by (auto simp: send_ready_def snd_ok_def)
  from loop_ok [where alloc = alloc and flags = no_flags and out = "[]", OF alloc this]
  obtain s' msgs where r: "trigger_send alloc ?s no_flags = Some (s', msgs)" by (auto simp: trigger_send_def)
  have "rcv_part s' = rcv_part ?s" by (rule rcv_untouched.R_trigger_send [OF r])
  moreover have le: "unat b \<le> unat ?used" using b by simp
  then have "unat (rcv_buffer_tail s - (rcv_buffer_head s + b)) = unat ?used - unat b"
    using unat_diff_retreat [of "unat b" "rcv_buffer_tail s" "rcv_buffer_head s"] by simp
  ultimately have rest: "rcv_content s' = drop (unat b) (rcv_content s)"
    using le by (simp add: rcv_content_def ring_simps)
  have "tcp_recv alloc s len peek =
      (if peek then Some (int (unat b), take (unat b) (rcv_content s), s, [])
       else Some (int (unat b), take (unat b) (rcv_content s), s', msgs))"
    using conn ne r get by (simp add: tcp_recv_def b_def [symmetric] Let_def not_less del: of_nat_unat)
  then show ?thesis using rest b l by (cases peek) auto
qed

theorem tcp_recv_takes_witness:
  "let s = busy_socket\<lparr>rcv_buffer := (\<lambda>i. of_nat i), rcv_buffer_head := 8190, rcv_buffer_tail := 8195\<rparr>
   in \<exists>s' msgs. tcp_recv (\<lambda>_. True) s 3 False = Some (3, [254, 255, 0], s', msgs) \<and> rcv_content s' = [1, 2]"
proof -
  let ?s = "busy_socket\<lparr>rcv_buffer := (\<lambda>i. of_nat i), rcv_buffer_head := 8190, rcv_buffer_tail := 8195\<rparr>"
  have c: "rcv_content ?s = [254, 255, 0, 1, 2]" by (simp add: rcv_content_def ring_get_def upt_rec)
  have "send_ready ?s" using busy_socket_ready by (auto simp: send_ready_def snd_ok_def)
  from tcp_recv_takes [OF this, of "\<lambda>_. True" 3 False] c show ?thesis
    unfolding Let_def c by (simp add: busy_socket_def)
qed

subsection \<open>The table of sockets\<close>

text \<open>
  The table holds at most \<open>MAX_TCP_SOCKETS\<close> sockets, each of them alive, and no two
  connections with the same four addresses.
\<close>

definition registry_ok :: "tcp_state \<Rightarrow> bool" where
  "registry_ok st \<longleftrightarrow>
     length (socket_list st) \<le> MAX_TCP_SOCKETS \<and> distinct (socket_list st)
     \<and> (\<forall>i \<in> set (socket_list st). \<exists>s. socks st i = Some s \<and> 0 < ref_count s)
     \<and> (\<forall>i \<in> set (socket_list st). \<forall>j \<in> set (socket_list st). \<forall>s t.
          socks st i = Some s \<longrightarrow> socks st j = Some t \<longrightarrow> fully_qualified s \<longrightarrow> same_address s t \<longrightarrow> i = j)"

lemma list_ex_socks:
  assumes "\<forall>i \<in> set (socket_list st). \<exists>s. socks st i = Some s"
  shows "list_ex (\<lambda>(j, t). P t) (list_socks st) \<longleftrightarrow> (\<exists>j \<in> set (socket_list st). \<exists>t. socks st j = Some t \<and> P t)"
  by (auto simp: list_ex_iff list_socks_def List.map_filter_def) force

lemma same_address_sym: "same_address s t \<Longrightarrow> same_address t s"
  by (simp add: same_address_def)

lemma same_address_fq: "same_address s t \<Longrightarrow> fully_qualified t \<Longrightarrow> fully_qualified s"
  by (simp add: same_address_def fully_qualified_def)

lemma registry_ok_add:
  assumes ok: "registry_ok st" and s: "socks st i = Some s" "0 \<le> ref_count s" and new: "i \<notin> set (socket_list st)"
    and room: "length (socket_list st) < MAX_TCP_SOCKETS"
    and uniq: "\<forall>j \<in> set (socket_list st). \<forall>t. socks st j = Some t \<longrightarrow> \<not> same_address s t"
  shows "registry_ok ((put_sock i (s\<lparr>ref_count := ref_count s + 1\<rparr>) st)\<lparr>socket_list := socket_list st @ [i]\<rparr>)"
proof -
  let ?s = "s\<lparr>ref_count := ref_count s + 1\<rparr>"
  have fq: "fully_qualified ?s = fully_qualified s" and sa: "same_address ?s t = same_address s t"
    "same_address t ?s = same_address t s" for t
    by (simp_all add: fully_qualified_def same_address_def)
  have u: "\<not> same_address t s" if "j \<in> set (socket_list st)" "socks st j = Some t" for j t
    using uniq that same_address_sym by blast
  show ?thesis
    using ok s new room uniq u unfolding registry_ok_def put_sock_def
    by (auto simp: fq sa)
qed

text \<open>
  (C27) A new connection is registered exactly if its addresses are complete, the table has room
  and no registered socket has the same addresses; otherwise nothing changes and the error
  tells the reason. The properties of the table are kept.
\<close>

theorem add_socket_check_sound:
  assumes ok: "registry_ok st" and s: "socks st i = Some s" "0 \<le> ref_count s" and new: "i \<notin> set (socket_list st)"
  shows "\<exists>rc st'. add_socket_check i st = Some (rc, st') \<and> registry_ok st'
    \<and> rc = (if \<not> fully_qualified s then - EINVAL
            else if MAX_TCP_SOCKETS \<le> length (socket_list st) then - ENOMEM
            else if \<exists>j \<in> set (socket_list st). \<exists>t. socks st j = Some t \<and> same_address s t then - EADDRINUSE
            else 0)
    \<and> (if rc = 0 then socket_list st' = socket_list st @ [i] \<and> socks st' i = Some (s\<lparr>ref_count := ref_count s + 1\<rparr>)
       else st' = st)"
proof -
  have alive: "\<forall>i \<in> set (socket_list st). \<exists>s. socks st i = Some s" using ok by (auto simp: registry_ok_def)
  let ?dup = "\<exists>j \<in> set (socket_list st). \<exists>t. socks st j = Some t \<and> same_address s t"
  let ?st = "(put_sock i (s\<lparr>ref_count := ref_count s + 1\<rparr>) st)\<lparr>socket_list := socket_list st @ [i]\<rparr>"
  have "registry_ok ?st" if "\<not> MAX_TCP_SOCKETS \<le> length (socket_list st)" "\<not> ?dup"
    by (rule registry_ok_add [OF ok s new]) (use that in auto)
  moreover have "add_socket_check i st = (if \<not> fully_qualified s then Some (- EINVAL, st)
      else if MAX_TCP_SOCKETS \<le> length (socket_list st) then Some (- ENOMEM, st)
      else if ?dup then Some (- EADDRINUSE, st) else Some (0, ?st))"
    using s(1) by (auto simp: add_socket_check_def list_ex_socks [OF alive] clone_socket_def upd_sock_def put_sock_def)
  ultimately show ?thesis using ok by (auto simp: put_sock_def)
qed

theorem add_socket_check_sound_witness:
  "\<exists>st'. add_socket_check 1 ((one_socket conn_socket)\<lparr>socks := [0 \<mapsto> conn_socket, 1 \<mapsto> conn_socket]\<rparr>)
     = Some (- EADDRINUSE, st')"
proof -
  let ?st = "(one_socket conn_socket)\<lparr>socks := [0 \<mapsto> conn_socket, 1 \<mapsto> conn_socket]\<rparr>"
  have "registry_ok ?st" by (simp add: registry_ok_def one_socket_def conn_socket_def)
  from add_socket_check_sound [OF this, of 1 conn_socket] show ?thesis
    by (auto simp: one_socket_def conn_socket_def fully_qualified_def same_address_def)
qed

subsection \<open>Finding the socket for a segment\<close>

text \<open>
  A socket that has the local port of a segment but another peer ends the search. With a
  listening socket \<open>l\<close> and two connections \<open>a\<close> and \<open>b\<close> from different peers, the
  segments of the second connection are given to the listening socket, which resets it.
\<close>

theorem second_connection_not_found:
  assumes list: "list_socks st = [(l, sl), (a, sa), (b, sb)]"
    and ports: "sin_port (laddr sl) = port" "sin_port (laddr sa) = port" "sin_port (laddr sb) = port"
    and wild: "s_addr (laddr sl) = INADDR_ANY" "s_addr (faddr sl) = INADDR_ANY" "sin_port (faddr sl) = 0"
    and peers: "s_addr (faddr sa) \<noteq> INADDR_ANY" "s_addr (faddr sb) \<noteq> INADDR_ANY"
      "s_addr (faddr sa) \<noteq> s_addr (faddr sb)"
  shows "get_matching_tcb st (s_addr (laddr sb)) (s_addr (faddr sb)) port (sin_port (faddr sb)) = Some l"
proof -
  let ?lip = "s_addr (laddr sb)" and ?fip = "s_addr (faddr sb)" and ?fp = "sin_port (faddr sb)"
  have "\<exists>k. match_level sl ?lip ?fip ?fp = Some k \<and> - 1 < k"
    using wild by (auto simp: match_level_def match_field_def split: if_splits)
  then obtain k where k: "match_level sl ?lip ?fip ?fp = Some k" "- 1 < k" by blast
  have "match_level sa ?lip ?fip ?fp = None"
    using peers by (auto simp: match_level_def match_field_def bind_eq_None_conv)
  then show ?thesis using k ports by (simp add: get_matching_tcb_def list)
qed

theorem second_connection_not_found_witness:
  "let l = conn_socket\<lparr>laddr := \<lparr>sin_family = AF_INET, sin_port = 80, s_addr = 0\<rparr>, faddr := zero_addr\<rparr>;
       b = conn_socket\<lparr>faddr := \<lparr>sin_family = AF_INET, sin_port = 90, s_addr = 3\<rparr>\<rparr>;
       st = (one_socket l)\<lparr>socks := [0 \<mapsto> l, 1 \<mapsto> conn_socket, 2 \<mapsto> b], socket_list := [0, 1, 2]\<rparr>
   in get_matching_tcb st 1 3 80 90 = Some 0"
  unfolding Let_def
  using second_connection_not_found [of
      "(one_socket (conn_socket\<lparr>laddr := \<lparr>sin_family = AF_INET, sin_port = 80, s_addr = 0\<rparr>, faddr := zero_addr\<rparr>))
         \<lparr>socks := [0 \<mapsto> conn_socket\<lparr>laddr := \<lparr>sin_family = AF_INET, sin_port = 80, s_addr = 0\<rparr>, faddr := zero_addr\<rparr>,
                    1 \<mapsto> conn_socket,
                    2 \<mapsto> conn_socket\<lparr>faddr := \<lparr>sin_family = AF_INET, sin_port = 90, s_addr = 3\<rparr>\<rparr>],
           socket_list := [0, 1, 2]\<rparr>" 0 _ 1 _ 2 _ 80]
  by (simp add: list_socks_def List.map_filter_def one_socket_def conn_socket_def zero_addr_def)

lemma match_scan_best:
  assumes "\<forall>i s. (i, s) \<in> set xs \<longrightarrow> sin_port (laddr s) = lp \<longrightarrow> match_level s lip fip fp \<noteq> None"
    and "match_scan lip fip lp fp xs lev best = r"
  shows "r = best \<and> (\<forall>i s. (i, s) \<in> set xs \<longrightarrow> sin_port (laddr s) = lp \<longrightarrow> the (match_level s lip fip fp) \<le> lev)
    \<or> (\<exists>i s. (i, s) \<in> set xs \<and> r = Some i \<and> sin_port (laddr s) = lp \<and> lev < the (match_level s lip fip fp)
        \<and> (\<forall>j t. (j, t) \<in> set xs \<longrightarrow> sin_port (laddr t) = lp
              \<longrightarrow> the (match_level t lip fip fp) \<le> the (match_level s lip fip fp)))"
    (is "?same xs lev best r \<or> ?better xs lev r")
  using assms
proof (induction xs arbitrary: lev best)
  case Nil
  then show ?case by simp
next
  case (Cons x xs)
  obtain i s where x: "x = (i, s)" by (cases x)
  have IH: "?same xs lev' best' r \<or> ?better xs lev' r" if "match_scan lip fip lp fp xs lev' best' = r" for lev' best'
    by (rule Cons.IH [OF _ that]) (use Cons.prems(1) in auto)
  show ?case
  proof (cases "sin_port (laddr s) = lp \<and> lev < the (match_level s lip fip fp)")
    case True
    then obtain l where l: "match_level s lip fip fp = Some l" using Cons.prems(1) x by auto
    then have "match_scan lip fip lp fp xs l (Some i) = r" using Cons.prems(2) x True by simp
    from IH [OF this] have "?better (x # xs) lev r"
    proof
      assume "?same xs l (Some i) r"
      then show ?thesis using True l x by (intro exI [of _ i] exI [of _ s]) auto
    next
      assume "?better xs l r"
      then obtain j t where "(j, t) \<in> set xs" "r = Some j" "sin_port (laddr t) = lp" "l < the (match_level t lip fip fp)"
        "\<forall>j t'. (j, t') \<in> set xs \<longrightarrow> sin_port (laddr t') = lp \<longrightarrow> the (match_level t' lip fip fp) \<le> the (match_level t lip fip fp)"
        by blast
      then show ?thesis using True l x by (intro exI [of _ j] exI [of _ t]) auto
    qed
    then show ?thesis by blast
  next
    case False
    have "match_scan lip fip lp fp xs lev best = r"
      using Cons.prems(1,2) x False by (auto split: option.splits if_splits)
    from IH [OF this] show ?thesis
    proof
      assume "?same xs lev best r"
      then show ?thesis using False x by auto
    next
      assume "?better xs lev r"
      then obtain j t where "(j, t) \<in> set xs" "r = Some j" "sin_port (laddr t) = lp" "lev < the (match_level t lip fip fp)"
        "\<forall>j t'. (j, t') \<in> set xs \<longrightarrow> sin_port (laddr t') = lp \<longrightarrow> the (match_level t' lip fip fp) \<le> the (match_level t lip fip fp)"
        by blast
      then have "?better (x # xs) lev r" using False x by (intro exI [of _ j] exI [of _ t]) auto
      then show ?thesis by blast
    qed
  qed
qed

lemma match_level_nonneg: "match_level s lip fip fp = Some l \<Longrightarrow> 0 \<le> l"
  by (auto simp: match_level_def match_field_def bind_eq_Some_conv split: if_splits)

text \<open>
  (C28) Where no registered socket on the local port of a segment contradicts its addresses, the
  search finds a socket if there is one on that port, and the one it finds matches at least as
  many of the address components as any other.
\<close>

theorem get_matching_tcb_best:
  assumes "\<And>i s. (i, s) \<in> set (list_socks st) \<Longrightarrow> sin_port (laddr s) = lp \<Longrightarrow> match_level s lip fip fp \<noteq> None"
    and "(k, u) \<in> set (list_socks st)" and "sin_port (laddr u) = lp"
  shows "\<exists>i s. get_matching_tcb st lip fip lp fp = Some i \<and> (i, s) \<in> set (list_socks st) \<and> sin_port (laddr s) = lp
    \<and> (\<forall>j t. (j, t) \<in> set (list_socks st) \<longrightarrow> sin_port (laddr t) = lp
          \<longrightarrow> the (match_level t lip fip fp) \<le> the (match_level s lip fip fp))"
proof -
  obtain l where l: "match_level u lip fip fp = Some l" using assms by blast
  then have "\<not> the (match_level u lip fip fp) \<le> - 1" using match_level_nonneg [OF l] by simp
  moreover have "\<forall>i s. (i, s) \<in> set (list_socks st) \<longrightarrow> sin_port (laddr s) = lp \<longrightarrow> match_level s lip fip fp \<noteq> None"
    using assms(1) by blast
  ultimately show ?thesis
    using match_scan_best [where xs = "list_socks st" and lp = lp and lip = lip and fip = fip and fp = fp
        and lev = "- 1" and best = None, OF _ refl] assms(2,3)
    unfolding get_matching_tcb_def by blast
qed

theorem get_matching_tcb_best_witness:
  "\<exists>i s. get_matching_tcb (one_socket conn_socket) 1 2 80 90 = Some i \<and> (i, s) \<in> set (list_socks (one_socket conn_socket))"
proof -
  have l: "list_socks (one_socket conn_socket) = [(0, conn_socket)]"
    by (simp add: list_socks_def List.map_filter_def one_socket_def)
  have "match_level conn_socket 1 2 90 = Some 3" "sin_port (laddr conn_socket) = 80"
    by (simp_all add: conn_socket_def match_level_def match_field_def)
  with get_matching_tcb_best [of "one_socket conn_socket" 80 1 2 90 0 conn_socket] show ?thesis by (auto simp: l)
qed

end
