(* ===== verification/Pipe.thy ===== *)
theory Pipe
  imports Ring
begin

text \<open>
  Pipes, \<^verbatim>\<open>kernel/fs_pipe.c\<close>. A pipe is a monitor: every access happens with the
  spinlock of the pipe held, and a thread leaves the monitor by returning, by going round its
  loop, or by sleeping on one of the two condition variables. Each of these sections is one
  function from the pipe to the new pipe, the condition variables it broadcasts and what the
  thread does next; \<open>pipe_step\<close> interleaves the sections of any number of threads. The
  copies between the caller and the buffer are \<^verbatim>\<open>memcpy\<close> calls that do not wrap at the
  end of the array; one that leaves the array is a fault.
\<close>

abbreviation PIPE_BUF :: nat where "PIPE_BUF \<equiv> 1024"
abbreviation PIPE_READ :: int where "PIPE_READ \<equiv> 0"
abbreviation PIPE_WRITE :: int where "PIPE_WRITE \<equiv> 1"

subsection \<open>Pipes and their monitor sections\<close>

text \<open>
  \<^verbatim>\<open>pipe_t\<close> without the lock, which a section holds from its first to its last
  access, and without the queues of the condition variables, which are the sleeping threads
  of the system below.
\<close>

record pipe =
  readers :: u32
  writers :: u32
  head :: u32
  tail :: u32
  buffer :: "nat \<Rightarrow> u8"

datatype pipe_cond = Written | Read

text \<open>What a thread does when it leaves the monitor.\<close>

datatype 'a leave = Return int | Again 'a | Wait

text \<open>The block \<^verbatim>\<open>kmalloc\<close> returns, when it returns one, has arbitrary contents.\<close>

definition fs_pipe_create :: "(nat \<Rightarrow> u8) option \<Rightarrow> pipe option" where
  "fs_pipe_create block = (case block of
     None \<Rightarrow> None
   | Some bytes \<Rightarrow> Some \<lparr> readers = 0, writers = 0, head = 0, tail = 0, buffer = bytes \<rparr>)"

definition fs_pipe_connect :: "pipe option \<Rightarrow> int \<Rightarrow> int \<times> pipe option" where
  "fs_pipe_connect pipe mode =
     (if mode \<noteq> PIPE_READ \<and> mode \<noteq> PIPE_WRITE then (EINVAL, pipe)
      else case pipe of
        None \<Rightarrow> (EINVAL, None)
      | Some p \<Rightarrow>
          (0, Some (if mode = PIPE_READ then p \<lparr> readers := readers p + 1 \<rparr>
                    else p \<lparr> writers := writers p + 1 \<rparr>)))"

text \<open>The second component lists the condition variables that are broadcast.\<close>

definition fs_pipe_disconnect ::
    "pipe option \<Rightarrow> int \<Rightarrow> int \<times> pipe_cond list \<times> pipe option" where
  "fs_pipe_disconnect pipe mode =
     (if mode \<noteq> PIPE_READ \<and> mode \<noteq> PIPE_WRITE then (EINVAL, [], pipe)
      else case pipe of
        None \<Rightarrow> (EINVAL, [], None)
      | Some p \<Rightarrow>
          let (p', cs) =
            (if mode = PIPE_READ then
               let p' = (if readers p \<noteq> 0 then p \<lparr> readers := readers p - 1 \<rparr> else p)
               in (p', if readers p' = 0 then [Read] else [])
             else
               let p' = (if writers p \<noteq> 0 then p \<lparr> writers := writers p - 1 \<rparr> else p)
               in (p', if writers p' = 0 then [Written] else []))
          in (if 0 < writers p' + readers p' then 0 else -1, cs, Some p'))"

text \<open>
  The arguments and the local variables of a call of \<^verbatim>\<open>fs_pipe_write\<close>. The caller's
  memory from \<open>buffer\<close> on is the list \<open>src\<close>.
\<close>

record write_call =
  w_bytes :: u32
  w_src :: "u8 list"
  w_nowait :: int
  bytes_left :: u32
  bytes_written :: u32

record read_call =
  r_bytes :: u32
  r_nowait :: int

text \<open>A thread is outside the monitor, about to enter it, or asleep on a condition variable.\<close>

datatype pipe_thread =
    Done int
  | Writing write_call
  | Write_wait write_call
  | Reading read_call
  | Read_wait read_call

text \<open>
  The two copies. \<open>memcpy_in\<close> stores at \<open>buffer + start\<close> and \<open>memcpy_out\<close> loads
  from there; \<open>fetch\<close> loads \<open>n\<close> bytes of the caller from offset \<open>off\<close>.
\<close>

definition memcpy_in :: "(nat \<Rightarrow> u8) \<Rightarrow> nat \<Rightarrow> u8 list \<Rightarrow> mem_fault + (nat \<Rightarrow> u8)" where
  "memcpy_in buf start bs =
     (if start + length bs \<le> PIPE_BUF
      then Inr (\<lambda>i. if start \<le> i \<and> i < start + length bs then bs ! (i - start) else buf i)
      else Inl Write_overrun)"

definition memcpy_out :: "(nat \<Rightarrow> u8) \<Rightarrow> nat \<Rightarrow> nat \<Rightarrow> mem_fault + u8 list" where
  "memcpy_out buf start n =
     (if start + n \<le> PIPE_BUF then Inr (map (\<lambda>i. buf (start + i)) [0..<n])
      else Inl Read_overrun)"

definition fetch :: "u8 list \<Rightarrow> nat \<Rightarrow> nat \<Rightarrow> mem_fault + u8 list" where
  "fetch src off n =
     (if off + n \<le> length src then Inr (take n (drop off src)) else Inl Read_overrun)"

definition elements_in_buffer :: "pipe \<Rightarrow> u32" where
  "elements_in_buffer p = tail p - head p"

definition free_slots :: "pipe \<Rightarrow> u32" where
  "free_slots p = 1024 - elements_in_buffer p"

text \<open>Room for the whole write, or for a part of one that need not be atomic.\<close>

definition can_write :: "pipe \<Rightarrow> u32 \<Rightarrow> bool" where
  "can_write p bytes \<longleftrightarrow> 1024 < bytes \<and> 0 < free_slots p \<or> bytes \<le> free_slots p"

definition fs_pipe_write_enter ::
    "pipe option \<Rightarrow> u32 \<Rightarrow> u8 list option \<Rightarrow> int \<Rightarrow> pipe_thread" where
  "fs_pipe_write_enter pipe bytes buf nowait =
     (case (pipe, buf) of
        (Some _, Some src) \<Rightarrow>
          if bytes = 0 then Done 0
          else Writing \<lparr> w_bytes = bytes, w_src = src, w_nowait = nowait,
                         bytes_left = bytes, bytes_written = 0 \<rparr>
      | _ \<Rightarrow> Done 0)"

text \<open>
  One pass of the loop of \<^verbatim>\<open>fs_pipe_write\<close>, from the test of \<open>bytes_left\<close> to the
  release of the lock. The second component is the list of bytes stored in the buffer.
\<close>

definition fs_pipe_write ::
    "pipe \<Rightarrow> write_call \<Rightarrow>
     mem_fault + (pipe \<times> u8 list \<times> pipe_cond list \<times> write_call leave)" where
  "fs_pipe_write p c =
     (if \<not> 0 < bytes_left c then Inr (p, [], [], Return (sint (bytes_written c)))
      else if readers p = 0 then
        Inr (p, [], [],
             Return (if bytes_written c = 0 then - EPIPE else sint (bytes_written c)))
      else if can_write p (w_bytes c) then
        let n = min (free_slots p) (w_bytes c) in
        (case fetch (w_src c) (unat (bytes_written c)) (unat n) of
           Inl f \<Rightarrow> Inl f
         | Inr bs \<Rightarrow>
             (case memcpy_in (buffer p) (unat (tail p mod 1024)) bs of
                Inl f \<Rightarrow> Inl f
              | Inr buf \<Rightarrow>
                  Inr (p \<lparr> buffer := buf, tail := tail p + n \<rparr>, bs, [Written],
                       Again (c \<lparr> bytes_left := bytes_left c - n,
                                  bytes_written := bytes_written c + n \<rparr>))))
      else if w_nowait c \<noteq> 0 then
        Inr (p, [], [],
             Return (if bytes_written c \<noteq> 0 then sint (bytes_written c) else - EAGAIN))
      else Inr (p, [], [], Wait))"

text \<open>\<^verbatim>\<open>cond_wait_intr\<close> returned -1: the lock is already released.\<close>

definition fs_pipe_write_intr :: "write_call \<Rightarrow> int" where
  "fs_pipe_write_intr c = (if bytes_written c = 0 then - EPAUSE else sint (bytes_written c))"

definition fs_pipe_read_enter ::
    "pipe option \<Rightarrow> u32 \<Rightarrow> bool \<Rightarrow> int \<Rightarrow> pipe_thread" where
  "fs_pipe_read_enter pipe bytes buffer_null nowait =
     (if pipe = None \<or> buffer_null \<or> bytes = 0 then Done 0
      else Reading \<lparr> r_bytes = bytes, r_nowait = nowait \<rparr>)"

text \<open>
  One pass of the loop of \<^verbatim>\<open>fs_pipe_read\<close>. The loop runs while \<open>bytes_read\<close> is 0, so
  \<open>bytes_read\<close> is 0 throughout and a pass that copies is the last one. The second
  component is what the caller's buffer receives.
\<close>

definition fs_pipe_read ::
    "pipe \<Rightarrow> read_call \<Rightarrow>
     mem_fault + (pipe \<times> u8 list \<times> pipe_cond list \<times> read_call leave)" where
  "fs_pipe_read p c =
     (if elements_in_buffer p \<noteq> 0 then
        let n = min (elements_in_buffer p) (r_bytes c) in
        (case memcpy_out (buffer p) (unat (head p mod 1024)) (unat n) of
           Inl f \<Rightarrow> Inl f
         | Inr out \<Rightarrow> Inr (p \<lparr> head := head p + n \<rparr>, out, [Read],
                          if n = 0 then Again c else Return (sint n)))
      else if writers p = 0 then Inr (p, [], [], Return 0)
      else if r_nowait c = 1 then Inr (p, [], [], Return (- EAGAIN))
      else Inr (p, [], [], Wait))"

definition fs_pipe_read_intr :: int where
  "fs_pipe_read_intr = - EPAUSE"

subsection \<open>Threads on a pipe\<close>

text \<open>
  \<^verbatim>\<open>cond_broadcast\<close> makes every thread on the queue of the condition variable runnable;
  it goes back to the head of its loop.
\<close>

fun cond_broadcast :: "pipe_cond list \<Rightarrow> pipe_thread \<Rightarrow> pipe_thread" where
  "cond_broadcast cs (Write_wait c) = (if Read \<in> set cs then Writing c else Write_wait c)"
| "cond_broadcast cs (Read_wait c) = (if Written \<in> set cs then Reading c else Read_wait c)"
| "cond_broadcast cs th = th"

fun after_write :: "write_call \<Rightarrow> write_call leave \<Rightarrow> pipe_thread" where
  "after_write c (Return rc) = Done rc"
| "after_write c (Again c') = Writing c'"
| "after_write c Wait = Write_wait c"

fun after_read :: "read_call \<Rightarrow> read_call leave \<Rightarrow> pipe_thread" where
  "after_read c (Return rc) = Done rc"
| "after_read c (Again c') = Reading c'"
| "after_read c Wait = Read_wait c"

text \<open>
  The pipe, its threads, and as history the bytes all writers have stored and the bytes all
  readers have received, in this order.
\<close>

record pipe_sys =
  the_pipe :: pipe
  threads :: "nat \<Rightarrow> pipe_thread"
  sent :: "u8 list"
  received :: "u8 list"

definition pipe_start :: "pipe \<Rightarrow> pipe_sys" where
  "pipe_start p = \<lparr> the_pipe = p, threads = (\<lambda>_. Done 0), sent = [], received = [] \<rparr>"

text \<open>
  Threads call the two operations and run their sections, a signal interrupts a sleeping
  thread, and ends of the pipe are opened and closed. There are never \<open>2 ^ 32\<close> ends of one
  kind, as each needs an open file of its own.
\<close>

inductive pipe_step :: "pipe_sys \<Rightarrow> pipe_sys \<Rightarrow> bool" where
  call_write: "threads s t = Done rc \<Longrightarrow>
     pipe_step s (s \<lparr> threads := (threads s)
       (t := fs_pipe_write_enter (Some (the_pipe s)) bytes src nowait) \<rparr>)"
| call_read: "threads s t = Done rc \<Longrightarrow>
     pipe_step s (s \<lparr> threads := (threads s)
       (t := fs_pipe_read_enter (Some (the_pipe s)) bytes dest nowait) \<rparr>)"
| run_write: "threads s t = Writing c \<Longrightarrow>
     fs_pipe_write (the_pipe s) c = Inr (p, bs, cs, l) \<Longrightarrow>
     pipe_step s (s \<lparr> the_pipe := p, sent := sent s @ bs,
       threads := (\<lambda>u. cond_broadcast cs (threads s u)) (t := after_write c l) \<rparr>)"
| run_read: "threads s t = Reading d \<Longrightarrow>
     fs_pipe_read (the_pipe s) d = Inr (p, bs, cs, l') \<Longrightarrow>
     pipe_step s (s \<lparr> the_pipe := p, received := received s @ bs,
       threads := (\<lambda>u. cond_broadcast cs (threads s u)) (t := after_read d l') \<rparr>)"
| interrupt_write: "threads s t = Write_wait c \<Longrightarrow>
     pipe_step s (s \<lparr> threads := (threads s)(t := Done (fs_pipe_write_intr c)) \<rparr>)"
| interrupt_read: "threads s t = Read_wait d \<Longrightarrow>
     pipe_step s (s \<lparr> threads := (threads s)(t := Done fs_pipe_read_intr) \<rparr>)"
| connect: "fs_pipe_connect (Some (the_pipe s)) mode = (rc, Some p) \<Longrightarrow>
     readers (the_pipe s) + 1 \<noteq> 0 \<Longrightarrow> writers (the_pipe s) + 1 \<noteq> 0 \<Longrightarrow>
     pipe_step s (s \<lparr> the_pipe := p \<rparr>)"
| disconnect: "fs_pipe_disconnect (Some (the_pipe s)) mode = (rc, cs, Some p) \<Longrightarrow>
     pipe_step s (s \<lparr> the_pipe := p, threads := (\<lambda>u. cond_broadcast cs (threads s u)) \<rparr>)"

inductive pipe_run :: "pipe_sys \<Rightarrow> bool" where
  created: "fs_pipe_create (Some block) = Some p \<Longrightarrow> pipe_run (pipe_start p)"
| step: "pipe_run s \<Longrightarrow> pipe_step s s' \<Longrightarrow> pipe_run s'"

subsection \<open>The contents of a pipe\<close>

interpretation pipe_ring: ring 1024
  by unfold_locales (simp add: dvd_def)

definition pipe_contents :: "pipe \<Rightarrow> u8 list" where
  "pipe_contents p = ring_get PIPE_BUF (buffer p) (head p) (unat (elements_in_buffer p))"

lemma length_pipe_contents [simp]:
  "length (pipe_contents p) = unat (elements_in_buffer p)"
  by (simp add: pipe_contents_def)

text \<open>As long as it stays in the array, a copy is the store loop of the ring.\<close>

lemma ring_put_no_wrap:
  assumes "unat (t mod 1024) + length bs \<le> PIPE_BUF"
  shows "fst (ring_put PIPE_BUF buf t bs)
         = (\<lambda>i. if unat (t mod 1024) \<le> i \<and> i < unat (t mod 1024) + length bs
                then bs ! (i - unat (t mod 1024)) else buf i)"
  using assms
proof (induction bs arbitrary: buf t)
  case Nil
  then show ?case by (auto simp: fun_eq_iff)
next
  case (Cons b bs)
  let ?k = "unat (t mod 1024)"
  have k: "?k = unat t mod 1024" by (simp add: unat_mod_u32)
  have next_index: "unat ((t + 1) mod 1024) = (?k + 1) mod 1024"
    using pipe_ring.index_add [of t 1] by (simp add: unat_mod_u32 mod_simps)
  show ?case
  proof (cases "bs = []")
    case True
    then show ?thesis using k by (auto simp: fun_eq_iff)
  next
    case False
    with Cons.prems have "?k + 1 < 1024" by (cases bs) auto
    then have s: "unat ((t + 1) mod 1024) = ?k + 1" using next_index by simp
    with Cons.prems have "unat ((t + 1) mod 1024) + length bs \<le> PIPE_BUF" by simp
    from Cons.IH [OF this] show ?thesis
      unfolding s using k by (auto simp: fun_eq_iff nth_Cons')
  qed
qed

lemma memcpy_in_ring:
  "memcpy_in buf (unat (t mod 1024)) bs = Inr buf' \<Longrightarrow> buf' = fst (ring_put PIPE_BUF buf t bs)"
  by (auto simp: memcpy_in_def ring_put_no_wrap split: if_splits)

lemma memcpy_out_ring:
  assumes "memcpy_out buf (unat (h mod 1024)) n = Inr out"
  shows "out = ring_get PIPE_BUF buf h n"
proof -
  from assms have fit: "unat h mod 1024 + n \<le> 1024"
    and out: "out = map (\<lambda>i. buf (unat h mod 1024 + i)) [0..<n]"
    by (auto simp: memcpy_out_def unat_mod_u32 split: if_splits)
  have "unat (h + of_nat i) mod 1024 = unat h mod 1024 + i" if "i < n" for i
    using that fit by (simp add: pipe_ring.index_add mod_add_left_eq [symmetric, of "unat h" i])
  then show ?thesis by (simp add: out ring_get_def)
qed

lemma fetch_length: "fetch src off n = Inr bs \<Longrightarrow> length bs = n"
  by (auto simp: fetch_def split: if_splits)

subsection \<open>What a section does to the contents\<close>

definition same_ends :: "pipe \<Rightarrow> pipe \<Rightarrow> bool" where
  "same_ends p q \<longleftrightarrow> readers p = readers q \<and> writers p = writers q"

lemma unat_free_slots:
  "unat (elements_in_buffer p) \<le> PIPE_BUF \<Longrightarrow>
   unat (free_slots p) = PIPE_BUF - unat (elements_in_buffer p)"
  unfolding free_slots_def by (subst unat_sub) (simp_all add: word_le_nat_alt)

text \<open>A section of a writer that copies appends the bytes it takes from the caller.\<close>

lemma write_contents:
  assumes inv: "unat (elements_in_buffer p) \<le> PIPE_BUF"
    and n: "unat n \<le> unat (free_slots p)" "length bs = unat n"
    and cpy: "memcpy_in (buffer p) (unat (tail p mod 1024)) bs = Inr buf"
  shows "pipe_contents (p \<lparr> buffer := buf, tail := tail p + n \<rparr>) = pipe_contents p @ bs"
    and "unat (elements_in_buffer (p \<lparr> buffer := buf, tail := tail p + n \<rparr>))
         = unat (elements_in_buffer p) + unat n"
proof -
  have fit: "unat (tail p - head p) + unat n \<le> PIPE_BUF"
    using inv n(1) unat_free_slots [OF inv] by (simp add: elements_in_buffer_def)
  then show cnt: "unat (elements_in_buffer (p \<lparr> buffer := buf, tail := tail p + n \<rparr>))
                  = unat (elements_in_buffer p) + unat n"
    using unat_diff_advance [of "tail p" "head p" "unat n"] by (simp add: elements_in_buffer_def)
  have buf: "buf = fst (ring_put PIPE_BUF (buffer p) (tail p) bs)"
    using cpy by (rule memcpy_in_ring)
  show "pipe_contents (p \<lparr> buffer := buf, tail := tail p + n \<rparr>) = pipe_contents p @ bs"
    unfolding pipe_contents_def cnt using pipe_ring.get_put_tail [of "tail p" "head p" bs "buffer p"]
      fit n(2) by (simp add: buf elements_in_buffer_def)
qed

lemma read_contents:
  assumes n: "unat n \<le> unat (elements_in_buffer p)"
    and cpy: "memcpy_out (buffer p) (unat (head p mod 1024)) (unat n) = Inr out"
  shows "pipe_contents p = out @ pipe_contents (p \<lparr> head := head p + n \<rparr>)"
    and "unat (elements_in_buffer (p \<lparr> head := head p + n \<rparr>))
         = unat (elements_in_buffer p) - unat n"
proof -
  show cnt: "unat (elements_in_buffer (p \<lparr> head := head p + n \<rparr>))
             = unat (elements_in_buffer p) - unat n"
    using n unat_diff_retreat [of "unat n" "tail p" "head p"]
    by (simp add: elements_in_buffer_def)
  have "pipe_contents p = ring_get PIPE_BUF (buffer p) (head p)
          (unat n + (unat (elements_in_buffer p) - unat n))"
    using n by (simp add: pipe_contents_def)
  also have "\<dots> = out @ pipe_contents (p \<lparr> head := head p + n \<rparr>)"
    unfolding ring_get_append pipe_contents_def cnt
    using memcpy_out_ring [OF cpy] by simp
  finally show "pipe_contents p = out @ pipe_contents (p \<lparr> head := head p + n \<rparr>)" .
qed

text \<open>
  A section of a writer either leaves the pipe alone or appends to it and wakes the readers;
  it goes to sleep only when there is a reader to wait for and no room.
\<close>

lemma fs_pipe_write_cases:
  assumes run: "fs_pipe_write p c = Inr (p', bs, cs, l)"
    and inv: "unat (elements_in_buffer p) \<le> PIPE_BUF"
  obtains (idle) "p' = p" "bs = []" "cs = []" "\<forall>c'. l \<noteq> Again c'"
      "l = Wait \<Longrightarrow> readers p \<noteq> 0 \<and> \<not> can_write p (w_bytes c)"
  | (copied) n where "n = min (free_slots p) (w_bytes c)" "can_write p (w_bytes c)"
      "fetch (w_src c) (unat (bytes_written c)) (unat n) = Inr bs"
      "pipe_contents p' = pipe_contents p @ bs"
      "unat (elements_in_buffer p') = unat (elements_in_buffer p) + unat n"
      "unat (elements_in_buffer p') \<le> PIPE_BUF" "same_ends p p'" "cs = [Written]"
      "l = Again (c \<lparr> bytes_left := bytes_left c - n, bytes_written := bytes_written c + n \<rparr>)"
proof -
  consider (idle) "\<not> (0 < bytes_left c \<and> readers p \<noteq> 0 \<and> can_write p (w_bytes c))"
    | (copy) "0 < bytes_left c" "readers p \<noteq> 0" "can_write p (w_bytes c)" by blast
  then show thesis
  proof cases
    case idle
    then show thesis using run
      by (intro that(1)) (auto simp: fs_pipe_write_def split: if_splits)
  next
    case copy
    define n where "n = min (free_slots p) (w_bytes c)"
    from copy run obtain buf where
      f: "fetch (w_src c) (unat (bytes_written c)) (unat n) = Inr bs" and
      m: "memcpy_in (buffer p) (unat (tail p mod 1024)) bs = Inr buf" and
      p': "p' = p \<lparr> buffer := buf, tail := tail p + n \<rparr>" and cs: "cs = [Written]" and
      l: "l = Again (c \<lparr> bytes_left := bytes_left c - n, bytes_written := bytes_written c + n \<rparr>)"
      by (auto simp: fs_pipe_write_def Let_def n_def split: sum.splits)
    have le: "unat n \<le> unat (free_slots p)" by (simp add: n_def min_def word_le_nat_alt)
    note c = write_contents [OF inv le fetch_length [OF f] m, folded p']
    have "unat (elements_in_buffer p') \<le> PIPE_BUF"
      using c(2) le unat_free_slots [OF inv] inv by linarith
    then show thesis using that(2) n_def copy(3) f c cs l p' by (simp add: same_ends_def)
  qed
qed

lemma fs_pipe_read_cases:
  assumes run: "fs_pipe_read p d = Inr (p', bs, cs, l)"
  obtains (idle) "p' = p" "bs = []" "cs = []"
      "l = Wait \<Longrightarrow> writers p \<noteq> 0 \<and> elements_in_buffer p = 0"
  | (copied) n where "n = min (elements_in_buffer p) (r_bytes d)"
      "pipe_contents p = bs @ pipe_contents p'" "same_ends p p'" "length bs = unat n"
      "unat (elements_in_buffer p') = unat (elements_in_buffer p) - unat n"
      "cs = [Read]" "l \<noteq> Wait" "n \<noteq> 0 \<Longrightarrow> l = Return (sint n)"
proof (cases "elements_in_buffer p = 0")
  case True
  then show thesis using run
    by (intro that(1)) (auto simp: fs_pipe_read_def split: if_splits)
next
  case False
  define n where "n = min (elements_in_buffer p) (r_bytes d)"
  from False run have
    m: "memcpy_out (buffer p) (unat (head p mod 1024)) (unat n) = Inr bs" and
    p': "p' = p \<lparr> head := head p + n \<rparr>" and cs: "cs = [Read]" and
    l: "l = (if n = 0 then Again d else Return (sint n))"
    by (auto simp: fs_pipe_read_def Let_def n_def split: sum.splits)
  have le: "unat n \<le> unat (elements_in_buffer p)" by (simp add: n_def min_def word_le_nat_alt)
  have "length bs = unat n" using memcpy_out_ring [OF m] by simp
  then show thesis
    using that(2) [OF n_def] read_contents [OF le m, folded p'] cs l p'
    by (simp add: same_ends_def split: if_splits)
qed

subsection \<open>Invariant of the threads on a pipe\<close>

text \<open>A sleeping thread waits for something that has not happened.\<close>

fun sleeps_rightly :: "pipe \<Rightarrow> pipe_thread \<Rightarrow> bool" where
  "sleeps_rightly p (Write_wait c) \<longleftrightarrow> readers p \<noteq> 0 \<and> \<not> can_write p (w_bytes c)"
| "sleeps_rightly p (Read_wait d) \<longleftrightarrow> writers p \<noteq> 0 \<and> elements_in_buffer p = 0"
| "sleeps_rightly p th \<longleftrightarrow> True"

definition pipe_inv :: "pipe_sys \<Rightarrow> bool" where
  "pipe_inv s \<longleftrightarrow> unat (elements_in_buffer (the_pipe s)) \<le> PIPE_BUF \<and>
     sent s = received s @ pipe_contents (the_pipe s) \<and>
     (\<forall>t. sleeps_rightly (the_pipe s) (threads s t))"

text \<open>
  A change of the pipe keeps a sleeper asleep rightly, if it announces on the condition
  variables whatever a sleeper may be waiting for.
\<close>

lemma broadcast_sleeps_rightly:
  assumes "sleeps_rightly p th"
    and "Read \<in> set cs \<or> readers p' \<noteq> 0 \<and> unat (free_slots p') \<le> unat (free_slots p)
         \<or> readers p = 0"
    and "Written \<in> set cs \<or> writers p' \<noteq> 0 \<and> elements_in_buffer p' = elements_in_buffer p
         \<or> writers p = 0"
  shows "sleeps_rightly p' (cond_broadcast cs th)"
  using assms by (cases th) (auto simp: can_write_def word_le_nat_alt word_less_nat_alt)

lemma after_write_sleeps:
  "(l = Wait \<Longrightarrow> readers p \<noteq> 0 \<and> \<not> can_write p (w_bytes c)) \<Longrightarrow>
   sleeps_rightly p (after_write c l)"
  by (cases l) auto

lemma after_read_sleeps:
  "(l = Wait \<Longrightarrow> writers p \<noteq> 0 \<and> elements_in_buffer p = 0) \<Longrightarrow>
   sleeps_rightly p (after_read d l)"
  by (cases l) auto

lemma enter_sleeps [simp]:
  "sleeps_rightly p (fs_pipe_write_enter q bytes src nowait)"
  "sleeps_rightly p (fs_pipe_read_enter q bytes dest nowait)"
  by (auto simp: fs_pipe_write_enter_def fs_pipe_read_enter_def split: option.splits)

lemma broadcast_nothing [simp]: "cond_broadcast [] th = th"
  by (cases th) auto

lemma contents_ends [simp]:
  "pipe_contents (p \<lparr> readers := r \<rparr>) = pipe_contents p"
  "pipe_contents (p \<lparr> writers := r \<rparr>) = pipe_contents p"
  "elements_in_buffer (p \<lparr> readers := r \<rparr>) = elements_in_buffer p"
  "elements_in_buffer (p \<lparr> writers := r \<rparr>) = elements_in_buffer p"
  "free_slots (p \<lparr> readers := r \<rparr>) = free_slots p"
  "free_slots (p \<lparr> writers := r \<rparr>) = free_slots p"
  by (simp_all add: pipe_contents_def elements_in_buffer_def free_slots_def)

lemma run_write_inv:
  assumes inv: "pipe_inv s" and run: "fs_pipe_write (the_pipe s) c = Inr (p, bs, cs, l)"
  shows "pipe_inv (s \<lparr> the_pipe := p, sent := sent s @ bs,
           threads := (\<lambda>u. cond_broadcast cs (threads s u)) (t := after_write c l) \<rparr>)"
proof -
  have few: "unat (elements_in_buffer (the_pipe s)) \<le> PIPE_BUF" using inv by (simp add: pipe_inv_def)
  show ?thesis using run few
  proof (cases rule: fs_pipe_write_cases)
    case idle
    then show ?thesis using inv by (auto simp: pipe_inv_def intro!: after_write_sleeps)
  next
    case (copied n)
    have free: "unat (free_slots p) \<le> unat (free_slots (the_pipe s))"
      using unat_free_slots [OF few] unat_free_slots [OF copied(6)] copied(5) by linarith
    have "sleeps_rightly p (cond_broadcast cs (threads s u))" for u
      using inv copied(7,8) free
      by (intro broadcast_sleeps_rightly [of "the_pipe s"]) (auto simp: pipe_inv_def same_ends_def)
    then show ?thesis using inv copied(4,6) by (auto simp: pipe_inv_def copied(9))
  qed
qed

lemma run_read_inv:
  assumes inv: "pipe_inv s" and run: "fs_pipe_read (the_pipe s) d = Inr (p, bs, cs, l)"
  shows "pipe_inv (s \<lparr> the_pipe := p, received := received s @ bs,
           threads := (\<lambda>u. cond_broadcast cs (threads s u)) (t := after_read d l) \<rparr>)"
  using run
proof (cases rule: fs_pipe_read_cases)
  case idle
  then show ?thesis using inv by (auto simp: pipe_inv_def intro!: after_read_sleeps)
next
  case (copied n)
  have "sleeps_rightly p (cond_broadcast cs (threads s u))" for u
  proof (cases "elements_in_buffer (the_pipe s) = 0")
    case True
    with copied(1,5) have "elements_in_buffer p = elements_in_buffer (the_pipe s)"
      by (metis unat_0 unat_eq_zero zero_diff)
    then show ?thesis using inv copied(3,6)
      by (intro broadcast_sleeps_rightly [of "the_pipe s"]) (auto simp: pipe_inv_def same_ends_def)
  next
    case False
    then show ?thesis using inv copied(6)
      by (cases "threads s u") (auto simp: pipe_inv_def dest: spec [of _ u])
  qed
  then show ?thesis using inv copied(2,5,7)
    by (auto simp: pipe_inv_def intro!: after_read_sleeps)
qed

lemma connect_inv:
  assumes inv: "pipe_inv s" and run: "fs_pipe_connect (Some (the_pipe s)) mode = (rc, Some p)"
    and "readers (the_pipe s) + 1 \<noteq> 0" "writers (the_pipe s) + 1 \<noteq> 0"
  shows "pipe_inv (s \<lparr> the_pipe := p \<rparr>)"
proof -
  have "sleeps_rightly p (cond_broadcast [] (threads s u))" for u
    using assms by (intro broadcast_sleeps_rightly [of "the_pipe s"])
      (auto simp: pipe_inv_def fs_pipe_connect_def split: if_splits)
  then show ?thesis using inv run
    by (auto simp: pipe_inv_def fs_pipe_connect_def split: if_splits)
qed

lemma disconnect_inv:
  assumes inv: "pipe_inv s"
    and run: "fs_pipe_disconnect (Some (the_pipe s)) mode = (rc, cs, Some p)"
  shows "pipe_inv (s \<lparr> the_pipe := p, threads := (\<lambda>u. cond_broadcast cs (threads s u)) \<rparr>)"
proof -
  have "sleeps_rightly p (cond_broadcast cs (threads s u))" for u
    using assms by (intro broadcast_sleeps_rightly [of "the_pipe s"])
      (auto simp: pipe_inv_def fs_pipe_disconnect_def Let_def split: if_splits)
  then show ?thesis using inv run
    by (auto simp: pipe_inv_def fs_pipe_disconnect_def Let_def split: if_splits)
qed

lemma pipe_step_inv: "pipe_step s s' \<Longrightarrow> pipe_inv s \<Longrightarrow> pipe_inv s'"
proof (induction rule: pipe_step.induct)
  case (run_write s t c p bs cs l)
  from run_write_inv [OF run_write(3,2)] show ?case .
next
  case (run_read s t d p bs cs l')
  from run_read_inv [OF run_read(3,2)] show ?case .
next
  case (connect s mode rc p)
  from connect_inv [OF connect(4,1,2,3)] show ?case .
next
  case (disconnect s mode rc cs p)
  from disconnect_inv [OF disconnect(2,1)] show ?case .
qed (auto simp: pipe_inv_def)

lemma pipe_run_inv: "pipe_run s \<Longrightarrow> pipe_inv s"
proof (induction rule: pipe_run.induct)
  case (created block p)
  then show ?case
    by (auto simp: fs_pipe_create_def pipe_start_def pipe_inv_def pipe_contents_def
        elements_in_buffer_def)
next
  case (step s s')
  then show ?case using pipe_step_inv by blast
qed

text \<open>
  A write of at most \<open>PIPE_BUF\<close> bytes is untouched until the one section that stores all
  of it.
\<close>

fun all_or_nothing :: "pipe_thread \<Rightarrow> bool" where
  "all_or_nothing (Writing c) \<longleftrightarrow> unat (w_bytes c) \<le> PIPE_BUF \<longrightarrow>
     bytes_written c = 0 \<and> bytes_left c = w_bytes c \<or>
     bytes_written c = w_bytes c \<and> bytes_left c = 0"
| "all_or_nothing (Write_wait c) \<longleftrightarrow> unat (w_bytes c) \<le> PIPE_BUF \<longrightarrow>
     bytes_written c = 0 \<and> bytes_left c = w_bytes c"
| "all_or_nothing th \<longleftrightarrow> True"

lemma small_write_fits:
  "unat bytes \<le> PIPE_BUF \<Longrightarrow> can_write p bytes \<Longrightarrow> min (free_slots p) bytes = bytes"
  by (auto simp: can_write_def word_less_nat_alt min_def)

lemma after_write_all_or_nothing:
  assumes "fs_pipe_write p c = Inr (p', bs, cs, l)" and "all_or_nothing (Writing c)"
  shows "all_or_nothing (after_write c l)"
  using assms small_write_fits [of "w_bytes c" p]
  by (auto simp: fs_pipe_write_def Let_def split: if_splits sum.splits)

lemma broadcast_all_or_nothing: "all_or_nothing th \<Longrightarrow> all_or_nothing (cond_broadcast cs th)"
  by (cases th) auto

lemma pipe_run_all_or_nothing: "pipe_run s \<Longrightarrow> all_or_nothing (threads s t)"
proof (induction arbitrary: t rule: pipe_run.induct)
  case (created block p)
  then show ?case by (simp add: pipe_start_def)
next
  case (step s s')
  from step(2,3) show ?case
  proof (induction rule: pipe_step.induct)
    case (run_write s u c p bs cs l)
    have "all_or_nothing (after_write c l)"
      using run_write(1) run_write(3) [of u] by (intro after_write_all_or_nothing [OF run_write(2)]) simp
    then show ?case using run_write(3) broadcast_all_or_nothing by simp
  next
    case (run_read s u d p bs cs l)
    have "all_or_nothing (after_read d l)" by (cases l) auto
    then show ?case using run_read(3) broadcast_all_or_nothing by simp
  qed (auto simp: fs_pipe_write_enter_def fs_pipe_read_enter_def broadcast_all_or_nothing
        split: option.splits)
qed

subsection \<open>Scripted runs\<close>

text \<open>
  A schedule is a list of events; \<open>play\<close> runs it, and ends with \<open>None\<close> where an event
  is not possible. Every schedule that can be played is a run of the step relation.
\<close>

datatype pipe_event =
    Connect int
  | Call_write nat u32 "u8 list" int
  | Run_write nat
  | Call_read nat u32 int
  | Run_read nat

fun play1 :: "pipe_event \<Rightarrow> pipe_sys \<Rightarrow> pipe_sys option" where
  "play1 (Connect mode) s =
     (if readers (the_pipe s) + 1 \<noteq> 0 \<and> writers (the_pipe s) + 1 \<noteq> 0 then
        (case fs_pipe_connect (Some (the_pipe s)) mode of
           (rc, Some p) \<Rightarrow> Some (s \<lparr> the_pipe := p \<rparr>)
         | _ \<Rightarrow> None)
      else None)"
| "play1 (Call_write t bytes src nowait) s =
     (case threads s t of
        Done rc \<Rightarrow> Some (s \<lparr> threads := (threads s)
          (t := fs_pipe_write_enter (Some (the_pipe s)) bytes (Some src) nowait) \<rparr>)
      | _ \<Rightarrow> None)"
| "play1 (Run_write t) s =
     (case threads s t of
        Writing c \<Rightarrow>
          (case fs_pipe_write (the_pipe s) c of
             Inr (p, bs, cs, l) \<Rightarrow> Some (s \<lparr> the_pipe := p, sent := sent s @ bs,
               threads := (\<lambda>u. cond_broadcast cs (threads s u)) (t := after_write c l) \<rparr>)
           | Inl f \<Rightarrow> None)
      | _ \<Rightarrow> None)"
| "play1 (Call_read t bytes nowait) s =
     (case threads s t of
        Done rc \<Rightarrow> Some (s \<lparr> threads := (threads s)
          (t := fs_pipe_read_enter (Some (the_pipe s)) bytes False nowait) \<rparr>)
      | _ \<Rightarrow> None)"
| "play1 (Run_read t) s =
     (case threads s t of
        Reading d \<Rightarrow>
          (case fs_pipe_read (the_pipe s) d of
             Inr (p, bs, cs, l) \<Rightarrow> Some (s \<lparr> the_pipe := p, received := received s @ bs,
               threads := (\<lambda>u. cond_broadcast cs (threads s u)) (t := after_read d l) \<rparr>)
           | Inl f \<Rightarrow> None)
      | _ \<Rightarrow> None)"

fun play :: "pipe_event list \<Rightarrow> pipe_sys \<Rightarrow> pipe_sys option" where
  "play [] s = Some s"
| "play (e # es) s = (case play1 e s of None \<Rightarrow> None | Some s' \<Rightarrow> play es s')"

lemma play1_step: "play1 e s = Some s' \<Longrightarrow> pipe_step s s'"
  by (cases e) (auto split: if_splits prod.splits option.splits pipe_thread.splits sum.splits
      intro!: pipe_step.intros)

lemma play_run: "play es s = Some s' \<Longrightarrow> pipe_run s \<Longrightarrow> pipe_run s'"
  by (induction es arbitrary: s)
    (auto split: option.splits dest: play1_step intro: pipe_run.step)

definition empty_pipe :: pipe where
  "empty_pipe = \<lparr> readers = 0, writers = 0, head = 0, tail = 0, buffer = (\<lambda>_. 0) \<rparr>"

lemma play_from_empty: "play es (pipe_start empty_pipe) = Some s \<Longrightarrow> pipe_run s"
  by (erule play_run) (rule pipe_run.created [where block = "\<lambda>_. 0"],
    simp add: fs_pipe_create_def empty_pipe_def)

lemmas play_simps = empty_pipe_def pipe_start_def fs_pipe_connect_def fs_pipe_write_enter_def
  fs_pipe_read_enter_def fs_pipe_write_def fs_pipe_read_def can_write_def free_slots_def
  elements_in_buffer_def fetch_def memcpy_in_def memcpy_out_def Let_def

subsection \<open>Properties\<close>


definition fifo_schedule :: "pipe_event list" where
  "fifo_schedule = [Connect PIPE_READ, Connect PIPE_WRITE,
     Call_read 1 2 0, Run_read 1, Call_write 2 3 [7, 8, 9] 0, Run_write 2, Run_read 1]"


text \<open>
  (C32) No wakeup is lost and no pipe deadlocks. While a reader sleeps, the buffer is empty,
  some writer is connected and no writer sleeps; while a writer sleeps, some reader is
  connected and the buffer lacks the room the writer needs, so that in particular it is not
  empty.
\<close>

theorem pipe_sleep_justified:
  assumes "pipe_run s"
  shows "(threads s t = Read_wait d \<longrightarrow>
            writers (the_pipe s) \<noteq> 0 \<and> pipe_contents (the_pipe s) = [] \<and>
            (\<forall>u c. threads s u \<noteq> Write_wait c)) \<and>
         (threads s t = Write_wait c \<longrightarrow>
            readers (the_pipe s) \<noteq> 0 \<and> pipe_contents (the_pipe s) \<noteq> [] \<and>
            PIPE_BUF < length (pipe_contents (the_pipe s)) + unat (w_bytes c) \<and>
            (PIPE_BUF < unat (w_bytes c) \<longrightarrow> length (pipe_contents (the_pipe s)) = PIPE_BUF))"
proof -
  let ?p = "the_pipe s"
  from pipe_run_inv [OF assms] have few: "unat (elements_in_buffer ?p) \<le> PIPE_BUF"
    and ok: "\<And>u. sleeps_rightly ?p (threads s u)" by (simp_all add: pipe_inv_def)
  have full: "readers ?p \<noteq> 0 \<and> elements_in_buffer ?p \<noteq> 0 \<and>
      PIPE_BUF < unat (elements_in_buffer ?p) + unat (w_bytes c) \<and>
      (PIPE_BUF < unat (w_bytes c) \<longrightarrow> unat (elements_in_buffer ?p) = PIPE_BUF)"
    if "threads s u = Write_wait c" for u c
    using ok [of u] that unat_free_slots [OF few] few
    by (auto simp: can_write_def word_le_nat_alt word_less_nat_alt)
  have "threads s t = Read_wait d \<Longrightarrow> writers ?p \<noteq> 0 \<and> elements_in_buffer ?p = 0"
    using ok [of t] by simp
  with full show ?thesis by (auto simp: pipe_contents_def unat_gt_0 simp flip: length_0_conv)
qed

definition sleep_schedule :: "pipe_event list" where
  "sleep_schedule = [Connect PIPE_READ, Connect PIPE_WRITE, Call_read 1 2 0, Run_read 1]"

theorem pipe_sleep_justified_witness:
  "\<exists>s d. play sleep_schedule (pipe_start empty_pipe) = Some s \<and> threads s 1 = Read_wait d \<and>
         writers (the_pipe s) \<noteq> 0 \<and> pipe_contents (the_pipe s) = []"
proof -
  obtain s d where s: "play sleep_schedule (pipe_start empty_pipe) = Some s"
    "threads s 1 = Read_wait d"
    by (simp add: sleep_schedule_def play_simps)
  from pipe_sleep_justified [OF play_from_empty [OF s(1)], of 1 d] s show ?thesis by blast
qed



text \<open>
  The copies ignore the end of the buffer. A pipe that has carried 600 bytes and is empty
  again faults on the next write of 600 bytes: the copy starts at the index 600 of an array of
  1024 bytes and runs past its end.
\<close>

theorem pipe_write_overruns:
  "\<exists>s c. pipe_run s \<and> threads s 2 = Writing c \<and> pipe_contents (the_pipe s) = [] \<and>
         w_bytes c = 600 \<and> length (w_src c) = 600 \<and>
         fs_pipe_write (the_pipe s) c = Inl Write_overrun"
proof -
  let ?data = "replicate 600 (1 :: u8)"
  let ?es = "[Connect PIPE_READ, Connect PIPE_WRITE, Call_write 2 600 ?data 0, Run_write 2,
    Run_write 2, Call_read 1 600 0, Run_read 1, Call_write 2 600 ?data 0]"
  obtain s c where s: "play ?es (pipe_start empty_pipe) = Some s"
    "threads s 2 = Writing c" "w_bytes c = 600" "length (w_src c) = 600"
    "elements_in_buffer (the_pipe s) = 0" "fs_pipe_write (the_pipe s) c = Inl Write_overrun"
    by (simp add: play_simps)
  from s(5) have "pipe_contents (the_pipe s) = []" by (simp add: pipe_contents_def)
  with play_from_empty [OF s(1)] s show ?thesis by blast
qed

text \<open>
  A write of more than \<open>PIPE_BUF\<close> bytes copies \<open>MIN(free_slots, bytes)\<close> bytes in every
  pass, not the bytes that are left. Once 1024 of 1536 bytes are written and read, the next
  pass asks for 1024 bytes again and reads past the 512 bytes the caller still has.
\<close>

theorem pipe_long_write_overreads:
  "\<exists>s c. pipe_run s \<and> threads s 2 = Writing c \<and> pipe_contents (the_pipe s) = [] \<and>
         w_bytes c = 1536 \<and> length (w_src c) = 1536 \<and> bytes_left c = 512 \<and>
         bytes_written c = 1024 \<and> fs_pipe_write (the_pipe s) c = Inl Read_overrun"
proof -
  let ?es = "[Connect PIPE_READ, Connect PIPE_WRITE,
    Call_write 2 1536 (replicate 1536 (1 :: u8)) 0, Run_write 2, Call_read 1 1024 0, Run_read 1]"
  obtain s c where s: "play ?es (pipe_start empty_pipe) = Some s"
    "threads s 2 = Writing c" "w_bytes c = 1536" "length (w_src c) = 1536"
    "bytes_left c = 512" "bytes_written c = 1024"
    "elements_in_buffer (the_pipe s) = 0" "fs_pipe_write (the_pipe s) c = Inl Read_overrun"
    by (simp add: play_simps)
  from s(7) have "pipe_contents (the_pipe s) = []" by (simp add: pipe_contents_def)
  with play_from_empty [OF s(1)] s show ?thesis by blast
qed

end
