(* ===== verification/Lists.thy ===== *)
theory Lists
  imports Prelude
begin

text \<open>
  The intrusive doubly linked lists of \<^verbatim>\<open>include/lists.h\<close>. The macros work on the
  \<open>next\<close> and \<open>prev\<close> fields of the items and on a head and a tail pointer; here an
  item is a number, the fields are two maps, and \<open>None\<close> is the null pointer. \<open>linked\<close>
  says that the fields and the two pointers represent a list of items, and the lemmas show
  that each macro then has the effect of the corresponding operation on lists, and leaves the
  fields of all other items alone, so that items of one table may sit in several lists.
\<close>

type_synonym node = nat

record links =
  nxt :: "node \<Rightarrow> node option"
  prv :: "node \<Rightarrow> node option"

type_synonym list_ends = "node option \<times> node option"

definition set_nxt :: "node \<Rightarrow> node option \<Rightarrow> links \<Rightarrow> links" where
  "set_nxt x v l = l \<lparr> nxt := (nxt l)(x := v) \<rparr>"

definition set_prv :: "node \<Rightarrow> node option \<Rightarrow> links \<Rightarrow> links" where
  "set_prv x v l = l \<lparr> prv := (prv l)(x := v) \<rparr>"

subsection \<open>The macros\<close>

fun LIST_ADD_FRONT :: "list_ends \<Rightarrow> node \<Rightarrow> links \<Rightarrow> list_ends \<times> links" where
  "LIST_ADD_FRONT (None, t) x l = ((Some x, Some x), set_prv x None (set_nxt x None l))"
| "LIST_ADD_FRONT (Some h, t) x l =
     ((Some x, t), set_prv x None (set_nxt x (Some h) (set_prv h (Some x) l)))"

fun LIST_ADD_END :: "list_ends \<Rightarrow> node \<Rightarrow> links \<Rightarrow> list_ends \<times> links" where
  "LIST_ADD_END (h, None) x l = ((Some x, Some x), set_prv x None (set_nxt x None l))"
| "LIST_ADD_END (h, Some t) x l =
     ((h, Some x), set_nxt x None (set_prv x (Some t) (set_nxt t (Some x) l)))"

text \<open>The two ends are arguments of this macro, but it does not use them.\<close>

fun LIST_ADD_AFTER :: "list_ends \<Rightarrow> node \<Rightarrow> node \<Rightarrow> links \<Rightarrow> list_ends \<times> links" where
  "LIST_ADD_AFTER ends pos x l =
     (let l1 = set_prv x (Some pos) l;
          l2 = set_nxt x (nxt l1 pos) l1;
          l3 = (case nxt l2 pos of Some y \<Rightarrow> set_prv y (Some x) l2 | None \<Rightarrow> l2)
      in (ends, set_nxt pos (Some x) l3))"

text \<open>Removing from an empty list dereferences a null pointer.\<close>

fun LIST_REMOVE_FRONT :: "list_ends \<Rightarrow> links \<Rightarrow> (list_ends \<times> links) option" where
  "LIST_REMOVE_FRONT (None, t) l = None"
| "LIST_REMOVE_FRONT (Some h, t) l =
     (case nxt l h of
        Some y \<Rightarrow> Some ((nxt l h, t), set_prv y None l)
      | None \<Rightarrow> Some ((None, None), l))"

fun LIST_REMOVE_END :: "list_ends \<Rightarrow> links \<Rightarrow> (list_ends \<times> links) option" where
  "LIST_REMOVE_END (h, None) l = None"
| "LIST_REMOVE_END (h, Some t) l =
     (case prv l t of
        Some y \<Rightarrow> Some ((h, prv l t), set_nxt y None l)
      | None \<Rightarrow> Some ((None, None), l))"

definition LIST_REMOVE :: "list_ends \<Rightarrow> node \<Rightarrow> links \<Rightarrow> (list_ends \<times> links) option" where
  "LIST_REMOVE ends x l =
     (if Some x = fst ends then LIST_REMOVE_FRONT ends l
      else if Some x = snd ends then LIST_REMOVE_END ends l
      else case (nxt l x, prv l x) of
        (Some y, Some w) \<Rightarrow>
          (let l1 = set_prv y (prv l x) l in Some (ends, set_nxt w (nxt l1 x) l1))
      | _ \<Rightarrow> None)"

text \<open>
  \<^verbatim>\<open>LIST_FOREACH\<close>: the items the loop visits, \<open>None\<close> if it does not end.
\<close>

partial_function (option) LIST_FOREACH :: "links \<Rightarrow> node option \<Rightarrow> node list option" where
  "LIST_FOREACH l item =
     (case item of
        None \<Rightarrow> Some []
      | Some x \<Rightarrow> Option.bind (LIST_FOREACH l (nxt l x)) (\<lambda>xs. Some (x # xs)))"

lemma LIST_FOREACH_unfold [simp]:
  "LIST_FOREACH l None = Some []"
  "LIST_FOREACH l (Some x) = Option.bind (LIST_FOREACH l (nxt l x)) (\<lambda>xs. Some (x # xs))"
  by (subst LIST_FOREACH.simps, simp)+

subsection \<open>Representation\<close>

text \<open>
  \<open>seg l p xs n\<close>: the items \<open>xs\<close> are chained in both directions, the first one
  points back to \<open>p\<close> and the last one on to \<open>n\<close>.
\<close>

definition first :: "node list \<Rightarrow> node option \<Rightarrow> node option" where
  "first xs n = (case xs of [] \<Rightarrow> n | x # _ \<Rightarrow> Some x)"

definition final :: "node list \<Rightarrow> node option \<Rightarrow> node option" where
  "final xs p = (if xs = [] then p else Some (last xs))"

fun seg :: "links \<Rightarrow> node option \<Rightarrow> node list \<Rightarrow> node option \<Rightarrow> bool" where
  "seg l p [] n \<longleftrightarrow> True"
| "seg l p (x # xs) n \<longleftrightarrow> prv l x = p \<and> nxt l x = first xs n \<and> seg l (Some x) xs n"

definition linked :: "links \<Rightarrow> list_ends \<Rightarrow> node list \<Rightarrow> bool" where
  "linked l ends xs \<longleftrightarrow>
     distinct xs \<and> ends = (first xs None, final xs None) \<and> seg l None xs None"

lemma first_simps [simp]: "first [] n = n" "first (x # xs) n = Some x"
  by (simp_all add: first_def)

lemma final_simps [simp]:
  "final [] p = p" "final (x # xs) p = final xs (Some x)"
  by (simp_all add: final_def)

lemma final_append [simp]: "final (xs @ ys) p = final ys (final xs p)"
  by (simp add: final_def)

lemma first_append [simp]: "first (xs @ ys) n = first xs (first ys n)"
  by (cases xs) simp_all

lemma seg_append:
  "seg l p (xs @ ys) n \<longleftrightarrow> seg l p xs (first ys n) \<and> seg l (final xs p) ys n"
  by (induction xs arbitrary: p) auto

text \<open>Fields of items outside the segment do not matter.\<close>

lemma seg_cong:
  "(\<And>x. x \<in> set xs \<Longrightarrow> nxt l x = nxt l' x \<and> prv l x = prv l' x) \<Longrightarrow>
   seg l p xs n \<longleftrightarrow> seg l' p xs n"
  by (induction xs arbitrary: p) auto

lemma links_update [simp]:
  "nxt (set_nxt x v l) = (nxt l)(x := v)" "prv (set_nxt x v l) = prv l"
  "prv (set_prv x v l) = (prv l)(x := v)" "nxt (set_prv x v l) = nxt l"
  by (simp_all add: set_nxt_def set_prv_def)

lemma seg_set_other [simp]:
  "x \<notin> set xs \<Longrightarrow> seg (set_nxt x v l) p xs n \<longleftrightarrow> seg l p xs n"
  "x \<notin> set xs \<Longrightarrow> seg (set_prv x v l) p xs n \<longleftrightarrow> seg l p xs n"
  by (rule seg_cong; auto)+

lemma seg_relink_last:
  "seg l p (xs @ [x]) n \<Longrightarrow> x \<notin> set xs \<Longrightarrow> seg (set_nxt x v l) p (xs @ [x]) v"
  by (simp add: seg_append)

lemma seg_relink_first:
  "seg l p (x # xs) n \<Longrightarrow> x \<notin> set xs \<Longrightarrow> seg (set_prv x v l) v (x # xs) n"
  by simp

lemma linked_empty: "linked l ends [] \<longleftrightarrow> ends = (None, None)"
  by (simp add: linked_def)

text \<open>Only the items of the list and the new item are written.\<close>

definition frame :: "node set \<Rightarrow> links \<Rightarrow> links \<Rightarrow> bool" where
  "frame A l l' \<longleftrightarrow> (\<forall>x. x \<notin> A \<longrightarrow> nxt l' x = nxt l x \<and> prv l' x = prv l x)"

lemma linked_frame:
  "linked l ends xs \<Longrightarrow> frame A l l' \<Longrightarrow> set xs \<inter> A = {} \<Longrightarrow> linked l' ends xs"
  unfolding linked_def frame_def using seg_cong [of xs l l'] by (metis disjoint_iff)

lemma frame_mono: "frame A l l' \<Longrightarrow> A \<subseteq> B \<Longrightarrow> frame B l l'"
  by (auto simp: frame_def)

subsection \<open>The macros as operations on lists\<close>

lemma add_front_linked:
  assumes "linked l ends xs" and "x \<notin> set xs"
  shows "\<exists>ends' l'. LIST_ADD_FRONT ends x l = (ends', l') \<and> linked l' ends' (x # xs) \<and>
         frame (insert x (set xs)) l l'"
proof (cases xs)
  case Nil
  then show ?thesis using assms by (auto simp: linked_def frame_def)
next
  case (Cons h ys)
  then show ?thesis using assms by (auto simp: linked_def frame_def final_def)
qed

lemma add_end_linked:
  assumes "linked l ends xs" and "x \<notin> set xs"
  shows "\<exists>ends' l'. LIST_ADD_END ends x l = (ends', l') \<and> linked l' ends' (xs @ [x]) \<and>
         frame (insert x (set xs)) l l'"
proof (cases xs rule: rev_cases)
  case Nil
  then show ?thesis using assms by (auto simp: linked_def frame_def)
next
  case (snoc ys t)
  then show ?thesis using assms by (auto simp: linked_def frame_def seg_append)
qed

lemma remove_front_linked:
  assumes "linked l ends (x # xs)"
  shows "\<exists>ends' l'. LIST_REMOVE_FRONT ends l = Some (ends', l') \<and> linked l' ends' xs \<and>
         frame (set xs) l l'"
proof (cases xs)
  case Nil
  then show ?thesis using assms by (auto simp: linked_def frame_def)
next
  case (Cons y ys)
  then show ?thesis using assms by (auto simp: linked_def frame_def)
qed

lemma remove_end_linked:
  assumes "linked l ends (xs @ [x])"
  shows "\<exists>ends' l'. LIST_REMOVE_END ends l = Some (ends', l') \<and> linked l' ends' xs \<and>
         frame (set xs) l l'"
proof (cases xs rule: rev_cases)
  case Nil
  then show ?thesis using assms by (auto simp: linked_def frame_def)
next
  case (snoc ys y)
  then show ?thesis using assms by (auto simp: linked_def frame_def seg_append)
qed

lemma first_member: "first xs n = Some x \<Longrightarrow> x \<in> set xs \<or> n = Some x"
  by (cases xs) auto

lemma final_member: "final xs p = Some x \<Longrightarrow> x \<in> set xs \<or> p = Some x"
  by (cases xs rule: rev_cases) auto

lemma remove_inner_linked:
  assumes l: "linked l ends (xs @ w # x # y # ys)"
  shows "\<exists>ends' l'. LIST_REMOVE ends x l = Some (ends', l') \<and>
         linked l' ends' (xs @ w # y # ys) \<and> frame {w, y} l l'"
proof -
  from l have f: "nxt l x = Some y" "prv l x = Some w" by (simp_all add: linked_def seg_append)
  from l have "Some x \<noteq> fst ends" "Some x \<noteq> snd ends"
    using first_member [of xs "Some w" x] final_member [of ys "Some y" x]
    by (auto simp: linked_def)
  then have "LIST_REMOVE ends x l = Some (ends, set_nxt w (Some y) (set_prv y (Some w) l))"
    by (simp add: LIST_REMOVE_def f)
  moreover have "linked (set_nxt w (Some y) (set_prv y (Some w) l)) ends (xs @ w # y # ys)"
    using l by (simp add: linked_def seg_append)
  ultimately show ?thesis by (simp add: frame_def)
qed

lemma remove_linked:
  assumes l: "linked l ends (xs @ x # ys)"
  shows "\<exists>ends' l'. LIST_REMOVE ends x l = Some (ends', l') \<and> linked l' ends' (xs @ ys) \<and>
         frame (set (xs @ ys)) l l'"
proof (cases xs rule: rev_cases)
  case Nil
  with l have "fst ends = Some x" by (simp add: linked_def)
  with Nil l show ?thesis using remove_front_linked [of l ends x ys] by (simp add: LIST_REMOVE_def)
next
  case (snoc as w)
  show ?thesis
  proof (cases ys)
    case Nil
    with snoc l have "Some x \<noteq> fst ends" "snd ends = Some x"
      using first_member [of as "Some w" x] by (auto simp: linked_def)
    with Nil l show ?thesis using remove_end_linked [of l ends xs x] by (simp add: LIST_REMOVE_def)
  next
    case (Cons y bs)
    with snoc l obtain ends' l' where "LIST_REMOVE ends x l = Some (ends', l')"
      "linked l' ends' (as @ w # y # bs)" "frame {w, y} l l'"
      using remove_inner_linked [of l ends as w x y bs] by auto
    with snoc Cons show ?thesis by (auto simp: frame_def)
  qed
qed

lemma foreach_linked:
  assumes "seg l p xs None"
  shows "LIST_FOREACH l (first xs None) = Some xs"
  using assms
proof (induction xs arbitrary: p)
  case Nil
  then show ?case by simp
next
  case (Cons x xs)
  from Cons.prems have "seg l (Some x) xs None" "nxt l x = first xs None" by simp_all
  with Cons.IH [of "Some x"] show ?case by simp
qed

lemma add_after_inner:
  assumes "linked l ends (xs @ pos # y # ys)" and "x \<notin> set (xs @ pos # y # ys)"
  shows "linked (snd (LIST_ADD_AFTER ends pos x l)) (fst (LIST_ADD_AFTER ends pos x l))
           (xs @ pos # x # y # ys)"
  using assms by (auto simp: linked_def seg_append final_def Let_def)

subsection \<open>Properties\<close>

text \<open>
  (C34) The list macros implement lists. On fields and ends that represent the list \<open>xs\<close>, and
  for an item that is not in it, adding at the front or at the end, removing at the front or at
  the end, and removing an item anywhere give fields and ends that represent the changed
  list, without touching the items of other lists; \<open>LIST_FOREACH\<close> visits the items of the
  list in order and ends.
\<close>

theorem list_macros_refine:
  assumes "linked l ends xs" and "x \<notin> set xs"
  shows "(\<exists>ends' l'. LIST_ADD_FRONT ends x l = (ends', l') \<and> linked l' ends' (x # xs) \<and>
            frame (insert x (set xs)) l l') \<and>
         (\<exists>ends' l'. LIST_ADD_END ends x l = (ends', l') \<and> linked l' ends' (xs @ [x]) \<and>
            frame (insert x (set xs)) l l') \<and>
         (xs \<noteq> [] \<longrightarrow>
           (\<exists>ends' l'. LIST_REMOVE_FRONT ends l = Some (ends', l') \<and> linked l' ends' (tl xs) \<and>
              frame (set xs) l l') \<and>
           (\<exists>ends' l'. LIST_REMOVE_END ends l = Some (ends', l') \<and> linked l' ends' (butlast xs) \<and>
              frame (set xs) l l')) \<and>
         (\<forall>y \<in> set xs. \<exists>ends' l'. LIST_REMOVE ends y l = Some (ends', l') \<and>
              linked l' ends' (remove1 y xs) \<and> frame (set xs) l l') \<and>
         LIST_FOREACH l (fst ends) = Some xs"
proof -
  have front: "\<exists>ends' l'. LIST_REMOVE_FRONT ends l = Some (ends', l') \<and> linked l' ends' (tl xs) \<and>
      frame (set xs) l l'" if "xs \<noteq> []"
  proof -
    from that obtain y ys where xs: "xs = y # ys" by (cases xs) auto
    obtain ends' l' where "LIST_REMOVE_FRONT ends l = Some (ends', l')" "linked l' ends' ys"
      "frame (set ys) l l'" using remove_front_linked [OF assms(1) [unfolded xs]] by blast
    then show ?thesis using frame_mono [of "set ys" l l' "set xs"] by (auto simp: xs)
  qed
  have rear: "\<exists>ends' l'. LIST_REMOVE_END ends l = Some (ends', l') \<and>
      linked l' ends' (butlast xs) \<and> frame (set xs) l l'" if "xs \<noteq> []"
  proof -
    from that obtain y ys where xs: "xs = ys @ [y]" by (cases xs rule: rev_cases) auto
    obtain ends' l' where "LIST_REMOVE_END ends l = Some (ends', l')" "linked l' ends' ys"
      "frame (set ys) l l'" using remove_end_linked [OF assms(1) [unfolded xs]] by blast
    then show ?thesis using frame_mono [of "set ys" l l' "set xs"] by (auto simp: xs)
  qed
  have inner: "\<exists>ends' l'. LIST_REMOVE ends y l = Some (ends', l') \<and>
      linked l' ends' (remove1 y xs) \<and> frame (set xs) l l'" if "y \<in> set xs" for y
  proof -
    from that obtain as bs where xs: "xs = as @ y # bs" "y \<notin> set as" by (metis split_list_first)
    obtain ends' l' where "LIST_REMOVE ends y l = Some (ends', l')" "linked l' ends' (as @ bs)"
      "frame (set (as @ bs)) l l'" using remove_linked [OF assms(1) [unfolded xs(1)]] by blast
    then show ?thesis using frame_mono [of "set (as @ bs)" l l' "set xs"] xs(2)
      by (auto simp: xs(1) remove1_append)
  qed
  have visit: "LIST_FOREACH l (fst ends) = Some xs"
    using assms(1) foreach_linked [of l None xs] by (simp add: linked_def)
  show ?thesis
    by (intro conjI impI ballI add_front_linked add_end_linked assms front rear inner visit)
qed

definition no_links :: links where
  "no_links = \<lparr> nxt = (\<lambda>_. None), prv = (\<lambda>_. None) \<rparr>"

theorem list_macros_refine_witness:
  "\<exists>ends l ends' l'. LIST_ADD_END (None, None) 5 no_links = (ends, l) \<and>
     LIST_ADD_END ends 7 l = (ends', l') \<and> linked l' ends' [5, 7]"
proof -
  have "linked (snd (LIST_ADD_END (None, None) 5 no_links))
          (fst (LIST_ADD_END (None, None) 5 no_links)) [5]"
    by (simp add: linked_def no_links_def)
  from list_macros_refine [OF this, of 7] show ?thesis by (simp add: linked_def)
qed

text \<open>
  \<open>LIST_ADD_AFTER\<close> does not move the tail. Adding after the last item of a list leaves
  a tail pointer that does not point to the last item, and a later \<open>LIST_ADD_END\<close> loses
  the item that was added.
\<close>

theorem add_after_tail_lost:
  "\<exists>ends l ends1 l1 ends2 l2.
     linked l ends [5] \<and> LIST_ADD_AFTER ends 5 6 l = (ends1, l1) \<and>
     LIST_FOREACH l1 (fst ends1) = Some [5, 6] \<and> snd ends1 = Some 5 \<and>
     LIST_ADD_END ends1 7 l1 = (ends2, l2) \<and> LIST_FOREACH l2 (fst ends2) = Some [5, 7]"
  by (rule exI [of _ "(Some 5, Some 5)"], rule exI [of _ "snd (LIST_ADD_END (None, None) 5 no_links)"])
    (simp add: Let_def no_links_def linked_def)

end
