(* ===== verification/Sched.thy ===== *)
theory Sched
  imports Lists
begin

text \<open>
  The scheduler, \<^verbatim>\<open>kernel/sched.c\<close>. The static arrays of the module are indexed by the
  CPU first; here the entries of one CPU form a record, and the state of the module maps CPU
  numbers to such records. A runnable is named by its task, its index in the table of the CPU.
  The ready queues are lists of \<^verbatim>\<open>include/lists.h\<close> over the links of the table. A
  critical section under the lock of a queue is one step. What the hardware layer reports to
  these functions, the current CPU and whether interrupts are enabled, are arguments.
\<close>

abbreviation SMP_MAX_CPU :: nat where "SMP_MAX_CPU \<equiv> 8"
abbreviation SMP_BSP_ID :: nat where "SMP_BSP_ID \<equiv> 0"
abbreviation PM_MAX_TASK :: nat where "PM_MAX_TASK \<equiv> 1024"
abbreviation SCHED_MAX_PRIO :: nat where "SCHED_MAX_PRIO \<equiv> 15"
abbreviation HZ :: u32 where "HZ \<equiv> 100"
abbreviation SCHED_INIT_QUANTUM :: u32 where "SCHED_INIT_QUANTUM \<equiv> 10"

subsection \<open>State\<close>

record runnable =
  quantum :: u32
  priority :: int
  reschedule :: int
  valid :: int

record cpu_sched =
  runnables :: "nat \<Rightarrow> runnable"
  runnable_links :: links
  queue :: "nat \<Rightarrow> list_ends"
  active :: "nat option"
  cpu_used :: int
  cpu_queue_length :: u32
  idle_task :: u32
  idle :: u32
  busy :: u32
  idle_last :: u32
  busy_last :: u32
  load :: int

text \<open>The second field logs the CPUs to which the scheduler IPI has been sent.\<close>

record sched =
  cpus :: "nat \<Rightarrow> cpu_sched"
  ipis :: "nat list"

text \<open>
  What can go wrong: a panic or failed assertion, a null pointer that is dereferenced, and an
  index outside an array.
\<close>

datatype sched_error = Panic | Null_deref | Out_of_bounds

definition upd_cpu :: "nat \<Rightarrow> (cpu_sched \<Rightarrow> cpu_sched) \<Rightarrow> sched \<Rightarrow> sched" where
  "upd_cpu i f s = s \<lparr> cpus := (cpus s)(i := f (cpus s i)) \<rparr>"

definition upd_runnable :: "nat \<Rightarrow> (runnable \<Rightarrow> runnable) \<Rightarrow> cpu_sched \<Rightarrow> cpu_sched" where
  "upd_runnable t f c = c \<lparr> runnables := (runnables c)(t := f (runnables c t)) \<rparr>"

text \<open>\<^verbatim>\<open>LIST_ADD_END(queue[cpuid][prio].head, queue[cpuid][prio].tail, ...)\<close>\<close>

definition queue_add_end :: "nat \<Rightarrow> nat \<Rightarrow> cpu_sched \<Rightarrow> cpu_sched" where
  "queue_add_end prio t c =
     (let (ends, l) = LIST_ADD_END (queue c prio) t (runnable_links c)
      in c \<lparr> queue := (queue c)(prio := ends), runnable_links := l \<rparr>)"

subsection \<open>Initialization\<close>

definition fresh_runnable :: runnable where
  "fresh_runnable = \<lparr> quantum = SCHED_INIT_QUANTUM, priority = 0, reschedule = 0, valid = 1 \<rparr>"

definition init_cpu :: "cpu_sched \<Rightarrow> cpu_sched" where
  "init_cpu c = c \<lparr> active := None, cpu_used := 0, cpu_queue_length := 0,
     queue := (\<lambda>i. if i \<le> SCHED_MAX_PRIO then (None, None) else queue c i),
     runnables := (\<lambda>i. if 1 \<le> i \<and> i < PM_MAX_TASK then (runnables c i) \<lparr> valid := 0 \<rparr>
                       else runnables c i) \<rparr>"

definition sched_init :: "sched \<Rightarrow> sched" where
  "sched_init s =
     upd_cpu SMP_BSP_ID
       (\<lambda>c. upd_runnable 0 (\<lambda>_. fresh_runnable) c
              \<lparr> cpu_used := 1, active := Some 0, idle_task := 0 \<rparr>)
       (s \<lparr> cpus := (\<lambda>i. if i < SMP_MAX_CPU then init_cpu (cpus s i) else cpus s i) \<rparr>)"

definition sched_add_idle_task :: "int \<Rightarrow> int \<Rightarrow> sched \<Rightarrow> sched" where
  "sched_add_idle_task task_id cpuid s =
     (if task_id < 0 \<or> task_id \<ge> int PM_MAX_TASK then s
      else if cpuid < 0 \<or> cpuid \<ge> int SMP_MAX_CPU then s
      else
        upd_cpu (nat cpuid)
          (\<lambda>c. (if active c \<noteq> None then c
                 else upd_runnable (nat task_id) (\<lambda>_. fresh_runnable) c
                        \<lparr> cpu_used := 1, active := Some (nat task_id) \<rparr>)
               \<lparr> idle_task := of_int task_id \<rparr>) s)"

subsection \<open>Adding and removing runnables\<close>

text \<open>The loop of \<^verbatim>\<open>get_next_cpu\<close> from CPU \<open>cpu\<close> on.\<close>

fun next_cpu_loop :: "sched \<Rightarrow> nat list \<Rightarrow> nat \<Rightarrow> u32 \<Rightarrow> nat" where
  "next_cpu_loop s [] rc queue_length = rc"
| "next_cpu_loop s (cpu # rest) rc queue_length =
     (if cpu_used (cpus s cpu) \<noteq> 0 \<and> cpu_queue_length (cpus s cpu) < queue_length
      then next_cpu_loop s rest cpu (cpu_queue_length (cpus s cpu))
      else next_cpu_loop s rest rc queue_length)"

definition get_next_cpu :: "sched \<Rightarrow> nat" where
  "get_next_cpu s =
     next_cpu_loop s [1..<SMP_MAX_CPU] SMP_BSP_ID (cpu_queue_length (cpus s SMP_BSP_ID))"

text \<open>
  \<open>me\<close> is the CPU that executes the function, \<open>sched_ipi\<close> the kernel parameter of this
  name. A negative priority passes the test of the arguments.
\<close>

definition sched_enqueue_cpu ::
    "nat \<Rightarrow> bool \<Rightarrow> int \<Rightarrow> int \<Rightarrow> int \<Rightarrow> sched \<Rightarrow> sched_error + sched" where
  "sched_enqueue_cpu me sched_ipi task_id prio cpuid s =
     (if task_id < 0 \<or> task_id \<ge> int PM_MAX_TASK then Inr s
      else if prio > int SCHED_MAX_PRIO then Inr s
      else if cpuid < 0 \<or> cpuid \<ge> int SMP_MAX_CPU then Inr s
      else if cpu_used (cpus s (nat cpuid)) = 0 then Inr s
      else
        (let cpu = nat cpuid; t = nat task_id;
             c = upd_runnable t (\<lambda>_. fresh_runnable \<lparr> priority := prio \<rparr>) (cpus s cpu)
         in case active c of
              None \<Rightarrow> Inl Null_deref
            | Some a \<Rightarrow>
                let higher = (prio > priority (runnables c a));
                    c = (if higher then upd_runnable a (\<lambda>r. r \<lparr> reschedule := 1 \<rparr>) c else c);
                    out = (if higher \<and> cpu \<noteq> me \<and> sched_ipi then [cpu] else [])
                in if prio < 0 then Inl Out_of_bounds
                   else Inr (upd_cpu cpu
                          (\<lambda>_. (queue_add_end (nat prio) t c)
                                 \<lparr> cpu_queue_length := cpu_queue_length c + 1 \<rparr>)
                          (s \<lparr> ipis := ipis s @ out \<rparr>))))"

definition sched_enqueue ::
    "nat \<Rightarrow> bool \<Rightarrow> int \<Rightarrow> int \<Rightarrow> sched \<Rightarrow> sched_error + sched" where
  "sched_enqueue me sched_ipi task_id prio s =
     sched_enqueue_cpu me sched_ipi task_id prio (int (get_next_cpu s)) s"

definition sched_dequeue :: "bool \<Rightarrow> nat \<Rightarrow> sched \<Rightarrow> sched_error + sched" where
  "sched_dequeue irq_enabled me s =
     (if irq_enabled then Inl Panic
      else case active (cpus s me) of
        None \<Rightarrow> Inl Panic
      | Some a \<Rightarrow>
          if idle_task (cpus s me) = of_nat a then Inr s
          else Inr (upd_cpu me
                 (\<lambda>c. (upd_runnable a (\<lambda>r. r \<lparr> valid := 0 \<rparr>) c) \<lparr> active := None \<rparr>) s))"

definition sched_yield :: "nat \<Rightarrow> sched \<Rightarrow> sched" where
  "sched_yield me s =
     (case active (cpus s me) of
        None \<Rightarrow> s
      | Some a \<Rightarrow> upd_cpu me (upd_runnable a (\<lambda>r. r \<lparr> reschedule := 1 \<rparr>)) s)"

definition sched_get_queue_length :: "int \<Rightarrow> sched \<Rightarrow> int" where
  "sched_get_queue_length cpuid s =
     (if cpuid < 0 \<or> cpuid \<ge> int SMP_MAX_CPU then 0
      else if cpu_used (cpus s (nat cpuid)) = 0 then 0
      else sint (cpu_queue_length (cpus s (nat cpuid))))"

definition sched_get_load :: "int \<Rightarrow> sched \<Rightarrow> int" where
  "sched_get_load cpuid s =
     (if cpuid < 0 \<or> cpuid \<ge> int SMP_MAX_CPU then 0
      else if cpu_used (cpus s (nat cpuid)) = 1 then load (cpus s (nat cpuid)) else 0)"

subsection \<open>Scheduling\<close>

text \<open>
  The search for the highest queue that is not empty, downwards from \<open>n - 1\<close>; -1 is the
  value of the loop variable when all queues are empty.
\<close>

primrec top_queue :: "(nat \<Rightarrow> list_ends) \<Rightarrow> nat \<Rightarrow> int" where
  "top_queue q 0 = -1"
| "top_queue q (Suc n) = (if fst (q n) \<noteq> None then int n else top_queue q n)"

text \<open>
  \<^verbatim>\<open>queue[cpuid][i].head\<close>. The row of a CPU has \<open>SCHED_MAX_PRIO + 2\<close> entries, so that the
  index -1 of a CPU is the last entry of the CPU before it; CPU 0 has none before it.
\<close>

definition queue_head :: "sched \<Rightarrow> nat \<Rightarrow> int \<Rightarrow> sched_error + node option" where
  "queue_head s cpu i =
     (if i \<ge> 0 then Inr (fst (queue (cpus s cpu) (nat i)))
      else if cpu > 0 then Inr (fst (queue (cpus s (cpu - 1)) (SCHED_MAX_PRIO + 1)))
      else Inl Out_of_bounds)"

text \<open>The active runnable goes back to the queue of its priority.\<close>

definition requeue_active :: "nat \<Rightarrow> cpu_sched \<Rightarrow> cpu_sched" where
  "requeue_active a c =
     (let c = (if quantum (runnables c a) = 0 \<and> priority (runnables c a) > 0
               then upd_runnable a (\<lambda>r. r \<lparr> priority := priority r - 1 \<rparr>) c else c);
          c = queue_add_end (nat (priority (runnables c a))) a c;
          c = c \<lparr> cpu_queue_length := cpu_queue_length c + 1 \<rparr>
      in if quantum (runnables c a) = 0
         then upd_runnable a (\<lambda>r. r \<lparr> quantum := SCHED_INIT_QUANTUM \<rparr>) c else c)"

text \<open>The runnable at the head of the queue \<open>i\<close> becomes the active one.\<close>

definition take_front :: "nat \<Rightarrow> cpu_sched \<Rightarrow> (nat \<times> cpu_sched) option" where
  "take_front i c =
     (case fst (queue c i) of
        None \<Rightarrow> None
      | Some t \<Rightarrow>
          (case LIST_REMOVE_FRONT (queue c i) (runnable_links c) of
             None \<Rightarrow> None
           | Some (ends, l) \<Rightarrow>
               Some (t, upd_runnable t (\<lambda>r. r \<lparr> reschedule := 0 \<rparr>)
                 (c \<lparr> active := Some t, queue := (queue c)(i := ends), runnable_links := l,
                      cpu_queue_length := cpu_queue_length c - 1 \<rparr>))))"

text \<open>The second half of the function, after the active runnable has been put back.\<close>

definition pick_next :: "nat \<Rightarrow> sched \<Rightarrow> sched_error + (int \<times> sched)" where
  "pick_next me s =
     (let i = top_queue (queue (cpus s me)) (SCHED_MAX_PRIO + 1)
      in case queue_head s me i of
           Inl e \<Rightarrow> Inl e
         | Inr None \<Rightarrow> if cpu_used (cpus s me) = 1 then Inl Panic else Inr (-1, s)
         | Inr (Some _) \<Rightarrow>
             if i < 0 then Inl Out_of_bounds
             else case take_front (nat i) (cpus s me) of
               None \<Rightarrow> Inl Null_deref
             | Some (t, c) \<Rightarrow> Inr (int t, upd_cpu me (\<lambda>_. c) s))"

definition sched_schedule :: "bool \<Rightarrow> nat \<Rightarrow> sched \<Rightarrow> sched_error + (int \<times> sched)" where
  "sched_schedule irq_enabled me s =
     (if irq_enabled then Inl Panic
      else case active (cpus s me) of
        None \<Rightarrow> pick_next me s
      | Some a \<Rightarrow>
          if reschedule (runnables (cpus s me) a) = 0 then Inr (int a, s)
          else if priority (runnables (cpus s me) a) < 0 then Inl Out_of_bounds
          else pick_next me (upd_cpu me (requeue_active a) s))"

text \<open>The statistics are brought up to date every \<open>HZ\<close> ticks.\<close>

definition update_load :: "cpu_sched \<Rightarrow> cpu_sched" where
  "update_load c =
     (if (idle c + busy c) mod HZ = 0 then
        let busy_ticks = busy c - busy_last c;
            idle_ticks = idle c - idle_last c
        in c \<lparr> load := (if busy_ticks + idle_ticks \<noteq> 0
                         then sint (busy_ticks * 100 div (busy_ticks + idle_ticks)) else 0),
               busy_last := busy c, idle_last := idle c \<rparr>
      else c)"

definition tick_active :: "nat \<Rightarrow> cpu_sched \<Rightarrow> cpu_sched" where
  "tick_active a c =
     (let c = (if quantum (runnables c a) \<noteq> 0
               then upd_runnable a (\<lambda>r.
                      let r = r \<lparr> quantum := quantum r - 1 \<rparr>
                      in if quantum r = 0 then r \<lparr> reschedule := 1 \<rparr> else r) c
               else c)
      in if of_nat a = idle_task c then c \<lparr> idle := idle c + 1 \<rparr>
         else c \<lparr> busy := busy c + 1 \<rparr>)"

definition sched_do_tick :: "bool \<Rightarrow> nat \<Rightarrow> sched \<Rightarrow> sched_error + sched" where
  "sched_do_tick irq_enabled me s =
     (if irq_enabled then Inl Panic
      else Inr (upd_cpu me
        (\<lambda>c. update_load (case active c of
               Some a \<Rightarrow> tick_active a c
             | None \<Rightarrow> c \<lparr> idle := idle c + 1 \<rparr>)) s))"

subsection \<open>The ready queues as lists\<close>

text \<open>
  \<open>ready c i\<close> is the queue of priority \<open>i\<close>, read off the links as \<^verbatim>\<open>LIST_FOREACH\<close>
  does. \<open>queues_ok\<close> says that the links of a CPU represent the queues \<open>qs\<close>, no runnable
  being in two of them.
\<close>

definition ready :: "cpu_sched \<Rightarrow> nat \<Rightarrow> nat list" where
  "ready c i =
     (if i \<le> SCHED_MAX_PRIO then
        (case LIST_FOREACH (runnable_links c) (fst (queue c i)) of Some xs \<Rightarrow> xs | None \<Rightarrow> [])
      else [])"

definition queues_ok :: "cpu_sched \<Rightarrow> (nat \<Rightarrow> nat list) \<Rightarrow> bool" where
  "queues_ok c qs \<longleftrightarrow>
     (\<forall>i \<le> SCHED_MAX_PRIO. linked (runnable_links c) (queue c i) (qs i)) \<and>
     (\<forall>i > SCHED_MAX_PRIO. qs i = []) \<and>
     (\<forall>i j. i \<noteq> j \<longrightarrow> set (qs i) \<inter> set (qs j) = {})"

definition members :: "(nat \<Rightarrow> nat list) \<Rightarrow> nat set" where
  "members qs = (\<Union>i. set (qs i))"

definition waiting :: "(nat \<Rightarrow> nat list) \<Rightarrow> nat" where
  "waiting qs = (\<Sum>i \<le> SCHED_MAX_PRIO. length (qs i))"

lemma queues_ok_ready: "queues_ok c qs \<Longrightarrow> ready c = qs"
  by (rule ext) (auto simp: queues_ok_def ready_def linked_def foreach_linked [of _ None])

lemma queues_ok_cong:
  "queues_ok c qs \<Longrightarrow> runnable_links c' = runnable_links c \<Longrightarrow> queue c' = queue c \<Longrightarrow>
   queues_ok c' qs"
  by (simp add: queues_ok_def)

lemma members_upd:
  assumes "\<And>i j. i \<noteq> j \<Longrightarrow> set (qs i) \<inter> set (qs j) = {}"
  shows "members (qs(i := xs)) = members qs - set (qs i) \<union> set xs"
proof -
  have "members qs - set (qs i) = (\<Union>j \<in> - {i}. set (qs j))"
    using assms by (auto simp: members_def)
  moreover have "members (qs(i := xs)) = (\<Union>j \<in> - {i}. set (qs j)) \<union> set xs"
    by (auto simp: members_def split: if_splits)
  ultimately show ?thesis by simp
qed

lemma members_append: "members (qs(i := qs i @ [t])) = insert t (members qs)"
  by (auto simp: members_def split: if_splits)

lemma waiting_upd:
  assumes "i \<le> SCHED_MAX_PRIO"
  shows "waiting (qs(i := xs)) + length (qs i) = waiting qs + length xs"
proof -
  have i: "i \<in> {..SCHED_MAX_PRIO}" using assms by simp
  have "(\<Sum>j \<in> {..SCHED_MAX_PRIO} - {i}. length ((qs(i := xs)) j))
        = (\<Sum>j \<in> {..SCHED_MAX_PRIO} - {i}. length (qs j))"
    by (rule sum.cong) auto
  then show ?thesis
    using sum.remove [OF finite_atMost i, of "\<lambda>j. length (qs j)"]
      sum.remove [OF finite_atMost i, of "\<lambda>j. length ((qs(i := xs)) j)"]
    by (simp add: waiting_def)
qed

lemma queue_add_end_fields [simp]:
  "runnables (queue_add_end p t c) = runnables c" "active (queue_add_end p t c) = active c"
  "cpu_used (queue_add_end p t c) = cpu_used c" "idle_task (queue_add_end p t c) = idle_task c"
  "cpu_queue_length (queue_add_end p t c) = cpu_queue_length c"
  "idle (queue_add_end p t c) = idle c" "busy (queue_add_end p t c) = busy c"
  "idle_last (queue_add_end p t c) = idle_last c" "busy_last (queue_add_end p t c) = busy_last c"
  "load (queue_add_end p t c) = load c"
  "i \<noteq> p \<Longrightarrow> queue (queue_add_end p t c) i = queue c i"
  by (simp_all add: queue_add_end_def split: prod.splits)

text \<open>Adding at the end of a queue appends to one list and keeps the others.\<close>

lemma queue_add_end_ok:
  assumes ok: "queues_ok c qs" and p: "p \<le> SCHED_MAX_PRIO" and new: "t \<notin> members qs"
  shows "queues_ok (queue_add_end p t c) (qs(p := qs p @ [t]))"
proof -
  have lp: "linked (runnable_links c) (queue c p) (qs p)" using ok p by (simp add: queues_ok_def)
  moreover have "t \<notin> set (qs p)" using new by (auto simp: members_def)
  ultimately obtain ends l where add: "LIST_ADD_END (queue c p) t (runnable_links c) = (ends, l)"
    and linked: "linked l ends (qs p @ [t])" and frame: "frame (insert t (set (qs p))) (runnable_links c) l"
    using add_end_linked by blast
  have "linked l (queue c i) (qs i)" if "i \<le> SCHED_MAX_PRIO" "i \<noteq> p" for i
  proof (rule linked_frame [OF _ frame])
    show "linked (runnable_links c) (queue c i) (qs i)" using ok that by (simp add: queues_ok_def)
    have "set (qs i) \<inter> set (qs p) = {}" using ok that by (simp add: queues_ok_def)
    then show "set (qs i) \<inter> insert t (set (qs p)) = {}" using new by (auto simp: members_def)
  qed
  moreover have "set (qs i) \<inter> insert t (set (qs p)) = {}" if "i \<noteq> p" for i
  proof -
    have "set (qs i) \<inter> set (qs p) = {}" using ok that by (simp add: queues_ok_def)
    then show ?thesis using new by (auto simp: members_def)
  qed
  ultimately show ?thesis
    using ok p linked by (simp add: queues_ok_def queue_add_end_def add Int_commute)
qed

text \<open>Taking the front of a queue that is not empty.\<close>

lemma take_front_ok:
  assumes ok: "queues_ok c qs" and i: "i \<le> SCHED_MAX_PRIO" and q: "qs i = t # ts"
  obtains ends l where "take_front i c = Some (t, upd_runnable t (\<lambda>r. r \<lparr> reschedule := 0 \<rparr>)
      (c \<lparr> active := Some t, queue := (queue c)(i := ends), runnable_links := l,
           cpu_queue_length := cpu_queue_length c - 1 \<rparr>))"
    "queues_ok (c \<lparr> active := Some t, queue := (queue c)(i := ends), runnable_links := l,
           cpu_queue_length := cpu_queue_length c - 1 \<rparr>) (qs(i := ts))"
proof -
  have li: "linked (runnable_links c) (queue c i) (t # ts)" using ok i q by (auto simp: queues_ok_def)
  then obtain ends l where rem: "LIST_REMOVE_FRONT (queue c i) (runnable_links c) = Some (ends, l)"
    and linked: "linked l ends ts" and frame: "frame (set ts) (runnable_links c) l"
    using remove_front_linked by blast
  have "fst (queue c i) = Some t" using li by (simp add: linked_def)
  then have tf: "take_front i c = Some (t, upd_runnable t (\<lambda>r. r \<lparr> reschedule := 0 \<rparr>)
      (c \<lparr> active := Some t, queue := (queue c)(i := ends), runnable_links := l,
           cpu_queue_length := cpu_queue_length c - 1 \<rparr>))"
    by (simp add: take_front_def rem)
  have disj: "set (qs j) \<inter> set ts = {}" if "j \<noteq> i" for j
  proof -
    have "set (qs j) \<inter> set (qs i) = {}" using ok that by (simp add: queues_ok_def)
    then show ?thesis by (auto simp: q)
  qed
  have "linked l (queue c j) (qs j)" if "j \<le> SCHED_MAX_PRIO" "j \<noteq> i" for j
    using ok that disj [OF that(2)] by (intro linked_frame [OF _ frame]) (auto simp: queues_ok_def)
  then have "queues_ok (c \<lparr> active := Some t, queue := (queue c)(i := ends), runnable_links := l,
           cpu_queue_length := cpu_queue_length c - 1 \<rparr>) (qs(i := ts))"
    using ok i linked disj by (simp add: queues_ok_def Int_commute)
  with tf show thesis by (rule that)
qed

text \<open>The search finds the highest queue that is not empty.\<close>

lemma top_queue_found:
  assumes "\<And>i. i < n \<Longrightarrow> fst (q i) = None \<longleftrightarrow> qs i = []" and "\<exists>i < n. qs i \<noteq> []"
  shows "\<exists>i < n. top_queue q n = int i \<and> qs i \<noteq> [] \<and> (\<forall>j. i < j \<and> j < n \<longrightarrow> qs j = [])"
  using assms
proof (induction n)
  case 0
  then show ?case by simp
next
  case (Suc n)
  show ?case
  proof (cases "qs n = []")
    case True
    with Suc.prems(2) have "\<exists>i < n. qs i \<noteq> []" using less_Suc_eq by auto
    with Suc.IH Suc.prems(1) obtain i where i: "i < n" "top_queue q n = int i" "qs i \<noteq> []"
      "\<forall>j. i < j \<and> j < n \<longrightarrow> qs j = []" by auto
    then show ?thesis using True Suc.prems(1) [of n]
      by (intro exI [of _ i]) (auto simp: less_Suc_eq)
  next
    case False
    then show ?thesis using Suc.prems(1) [of n] by (intro exI [of _ n]) auto
  qed
qed

lemma queue_head_empty:
  "queues_ok c qs \<Longrightarrow> i < Suc SCHED_MAX_PRIO \<Longrightarrow> fst (queue c i) = None \<longleftrightarrow> qs i = []"
  by (cases "qs i") (auto simp: queues_ok_def linked_def)

subsection \<open>Invariant of a CPU\<close>

text \<open>The runnables of a CPU: the active one and the ones in its queues.\<close>

definition tasks :: "cpu_sched \<Rightarrow> nat set" where
  "tasks c = set_option (active c) \<union> members (ready c)"

definition queued_ok :: "cpu_sched \<Rightarrow> (nat \<Rightarrow> nat list) \<Rightarrow> bool" where
  "queued_ok c qs \<longleftrightarrow>
     (\<forall>i. \<forall>t \<in> set (qs i). t < PM_MAX_TASK \<and> priority (runnables c t) = int i \<and>
        valid (runnables c t) = 1 \<and> quantum (runnables c t) \<noteq> 0)"

definition active_ok :: "cpu_sched \<Rightarrow> (nat \<Rightarrow> nat list) \<Rightarrow> bool" where
  "active_ok c qs \<longleftrightarrow>
     (\<forall>a. active c = Some a \<longrightarrow>
        a < PM_MAX_TASK \<and> valid (runnables c a) = 1 \<and>
        0 \<le> priority (runnables c a) \<and> priority (runnables c a) \<le> int SCHED_MAX_PRIO \<and>
        (quantum (runnables c a) = 0 \<longrightarrow> reschedule (runnables c a) \<noteq> 0) \<and> a \<notin> members qs)"

text \<open>
  The queues are lists, hold valid runnables of their priority that have time left, and their
  total length is what the module counts; the active runnable is in no queue; the idle task of
  a CPU in use is among its runnables; and the entry after the last priority stays empty.
\<close>

definition cpu_ok :: "cpu_sched \<Rightarrow> bool" where
  "cpu_ok c \<longleftrightarrow>
     queues_ok c (ready c) \<and> queued_ok c (ready c) \<and> active_ok c (ready c) \<and>
     cpu_queue_length c = of_nat (waiting (ready c)) \<and>
     (cpu_used c = 0 \<or> cpu_used c = 1 \<and> unat (idle_task c) \<in> tasks c) \<and>
     fst (queue c (SCHED_MAX_PRIO + 1)) = None"

lemma cpu_okI:
  assumes "queues_ok c qs" "queued_ok c qs" "active_ok c qs"
    "cpu_queue_length c = of_nat (waiting qs)"
    "cpu_used c = 0 \<or> cpu_used c = 1 \<and> unat (idle_task c) \<in> set_option (active c) \<union> members qs"
    "fst (queue c (SCHED_MAX_PRIO + 1)) = None"
  shows "cpu_ok c"
  using assms queues_ok_ready [OF assms(1)] by (simp add: cpu_ok_def tasks_def)

lemma upd_runnable_fields [simp]:
  "runnable_links (upd_runnable t f c) = runnable_links c" "queue (upd_runnable t f c) = queue c"
  "active (upd_runnable t f c) = active c" "cpu_used (upd_runnable t f c) = cpu_used c"
  "cpu_queue_length (upd_runnable t f c) = cpu_queue_length c"
  "idle_task (upd_runnable t f c) = idle_task c" "idle (upd_runnable t f c) = idle c"
  "busy (upd_runnable t f c) = busy c" "idle_last (upd_runnable t f c) = idle_last c"
  "busy_last (upd_runnable t f c) = busy_last c" "load (upd_runnable t f c) = load c"
  "runnables (upd_runnable t f c) = (runnables c)(t := f (runnables c t))"
  by (simp_all add: upd_runnable_def)

lemma queue_add_end_upd [simp]:
  "queue_add_end p t (upd_runnable u f c) = upd_runnable u f (queue_add_end p t c)"
  by (simp add: queue_add_end_def upd_runnable_def split: prod.splits)

lemma queued_ok_cong:
  "queued_ok c qs \<Longrightarrow> (\<And>t. t \<in> members qs \<Longrightarrow> runnables c' t = runnables c t) \<Longrightarrow> queued_ok c' qs"
  unfolding queued_ok_def members_def by (metis UNIV_I UN_I)

lemma queued_ok_append:
  assumes "queued_ok c qs" and "\<And>u. u \<in> members qs \<Longrightarrow> runnables c' u = runnables c u"
    and "t < PM_MAX_TASK" "priority (runnables c' t) = int p" "valid (runnables c' t) = 1"
      "quantum (runnables c' t) \<noteq> 0"
  shows "queued_ok c' (qs(p := qs p @ [t]))"
  using queued_ok_cong [OF assms(1,2)] assms(3-) by (auto simp: queued_ok_def)

lemma queued_ok_upd:
  "queued_ok c qs \<Longrightarrow> set xs \<subseteq> set (qs i) \<Longrightarrow> queued_ok c (qs(i := xs))"
  by (auto simp: queued_ok_def)

lemma waiting_append [simp]:
  "p \<le> SCHED_MAX_PRIO \<Longrightarrow> waiting (qs(p := qs p @ [t])) = Suc (waiting qs)"
  using waiting_upd [of p qs "qs p @ [t]"] by simp

lemma waiting_tail:
  "i \<le> SCHED_MAX_PRIO \<Longrightarrow> qs i = t # ts \<Longrightarrow> waiting qs = Suc (waiting (qs(i := ts)))"
  using waiting_upd [of i qs ts] by simp

text \<open>Adding a runnable: the new state of the CPU in \<^verbatim>\<open>sched_enqueue_cpu\<close>.\<close>

definition enqueued :: "nat \<Rightarrow> int \<Rightarrow> nat \<Rightarrow> cpu_sched \<Rightarrow> cpu_sched" where
  "enqueued t prio a c =
     (let c = upd_runnable t (\<lambda>_. fresh_runnable \<lparr> priority := prio \<rparr>) c;
          c = (if prio > priority (runnables c a)
               then upd_runnable a (\<lambda>r. r \<lparr> reschedule := 1 \<rparr>) c else c)
      in (queue_add_end (nat prio) t c) \<lparr> cpu_queue_length := cpu_queue_length c + 1 \<rparr>)"

lemma enqueued_ready:
  assumes ok: "cpu_ok c" and t: "t \<notin> tasks c" and p: "p \<le> SCHED_MAX_PRIO"
  shows "queues_ok (enqueued t (int p) a c) ((ready c)(p := ready c p @ [t]))"
proof -
  have "queues_ok c (ready c)" "t \<notin> members (ready c)" using ok t by (auto simp: cpu_ok_def tasks_def)
  from queue_add_end_ok [OF this(1) p this(2)] show ?thesis
    by (rule queues_ok_cong) (simp_all add: enqueued_def Let_def)
qed

lemma enqueued_ok:
  assumes ok: "cpu_ok c" and t: "t \<notin> tasks c" "t < PM_MAX_TASK" and p: "p \<le> SCHED_MAX_PRIO"
    and a: "active c = Some a"
  shows "cpu_ok (enqueued t (int p) a c)"
proof (rule cpu_okI [OF enqueued_ready [OF ok t(1) p]])
  let ?c = "enqueued t (int p) a c"
  have ta: "t \<noteq> a" using t a by (auto simp: tasks_def)
  have old: "runnables ?c u = runnables c u" if "u \<in> members (ready c)" for u
    using that ok t a by (auto simp: enqueued_def Let_def cpu_ok_def active_ok_def tasks_def)
  have new: "runnables ?c t = fresh_runnable \<lparr> priority := int p \<rparr>"
    using ta by (auto simp: enqueued_def Let_def)
  show "queued_ok ?c ((ready c)(p := ready c p @ [t]))"
    using ok t(2) by (intro queued_ok_append [of c] old)
      (auto simp: cpu_ok_def new fresh_runnable_def)
  show "active_ok ?c ((ready c)(p := ready c p @ [t]))"
    using ok a ta by (auto simp: active_ok_def cpu_ok_def members_append enqueued_def Let_def)
  show "cpu_queue_length ?c = of_nat (waiting ((ready c)(p := ready c p @ [t])))"
    using ok p by (simp add: cpu_ok_def enqueued_def Let_def)
  show "cpu_used ?c = 0 \<or> cpu_used ?c = 1 \<and>
      unat (idle_task ?c) \<in> set_option (active ?c) \<union> members ((ready c)(p := ready c p @ [t]))"
    using ok by (auto simp: cpu_ok_def tasks_def members_append enqueued_def Let_def)
  show "fst (queue ?c (SCHED_MAX_PRIO + 1)) = None"
    using ok p by (simp add: cpu_ok_def enqueued_def Let_def)
qed

text \<open>Putting the active runnable back into the queue of its priority, lowered by one when its
  time is used up.\<close>

definition new_priority :: "runnable \<Rightarrow> nat" where
  "new_priority r = nat (if quantum r = 0 \<and> priority r > 0 then priority r - 1 else priority r)"

lemma requeue_active_ok:
  assumes ok: "cpu_ok c" and a: "active c = Some a"
  defines "p \<equiv> new_priority (runnables c a)"
  defines "qs \<equiv> (ready c)(p := ready c p @ [a])"
  defines "c' \<equiv> requeue_active a c"
  shows "queues_ok c' qs" "queued_ok c' qs" "cpu_queue_length c' = of_nat (waiting qs)"
    "fst (queue c' (SCHED_MAX_PRIO + 1)) = None" "cpu_used c' = cpu_used c"
    "idle_task c' = idle_task c" "members qs = tasks c"
    "\<And>u. u \<noteq> a \<Longrightarrow> runnables c' u = runnables c u" "active c' = active c"
proof -
  let ?r = "runnables c a"
  have act: "a < PM_MAX_TASK" "valid ?r = 1" "0 \<le> priority ?r" "priority ?r \<le> int SCHED_MAX_PRIO"
    "a \<notin> members (ready c)" using ok a by (auto simp: cpu_ok_def active_ok_def)
  have p: "p \<le> SCHED_MAX_PRIO" using act by (auto simp: p_def new_priority_def)
  have prio: "nat (priority (if quantum ?r = 0 \<and> priority ?r > 0
      then ?r \<lparr> priority := priority ?r - 1 \<rparr> else ?r)) = p"
    by (simp add: p_def new_priority_def)
  have run: "runnables c' a = ?r \<lparr> priority := int p,
      quantum := (if quantum ?r = 0 then SCHED_INIT_QUANTUM else quantum ?r) \<rparr>"
    and links: "runnable_links c' = runnable_links (queue_add_end p a c)"
    "queue c' = queue (queue_add_end p a c)"
    using act(3) by (auto simp: c'_def requeue_active_def Let_def p_def new_priority_def)
  show oth: "\<And>u. u \<noteq> a \<Longrightarrow> runnables c' u = runnables c u"
    "cpu_used c' = cpu_used c" "idle_task c' = idle_task c" "active c' = active c"
    by (auto simp: c'_def requeue_active_def Let_def)
  show "queues_ok c' qs" unfolding qs_def
    using queue_add_end_ok [OF _ p act(5), of c] ok links
    by (auto simp: cpu_ok_def elim!: queues_ok_cong)
  show "queued_ok c' qs" unfolding qs_def
    using ok act by (intro queued_ok_append [of c] oth(1)) (auto simp: cpu_ok_def run)
  have "cpu_queue_length c' = cpu_queue_length c + 1"
    by (simp add: c'_def requeue_active_def Let_def)
  then show "cpu_queue_length c' = of_nat (waiting qs)"
    using ok p by (simp add: cpu_ok_def qs_def)
  show "fst (queue c' (SCHED_MAX_PRIO + 1)) = None"
    using ok p links(2) by (simp add: cpu_ok_def)
  show "members qs = tasks c" using a by (simp add: qs_def members_append tasks_def)
qed

text \<open>Picking the next runnable: the oldest one of the highest priority.\<close>

definition picked :: "(nat \<Rightarrow> nat list) \<Rightarrow> nat \<Rightarrow> nat \<Rightarrow> nat list \<Rightarrow> bool" where
  "picked qs i t ts \<longleftrightarrow> i \<le> SCHED_MAX_PRIO \<and> qs i = t # ts \<and> (\<forall>j > i. qs j = [])"

lemma picked_exists:
  assumes ok: "queues_ok c qs" and some: "members qs \<noteq> {}"
  shows "\<exists>i t ts. picked qs i t ts \<and> top_queue (queue c) (SCHED_MAX_PRIO + 1) = int i"
proof -
  have empty: "\<forall>i > SCHED_MAX_PRIO. qs i = []" using ok by (simp add: queues_ok_def)
  from some obtain k where "qs k \<noteq> []" by (auto simp: members_def)
  with empty have "\<exists>i < Suc SCHED_MAX_PRIO. qs i \<noteq> []" by (metis not_less_eq)
  then obtain i where i: "i < Suc SCHED_MAX_PRIO" "top_queue (queue c) (Suc SCHED_MAX_PRIO) = int i"
    "qs i \<noteq> []" "\<forall>j. i < j \<and> j < Suc SCHED_MAX_PRIO \<longrightarrow> qs j = []"
    using top_queue_found [of "Suc SCHED_MAX_PRIO" "queue c" qs] queue_head_empty [OF ok] by blast
  obtain t ts where "qs i = t # ts" using i(3) by (cases "qs i") auto
  moreover have "\<forall>j > i. qs j = []" using i(4) empty by (metis not_less_eq)
  ultimately show ?thesis using i(1,2) by (auto simp: picked_def)
qed

lemma picked_tail:
  assumes "queues_ok c qs" and "picked qs i t ts"
  shows "t \<notin> members (qs(i := ts))" "members qs = insert t (members (qs(i := ts)))"
proof -
  have q: "qs i = t # ts" "i \<le> SCHED_MAX_PRIO" using assms(2) by (auto simp: picked_def)
  have upd: "members (qs(i := ts)) = members qs - set (qs i) \<union> set ts"
    using assms(1) by (intro members_upd) (simp add: queues_ok_def)
  have "linked (runnable_links c) (queue c i) (qs i)" using assms(1) q(2) by (simp add: queues_ok_def)
  then have "distinct (t # ts)" by (simp add: q(1) linked_def)
  moreover have "set (qs i) \<subseteq> members qs" by (auto simp: members_def)
  ultimately show "t \<notin> members (qs(i := ts))" "members qs = insert t (members (qs(i := ts)))"
    unfolding upd by (auto simp: q(1))
qed

lemma pick_next_ok:
  assumes ok: "queues_ok (cpus s me) qs" "queued_ok (cpus s me) qs"
      "cpu_queue_length (cpus s me) = of_nat (waiting qs)"
      "fst (queue (cpus s me) (SCHED_MAX_PRIO + 1)) = None"
    and idle: "cpu_used (cpus s me) = 0 \<or>
      cpu_used (cpus s me) = 1 \<and> unat (idle_task (cpus s me)) \<in> members qs"
    and some: "members qs \<noteq> {}"
  shows "\<exists>i t ts c. picked qs i t ts \<and> pick_next me s = Inr (int t, upd_cpu me (\<lambda>_. c) s) \<and>
           cpu_ok c \<and> ready c = qs(i := ts) \<and> active c = Some t \<and> tasks c = members qs \<and>
           cpu_used c = cpu_used (cpus s me) \<and> priority (runnables c t) = int i"
proof -
  let ?c = "cpus s me"
  obtain i t ts where pick: "picked qs i t ts"
    and top: "top_queue (queue ?c) (SCHED_MAX_PRIO + 1) = int i"
    using picked_exists [OF ok(1) some] by blast
  then have i: "i \<le> SCHED_MAX_PRIO" and q: "qs i = t # ts" by (auto simp: picked_def)
  obtain ends l where tf: "take_front i ?c = Some (t, upd_runnable t (\<lambda>r. r \<lparr> reschedule := 0 \<rparr>)
      (?c \<lparr> active := Some t, queue := (queue ?c)(i := ends), runnable_links := l,
            cpu_queue_length := cpu_queue_length ?c - 1 \<rparr>))"
    and qok: "queues_ok (?c \<lparr> active := Some t, queue := (queue ?c)(i := ends), runnable_links := l,
            cpu_queue_length := cpu_queue_length ?c - 1 \<rparr>) (qs(i := ts))"
    using take_front_ok [OF ok(1) i q] by blast
  define c where "c = upd_runnable t (\<lambda>r. r \<lparr> reschedule := 0 \<rparr>)
      (?c \<lparr> active := Some t, queue := (queue ?c)(i := ends), runnable_links := l,
            cpu_queue_length := cpu_queue_length ?c - 1 \<rparr>)"
  note tail = picked_tail [OF ok(1) pick]
  have "t \<in> set (qs i)" by (simp add: q)
  then have t: "t < PM_MAX_TASK" "priority (runnables ?c t) = int i" "valid (runnables ?c t) = 1"
    "quantum (runnables ?c t) \<noteq> 0" using ok(2) unfolding queued_ok_def by blast+
  have queues: "queues_ok c (qs(i := ts))" by (rule queues_ok_cong [OF qok]) (simp_all add: c_def)
  have "cpu_ok c"
  proof (rule cpu_okI [OF queues])
    have "queued_ok ?c (qs(i := ts))" by (rule queued_ok_upd [OF ok(2)]) (auto simp: q)
    then show "queued_ok c (qs(i := ts))"
      by (rule queued_ok_cong) (use tail(1) in \<open>auto simp: c_def\<close>)
    show "active_ok c (qs(i := ts))" using t i tail(1) by (auto simp: active_ok_def c_def)
    show "cpu_queue_length c = of_nat (waiting (qs(i := ts)))"
      using ok(3) waiting_tail [of i qs t ts] i q by (simp add: c_def)
    show "cpu_used c = 0 \<or> cpu_used c = 1 \<and>
        unat (idle_task c) \<in> set_option (active c) \<union> members (qs(i := ts))"
      using idle tail(2) by (auto simp: c_def)
    show "fst (queue c (SCHED_MAX_PRIO + 1)) = None" using ok(4) i by (simp add: c_def)
  qed
  moreover have "pick_next me s = Inr (int t, upd_cpu me (\<lambda>_. c) s)"
  proof -
    have "queue_head s me (int i) = Inr (Some t)"
      using ok(1) i q by (simp add: queue_head_def queues_ok_def linked_def)
    then show ?thesis unfolding pick_next_def top Let_def by (simp add: tf c_def)
  qed
  moreover have "ready c = qs(i := ts)" by (rule queues_ok_ready [OF queues])
  moreover have "tasks c = members qs" using tail(2) queues_ok_ready [OF queues]
    by (simp add: tasks_def c_def)
  moreover have "active c = Some t \<and> cpu_used c = cpu_used ?c \<and> priority (runnables c t) = int i"
    using t(2) by (simp add: c_def)
  ultimately show ?thesis using pick by blast
qed

text \<open>The queues after the active runnable, if any, has been put back.\<close>

definition put_back :: "cpu_sched \<Rightarrow> nat \<Rightarrow> nat list" where
  "put_back c =
     (case active c of
        None \<Rightarrow> ready c
      | Some a \<Rightarrow> let p = new_priority (runnables c a) in (ready c)(p := ready c p @ [a]))"

lemma upd_cpu_simps [simp]:
  "cpus (upd_cpu i f s) = (cpus s)(i := f (cpus s i))" "ipis (upd_cpu i f s) = ipis s"
  "upd_cpu i (\<lambda>_. c) (upd_cpu i f s) = upd_cpu i (\<lambda>_. c) s"
  by (simp_all add: upd_cpu_def)

lemma sched_schedule_keep:
  "active (cpus s me) = Some a \<Longrightarrow> reschedule (runnables (cpus s me) a) = 0 \<Longrightarrow>
   sched_schedule False me s = Inr (int a, s)"
  by (simp add: sched_schedule_def)

lemma sched_schedule_switch:
  assumes ok: "cpu_ok (cpus s me)" and used: "cpu_used (cpus s me) \<noteq> 0"
    and switch: "\<And>a. active (cpus s me) = Some a \<Longrightarrow> reschedule (runnables (cpus s me) a) \<noteq> 0"
  shows "\<exists>i t ts c. picked (put_back (cpus s me)) i t ts \<and>
           sched_schedule False me s = Inr (int t, upd_cpu me (\<lambda>_. c) s) \<and>
           cpu_ok c \<and> ready c = (put_back (cpus s me))(i := ts) \<and> active c = Some t \<and>
           tasks c = tasks (cpus s me) \<and> cpu_used c = cpu_used (cpus s me) \<and>
           priority (runnables c t) = int i"
proof (cases "active (cpus s me)")
  case None
  then have "tasks (cpus s me) = members (ready (cpus s me))" by (simp add: tasks_def)
  moreover have "unat (idle_task (cpus s me)) \<in> tasks (cpus s me)"
    using ok used by (simp add: cpu_ok_def)
  ultimately show ?thesis
    using pick_next_ok [of s me "ready (cpus s me)"] ok None
    by (fastforce simp: cpu_ok_def sched_schedule_def put_back_def)
next
  case (Some a)
  let ?c = "cpus s me"
  let ?s = "upd_cpu me (requeue_active a) s"
  note req = requeue_active_ok [OF ok Some]
  have idle: "unat (idle_task ?c) \<in> tasks ?c" "cpu_used ?c = 1" using ok used by (auto simp: cpu_ok_def)
  have qs: "put_back ?c = (ready ?c)(new_priority (runnables ?c a) :=
      ready ?c (new_priority (runnables ?c a)) @ [a])"
    by (simp add: put_back_def Some Let_def)
  have "\<exists>i t ts c. picked (put_back ?c) i t ts \<and>
      pick_next me ?s = Inr (int t, upd_cpu me (\<lambda>_. c) ?s) \<and> cpu_ok c \<and>
      ready c = (put_back ?c)(i := ts) \<and> active c = Some t \<and> tasks c = members (put_back ?c) \<and>
      cpu_used c = cpu_used (cpus ?s me) \<and> priority (runnables c t) = int i"
    using req idle unfolding qs by (intro pick_next_ok) auto
  then obtain i t ts c where "picked (put_back ?c) i t ts"
    "pick_next me ?s = Inr (int t, upd_cpu me (\<lambda>_. c) s)" "cpu_ok c"
    "ready c = (put_back ?c)(i := ts)" "active c = Some t" "tasks c = members (put_back ?c)"
    "cpu_used c = cpu_used ?c" "priority (runnables c t) = int i"
    using req(5) by auto
  moreover have "sched_schedule False me s = pick_next me ?s"
    using Some switch ok by (auto simp: sched_schedule_def cpu_ok_def active_ok_def)
  ultimately show ?thesis using req(7) unfolding qs by metis
qed

lemma cpu_ok_cong:
  assumes "cpu_ok c" and "runnable_links c' = runnable_links c" "queue c' = queue c"
    "active c' = active c" "cpu_used c' = cpu_used c" "idle_task c' = idle_task c"
    "cpu_queue_length c' = cpu_queue_length c"
    "\<And>t. active c \<noteq> Some t \<Longrightarrow> runnables c' t = runnables c t"
    "\<And>a. active c = Some a \<Longrightarrow> valid (runnables c' a) = valid (runnables c a) \<and>
       priority (runnables c' a) = priority (runnables c a) \<and>
       (quantum (runnables c' a) = 0 \<longrightarrow> reschedule (runnables c' a) \<noteq> 0)"
  shows "cpu_ok c' \<and> tasks c' = tasks c \<and> ready c' = ready c"
proof -
  have q: "queues_ok c' (ready c)" using assms(1-3) by (auto simp: cpu_ok_def elim!: queues_ok_cong)
  moreover have "queued_ok c' (ready c)"
    by (rule queued_ok_cong [of c]) (use assms(1,8) in \<open>auto simp: cpu_ok_def active_ok_def\<close>)
  moreover have "active_ok c' (ready c)" using assms(1,4,9) by (auto simp: cpu_ok_def active_ok_def)
  ultimately have "cpu_ok c'" using assms(1-7) by (intro cpu_okI) (auto simp: cpu_ok_def tasks_def)
  then show ?thesis using queues_ok_ready [OF q] assms(4) by (simp add: tasks_def)
qed

lemma dequeued_ok:
  assumes ok: "cpu_ok c" and a: "active c = Some a" and idle: "idle_task c \<noteq> of_nat a"
  defines "c' \<equiv> (upd_runnable a (\<lambda>r. r \<lparr> valid := 0 \<rparr>) c) \<lparr> active := None \<rparr>"
  shows "cpu_ok c' \<and> ready c' = ready c \<and> tasks c' = tasks c - {a}"
proof -
  have a': "a \<notin> members (ready c)" "a < PM_MAX_TASK" using ok a by (auto simp: cpu_ok_def active_ok_def)
  have q: "queues_ok c' (ready c)"
    using ok by (auto simp: cpu_ok_def c'_def elim!: queues_ok_cong)
  moreover have "queued_ok c' (ready c)"
    by (rule queued_ok_cong [of c]) (use ok a' in \<open>auto simp: cpu_ok_def c'_def\<close>)
  moreover have "unat (idle_task c) \<noteq> a" using idle by auto
  ultimately have "cpu_ok c'" using ok a
    by (intro cpu_okI) (auto simp: cpu_ok_def tasks_def c'_def active_ok_def)
  then show ?thesis using queues_ok_ready [OF q] a a' by (auto simp: tasks_def c'_def)
qed

lemma yielded_ok:
  assumes "cpu_ok c" and "active c = Some a"
  defines "c' \<equiv> upd_runnable a (\<lambda>r. r \<lparr> reschedule := 1 \<rparr>) c"
  shows "cpu_ok c' \<and> tasks c' = tasks c \<and> ready c' = ready c"
  by (rule cpu_ok_cong) (use assms in \<open>auto simp: c'_def\<close>)

definition ticked :: "cpu_sched \<Rightarrow> cpu_sched" where
  "ticked c = update_load (case active c of
     Some a \<Rightarrow> tick_active a c | None \<Rightarrow> c \<lparr> idle := idle c + 1 \<rparr>)"

lemma ticked_ok:
  assumes "cpu_ok c"
  shows "cpu_ok (ticked c) \<and> tasks (ticked c) = tasks c \<and> ready (ticked c) = ready c"
proof (rule cpu_ok_cong [OF assms])
  fix a assume "active c = Some a"
  then show "valid (runnables (ticked c) a) = valid (runnables c a) \<and>
      priority (runnables (ticked c) a) = priority (runnables c a) \<and>
      (quantum (runnables (ticked c) a) = 0 \<longrightarrow> reschedule (runnables (ticked c) a) \<noteq> 0)"
    using assms by (auto simp: ticked_def update_load_def tick_active_def Let_def cpu_ok_def active_ok_def)
qed (auto simp: ticked_def update_load_def tick_active_def Let_def split: option.splits)

lemma init_cpu_ok:
  "fst (queue c (SCHED_MAX_PRIO + 1)) = None \<Longrightarrow> cpu_ok (init_cpu c) \<and> tasks (init_cpu c) = {}"
proof -
  assume "fst (queue c (SCHED_MAX_PRIO + 1)) = None"
  moreover have q: "queues_ok (init_cpu c) (\<lambda>_. [])"
    by (simp add: queues_ok_def init_cpu_def linked_empty)
  ultimately have "cpu_ok (init_cpu c)"
    by (intro cpu_okI [OF q]) (simp_all add: queued_ok_def active_ok_def init_cpu_def waiting_def)
  then show ?thesis using queues_ok_ready [OF q] by (simp add: tasks_def members_def init_cpu_def)
qed

text \<open>A CPU that is not in use gets its idle task.\<close>

lemma idle_added_ok:
  assumes ok: "cpu_ok c" and c: "active c = None" "tasks c = {}" and t: "t < PM_MAX_TASK"
  defines "c' \<equiv> upd_runnable t (\<lambda>_. fresh_runnable) c
      \<lparr> cpu_used := 1, active := Some t, idle_task := of_nat t \<rparr>"
  shows "cpu_ok c' \<and> tasks c' = {t}"
proof -
  have none: "members (ready c) = {}" using c by (simp add: tasks_def)
  have q: "queues_ok c' (ready c)" using ok by (auto simp: cpu_ok_def c'_def elim!: queues_ok_cong)
  moreover have "queued_ok c' (ready c)"
    by (rule queued_ok_cong [of c]) (use ok none in \<open>auto simp: cpu_ok_def\<close>)
  moreover have "unat (of_nat t :: u32) = t" using t by (simp add: unat_of_nat)
  ultimately have "cpu_ok c'" using ok none t
    by (intro cpu_okI) (auto simp: cpu_ok_def c'_def active_ok_def fresh_runnable_def)
  then show ?thesis using queues_ok_ready [OF q] none by (simp add: tasks_def c'_def)
qed

subsection \<open>Runs of the scheduler\<close>

text \<open>
  The CPUs call the module in any order. The callers keep to what the process manager
  guarantees: a task is made runnable only while it is runnable on no CPU, with a priority that
  is not negative, and a CPU gets its idle task once, before it is used.
\<close>

definition runnable_nowhere :: "nat \<Rightarrow> sched \<Rightarrow> bool" where
  "runnable_nowhere t s \<longleftrightarrow> (\<forall>i < SMP_MAX_CPU. t \<notin> tasks (cpus s i))"

inductive sched_step :: "sched \<Rightarrow> sched \<Rightarrow> bool" where
  enqueue: "sched_enqueue_cpu me ipi task_id prio cpuid s = Inr s' \<Longrightarrow> 0 \<le> prio \<Longrightarrow>
     runnable_nowhere (nat task_id) s \<Longrightarrow> sched_step s s'"
| dequeue: "sched_dequeue False me s = Inr s' \<Longrightarrow> me < SMP_MAX_CPU \<Longrightarrow> sched_step s s'"
| yield: "me < SMP_MAX_CPU \<Longrightarrow> sched_step s (sched_yield me s)"
| schedule: "sched_schedule False me s = Inr (rc, s') \<Longrightarrow> me < SMP_MAX_CPU \<Longrightarrow>
     cpu_used (cpus s me) \<noteq> 0 \<Longrightarrow> sched_step s s'"
| tick: "sched_do_tick False me s = Inr s' \<Longrightarrow> me < SMP_MAX_CPU \<Longrightarrow> sched_step s s'"
| add_idle: "tasks (cpus s cpu) = {} \<Longrightarrow> active (cpus s cpu) = None \<Longrightarrow> cpu < SMP_MAX_CPU \<Longrightarrow>
     t < PM_MAX_TASK \<Longrightarrow> runnable_nowhere t s \<Longrightarrow>
     sched_step s (sched_add_idle_task (int t) (int cpu) s)"

text \<open>The module starts from static memory, which is zero.\<close>

definition zero_runnable :: runnable where
  "zero_runnable = \<lparr> quantum = 0, priority = 0, reschedule = 0, valid = 0 \<rparr>"

definition zero_cpu :: cpu_sched where
  "zero_cpu = \<lparr> runnables = (\<lambda>_. zero_runnable), runnable_links = no_links,
     queue = (\<lambda>_. (None, None)), active = None, cpu_used = 0, cpu_queue_length = 0,
     idle_task = 0, idle = 0, busy = 0, idle_last = 0, busy_last = 0, load = 0 \<rparr>"

definition zero_sched :: sched where
  "zero_sched = \<lparr> cpus = (\<lambda>_. zero_cpu), ipis = [] \<rparr>"

inductive sched_run :: "sched \<Rightarrow> bool" where
  init: "sched_run (sched_init zero_sched)"
| step: "sched_run s \<Longrightarrow> sched_step s s' \<Longrightarrow> sched_run s'"

definition sched_ok :: "sched \<Rightarrow> bool" where
  "sched_ok s \<longleftrightarrow>
     (\<forall>i < SMP_MAX_CPU. cpu_ok (cpus s i)) \<and>
     (\<forall>i < SMP_MAX_CPU. \<forall>j < SMP_MAX_CPU. i \<noteq> j \<longrightarrow> tasks (cpus s i) \<inter> tasks (cpus s j) = {}) \<and>
     cpu_used (cpus s SMP_BSP_ID) = 1"

lemma sched_ok_upd:
  assumes ok: "sched_ok s" and new: "cpus s' = (cpus s)(i := c)" "i < SMP_MAX_CPU" "cpu_ok c"
    "cpu_used c = 1 \<or> cpu_used c = cpu_used (cpus s i)"
    and t: "tasks c \<subseteq> tasks (cpus s i) \<union> A" "\<And>x. x \<in> A \<Longrightarrow> runnable_nowhere x s"
  shows "sched_ok s'"
proof -
  have disj: "tasks (cpus s i) \<inter> tasks (cpus s j) = {}" if "j < SMP_MAX_CPU" "j \<noteq> i" for j
    using ok new(2) that by (auto simp: sched_ok_def)
  have "tasks c \<inter> tasks (cpus s j) = {}" if j: "j < SMP_MAX_CPU" "j \<noteq> i" for j
  proof -
    have "A \<inter> tasks (cpus s j) = {}" using t(2) j by (auto simp: runnable_nowhere_def)
    then show ?thesis using disj [OF j] t(1) by blast
  qed
  then show ?thesis using ok new by (auto simp: sched_ok_def Int_commute)
qed

lemma enqueue_cases:
  assumes "sched_enqueue_cpu me ipi task_id prio cpuid s = Inr s'" and "0 \<le> prio"
  obtains (refused) "s' = s"
  | (enqueued) cpu t p a where "cpu < SMP_MAX_CPU" "t < PM_MAX_TASK" "p \<le> SCHED_MAX_PRIO"
      "task_id = int t" "prio = int p" "cpuid = int cpu"
      "active (cpus s cpu) = Some a" "cpus s' = (cpus s)(cpu := enqueued t prio a (cpus s cpu))"
proof (cases "task_id < 0 \<or> task_id \<ge> int PM_MAX_TASK \<or> prio > int SCHED_MAX_PRIO \<or>
    cpuid < 0 \<or> cpuid \<ge> int SMP_MAX_CPU \<or> cpu_used (cpus s (nat cpuid)) = 0")
  case True
  then have "s' = s" using assms by (auto simp: sched_enqueue_cpu_def split: if_splits)
  then show thesis by (rule refused)
next
  case False
  with assms obtain a where "active (cpus s (nat cpuid)) = Some a"
    "cpus s' = (cpus s)(nat cpuid := enqueued (nat task_id) prio a (cpus s (nat cpuid)))"
    by (auto simp: sched_enqueue_cpu_def Let_def enqueued_def split: option.splits)
  with False assms(2) show thesis by (intro enqueued [of "nat cpuid" "nat task_id" "nat prio" a]) auto
qed

lemma enqueue_keeps_ok:
  assumes ok: "sched_ok s" and run: "sched_enqueue_cpu me ipi task_id prio cpuid s = Inr s'"
    and "0 \<le> prio" and new: "runnable_nowhere (nat task_id) s"
  shows "sched_ok s'"
  using run assms(3)
proof (cases rule: enqueue_cases)
  case refused
  then show ?thesis using ok by simp
next
  case (enqueued cpu t p a)
  have c: "cpu_ok (cpus s cpu)" using ok enqueued(1) by (simp add: sched_ok_def)
  have t: "t \<notin> tasks (cpus s cpu)"
    using new enqueued(1,4) by (auto simp: runnable_nowhere_def)
  have "cpu_ok (enqueued t prio a (cpus s cpu))"
    using enqueued_ok [OF c t enqueued(2,3,7)] by (simp add: enqueued(5))
  moreover have "tasks (enqueued t prio a (cpus s cpu)) \<subseteq> tasks (cpus s cpu) \<union> {t}"
    using queues_ok_ready [OF enqueued_ready [OF c t enqueued(3)]]
    by (auto simp: tasks_def enqueued(5) members_append enqueued_def Let_def)
  moreover have "cpu_used (enqueued t prio a (cpus s cpu)) = cpu_used (cpus s cpu)"
    by (simp add: enqueued_def Let_def)
  ultimately show ?thesis
    using new enqueued(4) by (intro sched_ok_upd [OF ok enqueued(8,1), where A = "{t}"]) auto
qed

lemma schedule_keeps_ok:
  assumes ok: "sched_ok s" and me: "me < SMP_MAX_CPU" "cpu_used (cpus s me) \<noteq> 0"
    and run: "sched_schedule False me s = Inr (rc, s')"
  shows "sched_ok s'"
proof (cases "\<exists>a. active (cpus s me) = Some a \<and> reschedule (runnables (cpus s me) a) = 0")
  case True
  then show ?thesis using ok run by (auto simp: sched_schedule_keep)
next
  case False
  have "cpu_ok (cpus s me)" using ok me by (simp add: sched_ok_def)
  then obtain t c where "sched_schedule False me s = Inr (int t, upd_cpu me (\<lambda>_. c) s)"
    "cpu_ok c" "tasks c = tasks (cpus s me)" "cpu_used c = cpu_used (cpus s me)"
    using sched_schedule_switch [of s me] False me(2) by blast
  then show ?thesis using run me
    by (intro sched_ok_upd [OF ok, of _ me c "{}"]) auto
qed

lemma sched_ok_same_tasks:
  assumes "sched_ok s" "i < SMP_MAX_CPU" "cpu_ok (f (cpus s i))"
    "cpu_used (f (cpus s i)) = cpu_used (cpus s i)" "tasks (f (cpus s i)) \<subseteq> tasks (cpus s i)"
  shows "sched_ok (upd_cpu i f s)"
  by (rule sched_ok_upd [OF assms(1) _ assms(2,3), where A = "{}"]) (use assms in auto)

lemma dequeue_keeps_ok:
  assumes ok: "sched_ok s" and me: "me < SMP_MAX_CPU" and run: "sched_dequeue False me s = Inr s'"
  shows "sched_ok s'"
proof -
  have c: "cpu_ok (cpus s me)" using ok me by (simp add: sched_ok_def)
  from run obtain a where a: "active (cpus s me) = Some a"
    by (auto simp: sched_dequeue_def split: option.splits)
  show ?thesis
  proof (cases "idle_task (cpus s me) = of_nat a")
    case True
    then show ?thesis using run a ok by (simp add: sched_dequeue_def)
  next
    case False
    with run a have "s' = upd_cpu me
        (\<lambda>c. (upd_runnable a (\<lambda>r. r \<lparr> valid := 0 \<rparr>) c) \<lparr> active := None \<rparr>) s"
      by (simp add: sched_dequeue_def)
    then show ?thesis using dequeued_ok [OF c a False]
      by (simp only:) (rule sched_ok_same_tasks [OF ok me], auto)
  qed
qed

lemma yield_keeps_ok:
  assumes ok: "sched_ok s" and me: "me < SMP_MAX_CPU"
  shows "sched_ok (sched_yield me s)"
proof (cases "active (cpus s me)")
  case None
  then show ?thesis using ok by (simp add: sched_yield_def)
next
  case (Some a)
  have "cpu_ok (cpus s me)" using ok me by (simp add: sched_ok_def)
  from yielded_ok [OF this Some] Some show ?thesis
    by (simp add: sched_yield_def sched_ok_same_tasks [OF ok me])
qed

lemma ticked_stats [simp]: "cpu_used (ticked c) = cpu_used c"
  by (auto simp: ticked_def update_load_def tick_active_def Let_def split: option.splits)

lemma sched_do_tick_ticked: "sched_do_tick False me s = Inr (upd_cpu me ticked s)"
  by (simp add: sched_do_tick_def upd_cpu_def ticked_def)

lemma sched_step_ok: "sched_step s s' \<Longrightarrow> sched_ok s \<Longrightarrow> sched_ok s'"
proof (induction rule: sched_step.induct)
  case (enqueue me ipi task_id prio cpuid s s')
  then show ?case using enqueue_keeps_ok by blast
next
  case (dequeue me s s')
  then show ?case using dequeue_keeps_ok by blast
next
  case (yield me s)
  then show ?case using yield_keeps_ok by blast
next
  case (schedule me s rc s')
  then show ?case using schedule_keeps_ok by blast
next
  case (tick me s s')
  have "cpu_ok (cpus s me)" using tick by (simp add: sched_ok_def)
  from ticked_ok [OF this] show ?case using tick sched_ok_same_tasks [of s me ticked]
    by (simp add: sched_do_tick_ticked)
next
  case (add_idle s cpu t)
  have "cpu_ok (cpus s cpu)" using add_idle by (simp add: sched_ok_def)
  note c = idle_added_ok [OF this add_idle(2,1,4)]
  show ?case
    by (rule sched_ok_upd [OF add_idle(6) _ add_idle(3), where A = "{t}"])
      (use add_idle c in \<open>auto simp: sched_add_idle_task_def\<close>)
qed

lemma sched_run_ok: "sched_run s \<Longrightarrow> sched_ok s"
proof (induction rule: sched_run.induct)
  case init
  let ?c = "init_cpu zero_cpu"
  have c: "cpu_ok ?c \<and> tasks ?c = {}" by (rule init_cpu_ok) (simp add: zero_cpu_def)
  have "cpu_ok (upd_runnable 0 (\<lambda>_. fresh_runnable) ?c
      \<lparr> cpu_used := 1, active := Some 0, idle_task := of_nat 0 \<rparr>)"
    using idle_added_ok [of ?c 0] c by (simp add: init_cpu_def)
  then show ?case using c by (auto simp: sched_ok_def sched_init_def zero_sched_def)
next
  case (step s s')
  then show ?case using sched_step_ok by blast
qed

subsection \<open>Statistics\<close>

text \<open>
  The ticks since the last update are the number of all ticks modulo \<open>HZ\<close>, also when the
  counters wrap: 0 is a multiple of \<open>HZ\<close>, so a wrap brings an update.
\<close>

definition stats_ok :: "cpu_sched \<Rightarrow> bool" where
  "stats_ok c \<longleftrightarrow>
     unat (idle c - idle_last c) + unat (busy c - busy_last c) = unat (idle c + busy c) mod 100 \<and>
     0 \<le> load c \<and> load c \<le> 100"

lemma percentage_bounds:
  fixes b i :: u32
  assumes "unat b + unat i \<le> 100" "b + i \<noteq> 0"
  shows "0 \<le> sint (b * 100 div (b + i)) \<and> sint (b * 100 div (b + i)) \<le> 100"
proof -
  have sum: "unat (b + i) = unat b + unat i" using assms(1) by (intro unat_add_no_wrap) simp
  have "unat (b * 100) = unat b * 100" using assms(1) by (simp add: unat_word_ariths)
  then have d: "unat (b * 100 div (b + i)) = unat b * 100 div (unat b + unat i)"
    by (simp add: unat_div sum)
  have pos: "0 < unat b + unat i" using assms(2) sum by (metis neq0_conv unat_eq_zero)
  have "unat b * 100 div (unat b + unat i) \<le> 100 * (unat b + unat i) div (unat b + unat i)"
    by (intro div_le_mono) simp
  also have "\<dots> = 100" using pos by (intro nonzero_mult_div_cancel_right) simp
  finally have le: "unat (b * 100 div (b + i)) \<le> 100" using d by simp
  then have "sint (b * 100 div (b + i)) = int (unat (b * 100 div (b + i)))"
    by (simp only: sint_u32) simp
  with le show ?thesis by linarith
qed

lemma update_load_ok:
  assumes "unat (idle c - idle_last c) + unat (busy c - busy_last c) \<le> 100"
    and "unat (idle c + busy c) mod 100 \<noteq> 0 \<Longrightarrow>
      unat (idle c - idle_last c) + unat (busy c - busy_last c) = unat (idle c + busy c) mod 100"
    and "0 \<le> load c \<and> load c \<le> 100"
  shows "stats_ok (update_load c)"
proof (cases "(idle c + busy c) mod 100 = 0")
  case True
  then have "unat (idle c + busy c) mod 100 = 0" using unat_mod_u32 [of "idle c + busy c" 100] by simp
  then show ?thesis using True assms(1,3) percentage_bounds [of "busy c - busy_last c" "idle c - idle_last c"]
    by (auto simp: stats_ok_def update_load_def Let_def add.commute)
next
  case False
  then have "unat (idle c + busy c) mod 100 \<noteq> 0"
    using unat_mod_u32 [of "idle c + busy c" 100] unat_eq_zero [of "(idle c + busy c) mod 100"]
    by simp
  then show ?thesis using False assms by (simp add: stats_ok_def update_load_def)
qed

lemma unat_diff_Suc:
  assumes "unat (a - b) < 100"
  shows "unat (a + 1 - b) = Suc (unat (a - b :: u32))"
  using unat_diff_advance [of a b 1] assms by simp

lemma counted_ok:
  assumes ok: "stats_ok c"
    and one: "idle d = idle c + 1 \<and> busy d = busy c \<or> idle d = idle c \<and> busy d = busy c + 1"
    and same: "idle_last d = idle_last c" "busy_last d = busy_last c" "load d = load c"
  shows "stats_ok (update_load d)"
proof -
  let ?i = "unat (idle c - idle_last c)" and ?b = "unat (busy c - busy_last c)"
  have sum: "?i + ?b = unat (idle c + busy c) mod 100" using ok by (simp add: stats_ok_def)
  moreover have "unat (idle c + busy c) mod 100 < 100" by simp
  ultimately have few: "?i < 100" "?b < 100" "?i + ?b < 100" by linarith+
  have cnt: "unat (idle d - idle_last d) + unat (busy d - busy_last d) = Suc (?i + ?b)"
    using one same few unat_diff_Suc by auto
  have "idle d + busy d = idle c + busy c + of_nat 1" using one by auto
  then have tot: "unat (idle d + busy d) = Suc (unat (idle c + busy c)) mod 4294967296"
    by (simp only: unat_add_of_nat) simp
  show ?thesis
  proof (rule update_load_ok)
    show "unat (idle d - idle_last d) + unat (busy d - busy_last d) \<le> 100" using cnt few by simp
    show "0 \<le> load d \<and> load d \<le> 100" using ok same by (simp add: stats_ok_def)
    assume nz: "unat (idle d + busy d) mod 100 \<noteq> 0"
    then have "Suc (unat (idle c + busy c)) < 4294967296"
      using tot unat_u32_less [of "idle c + busy c"] by (metis Suc_lessI mod_0 mod_self)
    then show "unat (idle d - idle_last d) + unat (busy d - busy_last d) = unat (idle d + busy d) mod 100"
      using cnt sum tot nz by (simp add: mod_Suc split: if_splits)
  qed
qed

lemma ticked_stats_ok: "stats_ok c \<Longrightarrow> stats_ok (ticked c)"
  unfolding ticked_def
  by (rule counted_ok [of c]) (auto simp: tick_active_def Let_def split: option.splits)

text \<open>No other operation touches the counters.\<close>

definition same_stats :: "cpu_sched \<Rightarrow> cpu_sched \<Rightarrow> bool" where
  "same_stats c d \<longleftrightarrow> idle d = idle c \<and> busy d = busy c \<and> idle_last d = idle_last c \<and>
     busy_last d = busy_last c \<and> load d = load c"

lemma take_front_stats: "take_front i c = Some (t, d) \<Longrightarrow> same_stats c d"
  by (auto simp: take_front_def same_stats_def split: option.splits)

lemma pick_next_stats:
  "pick_next me s = Inr (rc, s') \<Longrightarrow> same_stats (cpus s i) (cpus s' i)"
  using take_front_stats
  by (fastforce simp: pick_next_def Let_def same_stats_def split: sum.splits option.splits if_splits)

lemma requeue_stats: "same_stats c (requeue_active a c)"
  by (simp add: requeue_active_def Let_def same_stats_def)

lemma schedule_stats:
  assumes "sched_schedule False me s = Inr (rc, s')"
  shows "same_stats (cpus s i) (cpus s' i)"
proof (cases "active (cpus s me)")
  case None
  then show ?thesis using assms pick_next_stats by (simp add: sched_schedule_def)
next
  case (Some a)
  have "same_stats (cpus s i) (cpus (upd_cpu me (requeue_active a) s) i)"
    using requeue_stats by (simp add: same_stats_def)
  moreover have "s' = s \<or> pick_next me (upd_cpu me (requeue_active a) s) = Inr (rc, s')"
    using assms Some by (auto simp: sched_schedule_def split: if_splits)
  ultimately show ?thesis using pick_next_stats unfolding same_stats_def by metis
qed

lemma sched_step_stats:
  "sched_step s s' \<Longrightarrow> (\<And>i. stats_ok (cpus s i)) \<Longrightarrow> stats_ok (cpus s' i)"
proof (induction rule: sched_step.induct)
  case (enqueue me ipi task_id prio cpuid s s')
  from enqueue(1,2) show ?case
    using enqueue(4) by (cases rule: enqueue_cases) (auto simp: stats_ok_def enqueued_def Let_def)
next
  case (dequeue me s s')
  then show ?case by (auto simp: sched_dequeue_def stats_ok_def split: option.splits if_splits)
next
  case (yield me s)
  then show ?case by (auto simp: sched_yield_def stats_ok_def split: option.splits)
next
  case (schedule me s rc s')
  then show ?case using schedule_stats [OF schedule(1), of i] by (simp add: same_stats_def stats_ok_def)
next
  case (tick me s s')
  then show ?case using ticked_stats_ok by (auto simp: sched_do_tick_ticked)
next
  case (add_idle s cpu t)
  then show ?case by (auto simp: sched_add_idle_task_def stats_ok_def)
qed

lemma sched_run_stats: "sched_run s \<Longrightarrow> stats_ok (cpus s i)"
proof (induction arbitrary: i rule: sched_run.induct)
  case init
  then show ?case
    by (simp add: sched_init_def stats_ok_def zero_sched_def zero_cpu_def init_cpu_def)
next
  case (step s s')
  then show ?case using sched_step_stats by blast
qed

end
