(* ===== verification/Sched_Properties.thy ===== *)
theory Sched_Properties
  imports Sched
begin

text \<open>
  The properties of the scheduler: its invariant, the choice of the next runnable, preemption,
  the choice of a CPU, and the bounds of the load.
\<close>

text \<open>All queues of a CPU, one after the other.\<close>

definition all_ready :: "cpu_sched \<Rightarrow> nat list" where
  "all_ready c = concat (map (ready c) [0..<Suc SCHED_MAX_PRIO])"

lemma set_all_ready:
  assumes "cpu_ok c"
  shows "set (all_ready c) = members (ready c)"
proof -
  have "ready c i = []" if "\<not> i < 16" for i
    using assms that by (simp add: cpu_ok_def queues_ok_def)
  then have "x \<in> set (ready c i) \<Longrightarrow> i < 16" for x i by fastforce
  then show ?thesis by (fastforce simp: members_def all_ready_def)
qed

lemma length_concat_upt: "length (concat (map q [0..<Suc n])) = (\<Sum>i \<le> n. length (q i))"
  by (induction n) simp_all

lemma length_all_ready: "length (all_ready c) = waiting (ready c)"
  unfolding all_ready_def waiting_def by (rule length_concat_upt)

lemma distinct_concat_upt:
  assumes "\<And>i. i < n \<Longrightarrow> distinct (q i)"
    and "\<And>i j. i \<noteq> j \<Longrightarrow> set (q i) \<inter> set (q j) = {}"
  shows "distinct (concat (map q [0..<n]))"
  using assms(1)
proof (induction n)
  case (Suc n)
  have "set (q i) \<inter> set (q n) = {}" if "i < n" for i using assms(2) [of i n] that by simp
  then have "(\<Union>i < n. set (q i)) \<inter> set (q n) = {}" by blast
  then show ?case using Suc by (simp add: less_Suc_eq atLeast0LessThan)
qed simp

lemma distinct_all_ready: "cpu_ok c \<Longrightarrow> distinct (all_ready c)"
  unfolding all_ready_def
  by (rule distinct_concat_upt) (auto simp: cpu_ok_def queues_ok_def linked_def)

lemma waiting_bound:
  assumes "cpu_ok c"
  shows "waiting (ready c) \<le> PM_MAX_TASK"
proof -
  have "set (all_ready c) \<subseteq> {..<PM_MAX_TASK}"
    using assms set_all_ready [OF assms] by (auto simp: cpu_ok_def queued_ok_def members_def)
  then have "card (set (all_ready c)) \<le> card {..<PM_MAX_TASK}" by (intro card_mono) auto
  then show ?thesis using distinct_card [OF distinct_all_ready [OF assms]] length_all_ready [of c]
    by simp
qed

subsection \<open>Sample runs\<close>

lemma top_queue_numeral:
  "top_queue q (numeral k) =
     (if fst (q (pred_numeral k)) \<noteq> None then int (pred_numeral k) else top_queue q (pred_numeral k))"
  by (simp add: numeral_eq_Suc)

lemmas sched_eval = enqueued_def sched_schedule_def pick_next_def queue_add_end_def
  fresh_runnable_def init_cpu_def zero_cpu_def requeue_active_def upd_runnable_def
  top_queue_numeral queue_head_def take_front_def Let_def

definition booted :: sched where
  "booted = sched_init zero_sched"

lemma booted_run: "sched_run booted"
  unfolding booted_def by (rule sched_run.init)

lemma booted_cpus:
  "cpus booted = (\<lambda>i. if i < 8 then init_cpu zero_cpu else zero_cpu)(0 :=
     upd_runnable 0 (\<lambda>_. fresh_runnable) (init_cpu zero_cpu)
       \<lparr> cpu_used := 1, active := Some 0, idle_task := 0 \<rparr>)"
  by (simp add: booted_def sched_init_def zero_sched_def fun_eq_iff)

lemma booted_tasks:
  assumes "i < 8"
  shows "tasks (cpus booted i) = (if i = 0 then {0} else {})"
proof -
  have "ready (cpus booted i) = (\<lambda>_. [])"
    by (rule queues_ok_ready)
      (use assms in \<open>simp add: queues_ok_def booted_cpus init_cpu_def linked_empty\<close>)
  then show ?thesis using assms
    by (simp add: tasks_def members_def booted_cpus init_cpu_def)
qed

text \<open>Task 5 is made runnable on the boot CPU.\<close>

definition one_ready :: sched where
  "one_ready = upd_cpu 0 (enqueued 5 1 0) booted"

lemma one_ready_enqueue: "sched_enqueue_cpu 0 False 5 1 0 booted = Inr one_ready"
  by (simp add: sched_enqueue_cpu_def one_ready_def booted_cpus enqueued_def Let_def upd_cpu_def)

lemma one_ready_run: "sched_run one_ready"
proof (rule sched_run.step [OF booted_run], rule sched_step.enqueue [OF one_ready_enqueue])
  show "runnable_nowhere (nat 5) booted" by (simp add: runnable_nowhere_def booted_tasks)
qed simp

lemma one_ready_tasks:
  "i < 8 \<Longrightarrow> tasks (cpus one_ready i) = (if i = 0 then {0, 5} else {})"
proof (cases "i = 0")
  case True
  have c: "cpu_ok (cpus booted 0)" using sched_run_ok [OF booted_run] by (simp add: sched_ok_def)
  have "5 \<notin> tasks (cpus booted 0)" by (simp add: booted_tasks)
  from queues_ok_ready [OF enqueued_ready [OF c this, of 1 0]]
  have "tasks (enqueued 5 1 0 (cpus booted 0)) = insert 5 (tasks (cpus booted 0))"
    by (simp add: tasks_def members_append enqueued_def Let_def)
  then show ?thesis using True by (auto simp: one_ready_def booted_tasks)
next
  case False
  assume "i < 8"
  with False show ?thesis by (simp add: one_ready_def booted_tasks)
qed

lemma schedule_tasks:
  assumes run: "sched_run s" and me: "me < SMP_MAX_CPU" "cpu_used (cpus s me) \<noteq> 0"
    and sch: "sched_schedule False me s = Inr (rc, s')"
  shows "tasks (cpus s' j) = tasks (cpus s j)"
proof (cases "\<exists>a. active (cpus s me) = Some a \<and> reschedule (runnables (cpus s me) a) = 0")
  case True
  then show ?thesis using sch by (auto simp: sched_schedule_keep)
next
  case False
  have "cpu_ok (cpus s me)" using sched_run_ok [OF run] me by (simp add: sched_ok_def)
  then obtain t c where "sched_schedule False me s = Inr (int t, upd_cpu me (\<lambda>_. c) s)"
    "tasks c = tasks (cpus s me)"
    using sched_schedule_switch [of s me] False me(2) by blast
  then show ?thesis using sch by auto
qed

subsection \<open>Properties\<close>

text \<open>
  (C5) No runnable is lost or doubled. In every run of the scheduler on any number of CPUs, the
  queues of a CPU hold each runnable once, the active runnable is in no queue, no task is
  runnable on two CPUs, the queue length that the module counts is the number of waiting
  runnables, and the idle task of a CPU in use is among its runnables.
\<close>

theorem sched_tasks_unique:
  assumes "sched_run s" and "i < SMP_MAX_CPU"
  shows "distinct (all_ready (cpus s i)) \<and>
         (\<forall>a. active (cpus s i) = Some a \<longrightarrow> a \<notin> set (all_ready (cpus s i))) \<and>
         unat (cpu_queue_length (cpus s i)) = length (all_ready (cpus s i)) \<and>
         (\<forall>j < SMP_MAX_CPU. j \<noteq> i \<longrightarrow> tasks (cpus s i) \<inter> tasks (cpus s j) = {}) \<and>
         (cpu_used (cpus s i) \<noteq> 0 \<longrightarrow> unat (idle_task (cpus s i)) \<in> tasks (cpus s i))"
proof -
  have ok: "sched_ok s" by (rule sched_run_ok [OF assms(1)])
  then have c: "cpu_ok (cpus s i)" using assms(2) by (simp add: sched_ok_def)
  have "unat (cpu_queue_length (cpus s i)) = length (all_ready (cpus s i))"
    using c waiting_bound [OF c] by (simp add: cpu_ok_def length_all_ready unat_of_nat)
  then show ?thesis
    using ok assms(2) c distinct_all_ready [OF c] set_all_ready [OF c]
    by (auto simp: cpu_ok_def active_ok_def sched_ok_def)
qed

theorem sched_tasks_unique_witness:
  "distinct (all_ready (cpus one_ready 0)) \<and> unat (cpu_queue_length (cpus one_ready 0)) = 1 \<and>
   length (all_ready (cpus one_ready 0)) = 1"
proof -
  have "cpu_queue_length (cpus one_ready 0) = 1"
    by (simp add: one_ready_def booted_cpus enqueued_def Let_def init_cpu_def)
  with sched_tasks_unique [OF one_ready_run, of 0] show ?thesis by simp
qed

text \<open>
  (C38) The scheduler returns the right task. On a CPU in use it never panics: a runnable that
  is not marked for rescheduling keeps the CPU; otherwise it goes to the end of the queue of
  its priority, which is lowered by one when its time is used up, and the oldest runnable of
  the highest priority becomes the active one. All other queues and CPUs stay as they are.
\<close>

theorem sched_schedule_priority:
  assumes "sched_run s" and "me < SMP_MAX_CPU" and "cpu_used (cpus s me) \<noteq> 0"
  shows "\<exists>t s'. sched_schedule False me s = Inr (int t, s') \<and>
     active (cpus s' me) = Some t \<and> tasks (cpus s' me) = tasks (cpus s me) \<and>
     (\<forall>j. j \<noteq> me \<longrightarrow> cpus s' j = cpus s j) \<and>
     (if \<exists>a. active (cpus s me) = Some a \<and> reschedule (runnables (cpus s me) a) = 0
      then s' = s
      else \<exists>i ts. picked (put_back (cpus s me)) i t ts \<and>
             ready (cpus s' me) = (put_back (cpus s me))(i := ts) \<and>
             priority (runnables (cpus s' me) t) = int i)"
proof (cases "\<exists>a. active (cpus s me) = Some a \<and> reschedule (runnables (cpus s me) a) = 0")
  case True
  then show ?thesis using sched_schedule_keep by fastforce
next
  case False
  have "cpu_ok (cpus s me)" using sched_run_ok [OF assms(1)] assms(2) by (simp add: sched_ok_def)
  then obtain i t ts c where "picked (put_back (cpus s me)) i t ts"
    "sched_schedule False me s = Inr (int t, upd_cpu me (\<lambda>_. c) s)"
    "ready c = (put_back (cpus s me))(i := ts)" "active c = Some t"
    "tasks c = tasks (cpus s me)" "priority (runnables c t) = int i"
    using sched_schedule_switch [of s me] False assms(3) by blast
  then show ?thesis using False by (intro exI [of _ t] exI [of _ "upd_cpu me (\<lambda>_. c) s"]) auto
qed

theorem sched_schedule_priority_witness:
  "\<exists>s'. sched_schedule False 0 one_ready = Inr (5, s') \<and> active (cpus s' 0) = Some 5 \<and>
        tasks (cpus s' 0) = tasks (cpus one_ready 0)"
proof -
  have "cpu_used (cpus one_ready 0) \<noteq> 0"
    by (simp add: one_ready_def booted_cpus enqueued_def Let_def)
  from sched_schedule_priority [OF one_ready_run, of 0] this obtain t s' where
    s: "sched_schedule False 0 one_ready = Inr (int t, s')" "active (cpus s' 0) = Some t"
      "tasks (cpus s' 0) = tasks (cpus one_ready 0)" by auto
  have "\<exists>s'. sched_schedule False 0 one_ready = Inr (5, s')"
    by (simp add: one_ready_def booted_cpus sched_eval)
  with s show ?thesis by auto
qed



text \<open>The loop keeps the least queue length it has seen.\<close>

lemma next_cpu_loop_least:
  assumes "n = cpu_queue_length (cpus s rc)"
  shows "next_cpu_loop s xs rc n \<in> insert rc {i \<in> set xs. cpu_used (cpus s i) \<noteq> 0} \<and>
         cpu_queue_length (cpus s (next_cpu_loop s xs rc n)) \<le> n \<and>
         (\<forall>i \<in> set xs. cpu_used (cpus s i) \<noteq> 0 \<longrightarrow>
            cpu_queue_length (cpus s (next_cpu_loop s xs rc n)) \<le> cpu_queue_length (cpus s i))"
  using assms
proof (induction xs arbitrary: rc n)
  case Nil
  then show ?case by simp
next
  case (Cons x xs)
  show ?case
  proof (cases "cpu_used (cpus s x) \<noteq> 0 \<and> cpu_queue_length (cpus s x) < n")
    case True
    then show ?thesis using Cons.IH [of "cpu_queue_length (cpus s x)" x] by auto
  next
    case False
    then show ?thesis using Cons.IH [of n rc] Cons.prems by fastforce
  qed
qed

text \<open>
  New runnables go to the CPU with the shortest queue: \<open>get_next_cpu\<close> returns a CPU that
  is in use, and no CPU in use has fewer runnables waiting.
\<close>

theorem get_next_cpu_least:
  assumes "sched_run s"
  shows "get_next_cpu s < SMP_MAX_CPU \<and> cpu_used (cpus s (get_next_cpu s)) \<noteq> 0 \<and>
         (\<forall>i < SMP_MAX_CPU. cpu_used (cpus s i) \<noteq> 0 \<longrightarrow>
            length (all_ready (cpus s (get_next_cpu s))) \<le> length (all_ready (cpus s i)))"
proof -
  have ok: "sched_ok s" by (rule sched_run_ok [OF assms])
  have len: "unat (cpu_queue_length (cpus s i)) = length (all_ready (cpus s i))" if "i < 8" for i
  proof -
    have c: "cpu_ok (cpus s i)" using ok that by (simp add: sched_ok_def)
    then show ?thesis using waiting_bound [OF c]
      by (simp add: cpu_ok_def length_all_ready unat_of_nat)
  qed
  let ?n = "get_next_cpu s"
  have least: "?n \<in> insert 0 {i \<in> {1..<8}. cpu_used (cpus s i) \<noteq> 0} \<and>
      cpu_queue_length (cpus s ?n) \<le> cpu_queue_length (cpus s 0) \<and>
      (\<forall>i \<in> {1..<8}. cpu_used (cpus s i) \<noteq> 0 \<longrightarrow>
         cpu_queue_length (cpus s ?n) \<le> cpu_queue_length (cpus s i))"
    unfolding get_next_cpu_def using next_cpu_loop_least [OF refl, of s "[1..<8]" 0] by simp
  then have n: "?n < 8" "cpu_used (cpus s ?n) \<noteq> 0" using ok by (auto simp: sched_ok_def)
  have "length (all_ready (cpus s ?n)) \<le> length (all_ready (cpus s i))"
    if "i < 8" "cpu_used (cpus s i) \<noteq> 0" for i
  proof -
    have "cpu_queue_length (cpus s ?n) \<le> cpu_queue_length (cpus s i)"
      using least that by (cases "i = 0") auto
    then show ?thesis using len [OF n(1)] len [OF that(1)] by (simp add: word_le_nat_alt)
  qed
  with n show ?thesis by simp
qed

theorem get_next_cpu_least_witness: "get_next_cpu one_ready = 0"
proof -
  have "\<forall>i. 0 < i \<and> i < 8 \<longrightarrow> cpu_used (cpus one_ready i) = 0"
    by (simp add: one_ready_def booted_cpus init_cpu_def)
  with get_next_cpu_least [OF one_ready_run] show ?thesis by (metis neq0_conv)
qed

text \<open>
  The load of a CPU is a percentage. In every run, also after the tick counters have
  wrapped, the load that the module reports lies between 0 and 100.
\<close>

theorem sched_load_bounded:
  assumes "sched_run s"
  shows "0 \<le> sched_get_load cpuid s \<and> sched_get_load cpuid s \<le> 100"
  using sched_run_stats [OF assms, of "nat cpuid"] by (auto simp: sched_get_load_def stats_ok_def)

theorem sched_load_bounded_witness: "0 \<le> sched_get_load 0 one_ready"
  using sched_load_bounded [OF one_ready_run, of 0] by simp

text \<open>
  Between \<open>sched_dequeue\<close> and the next \<open>sched_schedule\<close> a CPU has no active
  runnable; adding a runnable to this CPU then dereferences a null pointer. The run: task 5
  is enqueued and scheduled, blocks, and task 6 is made runnable before the switch.
\<close>

theorem sched_enqueue_null_active:
  "\<exists>s. sched_run s \<and> cpu_used (cpus s 0) = 1 \<and> runnable_nowhere 6 s \<and>
       sched_enqueue_cpu 1 False 6 1 0 s = Inl Null_deref"
proof -
  have used: "cpu_used (cpus one_ready 0) = 1"
    by (simp add: one_ready_def booted_cpus enqueued_def Let_def)
  obtain s1 where s1: "sched_schedule False 0 one_ready = Inr (5, s1)" "active (cpus s1 0) = Some 5"
    "idle_task (cpus s1 0) = 0" "cpu_used (cpus s1 0) = 1"
    by (simp add: one_ready_def booted_cpus sched_eval)
  have r1: "sched_run s1"
    by (rule sched_run.step [OF one_ready_run sched_step.schedule [OF s1(1)]]) (simp_all add: used)
  obtain s2 where s2: "sched_dequeue False 0 s1 = Inr s2" "active (cpus s2 0) = None"
    "cpu_used (cpus s2 0) = 1" "s2 = upd_cpu 0 (\<lambda>c. (upd_runnable 5 (\<lambda>r. r \<lparr> valid := 0 \<rparr>) c) \<lparr> active := None \<rparr>) s1"
    using s1 by (simp add: sched_dequeue_def)
  have r2: "sched_run s2" by (rule sched_run.step [OF r1 sched_step.dequeue [OF s2(1)]]) simp
  have "cpu_ok (cpus s1 0)" using sched_run_ok [OF r1] by (simp add: sched_ok_def)
  from dequeued_ok [OF this s1(2)] s1(3) have "tasks (cpus s2 0) = tasks (cpus s1 0) - {5}"
    by (simp add: s2(4))
  then have sub: "tasks (cpus s2 i) \<subseteq> tasks (cpus one_ready i)" for i
    using schedule_tasks [OF one_ready_run _ _ s1(1)] used by (cases "i = 0") (auto simp: s2(4))
  have "6 \<notin> tasks (cpus s2 i)" if "i < 8" for i
    using subsetD [OF sub, of 6 i] one_ready_tasks [OF that] by (auto split: if_splits)
  then have "runnable_nowhere 6 s2" by (simp add: runnable_nowhere_def)
  moreover have "sched_enqueue_cpu 1 False 6 1 0 s2 = Inl Null_deref"
    using s2 by (simp add: sched_enqueue_cpu_def)
  ultimately show ?thesis using r2 s2(3) by blast
qed

end
