(* ===== verification/Heap.thy ===== *)
theory Heap
  imports Prelude "HOL-Library.Monad_Syntax"
begin

text \<open>
  The heap allocator, \<^verbatim>\<open>lib/internal/heap.c\<close>, which serves \<^verbatim>\<open>malloc\<close> in user space
  and \<^verbatim>\<open>kmalloc\<close> in the kernel. The model works on memory itself: a map from addresses to
  bytes in which the headers and footers of the chunks lie between the data of the callers.
  Addresses are \<open>u32\<close> and their arithmetic wraps as in the code. Loops that walk the chain
  of chunks need not end on a damaged heap, so their results are options; \<open>None\<close> is a call
  that never returns.
\<close>

type_synonym mem = "nat \<Rightarrow> u8"

subsection \<open>Words in memory\<close>

text \<open>Little endian access to four bytes.\<close>

definition rd32 :: "mem \<Rightarrow> nat \<Rightarrow> u32" where
  "rd32 m a = ucast (m a) OR push_bit 8 (ucast (m (a + 1)))
     OR push_bit 16 (ucast (m (a + 2))) OR push_bit 24 (ucast (m (a + 3)))"

definition wr32 :: "mem \<Rightarrow> nat \<Rightarrow> u32 \<Rightarrow> mem" where
  "wr32 m a v = m(a := ucast v, a + 1 := ucast (drop_bit 8 v),
     a + 2 := ucast (drop_bit 16 v), a + 3 := ucast (drop_bit 24 v))"

subsection \<open>Chunks\<close>

text \<open>
  \<^verbatim>\<open>heap_chunk_header_t\<close> is packed: four bytes for the address of the footer and one byte
  whose lowest bits are \<open>last\<close> and \<open>used\<close>. The footer is a word with the address of the
  header. The null pointer is the address 0.
\<close>

abbreviation sizeof_header :: u32 where "sizeof_header \<equiv> 5"

definition footer :: "mem \<Rightarrow> u32 \<Rightarrow> u32" where
  "footer m c = rd32 m (unat c)"

definition last_flag :: "mem \<Rightarrow> u32 \<Rightarrow> bool" where
  "last_flag m c = bit (m (unat c + 4)) 0"

definition used_flag :: "mem \<Rightarrow> u32 \<Rightarrow> bool" where
  "used_flag m c = bit (m (unat c + 4)) 1"

definition set_footer :: "u32 \<Rightarrow> u32 \<Rightarrow> mem \<Rightarrow> mem" where
  "set_footer c v m = wr32 m (unat c) v"

definition set_bit_to :: "nat \<Rightarrow> bool \<Rightarrow> u8 \<Rightarrow> u8" where
  "set_bit_to n b w = (if b then set_bit n w else unset_bit n w)"

definition set_last :: "u32 \<Rightarrow> bool \<Rightarrow> mem \<Rightarrow> mem" where
  "set_last c b m = m(unat c + 4 := set_bit_to 0 b (m (unat c + 4)))"

definition set_used :: "u32 \<Rightarrow> bool \<Rightarrow> mem \<Rightarrow> mem" where
  "set_used c b m = m(unat c + 4 := set_bit_to 1 b (m (unat c + 4)))"

definition heap_next_chunk :: "mem \<Rightarrow> u32 \<Rightarrow> u32" where
  "heap_next_chunk m chunk = (if last_flag m chunk then 0 else footer m chunk + 4)"

definition heap_chunk_get_size :: "mem \<Rightarrow> u32 \<Rightarrow> u32" where
  "heap_chunk_get_size m chunk = footer m chunk - chunk - sizeof_header"

definition heap_previous_chunk :: "mem \<Rightarrow> u32 \<Rightarrow> u32" where
  "heap_previous_chunk m chunk =
     (if chunk = 0 then 0 else if chunk - 4 = 0 then 0 else rd32 m (unat (chunk - 4)))"

abbreviation HEAP_ENOHEADER :: int where "HEAP_ENOHEADER \<equiv> 1"
abbreviation HEAP_ENOFOOTER :: int where "HEAP_ENOFOOTER \<equiv> 2"
abbreviation HEAP_EFOOTER :: int where "HEAP_EFOOTER \<equiv> 3"
abbreviation HEAP_ECHUNKRANGE :: int where "HEAP_ECHUNKRANGE \<equiv> 4"
abbreviation HEAP_ESIZE :: int where "HEAP_ESIZE \<equiv> 5"

definition heap_validate_chunk :: "mem \<Rightarrow> u32 \<Rightarrow> int" where
  "heap_validate_chunk m header =
     (if header = 0 then HEAP_ENOHEADER
      else if footer m header = 0 then HEAP_ENOFOOTER
      else if rd32 m (unat (footer m header)) \<noteq> header then HEAP_EFOOTER
      else if sint (heap_chunk_get_size m header) < 0 then HEAP_ESIZE
      else 0)"

subsection \<open>The heap\<close>

text \<open>\<^verbatim>\<open>heap_t\<close>; the extension function is an argument of \<open>heap_malloc_aligned\<close>.\<close>

record heap =
  start :: u32
  current_top :: u32
  validate :: int

text \<open>The loop of \<^verbatim>\<open>heap_validate\<close> from the chunk \<open>current\<close> on.\<close>

partial_function (option) validate_loop :: "heap \<Rightarrow> mem \<Rightarrow> u32 \<Rightarrow> int option" where
  "validate_loop heap m current =
     (if current = 0 then Some 0
      else if current > current_top heap then Some HEAP_ECHUNKRANGE
      else if footer m current + 3 > current_top heap then Some HEAP_ECHUNKRANGE
      else if current < start heap then Some HEAP_ECHUNKRANGE
      else if heap_validate_chunk m current \<noteq> 0 then Some (heap_validate_chunk m current)
      else validate_loop heap m (heap_next_chunk m current))"

definition heap_validate :: "heap \<Rightarrow> mem \<Rightarrow> int option" where
  "heap_validate heap m = (if validate heap = 0 then Some 0 else validate_loop heap m (start heap))"

definition heap_init_chunk :: "u32 \<Rightarrow> u32 \<Rightarrow> mem \<Rightarrow> mem" where
  "heap_init_chunk first last_addr m =
     (let m = set_footer first (last_addr - 3) m;
          m = wr32 m (unat (footer m first)) first
      in set_used first False m)"

definition heap_init :: "u32 \<Rightarrow> u32 \<Rightarrow> mem \<Rightarrow> (int \<times> heap \<times> mem) option" where
  "heap_init first last_addr m =
     (let heap = \<lparr> start = first, current_top = last_addr, validate = 0 \<rparr>;
          m = set_last first True (heap_init_chunk first last_addr m)
      in map_option (\<lambda>rc. (rc, heap, m)) (heap_validate heap m))"

definition heap_chunk_split :: "u32 \<Rightarrow> u32 \<Rightarrow> mem \<Rightarrow> int \<times> mem" where
  "heap_chunk_split chunk offset m =
     (let new = chunk + offset
      in if chunk = 0 then (0, m)
         else
           (let m = set_footer new (footer m chunk) m;
                m = set_last new (last_flag m chunk) m;
                m = set_used new False m;
                m = set_footer chunk (new - 4) m;
                m = set_last chunk False m;
                m = wr32 m (unat (footer m chunk)) chunk;
                m = wr32 m (unat (footer m new)) new
            in if heap_validate_chunk m new \<noteq> 0 then (heap_validate_chunk m new, m)
               else if heap_validate_chunk m chunk \<noteq> 0 then (heap_validate_chunk m chunk, m)
               else (0, m)))"

text \<open>The loop that leaves room for a header and a footer below the aligned address.\<close>

partial_function (option) align_loop :: "u32 \<Rightarrow> u32 \<Rightarrow> u32 \<Rightarrow> u32 option" where
  "align_loop chunk alignment base_aligned =
     (if base_aligned - sizeof_header < chunk + sizeof_header + 4
      then align_loop chunk alignment (base_aligned + alignment)
      else Some base_aligned)"

text \<open>A division by zero does not return.\<close>

definition heap_get_aligned_address :: "u32 \<Rightarrow> u32 \<Rightarrow> u32 option" where
  "heap_get_aligned_address chunk alignment =
     (if alignment = 0 then None
      else
        (let base = chunk + sizeof_header
         in align_loop chunk alignment (base div alignment * alignment + alignment)))"

subsection \<open>Allocation\<close>

text \<open>
  A function that validates the heap and gives up on an error returns the pair of its result and
  memory; here the error is the null pointer.
\<close>

definition checked :: "heap \<Rightarrow> mem \<Rightarrow> (u32 \<times> mem) option \<Rightarrow> (u32 \<times> mem) option" where
  "checked heap m rest = do {
     rc \<leftarrow> heap_validate heap m;
     if rc \<noteq> 0 then Some (0, m) else rest }"

definition heap_chunk_sufficient :: "mem \<Rightarrow> u32 \<Rightarrow> u32 \<Rightarrow> u32 \<Rightarrow> bool option" where
  "heap_chunk_sufficient m chunk requested alignment =
     (if chunk = 0 then Some False
      else if used_flag m chunk then Some False
      else if alignment = 0 then None
      else if (chunk + sizeof_header) mod alignment = 0
      then Some (heap_chunk_get_size m chunk \<ge> requested)
      else do {
        base_aligned \<leftarrow> heap_get_aligned_address chunk alignment;
        Some (\<not> footer m chunk \<le> base_aligned + requested) })"

text \<open>The second half of \<^verbatim>\<open>heap_consume_chunk\<close>, when the chunk is aligned.\<close>

definition consume_aligned :: "heap \<Rightarrow> u32 \<Rightarrow> u32 \<Rightarrow> mem \<Rightarrow> (u32 \<times> mem) option" where
  "consume_aligned heap chunk requested m =
     (let finish = (\<lambda>m. checked heap m (Some (chunk + sizeof_header, set_used chunk True m)))
      in if heap_chunk_get_size m chunk > requested + 8 + sizeof_header then
           (let (rc, m) = heap_chunk_split chunk (requested + sizeof_header + 4) m
            in if rc \<noteq> 0 then Some (0, m) else checked heap m (finish m))
         else finish m)"

definition heap_consume_chunk :: "heap \<Rightarrow> u32 \<Rightarrow> u32 \<Rightarrow> u32 \<Rightarrow> mem \<Rightarrow> (u32 \<times> mem) option" where
  "heap_consume_chunk heap chunk requested alignment m =
     checked heap m
       (if alignment = 0 then None
        else if (chunk + sizeof_header) mod alignment \<noteq> 0 then do {
          base_aligned \<leftarrow> heap_get_aligned_address chunk alignment;
          let (rc, m) = heap_chunk_split chunk (base_aligned - chunk - sizeof_header) m;
          if rc \<noteq> 0 then Some (0, m)
          else checked heap m (consume_aligned heap (base_aligned - sizeof_header) requested m) }
        else consume_aligned heap chunk requested m)"

text \<open>What \<^verbatim>\<open>malloc\<close> does with a chunk it has found or created.\<close>

definition malloc_chunk :: "heap \<Rightarrow> u32 \<Rightarrow> u32 \<Rightarrow> u32 \<Rightarrow> mem \<Rightarrow> (u32 \<times> mem) option" where
  "malloc_chunk heap chunk sz alignment m = do {
     (ptr, m) \<leftarrow> heap_consume_chunk heap chunk sz alignment m;
     checked heap m
       (if heap_chunk_get_size m (ptr - sizeof_header) < sz then Some (0, m) else Some (ptr, m)) }"

text \<open>The search; the inner \<open>None\<close> is the end of the chain.\<close>

partial_function (option) find_chunk :: "mem \<Rightarrow> u32 \<Rightarrow> u32 \<Rightarrow> u32 \<Rightarrow> u32 option option" where
  "find_chunk m current sz alignment =
     (if current = 0 then Some None
      else do {
        ok \<leftarrow> heap_chunk_sufficient m current sz alignment;
        if ok then Some (Some current)
        else find_chunk m (heap_next_chunk m current) sz alignment })"

text \<open>
  The pointer \<open>(heap_chunk_header_t*) heap->current_top + 1\<close> is one header, not one byte,
  above the top.
\<close>

definition extension_size :: "heap \<Rightarrow> u32 \<Rightarrow> u32 \<Rightarrow> u32 option" where
  "extension_size heap sz alignment =
     (if alignment = 1 then Some (sz + 4 + sizeof_header)
      else do {
        base_aligned \<leftarrow> heap_get_aligned_address (current_top heap + sizeof_header) alignment;
        Some (base_aligned - current_top heap + sz + 8) })"

text \<open>Adding the memory up to \<open>new_top\<close> as a new last chunk.\<close>

definition append_chunk :: "heap \<Rightarrow> u32 \<Rightarrow> mem \<Rightarrow> heap \<times> mem" where
  "append_chunk heap new_top m =
     (let current = current_top heap + 1;
          last_chunk = rd32 m (unat (current_top heap - 3));
          m = set_last last_chunk False m;
          m = set_last current True m;
          m = heap_init_chunk (current_top heap + 1) new_top m;
          heap = heap \<lparr> current_top := new_top \<rparr>
      in (heap, heap_init_chunk current (current_top heap) m))"

text \<open>
  \<open>extension\<close> is \<open>None\<close> for a null pointer, otherwise it maps the requested size and the
  current top to the new top, 0 if there is none.
\<close>

definition heap_malloc_aligned ::
    "(u32 \<Rightarrow> u32 \<Rightarrow> u32) option \<Rightarrow> heap \<Rightarrow> u32 \<Rightarrow> u32 \<Rightarrow> mem \<Rightarrow> (u32 \<times> heap \<times> mem) option" where
  "heap_malloc_aligned extension heap sz alignment m =
     (if sz = 0 then Some (0, heap, m)
      else do {
        found \<leftarrow> find_chunk m (start heap) sz alignment;
        case found of
          Some chunk \<Rightarrow> do {
            (ptr, m) \<leftarrow> malloc_chunk heap chunk sz alignment m;
            Some (ptr, heap, m) }
        | None \<Rightarrow> do {
            ext_size \<leftarrow> extension_size heap sz alignment;
            case extension of
              None \<Rightarrow> Some (0, heap, m)
            | Some ext \<Rightarrow>
                let new_top = ext ext_size (current_top heap)
                in if new_top = 0 then Some (0, heap, m)
                   else do {
                     let chunk = current_top heap + 1;
                     let (heap, m) = append_chunk heap new_top m;
                     (ptr, m) \<leftarrow> malloc_chunk heap chunk sz alignment m;
                     Some (ptr, heap, m) } } })"

definition heap_malloc ::
    "(u32 \<Rightarrow> u32 \<Rightarrow> u32) option \<Rightarrow> heap \<Rightarrow> u32 \<Rightarrow> mem \<Rightarrow> (u32 \<times> heap \<times> mem) option" where
  "heap_malloc extension heap sz m = heap_malloc_aligned extension heap sz 4 m"

subsection \<open>Releasing memory\<close>

partial_function (option) last_free_loop :: "mem \<Rightarrow> u32 \<Rightarrow> u32 option" where
  "last_free_loop m last_free =
     (if heap_next_chunk m last_free = 0 then Some last_free
      else if used_flag m (heap_next_chunk m last_free) then Some last_free
      else last_free_loop m (heap_next_chunk m last_free))"

partial_function (option) first_free_loop :: "heap \<Rightarrow> mem \<Rightarrow> u32 \<Rightarrow> u32 option" where
  "first_free_loop heap m first_free =
     (if first_free \<le> start heap then Some first_free
      else if used_flag m (heap_previous_chunk m first_free) then Some first_free
      else first_free_loop heap m (heap_previous_chunk m first_free))"

definition heap_free :: "heap \<Rightarrow> u32 \<Rightarrow> mem \<Rightarrow> mem option" where
  "heap_free heap ptr m = do {
     let header = ptr - sizeof_header;
     let m = set_used header False m;
     last_free \<leftarrow> last_free_loop m header;
     first_free \<leftarrow> first_free_loop heap m header;
     let orig_last = last_flag m last_free;
     let m = heap_init_chunk first_free (footer m last_free + 3) m;
     let m = set_used first_free False m;
     Some (set_last first_free orig_last m) }"

text \<open>The copy of \<^verbatim>\<open>heap_realloc\<close>, byte by byte in ascending order.\<close>

primrec copy_bytes :: "nat \<Rightarrow> nat \<Rightarrow> nat \<Rightarrow> mem \<Rightarrow> mem" where
  "copy_bytes dst src 0 m = m"
| "copy_bytes dst src (Suc n) m =
     (let m = copy_bytes dst src n m in m(dst + n := m (src + n)))"

definition heap_realloc ::
    "(u32 \<Rightarrow> u32 \<Rightarrow> u32) option \<Rightarrow> heap \<Rightarrow> u32 \<Rightarrow> u32 \<Rightarrow> mem \<Rightarrow> (u32 \<times> heap \<times> mem) option" where
  "heap_realloc extension heap ptr sz m =
     (if ptr = 0 then heap_malloc extension heap sz m
      else
        (let old_size = heap_chunk_get_size m (ptr - sizeof_header)
         in if sz \<le> old_size then Some (ptr, heap, m)
            else do {
              (new_ptr, heap, m) \<leftarrow> heap_malloc extension heap sz m;
              if new_ptr = 0 then Some (0, heap, m)
              else do {
                m \<leftarrow> heap_free heap ptr m;
                Some (new_ptr, heap, copy_bytes (unat new_ptr) (unat ptr) (unat old_size) m) } }))"

end
