(* ===== verification/Heap_Chunks.thy ===== *)
theory Heap_Chunks
  imports Heap
begin

text \<open>
  The chunks of a heap as a list. A heap whose headers and footers are in order is described by
  the sizes and flags of its chunks, from the start to the top; \<open>heap_ok\<close> relates memory to
  such a list. The lemmas show what each operation of the allocator does to the list, and that
  it leaves the bytes of all other chunks alone.
\<close>

subsection \<open>Reading and writing words\<close>

lemma bytes_of_word:
  "ucast (ucast v :: u8) OR push_bit 8 (ucast (ucast (drop_bit 8 v) :: u8))
     OR push_bit 16 (ucast (ucast (drop_bit 16 v) :: u8))
     OR push_bit 24 (ucast (ucast (drop_bit 24 v) :: u8)) = (v :: u32)"
proof (rule bit_word_eqI)
  fix n assume "n < LENGTH(32)"
  then consider "n < 8" | "8 \<le> n" "n < 16" | "16 \<le> n" "n < 24" | "24 \<le> n" "n < 32"
    by fastforce
  then show "bit (ucast (ucast v :: u8) OR push_bit 8 (ucast (ucast (drop_bit 8 v) :: u8))
     OR push_bit 16 (ucast (ucast (drop_bit 16 v) :: u8))
     OR push_bit 24 (ucast (ucast (drop_bit 24 v) :: u8)) :: u32) n = bit v n"
    by cases (simp_all add: bit_simps, linarith+)
qed

lemma rd32_wr32 [simp]: "rd32 (wr32 m a v) a = v"
  by (simp add: rd32_def wr32_def bytes_of_word)

lemma rd32_cong:
  "(\<And>x. a \<le> x \<Longrightarrow> x < a + 4 \<Longrightarrow> m' x = m x) \<Longrightarrow> rd32 m' a = rd32 m a"
  by (simp add: rd32_def)

lemma wr32_other [simp]: "x < a \<or> a + 4 \<le> x \<Longrightarrow> wr32 m a v x = m x"
  by (auto simp: wr32_def)

lemma rd32_wr32_other [simp]: "a + 4 \<le> b \<or> b + 4 \<le> a \<Longrightarrow> rd32 (wr32 m a v) b = rd32 m b"
  by (rule rd32_cong) auto

lemma rd32_upd_other [simp]: "x < b \<or> b + 4 \<le> x \<Longrightarrow> rd32 (m(x := y)) b = rd32 m b"
  by (rule rd32_cong) auto

lemma set_bit_to_bits [simp]:
  "bit (set_bit_to 0 b w) 0 = b" "bit (set_bit_to (Suc 0) b w) (Suc 0) = b"
  "bit (set_bit_to 0 b w) (Suc 0) = bit w (Suc 0)" "bit (set_bit_to (Suc 0) b w) 0 = bit w 0"
  by (simp_all add: set_bit_to_def bit_simps)

subsection \<open>Addresses\<close>

text \<open>Addresses that do not wrap are natural numbers.\<close>

lemma addr [simp]: "a < 4294967296 \<Longrightarrow> unat (of_nat a :: u32) = a"
  by (rule of_nat_unat_u32)

lemma addr_minus:
  "k \<le> a \<Longrightarrow> (of_nat a :: u32) - of_nat k = of_nat (a - k)"
  by (simp add: of_nat_diff)

lemma addr_eq_0 [simp]: "a < 4294967296 \<Longrightarrow> (of_nat a :: u32) = 0 \<longleftrightarrow> a = 0"
  using unat_eq_zero [of "of_nat a :: u32"] by simp

lemma addr_le: "a < 4294967296 \<Longrightarrow> b < 4294967296 \<Longrightarrow> (of_nat a :: u32) \<le> of_nat b \<longleftrightarrow> a \<le> b"
  by (simp add: word_le_nat_alt)

lemma addr_less: "a < 4294967296 \<Longrightarrow> b < 4294967296 \<Longrightarrow> (of_nat a :: u32) < of_nat b \<longleftrightarrow> a < b"
  by (simp add: word_less_nat_alt)

lemma addr_div:
  assumes "a < 4294967296" "b < 4294967296"
  shows "(of_nat a :: u32) div of_nat b = of_nat (a div b)"
proof -
  have "a div b < 4294967296" using assms(1) by (meson div_le_dividend le_less_trans)
  then have "unat ((of_nat a :: u32) div of_nat b) = unat (of_nat (a div b) :: u32)"
    using assms by (simp add: unat_div)
  then show ?thesis by (simp add: word_unat_eq_iff)
qed

lemma addr_mod:
  assumes "a < 4294967296" "b < 4294967296"
  shows "(of_nat a :: u32) mod of_nat b = of_nat (a mod b)"
proof -
  have "a mod b < 4294967296" using assms(1) by (meson mod_less_eq_dividend le_less_trans)
  then have "unat ((of_nat a :: u32) mod of_nat b) = unat (of_nat (a mod b) :: u32)"
    using assms by (simp add: unat_mod)
  then show ?thesis by (simp add: word_unat_eq_iff)
qed

lemma of_nat_simps:
  "(of_nat a :: u32) + 1 = of_nat (a + 1)" "(of_nat a :: u32) + 3 = of_nat (a + 3)"
  "(of_nat a :: u32) + 4 = of_nat (a + 4)" "(of_nat a :: u32) + 5 = of_nat (a + 5)"
  "(of_nat a :: u32) + 8 = of_nat (a + 8)"
  "3 \<le> a \<Longrightarrow> (of_nat a :: u32) - 3 = of_nat (a - 3)"
  "4 \<le> a \<Longrightarrow> (of_nat a :: u32) - 4 = of_nat (a - 4)"
  "5 \<le> a \<Longrightarrow> (of_nat a :: u32) - 5 = of_nat (a - 5)"
  "(of_nat a :: u32) + of_nat b = of_nat (a + b)"
  by (simp_all add: of_nat_diff)

subsection \<open>Chunks\<close>

text \<open>A chunk at \<open>a\<close> with \<open>n\<close> bytes for the caller between its header and its footer.\<close>

definition chunk :: "mem \<Rightarrow> nat \<Rightarrow> nat \<Rightarrow> bool \<Rightarrow> bool \<Rightarrow> bool" where
  "chunk m a n u l \<longleftrightarrow>
     rd32 m a = of_nat (a + 5 + n) \<and> bit (m (a + 4)) 0 = l \<and> bit (m (a + 4)) 1 = u \<and>
     rd32 m (a + 5 + n) = of_nat a"

lemma chunk_cong:
  "chunk m a n u l \<Longrightarrow> (\<And>x. a \<le> x \<Longrightarrow> x < a + 5 \<Longrightarrow> m' x = m x) \<Longrightarrow>
   (\<And>x. a + 5 + n \<le> x \<Longrightarrow> x < a + 9 + n \<Longrightarrow> m' x = m x) \<Longrightarrow> chunk m' a n u l"
  using rd32_cong [of a m' m] rd32_cong [of "a + 5 + n" m' m] by (simp add: chunk_def)

lemma chunk_access:
  assumes "chunk m a n u l" and "a + n + 9 < 4294967296"
  shows "footer m (of_nat a) = of_nat (a + 5 + n)" "last_flag m (of_nat a) = l"
    "used_flag m (of_nat a) = u" "heap_chunk_get_size m (of_nat a) = of_nat n"
    "heap_next_chunk m (of_nat a) = (if l then 0 else of_nat (a + n + 9))"
    "0 < a \<Longrightarrow> n < 2147483648 \<Longrightarrow> heap_validate_chunk m (of_nat a) = 0"
proof -
  show f: "footer m (of_nat a) = of_nat (a + 5 + n)" and "last_flag m (of_nat a) = l"
    "used_flag m (of_nat a) = u"
    using assms by (simp_all add: chunk_def footer_def last_flag_def used_flag_def)
  show s: "heap_chunk_get_size m (of_nat a) = of_nat n"
    unfolding heap_chunk_get_size_def f by simp
  show "heap_next_chunk m (of_nat a) = (if l then 0 else of_nat (a + n + 9))"
    using \<open>last_flag m (of_nat a) = l\<close> unfolding heap_next_chunk_def f by (simp add: algebra_simps)
  show "heap_validate_chunk m (of_nat a) = 0" if "0 < a" "n < 2147483648"
  proof -
    have "rd32 m (unat (of_nat (a + 5 + n) :: u32)) = of_nat a"
      using assms by (simp only: chunk_def addr)
    moreover have "(of_nat a :: u32) \<noteq> 0" using assms that by simp
    moreover have "(of_nat (a + 5 + n) :: u32) \<noteq> 0" using assms that addr_eq_0 [of "a + 5 + n"] by simp
    moreover have "\<not> sint (of_nat n :: u32) < 0" using that by (simp add: sint_u32)
    ultimately show ?thesis unfolding heap_validate_chunk_def f s by (simp only: if_False simp_thms)
  qed
qed

text \<open>The elementary writes, at addresses that do not wrap.\<close>

lemma write_addr:
  assumes "a < 4294967296"
  shows "set_footer (of_nat a) v m = wr32 m a v"
    "set_last (of_nat a) b m = m(a + 4 := set_bit_to 0 b (m (a + 4)))"
    "set_used (of_nat a) b m = m(a + 4 := set_bit_to 1 b (m (a + 4)))"
  using assms by (simp_all add: set_footer_def set_last_def set_used_def)

lemma footer_addr: "a < 4294967296 \<Longrightarrow> footer m (of_nat a) = rd32 m a"
  "a < 4294967296 \<Longrightarrow> last_flag m (of_nat a) = bit (m (a + 4)) 0"
  by (simp_all add: footer_def last_flag_def)

text \<open>
  Initialising a chunk writes its header and footer, and keeps the \<open>last\<close> flag that is
  already in memory.
\<close>

lemma heap_init_chunk_ok:
  assumes "a + n + 9 < 4294967296"
  shows "chunk (heap_init_chunk (of_nat a) (of_nat (a + n + 8)) m) a n False (bit (m (a + 4)) 0)"
    and "x < a \<or> a + n + 9 \<le> x \<or> a + 5 \<le> x \<and> x < a + 5 + n \<Longrightarrow>
         heap_init_chunk (of_nat a) (of_nat (a + n + 8)) m x = m x"
proof -
  define e where "e = a + 5 + n"
  have f: "(of_nat (a + n + 8) :: u32) - 3 = of_nat e" by (simp add: e_def)
  have small: "a < 4294967296" "e < 4294967296" using assms by (simp_all add: e_def)
  have eq: "heap_init_chunk (of_nat a) (of_nat (a + n + 8)) m =
      (let m1 = wr32 (wr32 m a (of_nat e)) e (of_nat a)
       in m1(a + 4 := set_bit_to 1 False (m1 (a + 4))))"
    unfolding heap_init_chunk_def f Let_def using small by (simp add: write_addr footer_addr)
  have e: "a + 5 \<le> e" by (simp add: e_def)
  show "chunk (heap_init_chunk (of_nat a) (of_nat (a + n + 8)) m) a n False (bit (m (a + 4)) 0)"
    unfolding eq chunk_def e_def [symmetric] Let_def using e by simp
  show "heap_init_chunk (of_nat a) (of_nat (a + n + 8)) m x = m x"
    if "x < a \<or> a + n + 9 \<le> x \<or> a + 5 \<le> x \<and> x < a + 5 + n"
  proof -
    have "(x < a \<or> a + 4 \<le> x) \<and> (x < e \<or> e + 4 \<le> x) \<and> x \<noteq> a + 4"
      using that by (auto simp: e_def)
    then show ?thesis unfolding eq by (simp add: Let_def)
  qed
qed

text \<open>Splitting a chunk in two. Only bytes of the chunk are written.\<close>

lemma heap_chunk_split_ok:
  assumes c: "chunk m a n u l" and b: "0 < a" "a + n + 9 < 4294967296" "n < 2147483648"
    and k: "9 \<le> k" "k \<le> n"
  obtains m' where "heap_chunk_split (of_nat a) (of_nat k) m = (0, m')"
    "chunk m' a (k - 9) u False" "chunk m' (a + k) (n - k) False l"
    "\<And>x. x < a \<or> a + n + 9 \<le> x \<Longrightarrow> m' x = m x"
proof -
  define b where "b = a + k"
  define d where "d = b - 4"
  define e where "e = a + 5 + n"
  have pos: "a + 9 \<le> b" "d + 4 = b" "b + 5 \<le> e" "a + 5 \<le> d"
    using k by (simp_all add: b_def d_def e_def)
  have sizes: "a + 5 + (k - 9) = d" "b + 5 + (n - k) = e" using k by (simp_all add: b_def d_def e_def)
  have new: "(of_nat a :: u32) + of_nat k = of_nat b" by (simp add: b_def)
  have low: "(of_nat b :: u32) - 4 = of_nat d" using pos(1) by (simp add: d_def of_nat_diff)
  have small: "a < 4294967296" "b < 4294967296" "d < 4294967296" "e < 4294967296"
    using b k by (simp_all add: b_def d_def e_def)
  define m1 where "m1 = wr32 m b (of_nat e)"
  define m2 where "m2 = m1(b + 4 := set_bit_to 0 l (m1 (b + 4)))"
  define m3 where "m3 = m2(b + 4 := set_bit_to 1 False (m2 (b + 4)))"
  define m4 where "m4 = wr32 m3 a (of_nat d)"
  define m5 where "m5 = m4(a + 4 := set_bit_to 0 False (m4 (a + 4)))"
  define m6 where "m6 = wr32 m5 d (of_nat a)"
  define m7 where "m7 = wr32 m6 e (of_nat b)"
  note ms = m7_def m6_def m5_def m4_def m3_def m2_def m1_def
  have c': "rd32 m a = of_nat e" "bit (m (a + 4)) 0 = l" "bit (m (a + 4)) 1 = u"
    using c by (simp_all add: chunk_def e_def)
  have lower: "chunk m7 a (k - 9) u False"
    unfolding chunk_def sizes using pos c'(3) by (simp add: ms)
  have upper: "chunk m7 (a + k) (n - k) False l"
    unfolding chunk_def b_def [symmetric] sizes using pos by (simp add: ms)
  have val: "heap_validate_chunk m7 (of_nat b) = 0" "heap_validate_chunk m7 (of_nat a) = 0"
    using b k chunk_access(6) [OF upper] chunk_access(6) [OF lower] by (simp_all add: b_def)
  have nz: "(of_nat a :: u32) \<noteq> 0" using b by simp
  have m1: "set_footer (of_nat b) (footer m (of_nat a)) m = m1"
    using small c' by (simp add: write_addr footer_addr m1_def)
  have "last_flag m1 (of_nat a) = l" using small c' pos by (simp add: footer_addr m1_def)
  then have m2: "set_last (of_nat b) (last_flag m1 (of_nat a)) m1 = m2"
    using small by (simp add: write_addr m2_def)
  have m3: "set_used (of_nat b) False m2 = m3" using small by (simp add: write_addr m3_def)
  have m4: "set_footer (of_nat a) (of_nat d) m3 = m4" using small by (simp add: write_addr m4_def)
  have m5: "set_last (of_nat a) False m4 = m5" using small by (simp add: write_addr m5_def)
  have "footer m5 (of_nat a) = of_nat d" using small by (simp add: footer_addr m5_def m4_def)
  then have m6: "wr32 m5 (unat (footer m5 (of_nat a))) (of_nat a) = m6"
    using small by (simp add: m6_def)
  have "footer m6 (of_nat b) = of_nat e"
    using small pos by (simp add: footer_addr m6_def m5_def m4_def m3_def m2_def m1_def)
  then have m7: "wr32 m6 (unat (footer m6 (of_nat b))) (of_nat b) = m7"
    using small by (simp add: m7_def)
  have "heap_chunk_split (of_nat a) (of_nat k) m = (0, m7)"
    unfolding heap_chunk_split_def new Let_def low m1 m2 m3 m4 m5 m6 m7 val using nz by simp
  moreover have "m7 x = m x" if "x < a \<or> a + n + 9 \<le> x" for x
  proof -
    have "x < a \<or> e + 4 \<le> x" using that by (auto simp: e_def)
    then show ?thesis using pos by (auto simp: ms)
  qed
  ultimately show thesis using that lower upper by blast
qed

subsection \<open>Lists of chunks\<close>

text \<open>Memory outside the addresses from \<open>p\<close> up to \<open>q\<close> keeps its contents.\<close>

definition untouched :: "nat \<Rightarrow> nat \<Rightarrow> mem \<Rightarrow> mem \<Rightarrow> bool" where
  "untouched p q m m' \<longleftrightarrow> (\<forall>x. x < p \<or> q \<le> x \<longrightarrow> m' x = m x)"

lemma untouchedD: "untouched p q m m' \<Longrightarrow> x < p \<or> q \<le> x \<Longrightarrow> m' x = m x"
  by (auto simp: untouched_def)

lemma untouched_trans:
  "untouched p q m m1 \<Longrightarrow> untouched p' q' m1 m2 \<Longrightarrow> p \<le> p' \<Longrightarrow> q' \<le> q \<Longrightarrow> untouched p q m m2"
  unfolding untouched_def by (metis le_trans less_le_trans)

text \<open>
  \<open>chunks m a cs e l\<close>: the memory from \<open>a\<close> up to but excluding \<open>e\<close> is divided into
  chunks with the sizes and \<open>used\<close> flags \<open>cs\<close>; the last of them has the \<open>last\<close> flag
  \<open>l\<close>, the others do not have it.
\<close>

type_synonym chunk_list = "(nat \<times> bool) list"

fun chunks :: "mem \<Rightarrow> nat \<Rightarrow> chunk_list \<Rightarrow> nat \<Rightarrow> bool \<Rightarrow> bool" where
  "chunks m a [] e l \<longleftrightarrow> a = e"
| "chunks m a ((n, u) # cs) e l \<longleftrightarrow> chunk m a n u (l \<and> cs = []) \<and> chunks m (a + n + 9) cs e l"

fun span :: "chunk_list \<Rightarrow> nat" where
  "span [] = 0"
| "span ((n, u) # cs) = n + 9 + span cs"

lemma span_append [simp]: "span (xs @ ys) = span xs + span ys"
  by (induction xs rule: span.induct) simp_all

lemma chunks_end: "chunks m a cs e l \<Longrightarrow> e = a + span cs"
  by (induction cs arbitrary: a rule: span.induct) fastforce+

lemma chunks_append:
  "chunks m a (xs @ ys) e l \<longleftrightarrow>
   chunks m a xs (a + span xs) (l \<and> ys = []) \<and> chunks m (a + span xs) ys e l"
  by (induction xs arbitrary: a rule: span.induct) (simp_all add: add.assoc conj_ac)

lemma chunks_cong:
  assumes "chunks m a cs e l" and "\<And>x. a \<le> x \<Longrightarrow> x < e \<Longrightarrow> m' x = m x"
  shows "chunks m' a cs e l"
  using assms
proof (induction cs arbitrary: a rule: span.induct)
  case (2 n u cs)
  have e: "a + n + 9 + span cs = e" using chunks_end [OF 2(2)] by simp
  have c: "chunk m a n u (l \<and> cs = [])" "chunks m (a + n + 9) cs e l" using 2(2) by simp_all
  have "chunk m' a n u (l \<and> cs = [])" by (rule chunk_cong [OF c(1)]) (use e 2(3) in simp_all)
  moreover have "chunks m' (a + n + 9) cs e l" by (rule 2(1) [OF c(2)]) (use 2(3) in simp)
  ultimately show ?case by simp
qed simp

text \<open>The memory of the callers: address and size of the chunks in use.\<close>

fun blocks :: "nat \<Rightarrow> chunk_list \<Rightarrow> (nat \<times> nat) list" where
  "blocks a [] = []"
| "blocks a ((n, u) # cs) = (if u then [(a + 5, n)] else []) @ blocks (a + n + 9) cs"

lemma blocks_append [simp]: "blocks a (xs @ ys) = blocks a xs @ blocks (a + span xs) ys"
  by (induction xs arbitrary: a rule: span.induct) (auto simp: add.assoc)

lemma blocks_bounds: "(b, n) \<in> set (blocks a cs) \<Longrightarrow> a + 5 \<le> b \<and> b + n + 4 \<le> a + span cs"
  by (induction cs arbitrary: a rule: span.induct) (auto split: if_splits, fastforce+)

text \<open>A heap in order. It does not reach the end of the address space and is not longer than
  2 GB, so that the size of a chunk is not negative as an \<open>int\<close>.\<close>

definition heap_ok :: "heap \<Rightarrow> mem \<Rightarrow> chunk_list \<Rightarrow> bool" where
  "heap_ok h m cs \<longleftrightarrow>
     cs \<noteq> [] \<and> 0 < unat (start h) \<and>
     chunks m (unat (start h)) cs (Suc (unat (current_top h))) True \<and>
     Suc (unat (current_top h)) < 4294967296 \<and> span cs < 2147483648"

lemma heap_okD:
  assumes "heap_ok h m cs"
  shows "unat (start h) + span cs = Suc (unat (current_top h))"
    "unat (start h) + span cs < 4294967296" "0 < unat (start h)" "span cs < 2147483648"
    "chunks m (unat (start h)) cs (unat (start h) + span cs) True"
  using assms chunks_end [of m "unat (start h)" cs _ True] by (auto simp: heap_ok_def)

text \<open>A part of the list may be replaced by chunks of the same total size.\<close>

lemma heap_ok_replace:
  assumes ok: "heap_ok h m (as @ cs @ bs)" and cs: "cs \<noteq> []" "ds \<noteq> []" "span ds = span cs"
    and p: "p = unat (start h) + span as"
    and new: "chunks m' p ds (p + span ds) (bs = [])"
    and frame: "\<And>x. x < p \<or> p + span cs \<le> x \<Longrightarrow> m' x = m x"
  shows "heap_ok h m' (as @ ds @ bs)"
proof -
  let ?a = "unat (start h)" and ?e = "Suc (unat (current_top h))"
  have c: "chunks m ?a (as @ cs @ bs) ?e True" using ok by (simp add: heap_ok_def)
  then have "chunks m ?a as p False" "chunks m (p + span cs) bs ?e True"
    using cs(1) by (simp_all only: chunks_append p simp_thms append_is_Nil_conv)
  then have "chunks m' ?a as p False" "chunks m' (p + span cs) bs ?e True"
    by (auto elim!: chunks_cong intro: frame)
  with new have "chunks m' ?a (as @ ds @ bs) ?e True"
    using cs(2,3) by (simp only: chunks_append p simp_thms append_is_Nil_conv)
  then show ?thesis using ok cs by (simp add: heap_ok_def)
qed

lemma heap_ok_replace1:
  assumes "heap_ok h m (as @ (n, u) # bs)" "p = unat (start h) + span as"
    "chunks m' p ds (p + n + 9) (bs = [])" "ds \<noteq> []" "span ds = n + 9"
    "untouched p (p + n + 9) m m'"
  shows "heap_ok h m' (as @ ds @ bs)"
  by (rule heap_ok_replace [where cs = "[(n, u)]" and m = m and p = p])
    (use assms in \<open>auto simp: add.assoc untouched_def\<close>)

text \<open>Where the chain continues after the chunks of a prefix; 0 at the end.\<close>

definition at_chunk :: "nat \<Rightarrow> chunk_list \<Rightarrow> u32" where
  "at_chunk a cs = (if cs = [] then 0 else of_nat a)"

lemma next_chunk_at:
  assumes "chunks m a ((n, u) # cs) e True" "e < 4294967296"
  shows "heap_next_chunk m (of_nat a) = at_chunk (a + n + 9) cs"
proof -
  have "a + n + 9 + span cs = e" using chunks_end [OF assms(1)] by simp
  then have "a + n + 9 < 4294967296" using assms(2) by simp
  moreover have "chunk m a n u (cs = [])" using assms(1) by simp
  ultimately show ?thesis by (simp add: chunk_access(5) at_chunk_def)
qed

lemma validate_loop_ok:
  assumes "chunks m a cs (Suc (unat (current_top h))) True" "unat (start h) \<le> a" "0 < a"
    "Suc (unat (current_top h)) < 4294967296" "span cs < 2147483648"
  shows "validate_loop h m (at_chunk a cs) = Some 0"
  using assms
proof (induction cs arbitrary: a rule: span.induct)
  case 1
  then show ?case by (simp add: at_chunk_def validate_loop.simps)
next
  case (2 n u cs)
  let ?e = "Suc (unat (current_top h))"
  have e: "a + n + 9 + span cs = ?e" using chunks_end [OF 2(2)] by simp
  have c: "chunk m a n u (cs = [])" and rest: "chunks m (a + n + 9) cs ?e True" using 2(2) by simp_all
  have small: "a + n + 9 < 4294967296" using e 2(5) by simp
  note acc = chunk_access [OF c small]
  have "\<not> of_nat a > current_top h" using e small by (simp add: word_less_nat_alt)
  moreover have "\<not> footer m (of_nat a) + 3 > current_top h"
  proof -
    have "footer m (of_nat a) + 3 = of_nat (a + n + 8)" unfolding acc(1) by simp
    then show ?thesis using e small by (simp only: word_less_nat_alt addr)
  qed
  moreover have "\<not> of_nat a < start h" using 2(3) small by (simp add: word_less_nat_alt)
  moreover have "heap_validate_chunk m (of_nat a) = 0" using acc(6) 2(4,6) by simp
  moreover have "(of_nat a :: u32) \<noteq> 0" using 2(4) small by simp
  moreover have "validate_loop h m (at_chunk (a + n + 9) cs) = Some 0"
    using 2(1) [OF rest] 2(3-6) by simp
  ultimately show ?case using next_chunk_at [OF 2(2) 2(5)]
    by (subst validate_loop.simps) (simp add: at_chunk_def)
qed

text \<open>The validation of a heap in order succeeds.\<close>

lemma heap_validate_ok:
  assumes "heap_ok h m cs"
  shows "heap_validate h m = Some 0"
proof -
  have "at_chunk (unat (start h)) cs = start h" using assms by (simp add: heap_ok_def at_chunk_def)
  then show ?thesis
    using validate_loop_ok [of m "unat (start h)" cs h] assms
    by (simp add: heap_ok_def heap_validate_def)
qed

lemma checked_ok: "heap_ok h m cs \<Longrightarrow> checked h m rest = rest"
  by (simp add: checked_def heap_validate_ok)

subsection \<open>Alignment\<close>

text \<open>
  The aligned address is the first multiple of the alignment at which a header fits below the
  address, above the header and the footer of the chunk that is split off.
\<close>

definition aligned_above :: "nat \<Rightarrow> nat \<Rightarrow> nat" where
  "aligned_above a al = (a + 13 + al) div al * al"

lemma aligned_above_bounds:
  assumes "0 < al"
  shows "a + 14 \<le> aligned_above a al" "aligned_above a al < a + 14 + al" "al dvd aligned_above a al"
proof -
  have "aligned_above a al + (a + 13 + al) mod al = a + 13 + al"
    unfolding aligned_above_def by (rule div_mult_mod_eq)
  moreover have "(a + 13 + al) mod al < al" using assms by simp
  ultimately show "a + 14 \<le> aligned_above a al" "aligned_above a al < a + 14 + al" by linarith+
  show "al dvd aligned_above a al" by (simp add: aligned_above_def)
qed

lemma multiple_below_unique:
  fixes x y al :: nat
  assumes "al dvd x" "al dvd y" "c \<le> x" "x < c + al" "c \<le> y" "y < c + al"
  shows "x = y"
proof -
  obtain i j where ij: "x = al * i" "y = al * j" using assms(1,2) by (auto elim!: dvdE)
  have "al * i < al * Suc j" "al * j < al * Suc i" using assms ij by (simp_all)
  then have "i < Suc j" "j < Suc i" by (simp_all only: mult_less_cancel1)
  then show ?thesis using ij by simp
qed

lemma align_loop_ok:
  assumes "al dvd b" "0 < al" "5 \<le> b" "b < a + 14 + al" "a + 14 + al < 4294967296"
  shows "align_loop (of_nat a) (of_nat al) (of_nat b) = Some (of_nat (aligned_above a al))"
  using assms
proof (induction "a + 14 - b" arbitrary: b rule: less_induct)
  case less
  have cmp: "(of_nat b - 5 :: u32) < of_nat a + 5 + 4 \<longleftrightarrow> b < a + 14"
  proof -
    have "(of_nat b - 5 :: u32) = of_nat (b - 5)" "(of_nat a + 5 + 4 :: u32) = of_nat (a + 9)"
      using less(4) by (simp_all add: of_nat_diff)
    then show ?thesis using less(5,6) by (simp only: addr_less) auto
  qed
  show ?case
  proof (cases "b < a + 14")
    case True
    have "al dvd b + al" "b + al < a + 14 + al" "5 \<le> b + al" using True less by simp_all
    moreover have "a + 14 - (b + al) < a + 14 - b" using True less(3) by simp
    ultimately have "align_loop (of_nat a) (of_nat al) (of_nat (b + al))
        = Some (of_nat (aligned_above a al))" using less by blast
    then show ?thesis using True cmp by (subst align_loop.simps) simp
  next
    case False
    then have "b = aligned_above a al"
      using less aligned_above_bounds [OF less(3), of a] by (intro multiple_below_unique [of al]) auto
    then show ?thesis using False cmp by (subst align_loop.simps) simp
  qed
qed

lemma heap_get_aligned_address_ok:
  assumes "0 < al" "a + 14 + al < 4294967296"
  shows "heap_get_aligned_address (of_nat a) (of_nat al) = Some (of_nat (aligned_above a al))"
proof -
  let ?b = "(a + 5) div al * al + al"
  have "(a + 5) div al * al \<le> a + 5" by (rule div_times_less_eq_dividend)
  then have small: "?b < a + 14 + al" by linarith
  have "a + 5 < ?b" using assms(1) by (metis add.commute dividend_less_times_div mult.commute mult_Suc_right)
  have "(of_nat (a + 5) :: u32) div of_nat al = of_nat ((a + 5) div al)"
    using assms by (intro addr_div) simp_all
  then have div: "(of_nat a + 5 :: u32) div of_nat al * of_nat al + of_nat al = of_nat ?b"
    by (simp del: of_nat_add add: of_nat_add [symmetric] of_nat_simps) (simp only: of_nat_add of_nat_mult)
  have "(of_nat al :: u32) \<noteq> 0" using assms by simp
  then show ?thesis
    using align_loop_ok [of al ?b a] assms small \<open>a + 5 < ?b\<close>
    by (simp add: heap_get_aligned_address_def div)
qed

subsection \<open>Taking a chunk into use\<close>

lemma heap_ok_chunk:
  assumes ok: "heap_ok h m (as @ (n, u) # bs)" and p: "p = unat (start h) + span as"
  shows "chunk m p n u (bs = [])" "p + n + 9 + span bs = Suc (unat (current_top h))"
    "p + n + 9 < 4294967296" "0 < p" "n < 2147483648"
proof -
  have "chunks m (unat (start h)) (as @ (n, u) # bs) (Suc (unat (current_top h))) True"
    using ok by (simp add: heap_ok_def)
  then show "chunk m p n u (bs = [])" by (simp add: chunks_append p)
  show "p + n + 9 + span bs = Suc (unat (current_top h))" using heap_okD(1) [OF ok] p by simp
  then show "p + n + 9 < 4294967296" using ok by (auto simp: heap_ok_def)
  show "0 < p" "n < 2147483648" using ok p by (simp_all add: heap_ok_def)
qed

lemma set_used_ok:
  assumes ok: "heap_ok h m (as @ (n, u) # bs)" and p: "p = unat (start h) + span as"
  shows "heap_ok h (set_used (of_nat p) v m) (as @ (n, v) # bs)"
    and "x \<noteq> p + 4 \<Longrightarrow> set_used (of_nat p) v m x = m x"
proof -
  note c = heap_ok_chunk [OF ok p]
  have w: "set_used (of_nat p) v m = m(p + 4 := set_bit_to 1 v (m (p + 4)))"
    using c(3) by (simp add: write_addr)
  then show "x \<noteq> p + 4 \<Longrightarrow> set_used (of_nat p) v m x = m x" by simp
  have "chunk (set_used (of_nat p) v m) p n v (bs = [])" unfolding w using c(1) by (simp add: chunk_def)
  then have "heap_ok h (set_used (of_nat p) v m) (as @ [(n, v)] @ bs)"
    by (intro heap_ok_replace1 [OF ok p]) (auto simp: w untouched_def)
  then show "heap_ok h (set_used (of_nat p) v m) (as @ (n, v) # bs)" by simp
qed

definition free_only :: "chunk_list \<Rightarrow> bool" where
  "free_only fs \<longleftrightarrow> (\<forall>c \<in> set fs. \<not> snd c)"

lemma free_only_simps [simp]:
  "free_only []" "free_only ((n, u) # fs) \<longleftrightarrow> \<not> u \<and> free_only fs"
  by (simp_all add: free_only_def)

lemma blocks_free_only: "free_only fs \<Longrightarrow> blocks a fs = []"
  by (induction fs arbitrary: a rule: span.induct) auto

text \<open>Splitting the chunk in the middle of a heap.\<close>

lemma split_in_heap:
  assumes ok: "heap_ok h m (as @ (n, u) # bs)" and p: "p = unat (start h) + span as"
    and k: "9 \<le> k" "k \<le> n"
  obtains m' where "heap_chunk_split (of_nat p) (of_nat k) m = (0, m')"
    "heap_ok h m' (as @ (k - 9, u) # (n - k, False) # bs)"
    "untouched p (p + n + 9) m m'"
proof -
  note c = heap_ok_chunk [OF ok p]
  obtain m' where m': "heap_chunk_split (of_nat p) (of_nat k) m = (0, m')"
    "chunk m' p (k - 9) u False" "chunk m' (p + k) (n - k) False (bs = [])"
    "untouched p (p + n + 9) m m'"
    using heap_chunk_split_ok [OF c(1,4,3,5) k] unfolding untouched_def by metis
  have "chunks m' p [(k - 9, u), (n - k, False)] (p + n + 9) (bs = [])" using m'(2,3) k by simp
  then have "heap_ok h m' (as @ [(k - 9, u), (n - k, False)] @ bs)"
    using m'(4) k by (intro heap_ok_replace1 [OF ok p]) simp_all
  then show thesis using that [OF m'(1) _ m'(4)] by simp
qed

lemma consume_aligned_ok:
  assumes ok: "heap_ok h m (as @ (n, False) # bs)" and p: "p = unat (start h) + span as"
    and r: "r \<le> n"
  obtains m' k fs where "consume_aligned h (of_nat p) (of_nat r) m = Some (of_nat (p + 5), m')"
    "r \<le> k" "free_only fs" "k + 9 + span fs = n + 9" "heap_ok h m' (as @ (k, True) # fs @ bs)"
    "untouched p (p + n + 9) m m'"
proof -
  note c = heap_ok_chunk [OF ok p]
  have sz: "heap_chunk_get_size m (of_nat p) = of_nat n" using chunk_access(4) [OF c(1,3)] .
  have ptr: "(of_nat p :: u32) + 5 = of_nat (p + 5)" by simp
  have cmp: "(of_nat n :: u32) > of_nat r + 8 + 5 \<longleftrightarrow> n > r + 13"
  proof -
    have "(of_nat r + 8 + 5 :: u32) = of_nat (r + 13)" by simp
    then show ?thesis using r c(5) by (simp only: addr_less)
  qed
  show thesis
  proof (cases "n > r + 13")
    case True
    have off: "(of_nat r + 5 + 4 :: u32) = of_nat (r + 9)" by simp
    obtain m1 where m1: "heap_chunk_split (of_nat p) (of_nat (r + 9)) m = (0, m1)"
      "heap_ok h m1 (as @ (r, False) # (n - (r + 9), False) # bs)"
      "untouched p (p + n + 9) m m1"
      using split_in_heap [OF ok p, of "r + 9"] True by auto
    have "consume_aligned h (of_nat p) (of_nat r) m = Some (of_nat (p + 5), set_used (of_nat p) True m1)"
      unfolding consume_aligned_def Let_def sz off m1(1) ptr using True cmp checked_ok [OF m1(2)] by simp
    moreover have "untouched p (p + n + 9) m (set_used (of_nat p) True m1)"
      using m1(3) set_used_ok(2) [OF m1(2) p] by (auto simp: untouched_def)
    ultimately show thesis
      using that [of _ r "[(n - (r + 9), False)]"] set_used_ok(1) [OF m1(2) p] True by auto
  next
    case False
    have "consume_aligned h (of_nat p) (of_nat r) m = Some (of_nat (p + 5), set_used (of_nat p) True m)"
      unfolding consume_aligned_def Let_def sz ptr using False cmp checked_ok [OF ok] by simp
    moreover have "untouched p (p + n + 9) m (set_used (of_nat p) True m)"
      using set_used_ok(2) [OF ok p] by (auto simp: untouched_def)
    ultimately show thesis using that [of _ n "[]"] set_used_ok(1) [OF ok p] r by auto
  qed
qed

lemma addr_aligned:
  assumes "0 < al" "p + 14 + al < 4294967296"
  shows "((of_nat p :: u32) + 5) mod of_nat al = 0 \<longleftrightarrow> al dvd p + 5"
proof -
  have "((of_nat p :: u32) + 5) mod of_nat al = of_nat ((p + 5) mod al)"
    using addr_mod [of "p + 5" al] assms by simp
  moreover have "(p + 5) mod al < 4294967296"
    using mod_less_divisor [OF assms(1), of "p + 5"] assms(2) by linarith
  ultimately show ?thesis by (simp add: dvd_eq_mod_eq_0)
qed

text \<open>A chunk is big enough, if need be after it has been split for the alignment.\<close>

definition suffices :: "nat \<Rightarrow> nat \<Rightarrow> nat \<Rightarrow> nat \<Rightarrow> bool" where
  "suffices p n r al \<longleftrightarrow>
     (if al dvd p + 5 then r \<le> n else aligned_above p al + r < p + 5 + n)"

lemma heap_chunk_sufficient_ok:
  assumes ok: "heap_ok h m (as @ (n, u) # bs)" and p: "p = unat (start h) + span as"
    and al: "0 < al" "Suc (unat (current_top h)) + 14 + al + r < 4294967296"
  shows "heap_chunk_sufficient m (of_nat p) (of_nat r) (of_nat al) = Some (\<not> u \<and> suffices p n r al)"
proof -
  note c = heap_ok_chunk [OF ok p]
  note acc = chunk_access [OF c(1,3)]
  have pa: "p + 14 + al < 4294967296" using c(2) al by simp
  note md = addr_aligned [OF al(1) pa]
  have "r < 4294967296" "n < 4294967296" using al c(5) by simp_all
  then have big: "(of_nat r :: u32) \<le> of_nat n \<longleftrightarrow> r \<le> n" by (simp add: addr_le)
  note ab = aligned_above_bounds [OF al(1), of p]
  have lim: "aligned_above p al + r < 4294967296" "p + 5 + n < 4294967296"
    using ab(2) al(2) c(2,3) by linarith+
  have cmp: "footer m (of_nat p) \<le> of_nat (aligned_above p al) + of_nat r
      \<longleftrightarrow> p + 5 + n \<le> aligned_above p al + r"
    unfolding acc(1) of_nat_add [symmetric] using lim by (simp only: addr_le)
  have nz: "(of_nat p :: u32) \<noteq> 0" "(of_nat al :: u32) \<noteq> 0" using c(3,4) pa al by simp_all
  show ?thesis
    unfolding heap_chunk_sufficient_def acc(3,4) md suffices_def
      heap_get_aligned_address_ok [OF al(1) pa] bind.bind_lunit cmp big
    using nz by auto
qed

lemma heap_consume_chunk_ok:
  assumes ok: "heap_ok h m (as @ (n, False) # bs)" and p: "p = unat (start h) + span as"
    and al: "0 < al" and pa: "p + 14 + al < 4294967296"
    and suf: "suffices p n r al"
  obtains q m' fs k gs where
    "heap_consume_chunk h (of_nat p) (of_nat r) (of_nat al) m = Some (of_nat q, m')"
    "al dvd q" "r \<le> k" "q = p + span fs + 5" "free_only fs" "free_only gs"
    "span fs + (k + 9) + span gs = n + 9" "heap_ok h m' (as @ fs @ (k, True) # gs @ bs)"
    "untouched p (p + n + 9) m m'"
proof -
  note c = heap_ok_chunk [OF ok p]
  note md0 = addr_aligned [OF al pa]
  have nz: "(of_nat al :: u32) \<noteq> 0" using pa al by simp
  note chk = checked_ok [OF ok]
  show thesis
  proof (cases "al dvd p + 5")
    case True
    with suf have "r \<le> n" by (simp add: suffices_def)
    from consume_aligned_ok [OF ok p this] obtain m' k fs where
      m': "consume_aligned h (of_nat p) (of_nat r) m = Some (of_nat (p + 5), m')"
      "r \<le> k" "free_only fs" "k + 9 + span fs = n + 9" "heap_ok h m' (as @ (k, True) # fs @ bs)"
      "untouched p (p + n + 9) m m'" by blast
    have run: "heap_consume_chunk h (of_nat p) (of_nat r) (of_nat al) m = Some (of_nat (p + 5), m')"
      unfolding heap_consume_chunk_def chk md0 using True nz m'(1) by (simp only: if_False simp_thms)
    show thesis
    proof (rule that [OF run True m'(2) _ _ m'(3)])
      show "p + 5 = p + span [] + 5" "free_only []" by simp_all
      show "span [] + (k + 9) + span fs = n + 9" using m'(4) by simp
      show "heap_ok h m' (as @ [] @ (k, True) # fs @ bs)" using m'(5) by simp
      show "untouched p (p + n + 9) m m'" by (rule m'(6))
    qed
  next
    case False
    define b where "b = aligned_above p al"
    have ab: "p + 14 \<le> b" "b < p + 14 + al" "al dvd b"
      using aligned_above_bounds [OF al, of p] by (simp_all add: b_def)
    from suf False have room: "b + r < p + 5 + n" by (simp add: suffices_def b_def)
    have off: "(of_nat b :: u32) - of_nat p - 5 = of_nat (b - p - 5)" "(of_nat b :: u32) - 5 = of_nat (b - 5)"
      using ab by (simp_all add: of_nat_diff)
    have k: "9 \<le> b - p - 5" "b - p - 5 \<le> n" "b - p - 5 + p + 5 = b" using ab room by simp_all
    from split_in_heap [OF ok p k(1,2)] obtain m1 where
      m1: "heap_chunk_split (of_nat p) (of_nat (b - p - 5)) m = (0, m1)"
      "heap_ok h m1 (as @ (b - p - 5 - 9, False) # (n - (b - p - 5), False) # bs)"
      "untouched p (p + n + 9) m m1" by blast
    let ?fs = "[(b - p - 5 - 9, False)]" and ?n = "n - (b - p - 5)"
    have ok1: "heap_ok h m1 ((as @ ?fs) @ (?n, False) # bs)" using m1(2) by simp
    have p1: "b - 5 = unat (start h) + span (as @ ?fs)" using p ab by simp
    have "r \<le> ?n" using room ab by simp
    from consume_aligned_ok [OF ok1 p1 this] obtain m' k fs where
      m': "consume_aligned h (of_nat (b - 5)) (of_nat r) m1 = Some (of_nat (b - 5 + 5), m')"
      "r \<le> k" "free_only fs" "k + 9 + span fs = ?n + 9"
      "heap_ok h m' ((as @ ?fs) @ (k, True) # fs @ bs)"
      "untouched (b - 5) (b - 5 + ?n + 9) m1 m'" by blast
    have "heap_consume_chunk h (of_nat p) (of_nat r) (of_nat al) m =
        consume_aligned h (of_nat (b - 5)) (of_nat r) m1"
      unfolding heap_consume_chunk_def chk heap_get_aligned_address_ok [OF al pa] b_def [symmetric]
        bind.bind_lunit off Let_def m1(1) split_conv checked_ok [OF m1(2)] md0
      using False nz by (simp only: if_False if_True simp_thms)
    moreover have "b - 5 + 5 = b" using ab by simp
    ultimately have run: "heap_consume_chunk h (of_nat p) (of_nat r) (of_nat al) m = Some (of_nat b, m')"
      using m'(1) by (simp only:)
    have frame: "untouched p (p + n + 9) m m'"
      by (rule untouched_trans [OF m1(3) m'(6)]) (use ab(1) k in linarith)+
    show thesis
    proof (rule that [OF run ab(3) m'(2) _ _ m'(3)])
      show "b = p + span ?fs + 5" using ab(1) by simp
      show "free_only ?fs" by simp
      show "span ?fs + (k + 9) + span fs = n + 9" using m'(4) ab(1) room by simp
      show "heap_ok h m' (as @ ?fs @ (k, True) # fs @ bs)" using m'(5) by simp
      show "untouched p (p + n + 9) m m'" by (rule frame)
    qed
  qed
qed

end
