(* ===== verification/Heap_Alloc.thy ===== *)
theory Heap_Alloc
  imports Heap_Chunks
begin

text \<open>
  Allocation and release on a heap in order: the search for a chunk, the extension of the heap,
  and the merging of free chunks, each as an operation on the list of chunks. The blocks of the
  callers keep their contents.
\<close>

subsection \<open>Contents of the blocks\<close>

definition same_data :: "(nat \<times> nat) list \<Rightarrow> mem \<Rightarrow> mem \<Rightarrow> bool" where
  "same_data bl m m' \<longleftrightarrow> (\<forall>(b, n) \<in> set bl. \<forall>i < n. m' (b + i) = m (b + i))"

lemma same_dataI:
  "(\<And>b n x. (b, n) \<in> set bl \<Longrightarrow> b \<le> x \<Longrightarrow> x < b + n \<Longrightarrow> m' x = m x) \<Longrightarrow> same_data bl m m'"
  by (auto simp: same_data_def)

lemma same_dataD: "same_data bl m m' \<Longrightarrow> (b, n) \<in> set bl \<Longrightarrow> b \<le> x \<Longrightarrow> x < b + n \<Longrightarrow> m' x = m x"
  unfolding same_data_def by (auto dest!: bspec spec [of _ "x - b"])

lemma untouched_same_data:
  assumes "untouched (a + span as) (a + span as + span cs) m m'"
  shows "same_data (blocks a as) m m'" "same_data (blocks (a + span as + span cs) bs) m m'"
proof -
  have "m' (b + i) = m (b + i)" if "(b, n) \<in> set (blocks a as)" "i < n" for b n i
    using untouchedD [OF assms] blocks_bounds [OF that(1)] that(2) by auto
  then show "same_data (blocks a as) m m'" by (auto simp: same_data_def)
  have "m' (b + i) = m (b + i)" if "(b, n) \<in> set (blocks (a + span as + span cs) bs)" "i < n" for b n i
    using untouchedD [OF assms] blocks_bounds [OF that(1)] that(2) by auto
  then show "same_data (blocks (a + span as + span cs) bs) m m'" by (auto simp: same_data_def)
qed

lemma same_data_append [simp]:
  "same_data (xs @ ys) m m' \<longleftrightarrow> same_data xs m m' \<and> same_data ys m m'" "same_data [] m m'"
  by (auto simp: same_data_def)

lemma same_data_trans: "same_data bl m m1 \<Longrightarrow> same_data bl m1 m2 \<Longrightarrow> same_data bl m m2"
  by (fastforce simp: same_data_def)

text \<open>Blocks are disjoint, with room for a footer and a header between them.\<close>

lemma blocks_disjoint:
  "blocks a cs = xs @ (b, n) # ys \<Longrightarrow>
   (\<forall>(c, k) \<in> set xs. c + k + 9 \<le> b) \<and> (\<forall>(c, k) \<in> set ys. b + n + 9 \<le> c)"
proof (induction cs arbitrary: a xs rule: span.induct)
  case 1
  then show ?case by simp
next
  case (2 k u cs)
  show ?case
  proof (cases u)
    case False
    then show ?thesis using 2 by auto
  next
    case True
    show ?thesis
    proof (cases xs)
      case Nil
      with 2(2) True have "b = a + 5" "n = k" "ys = blocks (a + k + 9) cs" by auto
      then show ?thesis using Nil blocks_bounds [of _ _ "a + k + 9" cs] by fastforce
    next
      case (Cons x xs')
      with 2(2) True have x: "x = (a + 5, k)" and r: "blocks (a + k + 9) cs = xs' @ (b, n) # ys" by auto
      have "(b, n) \<in> set (blocks (a + k + 9) cs)" using r by simp
      then show ?thesis using 2(1) [OF r] x Cons blocks_bounds by fastforce
    qed
  qed
qed

subsection \<open>The search\<close>

lemma find_chunk_ok:
  assumes "heap_ok h m (as @ cs)" "p = unat (start h) + span as"
    and al: "0 < al" "Suc (unat (current_top h)) + 14 + al + r < 4294967296"
  shows "find_chunk m (at_chunk p cs) (of_nat r) (of_nat al) = Some None \<or>
    (\<exists>xs n ys. cs = xs @ (n, False) # ys \<and> suffices (p + span xs) n r al \<and>
       find_chunk m (at_chunk p cs) (of_nat r) (of_nat al) = Some (Some (of_nat (p + span xs))))"
  using assms(1,2)
proof (induction cs arbitrary: as p rule: span.induct)
  case 1
  then show ?case by (simp add: at_chunk_def find_chunk.simps)
next
  case (2 n u cs)
  note c = heap_ok_chunk [OF 2(2,3)]
  note suf = heap_chunk_sufficient_ok [OF 2(2,3) al]
  have nz: "(of_nat p :: u32) \<noteq> 0" using c(3,4) by simp
  have e: "Suc (unat (current_top h)) < 4294967296" using al by simp
  have "chunks m p ((n, u) # cs) (Suc (unat (current_top h))) True"
    using 2(2,3) by (simp add: heap_ok_def chunks_append)
  note nxt = next_chunk_at [OF this e]
  show ?case
  proof (cases "\<not> u \<and> suffices p n r al")
    case True
    then have "find_chunk m (at_chunk p ((n, u) # cs)) (of_nat r) (of_nat al) = Some (Some (of_nat p))"
      using suf nz by (subst find_chunk.simps) (simp add: at_chunk_def)
    then show ?thesis using True by (intro disjI2 exI [of _ "[]"]) auto
  next
    case False
    have step: "find_chunk m (at_chunk p ((n, u) # cs)) (of_nat r) (of_nat al)
        = find_chunk m (at_chunk (p + n + 9) cs) (of_nat r) (of_nat al)"
      using suf nz False nxt by (subst find_chunk.simps) (simp add: at_chunk_def)
    have ok: "heap_ok h m ((as @ [(n, u)]) @ cs)" "p + n + 9 = unat (start h) + span (as @ [(n, u)])"
      using 2(2,3) by simp_all
    from 2(1) [OF ok] show ?thesis
    proof
      assume "find_chunk m (at_chunk (p + n + 9) cs) (of_nat r) (of_nat al) = Some None"
      then show ?thesis using step by simp
    next
      assume "\<exists>xs k ys. cs = xs @ (k, False) # ys \<and> suffices (p + n + 9 + span xs) k r al \<and>
        find_chunk m (at_chunk (p + n + 9) cs) (of_nat r) (of_nat al)
          = Some (Some (of_nat (p + n + 9 + span xs)))"
      then obtain xs k ys where "cs = xs @ (k, False) # ys" "suffices (p + n + 9 + span xs) k r al"
        "find_chunk m (at_chunk (p + n + 9) cs) (of_nat r) (of_nat al)
          = Some (Some (of_nat (p + n + 9 + span xs)))" by blast
      then show ?thesis using step
        by (intro disjI2 exI [of _ "(n, u) # xs"] exI [of _ k] exI [of _ ys]) (simp add: add.assoc)
    qed
  qed
qed

subsection \<open>Allocating from a chunk\<close>

text \<open>\<open>allocated bl q k bl'\<close>: a block of \<open>k\<close> bytes at \<open>q\<close> has been added to the blocks \<open>bl\<close>.\<close>

definition allocated :: "(nat \<times> nat) list \<Rightarrow> nat \<Rightarrow> nat \<Rightarrow> (nat \<times> nat) list \<Rightarrow> bool" where
  "allocated bl q k bl' \<longleftrightarrow> (\<exists>xs ys. bl = xs @ ys \<and> bl' = xs @ (q, k) # ys)"

lemma malloc_chunk_ok:
  assumes ok: "heap_ok h m (as @ (n, False) # bs)" and p: "p = unat (start h) + span as"
    and al: "0 < al" and pa: "p + 14 + al < 4294967296"
    and suf: "suffices p n r al"
  obtains q k m' cs where
    "malloc_chunk h (of_nat p) (of_nat r) (of_nat al) m = Some (of_nat q, m')"
    "al dvd q" "r \<le> k" "heap_ok h m' cs"
    "allocated (blocks (unat (start h)) (as @ (n, False) # bs)) q k (blocks (unat (start h)) cs)"
    "same_data (blocks (unat (start h)) (as @ (n, False) # bs)) m m'"
proof -
  obtain q m' fs k gs where
    run: "heap_consume_chunk h (of_nat p) (of_nat r) (of_nat al) m = Some (of_nat q, m')"
    and q: "al dvd q" "r \<le> k" "q = p + span fs + 5" "free_only fs" "free_only gs"
      "span fs + (k + 9) + span gs = n + 9"
    and ok': "heap_ok h m' (as @ fs @ (k, True) # gs @ bs)" and un: "untouched p (p + n + 9) m m'"
    by (rule heap_consume_chunk_ok [OF assms])
  let ?a = "unat (start h)" and ?cs = "as @ fs @ (k, True) # gs @ bs"
  have p': "p + span fs = ?a + span (as @ fs)" using p by simp
  have ok1: "heap_ok h m' ((as @ fs) @ (k, True) # gs @ bs)" using ok' by simp
  note c = heap_ok_chunk [OF ok1 p']
  have hd: "(of_nat q :: u32) - 5 = of_nat (p + span fs)" using q(3) by (simp add: of_nat_diff)
  have "\<not> (of_nat k :: u32) < of_nat r" using q(2) c(5) by (simp add: addr_less)
  then have "malloc_chunk h (of_nat p) (of_nat r) (of_nat al) m = Some (of_nat q, m')"
    unfolding malloc_chunk_def run using checked_ok [OF ok'] chunk_access(4) [OF c(1,3)]
    by (simp only: bind.bind_lunit split_conv hd if_False)
  moreover have "allocated (blocks ?a (as @ (n, False) # bs)) q k (blocks ?a ?cs)"
  proof -
    have e: "?a + span as + span fs + 5 = q" "?a + span as + span fs + k + 9 + span gs = p + n + 9"
      using q(3,6) p by linarith+
    have "blocks ?a ?cs = blocks ?a as @ (q, k) # blocks (p + n + 9) bs"
      using q(4,5) by (simp add: blocks_free_only e)
    moreover have "blocks ?a (as @ (n, False) # bs) = blocks ?a as @ blocks (p + n + 9) bs"
      using p by simp
    ultimately show ?thesis unfolding allocated_def by blast
  qed
  moreover have "same_data (blocks ?a (as @ (n, False) # bs)) m m'"
    using untouched_same_data [of ?a as "[(n, False)]" m m'] un p by (simp add: add.assoc)
  ultimately show thesis by (rule that [OF _ q(1,2) ok'])
qed

subsection \<open>Extending the heap\<close>

lemma aligned_above_mono:
  assumes "0 < al" "a \<le> b"
  shows "aligned_above a al \<le> aligned_above b al"
  unfolding aligned_above_def using assms by (intro mult_right_mono div_le_mono) simp_all

lemma extension_size_ok:
  assumes al: "0 < al" and small: "unat (current_top h) + 19 + al + r + 8 < 4294967296"
  obtains z where "extension_size h (of_nat r) (of_nat al) = Some z"
    "9 + r \<le> unat z"
    "\<And>n. 9 \<le> n \<Longrightarrow> unat z \<le> n \<Longrightarrow> suffices (Suc (unat (current_top h))) (n - 9) r al"
proof (cases "al = 1")
  case True
  have u: "unat (of_nat (r + 9) :: u32) = r + 9" using small by (intro addr) simp
  have run: "extension_size h (of_nat r) (of_nat al) = Some (of_nat (r + 9))"
    using True by (simp add: extension_size_def)
  show thesis by (rule that [OF run]) (use u True in \<open>auto simp: suffices_def simp del: of_nat_add\<close>)
next
  case False
  define t b where "t = unat (current_top h)" and "b = aligned_above (t + 5) al"
  have top: "current_top h + 5 = of_nat (t + 5)" "current_top h = of_nat t" by (simp_all add: t_def)
  have ab: "t + 19 \<le> b" "b < t + 19 + al"
    using aligned_above_bounds [OF al, of "t + 5"] by (simp_all add: b_def)
  have lim: "t + 5 + 14 + al < 4294967296" using small by (simp add: t_def)
  have one: "(of_nat al :: u32) \<noteq> 1" using False lim addr [of al] by (metis add_lessD1 add.commute unat_1)
  have z: "of_nat b - of_nat t + of_nat r + 8 = (of_nat (b - t + r + 8) :: u32)"
    using ab by (simp add: of_nat_diff)
  have "b - t + r + 8 < 4294967296" using ab small by (simp add: t_def)
  then have u: "unat (of_nat (b - t + r + 8) :: u32) = b - t + r + 8" by (rule addr)
  have run: "extension_size h (of_nat r) (of_nat al) = Some (of_nat (b - t + r + 8))"
    unfolding extension_size_def top(1) heap_get_aligned_address_ok [OF al lim] bind.bind_lunit
      b_def [symmetric] using one by (simp only: if_False top(2) z)
  show thesis
  proof (rule that [OF run])
    show "9 + r \<le> unat (of_nat (b - t + r + 8) :: u32)" unfolding u using ab by simp
    show "suffices (Suc (unat (current_top h))) (n - 9) r al"
      if "9 \<le> n" "unat (of_nat (b - t + r + 8) :: u32) \<le> n" for n
    proof -
      have "aligned_above (Suc t) al \<le> b" unfolding b_def using al by (intro aligned_above_mono) simp_all
      then show ?thesis unfolding suffices_def t_def [symmetric] using that(2) u ab(1) by auto
    qed
  qed
qed

lemma append_chunk_ok:
  assumes ok: "heap_ok h m cs" and d: "9 \<le> d" "unat new_top = unat (current_top h) + d"
    and lim: "Suc (unat new_top) < 4294967296" "span cs + d < 2147483648"
  obtains m' where "append_chunk h new_top m = (h \<lparr> current_top := new_top \<rparr>, m')"
    "heap_ok (h \<lparr> current_top := new_top \<rparr>) m' (cs @ [(d - 9, False)])"
    "same_data (blocks (unat (start h)) cs) m m'"
proof -
  obtain as n u where cs: "cs = as @ [(n, u)]" using ok by (cases cs rule: rev_cases) (auto simp: heap_ok_def)
  define a t p where "a = unat (start h)" and "t = unat (current_top h)" and "p = a + span as"
  have ok1: "heap_ok h m (as @ (n, u) # [])" using ok cs by simp
  note c = heap_ok_chunk [OF ok1 p_def [unfolded a_def]]
  have e: "p + n + 9 = Suc t" using c(2) by (simp add: t_def)
  have top: "current_top h + 1 = of_nat (Suc t)" by (simp add: t_def)
  have nt: "new_top = of_nat (Suc t + (d - 9) + 8)"
    using d lim(1) by (simp only: word_unat_eq_iff t_def addr)
  have "current_top h = of_nat (p + n + 8)" using e c(3)
    by (simp only: word_unat_eq_iff t_def addr)
  then have lst: "current_top h - 3 = of_nat (p + 5 + n)" by simp
  have ftr: "rd32 m (unat (of_nat (p + 5 + n) :: u32)) = of_nat p"
    using c(1,3) by (simp only: chunk_def addr)
  define m1 where "m1 = m(p + 4 := set_bit_to 0 False (m (p + 4)))"
  define m2 where "m2 = m1(Suc t + 4 := set_bit_to 0 True (m1 (Suc t + 4)))"
  let ?init = "heap_init_chunk (of_nat (Suc t)) (of_nat (Suc t + (d - 9) + 8))"
  have small: "p < 4294967296" "Suc t < 4294967296" "Suc t + (d - 9) + 9 < 4294967296"
    using c(3) e d lim(1) by (simp_all add: t_def)
  have run: "append_chunk h new_top m = (h \<lparr> current_top := new_top \<rparr>, ?init (?init m2))"
    unfolding append_chunk_def Let_def lst ftr top m2_def m1_def
    using small(1,2) by (simp only: write_addr nt) (simp add: nt)
  note i1 = heap_init_chunk_ok [OF small(3), where m = m2]
  note i2 = heap_init_chunk_ok [OF small(3), where m = "?init m2"]
  define m' where "m' = ?init (?init m2)"
  have "bit (m2 (Suc t + 4)) 0" by (simp add: m2_def)
  then have new: "chunk m' (Suc t) (d - 9) False True"
    using i1(1) i2(1) unfolding m'_def by (simp add: chunk_def)
  have frame: "m' x = m x" if "x < Suc t" "x \<noteq> p + 4" for x
    unfolding m'_def using that i1(2) [of x] i2(2) [of x] by (simp add: m1_def m2_def)
  have "m' (p + 4) = m1 (p + 4)"
    unfolding m'_def using i1(2) [of "p + 4"] i2(2) [of "p + 4"] e by (simp add: m2_def)
  then have old: "chunk (m') p n u False"
    using c(1) frame e rd32_cong [of p m' m] rd32_cong [of "p + 5 + n" m' m]
    by (simp add: chunk_def m1_def)
  have "chunks m a as p False" using ok1 by (simp add: heap_ok_def chunks_append a_def p_def)
  then have "chunks (m') a as p False" by (rule chunks_cong) (use frame e in simp)
  moreover have "Suc t + (d - 9) + 9 = Suc (unat new_top)" using d by (simp add: t_def)
  ultimately have "chunks (m') a (cs @ [(d - 9, False)]) (Suc (unat new_top)) True"
    using old new by (simp add: cs chunks_append p_def [symmetric] e)
  then have "heap_ok (h \<lparr> current_top := new_top \<rparr>) (m') (cs @ [(d - 9, False)])"
    using ok lim d by (simp add: heap_ok_def a_def)
  moreover have "same_data (blocks a cs) m (m')"
  proof -
    have "b + i < Suc t \<and> b + i \<noteq> p + 4" if "(b, k) \<in> set (blocks a cs)" "i < k" for b k i
      using that blocks_bounds [of b k a as] e by (auto simp: cs p_def split: if_splits)
    then show ?thesis using frame by (auto simp: same_data_def)
  qed
  ultimately show thesis using that [OF run [folded m'_def]] by (simp add: a_def)
qed

text \<open>
  What the heap expects of the function that extends it: it returns 0 or a new top with at least
  the requested number of bytes above the old one, within the address space and with a heap of
  less than 2 GB.
\<close>

definition extends :: "(u32 \<Rightarrow> u32 \<Rightarrow> u32) option \<Rightarrow> heap \<Rightarrow> bool" where
  "extends extension h \<longleftrightarrow>
     (case extension of None \<Rightarrow> True
      | Some ext \<Rightarrow> \<forall>z. ext z (current_top h) = 0 \<or>
          unat (current_top h) + unat z \<le> unat (ext z (current_top h)) \<and>
          Suc (unat (ext z (current_top h))) < 4294967296 \<and>
          unat (ext z (current_top h)) < unat (start h) + 2147483647)"

definition malloc_result ::
    "heap \<Rightarrow> mem \<Rightarrow> (nat \<times> nat) list \<Rightarrow> nat \<Rightarrow> nat \<Rightarrow> u32 \<times> heap \<times> mem \<Rightarrow> bool" where
  "malloc_result h m bl r al = (\<lambda>(ptr, h', m').
     ptr = 0 \<and> h' = h \<and> m' = m \<or>
     ptr \<noteq> 0 \<and> al dvd unat ptr \<and> start h' = start h \<and>
     (\<exists>k cs'. r \<le> k \<and> heap_ok h' m' cs' \<and> same_data bl m m' \<and>
        allocated bl (unat ptr) k (blocks (unat (start h)) cs')))"

lemma malloc_resultI:
  assumes "al dvd q" "r \<le> k" "heap_ok h' m' cs'" "start h' = start h"
    "allocated bl q k (blocks (unat (start h)) cs')" "same_data bl m m'"
  shows "malloc_result h m bl r al (of_nat q, h', m')"
proof -
  have "(q, k) \<in> set (blocks (unat (start h)) cs')" using assms(5) by (auto simp: allocated_def)
  from blocks_bounds [OF this] have "0 < q" "q < 4294967296"
    using heap_okD(2) [OF assms(3)] assms(4) by simp_all
  then show ?thesis using assms by (auto simp: malloc_result_def)
qed

lemma malloc_from_chunk:
  assumes ok: "heap_ok h m (as @ (n, False) # bs)" and al: "0 < al" and r: "0 < r"
    and small: "unat (current_top h) + 27 + al + r < 4294967296"
    and found: "suffices (unat (start h) + span as) n r al"
      "find_chunk m (start h) (of_nat r) (of_nat al) = Some (Some (of_nat (unat (start h) + span as)))"
  shows "\<exists>res. heap_malloc_aligned extension h (of_nat r) (of_nat al) m = Some res \<and>
    malloc_result h m (blocks (unat (start h)) (as @ (n, False) # bs)) r al res"
proof -
  let ?a = "unat (start h)" and ?bl = "blocks (unat (start h)) (as @ (n, False) # bs)"
  have rz: "(of_nat r :: u32) \<noteq> 0" using r small by simp
  have pa: "?a + span as + 14 + al < 4294967296" using heap_okD(1) [OF ok] small by simp
  obtain q k m' cs' where
    "malloc_chunk h (of_nat (?a + span as)) (of_nat r) (of_nat al) m = Some (of_nat q, m')"
    and q: "al dvd q" "r \<le> k" "heap_ok h m' cs'" "allocated ?bl q k (blocks ?a cs')" "same_data ?bl m m'"
    by (rule malloc_chunk_ok [OF ok refl al pa found(1)])
  then have "heap_malloc_aligned extension h (of_nat r) (of_nat al) m = Some (of_nat q, h, m')"
    unfolding heap_malloc_aligned_def found(2) using rz by simp
  moreover have "malloc_result h m ?bl r al (of_nat q, h, m')"
    by (rule malloc_resultI [OF q(1-3) refl q(4,5)])
  ultimately show ?thesis by blast
qed

lemma malloc_from_extension:
  assumes ok: "heap_ok h m cs" and al: "0 < al" and r: "0 < r"
    and small: "unat (current_top h) + 27 + al + r < 4294967296"
    and none: "find_chunk m (start h) (of_nat r) (of_nat al) = Some None"
    and z: "extension_size h (of_nat r) (of_nat al) = Some z" "9 + r \<le> unat z"
      "\<And>n. 9 \<le> n \<Longrightarrow> unat z \<le> n \<Longrightarrow> suffices (Suc (unat (current_top h))) (n - 9) r al"
    and f: "extension = Some f" "f z (current_top h) = t" "t \<noteq> 0"
    and t: "unat (current_top h) + unat z \<le> unat t" "Suc (unat t) < 4294967296"
      "unat t < unat (start h) + 2147483647"
  shows "\<exists>res. heap_malloc_aligned extension h (of_nat r) (of_nat al) m = Some res \<and>
    malloc_result h m (blocks (unat (start h)) cs) r al res"
proof -
  let ?a = "unat (start h)" and ?h = "h \<lparr> current_top := t \<rparr>"
  have rz: "(of_nat r :: u32) \<noteq> 0" using r small by simp
  define d where "d = unat t - unat (current_top h)"
  have d: "9 \<le> d" "unat t = unat (current_top h) + d" "unat z \<le> d" "span cs + d < 2147483648"
    using t z(2) heap_okD(1) [OF ok] by (simp_all add: d_def)
  obtain m1 where m1: "append_chunk h t m = (?h, m1)" "heap_ok ?h m1 (cs @ [(d - 9, False)])"
    "same_data (blocks ?a cs) m m1"
    using append_chunk_ok [OF ok d(1,2) t(2) d(4)] by blast
  have p: "Suc (unat (current_top h)) = unat (start ?h) + span cs" using heap_okD(1) [OF ok] by simp
  have pa: "Suc (unat (current_top h)) + 14 + al < 4294967296" using small by simp
  have pw: "current_top h + 1 = of_nat (Suc (unat (current_top h)))" by simp
  have same: "blocks ?a (cs @ [(d - 9, False)]) = blocks ?a cs" "start ?h = start h" by simp_all
  obtain q k m' cs' where
    run: "malloc_chunk ?h (current_top h + 1) (of_nat r) (of_nat al) m1 = Some (of_nat q, m')"
    and q: "al dvd q" "r \<le> k" "heap_ok ?h m' cs'" "allocated (blocks ?a cs) q k (blocks ?a cs')"
      "same_data (blocks ?a cs) m1 m'"
    by (rule malloc_chunk_ok [OF m1(2) p al pa z(3) [OF d(1,3)], unfolded same, folded pw])
  have "heap_malloc_aligned extension h (of_nat r) (of_nat al) m = Some (of_nat q, ?h, m')"
    unfolding heap_malloc_aligned_def none z(1) using rz f m1(1) run
    by (simp only: if_False bind.bind_lunit option.case Let_def split_conv)
  moreover have "malloc_result h m (blocks ?a cs) r al (of_nat q, ?h, m')"
    by (rule malloc_resultI [OF q(1-3) _ q(4) same_data_trans [OF m1(3) q(5)]]) simp
  ultimately show ?thesis by blast
qed

lemma heap_malloc_aligned_ok:
  assumes ok: "heap_ok h m cs" and al: "0 < al" and r: "0 < r"
    and small: "unat (current_top h) + 27 + al + r < 4294967296" and ext: "extends extension h"
  shows "\<exists>res. heap_malloc_aligned extension h (of_nat r) (of_nat al) m = Some res \<and>
    malloc_result h m (blocks (unat (start h)) cs) r al res"
proof -
  let ?a = "unat (start h)"
  have at: "at_chunk ?a cs = start h" using ok by (simp add: at_chunk_def heap_ok_def)
  have lim: "Suc (unat (current_top h)) + 14 + al + r < 4294967296" using small by simp
  consider (none) "find_chunk m (start h) (of_nat r) (of_nat al) = Some None"
    | (found) as n bs where "cs = as @ (n, False) # bs" "suffices (?a + span as) n r al"
        "find_chunk m (start h) (of_nat r) (of_nat al) = Some (Some (of_nat (?a + span as)))"
    using find_chunk_ok [of h m "[]" cs ?a, OF _ _ al lim] ok at by auto
  then show ?thesis
  proof cases
    case found
    then show ?thesis using malloc_from_chunk [OF _ al r small found(2,3)] ok by simp
  next
    case none
    have "unat (current_top h) + 19 + al + r + 8 < 4294967296" using small by simp
    from extension_size_ok [OF al this] obtain z where
      z: "extension_size h (of_nat r) (of_nat al) = Some z" "9 + r \<le> unat z"
        "\<And>n. 9 \<le> n \<Longrightarrow> unat z \<le> n \<Longrightarrow> suffices (Suc (unat (current_top h))) (n - 9) r al"
      by metis
    consider "extension = None \<or> (\<exists>f. extension = Some f \<and> f z (current_top h) = 0)"
      | f where "extension = Some f" "f z (current_top h) \<noteq> 0"
      by (cases extension) auto
    then show ?thesis
    proof cases
      case 1
      then have "heap_malloc_aligned extension h (of_nat r) (of_nat al) m = Some (0, h, m)"
        unfolding heap_malloc_aligned_def none z(1) using r small by auto
      then show ?thesis by (auto simp: malloc_result_def)
    next
      case 2
      show ?thesis
        by (rule malloc_from_extension [OF ok al r small none z 2(1) refl 2(2)])
          (use ext 2 in \<open>auto simp: extends_def\<close>)
    qed
  qed
qed

end
