(* ===== verification/Heap_Free.thy ===== *)
theory Heap_Free
  imports Heap_Alloc
begin

text \<open>
  Releasing a block: the free neighbours of the chunk are found and merged with it into one chunk.
  No byte of a block is written, not even of the one that is released.
\<close>

subsection \<open>The neighbours\<close>

lemma last_free_loop_ok:
  assumes "heap_ok h m (as @ (n, u) # fs @ bs)" "p = unat (start h) + span as"
    "free_only fs" "bs = [] \<or> snd (hd bs)"
  shows "last_free_loop m (of_nat p) = Some (of_nat (p + span (butlast ((n, u) # fs))))"
  using assms
proof (induction fs arbitrary: as n u p)
  case Nil
  have ok: "heap_ok h m (as @ (n, u) # bs)" using Nil(1) by simp
  note c = heap_ok_chunk [OF ok Nil(2)]
  show ?case
  proof (cases bs)
    case Nil
    then have "heap_next_chunk m (of_nat p) = 0" using chunk_access(5) [OF c(1,3)] by simp
    then show ?thesis by (subst last_free_loop.simps) simp
  next
    case (Cons b bs')
    obtain k where b: "b = (k, True)" using Nil(4) Cons by (cases b) simp
    have nxt: "heap_next_chunk m (of_nat p) = of_nat (p + n + 9)"
      using chunk_access(5) [OF c(1,3)] Cons by simp
    have ok1: "heap_ok h m ((as @ [(n, u)]) @ (k, True) # bs')" using ok Cons b by simp
    have p1: "p + n + 9 = unat (start h) + span (as @ [(n, u)])" using Nil(2) by simp
    note c1 = heap_ok_chunk [OF ok1 p1]
    have "used_flag m (of_nat (p + n + 9))" using chunk_access(3) [OF c1(1,3)] by simp
    then show ?thesis by (subst last_free_loop.simps) (simp only: nxt if_True butlast.simps, simp)
  qed
next
  case (Cons f fs)
  obtain k where f: "f = (k, False)" using Cons(4) by (cases f) simp
  have ok: "heap_ok h m (as @ (n, u) # (k, False) # fs @ bs)" using Cons(2) f by simp
  note c = heap_ok_chunk [OF ok Cons(3)]
  have ok1: "heap_ok h m ((as @ [(n, u)]) @ (k, False) # fs @ bs)" using ok by simp
  have p1: "p + n + 9 = unat (start h) + span (as @ [(n, u)])" using Cons(3) by simp
  note c1 = heap_ok_chunk [OF ok1 p1]
  have nxt: "heap_next_chunk m (of_nat p) = of_nat (p + n + 9)"
    using chunk_access(5) [OF c(1,3)] by simp
  have nz: "(of_nat (p + n + 9) :: u32) \<noteq> 0" using c1(3) addr_eq_0 [of "p + n + 9"] by simp
  have "\<not> used_flag m (of_nat (p + n + 9))" using chunk_access(3) [OF c1(1,3)] by simp
  then have "last_free_loop m (of_nat p) = last_free_loop m (of_nat (p + n + 9))"
    using nz by (subst last_free_loop.simps) (simp only: nxt if_False)
  also have "\<dots> = Some (of_nat (p + n + 9 + span (butlast ((k, False) # fs))))"
    using Cons(1) [OF ok1 p1] Cons(4,5) f by simp
  finally show ?case by (simp add: f add.assoc)
qed

lemma previous_chunk:
  assumes "chunk m q n u l" "q + n + 9 < 4294967296"
  shows "heap_previous_chunk m (of_nat (q + n + 9)) = of_nat q"
proof -
  have "(of_nat (q + n + 9) :: u32) - 4 = of_nat (q + 5 + n)" by simp
  moreover have "(of_nat (q + n + 9) :: u32) \<noteq> 0" "(of_nat (q + 5 + n) :: u32) \<noteq> 0"
    using assms(2) addr_eq_0 [of "q + n + 9"] addr_eq_0 [of "q + 5 + n"] by simp_all
  ultimately show ?thesis
    unfolding heap_previous_chunk_def using assms by (simp only: chunk_def addr if_False)
qed

lemma first_free_loop_ok:
  assumes "heap_ok h m (as @ gs @ (n, u) # bs)" "free_only gs" "as = [] \<or> snd (last as)"
  shows "first_free_loop h m (of_nat (unat (start h) + span as + span gs))
    = Some (of_nat (unat (start h) + span as))"
  using assms
proof (induction gs arbitrary: n u bs rule: rev_induct)
  case Nil
  let ?p = "unat (start h) + span as"
  have ok: "heap_ok h m (as @ (n, u) # bs)" using Nil(1) by simp
  note c = heap_ok_chunk [OF ok refl]
  show ?case
  proof (cases as rule: rev_cases)
    case Nil
    then show ?thesis by (subst first_free_loop.simps) simp
  next
    case (snoc xs x)
    obtain k where x: "x = (k, True)" using Nil(3) snoc by (cases x) simp
    let ?q = "unat (start h) + span xs"
    have ok1: "heap_ok h m (xs @ (k, True) # (n, u) # bs)" using ok snoc x by simp
    note c1 = heap_ok_chunk [OF ok1 refl]
    have p: "?p = ?q + k + 9" using snoc x by simp
    have "heap_previous_chunk m (of_nat ?p) = of_nat ?q"
      unfolding p by (rule previous_chunk [OF c1(1,3)])
    moreover have "used_flag m (of_nat ?q)" using chunk_access(3) [OF c1(1,3)] by simp
    moreover have "\<not> (of_nat ?p :: u32) \<le> start h"
      using c(3) p by (simp only: word_le_nat_alt addr)
    ultimately show ?thesis by (subst first_free_loop.simps) (simp only: if_True if_False span.simps, simp)
  qed
next
  case (snoc g gs)
  obtain k where g: "g = (k, False)" using snoc(3) by (cases g) (simp add: free_only_def)
  let ?q = "unat (start h) + span as + span gs"
  define p where "p = unat (start h) + span as + span (gs @ [g])"
  have p: "p = ?q + k + 9" by (simp add: p_def g)
  have ok: "heap_ok h m ((as @ gs) @ (k, False) # (n, u) # bs)" using snoc(2) g by simp
  have q: "?q = unat (start h) + span (as @ gs)" by simp
  note c = heap_ok_chunk [OF ok q]
  have prev: "heap_previous_chunk m (of_nat p) = of_nat ?q"
    unfolding p by (rule previous_chunk [OF c(1,3)])
  have "\<not> used_flag m (of_nat ?q)" using chunk_access(3) [OF c(1,3)] by simp
  moreover have "\<not> (of_nat p :: u32) \<le> start h"
    using c(3) p by (simp only: word_le_nat_alt addr)
  ultimately have "first_free_loop h m (of_nat p) = first_free_loop h m (of_nat ?q)"
    using prev by (subst first_free_loop.simps) (simp only: if_False)
  also have "\<dots> = Some (of_nat (unat (start h) + span as))"
    using snoc(1) [of k False "(n, u) # bs"] ok snoc(3,4) by (simp add: free_only_def)
  finally show ?case unfolding p_def .
qed

text \<open>A list of chunks ends, and begins, with a maximal sequence of free chunks.\<close>

lemma free_suffix:
  obtains as gs where "cs = as @ gs" "free_only gs" "as = [] \<or> snd (last as)"
proof
  let ?gs = "rev (takeWhile (\<lambda>c. \<not> snd c) (rev cs))" and ?as = "rev (dropWhile (\<lambda>c. \<not> snd c) (rev cs))"
  show "cs = ?as @ ?gs" by (simp flip: rev_append)
  show "free_only ?gs" by (auto simp: free_only_def dest: set_takeWhileD)
  show "?as = [] \<or> snd (last ?as)"
    using hd_dropWhile [of "\<lambda>c. \<not> snd c" "rev cs"] by (auto simp: last_rev)
qed

lemma free_prefix:
  obtains fs bs where "cs = fs @ bs" "free_only fs" "bs = [] \<or> snd (hd bs)"
proof
  show "cs = takeWhile (\<lambda>c. \<not> snd c) cs @ dropWhile (\<lambda>c. \<not> snd c) cs" by simp
  show "free_only (takeWhile (\<lambda>c. \<not> snd c) cs)" by (auto simp: free_only_def dest: set_takeWhileD)
  show "dropWhile (\<lambda>c. \<not> snd c) cs = [] \<or> snd (hd (dropWhile (\<lambda>c. \<not> snd c) cs))"
    using hd_dropWhile [of "\<lambda>c. \<not> snd c" cs] by auto
qed

subsection \<open>Merging\<close>

lemma merge_ok:
  assumes ok: "heap_ok h m (as @ ms @ bs)" and p: "p = unat (start h) + span as"
    and ms: "span ms = n + 9"
  defines "m' \<equiv> set_last (of_nat p) (bs = [])
    (set_used (of_nat p) False (heap_init_chunk (of_nat p) (of_nat (p + n + 8)) m))"
  shows "heap_ok h m' (as @ (n, False) # bs)"
    and "x < p \<or> p + n + 9 \<le> x \<or> p + 5 \<le> x \<and> x < p + 5 + n \<Longrightarrow> m' x = m x"
proof -
  have small: "p + n + 9 < 4294967296" using heap_okD(2) [OF ok] p ms by simp
  note i = heap_init_chunk_ok [OF small, where m = m]
  define mi where "mi = heap_init_chunk (of_nat p) (of_nat (p + n + 8)) m"
  have w: "m' = (mi(p + 4 := set_bit_to 1 False (mi (p + 4))))
      (p + 4 := set_bit_to 0 (bs = []) (set_bit_to 1 False (mi (p + 4))))"
    unfolding m'_def mi_def [symmetric] using small by (simp add: write_addr)
  have c: "chunk m' p n False (bs = [])"
    using i(1) unfolding w mi_def [symmetric] by (simp add: chunk_def)
  show frame: "m' x = m x" if "x < p \<or> p + n + 9 \<le> x \<or> p + 5 \<le> x \<and> x < p + 5 + n" for x
    using i(2) [OF that] that unfolding w mi_def [symmetric] by auto
  have "ms \<noteq> []" using ms by auto
  have "heap_ok h m' (as @ [(n, False)] @ bs)"
    by (rule heap_ok_replace [OF ok \<open>ms \<noteq> []\<close> _ _ p]) (use c frame ms in auto)
  then show "heap_ok h m' (as @ (n, False) # bs)" by simp
qed

text \<open>The chunk of a block.\<close>

lemma block_chunk:
  assumes "blocks a cs = xs @ (q, k) # ys"
  obtains as bs where "cs = as @ (k, True) # bs" "q = a + span as + 5" "xs = blocks a as"
    "ys = blocks (a + span as + k + 9) bs"
  using assms
proof (induction cs arbitrary: a xs thesis rule: span.induct)
  case 1
  then show ?case by simp
next
  case (2 n u cs)
  show ?case
  proof (cases "u \<and> xs = []")
    case True
    then show ?thesis using 2(3) by (intro 2(2) [of "[]" cs]) auto
  next
    case False
    define xs' where "xs' = (if u then tl xs else xs)"
    have "blocks (a + n + 9) cs = xs' @ (q, k) # ys" and xs: "xs = (if u then [(a + 5, n)] else []) @ xs'"
      using 2(3) False by (auto simp: xs'_def Cons_eq_append_conv split: if_splits)
    from 2(1) [OF _ this(1)] obtain as bs where
      "cs = as @ (k, True) # bs" "q = a + n + 9 + span as + 5" "xs' = blocks (a + n + 9) as"
      "ys = blocks (a + n + 9 + span as + k + 9) bs" by metis
    then show ?thesis using xs by (intro 2(2) [of "(n, u) # as" bs]) (simp_all add: add.assoc)
  qed
qed

text \<open>The bytes of the blocks are away from the headers and the footer that are written.\<close>

lemma free_frame:
  assumes "free_only gs" "free_only fs" "p = a + span as" "n = span gs + k + span fs"
    and b: "(b, j) \<in> set (blocks a ((as @ gs) @ (k, True) # fs @ bs))" "b \<le> x" "x < b + j"
  shows "x \<noteq> p + span gs + 4"
    and "x < p \<or> p + n + 9 \<le> x \<or> p + 5 \<le> x \<and> x < p + 5 + n"
proof -
  have e: "p + span gs + k + 9 + span fs = p + n + 9" using assms(4) by simp
  have "(b, j) \<in> set (blocks a as) \<or> b = p + span gs + 5 \<and> j = k \<or> (b, j) \<in> set (blocks (p + n + 9) bs)"
    using b(1) assms(1,2) by (auto simp: blocks_free_only e assms(3) [symmetric])
  then show "x \<noteq> p + span gs + 4" "x < p \<or> p + n + 9 \<le> x \<or> p + 5 \<le> x \<and> x < p + 5 + n"
    using b(2,3) assms(3,4) blocks_bounds [of b j a as] blocks_bounds [of b j "p + n + 9" bs] by auto
qed

lemma heap_free_ok:
  assumes ok: "heap_ok h m cs" and bl: "blocks (unat (start h)) cs = xs @ (q, k) # ys"
  obtains m' cs' where "heap_free h (of_nat q) m = Some m'" "heap_ok h m' cs'"
    "blocks (unat (start h)) cs' = xs @ ys" "same_data (xs @ (q, k) # ys) m m'"
proof -
  let ?a = "unat (start h)"
  obtain as0 bs0 where cs: "cs = as0 @ (k, True) # bs0" and q: "q = ?a + span as0 + 5"
    and xs: "xs = blocks ?a as0" and ys: "ys = blocks (?a + span as0 + k + 9) bs0"
    by (rule block_chunk [OF bl])
  obtain as gs where as: "as0 = as @ gs" "free_only gs" "as = [] \<or> snd (last as)" by (rule free_suffix)
  obtain fs bs where bs: "bs0 = fs @ bs" "free_only fs" "bs = [] \<or> snd (hd bs)" by (rule free_prefix)
  obtain ls n' u' where ls: "(k, False) # fs = ls @ [(n', u')]"
    by (cases "(k, False) # fs" rule: rev_cases) auto
  define p p0 l n where "p = ?a + span as" and "p0 = p + span gs" and "l = p0 + span ls"
    and "n = span gs + k + span fs"
  have hdr: "(of_nat q :: u32) - 5 = of_nat p0" using q as(1) by (simp add: p_def p0_def)
  have ln: "span ls + n' + 9 = k + 9 + span fs" using arg_cong [OF ls, of span] by simp
  have ok0: "heap_ok h m (as0 @ (k, True) # bs0)" and p0: "p0 = ?a + span as0"
    using ok cs as(1) by (simp_all add: p_def p0_def)
  define m1 where "m1 = set_used (of_nat p0) False m"
  note m1 = set_used_ok [OF ok0 p0, where v = False, folded m1_def]
  have okl: "heap_ok h m1 ((as @ gs @ ls) @ (n', u') # bs)"
  proof -
    have "as0 @ (k, False) # bs0 = as @ gs @ ((k, False) # fs) @ bs" using as(1) bs(1) by simp
    then show ?thesis using m1(1) unfolding ls by simp
  qed
  have l: "l = ?a + span (as @ gs @ ls)" by (simp add: l_def p0_def p_def)
  note cl = heap_ok_chunk [OF okl l] and al = chunk_access [OF heap_ok_chunk(1,3) [OF okl l]]
  have "last_free_loop m1 (of_nat p0) = Some (of_nat l)"
    using last_free_loop_ok [of h m1 as0 k False fs bs p0] m1(1) bs p0 ls by (simp add: l_def)
  moreover have "first_free_loop h m1 (of_nat p0) = Some (of_nat p)"
    using first_free_loop_ok [of h m1 as gs k False bs0] m1(1) as by (simp add: p_def p0_def)
  moreover have "footer m1 (of_nat l) + 3 = of_nat (p + n + 8)"
  proof -
    have "l + 5 + n' + 3 = p + n + 8" using ln by (simp add: l_def p0_def n_def)
    moreover have "footer m1 (of_nat l) + 3 = of_nat (l + 5 + n' + 3)" unfolding al(1) by simp
    ultimately show ?thesis by (simp only:)
  qed
  ultimately have run: "heap_free h (of_nat q) m = Some (set_last (of_nat p) (bs = [])
      (set_used (of_nat p) False (heap_init_chunk (of_nat p) (of_nat (p + n + 8)) m1)))"
    unfolding heap_free_def Let_def hdr m1_def [symmetric] by (simp only: bind.bind_lunit al(2))
  have okm: "heap_ok h m1 (as @ (gs @ (k, False) # fs) @ bs)" using m1(1) as(1) bs(1) by simp
  have sp: "span (gs @ (k, False) # fs) = n + 9" by (simp add: n_def)
  note mrg = merge_ok [OF okm p_def sp]
  show thesis
  proof (rule that [OF run mrg(1)])
    have "p + n + 9 = ?a + span as0 + k + 9 + span fs" by (simp add: p_def n_def as(1))
    then have "ys = blocks (p + n + 9) bs"
      unfolding ys bs(1) blocks_append blocks_free_only [OF bs(2)] by (simp only: append_Nil)
    then show "blocks ?a (as @ (n, False) # bs) = xs @ ys"
      using as(1,2) xs by (simp add: blocks_free_only p_def [symmetric])
    have "(b, j) \<in> set (blocks ?a ((as @ gs) @ (k, True) # fs @ bs))"
      if "(b, j) \<in> set (xs @ (q, k) # ys)" for b j using that bl cs as(1) bs(1) by simp
    note fr = free_frame [OF as(2) bs(2) p_def n_def this, folded p0_def]
    show "same_data (xs @ (q, k) # ys) m (set_last (of_nat p) (bs = [])
        (set_used (of_nat p) False (heap_init_chunk (of_nat p) (of_nat (p + n + 8)) m1)))"
      by (rule same_dataI) (metis fr mrg(2) m1(2))
  qed
qed

end
