(* ===== verification/Heap_Properties.thy ===== *)
theory Heap_Properties
  imports Heap_Free
begin

text \<open>
  What the heap promises its callers: an allocation that succeeds returns an aligned block that
  is disjoint from all others, releasing it restores the blocks, and neither touches the contents of
  the other blocks; callers that write inside their blocks keep the heap in order.
\<close>

subsection \<open>Helper lemmas\<close>

lemma heap_init_ok:
  assumes "0 < unat first" "unat last_addr = unat first + n + 8" "Suc (unat last_addr) < 4294967296"
    "n + 9 < 2147483648"
  obtains m' where
    "heap_init first last_addr m = Some (0, \<lparr> start = first, current_top = last_addr, validate = 0 \<rparr>, m')"
    "heap_ok \<lparr> start = first, current_top = last_addr, validate = 0 \<rparr> m' [(n, False)]"
proof -
  define a where "a = unat first"
  have w: "first = of_nat a" "last_addr = of_nat (a + n + 8)"
    using assms(2,3) by (simp_all only: word_unat_eq_iff a_def addr)
  have small: "a + n + 9 < 4294967296" using assms by (simp add: a_def)
  note i = heap_init_chunk_ok(1) [OF small, of m]
  have "chunk (set_last first True (heap_init_chunk first last_addr m)) a n False True"
    unfolding w using i small by (simp add: chunk_def write_addr)
  then have "heap_ok \<lparr> start = first, current_top = last_addr, validate = 0 \<rparr>
      (set_last first True (heap_init_chunk first last_addr m)) [(n, False)]"
    using assms by (simp add: heap_ok_def a_def)
  moreover have "heap_init first last_addr m = Some (0, \<lparr> start = first, current_top = last_addr, validate = 0 \<rparr>,
      set_last first True (heap_init_chunk first last_addr m))"
    by (simp add: heap_init_def heap_validate_def)
  ultimately show thesis using that by blast
qed

lemma allocated_disjoint:
  assumes "allocated bl q k (blocks a cs)" "(b, n) \<in> set bl"
  shows "b + n + 9 \<le> q \<or> q + k + 9 \<le> b"
proof -
  obtain xs ys where "bl = xs @ ys" "blocks a cs = xs @ (q, k) # ys" using assms(1) by (auto simp: allocated_def)
  with blocks_disjoint [OF this(2)] assms(2) show ?thesis by auto
qed

text \<open>Writes inside the blocks.\<close>

definition outside :: "(nat \<times> nat) list \<Rightarrow> nat \<Rightarrow> bool" where
  "outside bl x \<longleftrightarrow> (\<forall>(b, n) \<in> set bl. x < b \<or> b + n \<le> x)"

lemma outside_simps [simp]:
  "outside [] x" "outside ((b, n) # bl) x \<longleftrightarrow> (x < b \<or> b + n \<le> x) \<and> outside bl x"
  "outside (xs @ ys) x \<longleftrightarrow> outside xs x \<and> outside ys x"
  by (auto simp: outside_def)

lemma outside_below: "x < a + 5 \<Longrightarrow> outside (blocks a cs) x"
  using blocks_bounds by (fastforce simp: outside_def)

lemma chunks_writes:
  assumes "chunks m a cs e l" "\<And>x. a \<le> x \<Longrightarrow> outside (blocks a cs) x \<Longrightarrow> m' x = m x"
  shows "chunks m' a cs e l"
  using assms
proof (induction cs arbitrary: a rule: span.induct)
  case (2 n u cs)
  have "chunk m' a n u (l \<and> cs = [])"
  proof (rule chunk_cong)
    show "chunk m a n u (l \<and> cs = [])" using 2(2) by simp
    show "m' x = m x" if "a \<le> x" "x < a + 5" for x
      using that by (intro 2(3) outside_below)
    show "m' x = m x" if "a + 5 + n \<le> x" "x < a + 9 + n" for x
      using that outside_below [of x "a + n + 9" cs] by (intro 2(3)) simp_all
  qed
  moreover have "chunks m' (a + n + 9) cs e l"
    by (rule 2(1)) (use 2(2,3) in simp_all)
  ultimately show ?case by simp
qed simp

lemma heap_ok_writes:
  assumes "heap_ok h m cs" "\<And>x. outside (blocks (unat (start h)) cs) x \<Longrightarrow> m' x = m x"
  shows "heap_ok h m' cs"
  using assms chunks_writes [of m "unat (start h)" cs _ True m'] by (simp add: heap_ok_def)

lemma copy_bytes_eq:
  assumes "dst + n \<le> src \<or> src + n \<le> dst"
  shows "copy_bytes dst src n m x = (if dst \<le> x \<and> x < dst + n then m (src + (x - dst)) else m x)"
  using assms
proof (induction n arbitrary: x)
  case (Suc n)
  then have "copy_bytes dst src n m y = (if dst \<le> y \<and> y < dst + n then m (src + (y - dst)) else m y)" for y
    by auto
  then show ?case using Suc(2) by (auto simp: Let_def)
qed auto

lemma allocated_set: "allocated bl q k bl' \<Longrightarrow> set bl' = insert (q, k) (set bl)"
  by (auto simp: allocated_def)

lemma allocated_free:
  assumes "allocated (xs @ b # ys) q k bl"
  obtains xs' ys' where "bl = xs' @ b # ys'" "allocated (xs @ ys) q k (xs' @ ys')"
proof -
  obtain us vs where e: "xs @ b # ys = us @ vs" and bl: "bl = us @ (q, k) # vs"
    using assms by (auto simp: allocated_def)
  from e consider zs where "us = xs @ b # zs" "ys = zs @ vs" | zs where "xs = us @ zs" "vs = zs @ b # ys"
    by (auto simp: append_eq_append_conv2 Cons_eq_append_conv append_eq_Cons_conv)
  then show thesis
  proof cases
    case 1
    then have "allocated (xs @ ys) q k (xs @ zs @ (q, k) # vs)"
      unfolding allocated_def by (intro exI [of _ "xs @ zs"] exI [of _ vs]) simp
    then show thesis using that [of xs "zs @ (q, k) # vs"] 1 bl by simp
  next
    case 2
    then have "allocated (xs @ ys) q k (us @ (q, k) # zs @ ys)"
      unfolding allocated_def by (intro exI [of _ us] exI [of _ "zs @ ys"]) simp
    then show thesis using that [of "us @ (q, k) # zs" ys] 2 bl by simp
  qed
qed

text \<open>The second half of \<^verbatim>\<open>heap_realloc\<close>: the old block is released, then copied.\<close>

lemma realloc_move:
  assumes ok: "heap_ok h m cs" and al: "allocated (xs @ (q, k) # ys) q' k' (blocks (unat (start h)) cs)"
    and k: "k \<le> k'"
  obtains m2 cs' where "heap_free h (of_nat q) m = Some m2" "heap_ok h (copy_bytes q' q k m2) cs'"
    "allocated (xs @ ys) q' k' (blocks (unat (start h)) cs')"
    "same_data (xs @ ys) m (copy_bytes q' q k m2)" "\<forall>i < k. copy_bytes q' q k m2 (q' + i) = m (q + i)"
proof -
  let ?a = "unat (start h)"
  obtain xs' ys' where bl: "blocks ?a cs = xs' @ (q, k) # ys'" "allocated (xs @ ys) q' k' (xs' @ ys')"
    by (rule allocated_free [OF al])
  obtain m2 cs' where f: "heap_free h (of_nat q) m = Some m2" "heap_ok h m2 cs'"
    "blocks ?a cs' = xs' @ ys'" "same_data (xs' @ (q, k) # ys') m m2"
    by (rule heap_free_ok [OF ok bl(1)])
  have al': "allocated (xs @ ys) q' k' (blocks ?a cs')" using bl(2) f(3) by simp
  have "q + k + 9 \<le> q' \<or> q' + k' + 9 \<le> q" by (rule allocated_disjoint [OF al]) simp
  then have copy: "copy_bytes q' q k m2 x = (if q' \<le> x \<and> x < q' + k then m2 (q + (x - q')) else m2 x)" for x
    using k by (intro copy_bytes_eq) auto
  show thesis
  proof (rule that [OF f(1) _ al'])
    have "(q', k') \<in> set (blocks ?a cs')" using al' by (auto simp: allocated_def)
    then show "heap_ok h (copy_bytes q' q k m2) cs'"
      using k by (intro heap_ok_writes [OF f(2)]) (auto simp: copy outside_def)
    show "same_data (xs @ ys) m (copy_bytes q' q k m2)"
    proof (rule same_dataI)
      fix b n x assume b: "(b, n) \<in> set (xs @ ys)" "b \<le> x" "x < b + n"
      have "copy_bytes q' q k m2 x = m2 x" using allocated_disjoint [OF al' b(1)] b(2,3) k by (auto simp: copy)
      moreover have "(b, n) \<in> set (xs' @ (q, k) # ys')" using allocated_set [OF bl(2)] b(1) by auto
      then have "m2 x = m x" using same_dataD [OF f(4)] b(2,3) by blast
      ultimately show "copy_bytes q' q k m2 x = m x" by simp
    qed
    show "\<forall>i < k. copy_bytes q' q k m2 (q' + i) = m (q + i)" using f(4) by (auto simp: copy same_data_def)
  qed
qed

subsection \<open>Evaluation\<close>

text \<open>
  Congruences that evaluate the bound value of a \<open>let\<close>, a condition or a computation before
  what depends on it; with them the simplifier runs the operations on a concrete memory.
\<close>

lemma bind_weak_cong: "x = y \<Longrightarrow> Option.bind x f = Option.bind y f"
  by simp

lemmas eval_cong = if_weak_cong let_weak_cong bind_weak_cong option.case_cong_weak prod.case_cong_weak

lemmas heap_eval = heap_init_chunk_def set_last_def set_used_def set_footer_def footer_def wr32_def
  rd32_def last_flag_def used_flag_def heap_chunk_split_def heap_validate_chunk_def
  heap_chunk_get_size_def set_bit_to_def Let_def heap_get_aligned_address_def align_loop.simps
  validate_loop.simps find_chunk.simps heap_chunk_sufficient_def malloc_chunk_def
  heap_consume_chunk_def consume_aligned_def checked_def heap_validate_def heap_next_chunk_def
  heap_malloc_aligned_def heap_malloc_def

text \<open>A heap of 256 bytes.\<close>

definition demo_heap :: heap where
  "demo_heap = \<lparr> start = 4096, current_top = 4351, validate = 0 \<rparr>"

definition demo_mem :: mem where
  "demo_mem = set_last 4096 True (heap_init_chunk 4096 4351 (\<lambda>_. 0))"

lemma demo_init: "heap_init 4096 4351 (\<lambda>_. 0) = Some (0, demo_heap, demo_mem)"
  by (simp add: heap_init_def heap_validate_def demo_heap_def demo_mem_def)

lemma demo_ok: "heap_ok demo_heap demo_mem [(247, False)]"
proof -
  obtain m' where "heap_init 4096 4351 (\<lambda>_. 0) = Some (0, \<lparr> start = 4096, current_top = 4351, validate = 0 \<rparr>, m')"
    "heap_ok \<lparr> start = 4096, current_top = 4351, validate = 0 \<rparr> m' [(247, False)]"
    by (rule heap_init_ok [where first = 4096 and last_addr = 4351 and n = 247 and m = "\<lambda>_. 0"]) simp_all
  then show ?thesis by (simp add: demo_init demo_heap_def)
qed

lemma demo_start: "unat (start demo_heap) = 4096"
  by (simp add: demo_heap_def)

lemma demo_malloc: "\<exists>m'. heap_malloc_aligned None demo_heap 10 4 demo_mem = Some (4112, demo_heap, m')"
  by (simp add: demo_heap_def demo_mem_def heap_eval cong: eval_cong)

lemma demo_block:
  obtains m' cs k where "heap_malloc_aligned None demo_heap 10 4 demo_mem = Some (4112, demo_heap, m')"
    "heap_ok demo_heap m' cs" "blocks (unat (start demo_heap)) cs = [(4112, k)]" "10 \<le> k"
proof -
  obtain m' where m': "heap_malloc_aligned None demo_heap 10 4 demo_mem = Some (4112, demo_heap, m')"
    using demo_malloc by blast
  have "\<exists>res. heap_malloc_aligned None demo_heap (of_nat 10) (of_nat 4) demo_mem = Some res \<and>
      malloc_result demo_heap demo_mem (blocks (unat (start demo_heap)) [(247, False)]) 10 4 res"
    by (rule heap_malloc_aligned_ok [OF demo_ok]) (simp_all add: extends_def demo_heap_def)
  then have "malloc_result demo_heap demo_mem [] 10 4 (4112, demo_heap, m')" using m' by simp
  then show thesis using that [OF m'] by (auto simp: malloc_result_def allocated_def)
qed

subsection \<open>Properties\<close>



text \<open>
  (C35) Releasing a block returns and removes exactly this block: the heap is in order, has the
  other blocks, and no byte of a block is changed.
\<close>

theorem free_sound:
  assumes "heap_ok h m cs" "blocks (unat (start h)) cs = xs @ (unat ptr, k) # ys"
  shows "\<exists>m' cs'. heap_free h ptr m = Some m' \<and> heap_ok h m' cs' \<and>
    blocks (unat (start h)) cs' = xs @ ys \<and> same_data (xs @ (unat ptr, k) # ys) m m'"
proof -
  have "(of_nat (unat ptr) :: u32) = ptr" by simp
  then show ?thesis using heap_free_ok [OF assms] by metis
qed

theorem free_sound_witness:
  "\<exists>m cs k m' cs'. heap_ok demo_heap m cs \<and> blocks 4096 cs = [(4112, k)] \<and> 10 \<le> k \<and>
     heap_free demo_heap 4112 m = Some m' \<and> heap_ok demo_heap m' cs' \<and> blocks 4096 cs' = []"
proof -
  obtain m cs k where m: "heap_ok demo_heap m cs" "blocks (unat (start demo_heap)) cs = [(4112, k)]" "10 \<le> k"
    by (rule demo_block)
  have "blocks (unat (start demo_heap)) cs = [] @ (unat (4112 :: u32), k) # []" using m(2) by simp
  from free_sound [OF m(1) this] show ?thesis using m unfolding demo_start append_Nil by blast
qed

text \<open>
  (C7) Memory that is allocated and released again: the heap is in order, has the blocks it had
  before, and their contents are as before.
\<close>

theorem malloc_free_roundtrip:
  assumes "heap_ok h m cs" "0 < al" "0 < r" "unat (current_top h) + 27 + al + r < 4294967296"
    "extends extension h"
    and "heap_malloc_aligned extension h (of_nat r) (of_nat al) m = Some (ptr, h', m')" "ptr \<noteq> 0"
  shows "\<exists>m'' cs''. heap_free h' ptr m' = Some m'' \<and> heap_ok h' m'' cs'' \<and>
    blocks (unat (start h')) cs'' = blocks (unat (start h)) cs \<and>
    same_data (blocks (unat (start h)) cs) m m''"
proof -
  let ?bl = "blocks (unat (start h)) cs"
  have "malloc_result h m ?bl r al (ptr, h', m')"
    using heap_malloc_aligned_ok [OF assms(1-5)] assms(6) by simp
  then obtain k cs' where s: "start h' = start h" and ok: "heap_ok h' m' cs'" "same_data ?bl m m'"
    and al: "allocated ?bl (unat ptr) k (blocks (unat (start h)) cs')"
    using assms(7) by (auto simp: malloc_result_def)
  obtain xs ys where bl: "?bl = xs @ ys" "blocks (unat (start h')) cs' = xs @ (unat ptr, k) # ys"
    using al s by (auto simp: allocated_def)
  obtain m'' cs'' where f: "heap_free h' (of_nat (unat ptr)) m' = Some m''" "heap_ok h' m'' cs''"
    "blocks (unat (start h')) cs'' = xs @ ys" "same_data (xs @ (unat ptr, k) # ys) m' m''"
    by (rule heap_free_ok [OF ok(1) bl(2)])
  have "same_data ?bl m m''"
    using same_data_trans [OF ok(2)] f(4) bl(1) by (simp add: same_data_def)
  then show ?thesis using f bl(1) by auto
qed

theorem malloc_free_roundtrip_witness:
  "\<exists>m' m'' cs''. heap_malloc_aligned None demo_heap 10 4 demo_mem = Some (4112, demo_heap, m') \<and>
     heap_free demo_heap 4112 m' = Some m'' \<and> heap_ok demo_heap m'' cs'' \<and> blocks 4096 cs'' = []"
proof -
  obtain m' where "heap_malloc_aligned None demo_heap 10 4 demo_mem = Some (4112, demo_heap, m')"
    using demo_malloc by blast
  then show ?thesis using malloc_free_roundtrip [OF demo_ok, of 4 10 None 4112 demo_heap m']
    by (auto simp: extends_def demo_heap_def)
qed





text \<open>
  The size that is requested is added to addresses without a check for overflow: in a new
  heap of 256 bytes a request of 4294967288 bytes passes the test of the first chunk. The
  allocation gives the null pointer, but by then it has written to an address outside the heap and
  has destroyed the chain of chunks.
\<close>

theorem malloc_huge_corrupts:
  "\<exists>m'. heap_init 4096 4351 (\<lambda>_. 0) = Some (0, demo_heap, demo_mem) \<and>
     heap_validate (demo_heap \<lparr> validate := 1 \<rparr>) demo_mem = Some 0 \<and>
     heap_malloc None demo_heap 4294967288 demo_mem = Some (0, demo_heap, m') \<and>
     m' 16 \<noteq> demo_mem 16 \<and> heap_validate (demo_heap \<lparr> validate := 1 \<rparr>) m' \<noteq> Some 0"
proof -
  have "heap_validate (demo_heap \<lparr> validate := 1 \<rparr>) demo_mem = Some 0"
    by (simp add: demo_heap_def demo_mem_def heap_eval cong: eval_cong)
  moreover have "\<exists>m'. heap_malloc None demo_heap 4294967288 demo_mem = Some (0, demo_heap, m') \<and>
      m' 16 \<noteq> demo_mem 16 \<and> heap_validate (demo_heap \<lparr> validate := 1 \<rparr>) m' \<noteq> Some 0"
    by (simp add: demo_heap_def demo_mem_def heap_eval cong: eval_cong)
  ultimately show ?thesis using demo_init by blast
qed

end
