(* ===== verification/Net_Msg.thy ===== *)
theory Net_Msg
  imports Wire
begin

text \<open>
  Network messages (\<^verbatim>\<open>net_msg_t\<close> of \<^verbatim>\<open>include/net.h\<close> and its functions in
  \<^verbatim>\<open>kernel/net.c\<close>): a buffer with a used part between \<open>start\<close> and \<open>finish\<close> and room in front of
  it, into which the layers of the stack write their headers. Pointers into the buffer are offsets.
  Memory comes from \<^verbatim>\<open>kmalloc\<close>, which may fail and does not clear it: an argument says for
  which sizes there is memory, another is what was in the memory before.
\<close>

text \<open>A network card is known by its number; these are the fields the IP layer uses.\<close>

record nic_t =
  nic_ip_addr :: u32
  nic_ip_netmask :: u32
  ip_addr_assigned :: bool
  mtu :: int
  nic_name :: string
  hw_type :: u8

text \<open>
  A pointer to a header within a message: not set, an offset in the buffer of the message, or an
  address in the buffer of another message.
\<close>

datatype hdr_ptr = Unset | Offset nat | Foreign

record net_msg_t =
  data :: "u8 list"
  start :: nat
  finish :: nat
  nic :: "nat option"
  eth_hdr :: hdr_ptr
  arp_hdr :: hdr_ptr
  ip_hdr :: hdr_ptr
  icmp_hdr :: hdr_ptr
  tcp_hdr :: hdr_ptr
  udp_hdr :: hdr_ptr
  hw_dest :: "u8 list"
  ethertype :: u16
  ip_length :: u16
  ip_proto :: u8
  ip_dest :: u32
  ip_src :: u32
  ip_df :: int

abbreviation NET_MIN_HEADROOM :: nat where "NET_MIN_HEADROOM \<equiv> 128"

subsection \<open>Operations\<close>

definition net_msg_create :: "(nat \<Rightarrow> bool) \<Rightarrow> net_msg_t \<Rightarrow> nat \<Rightarrow> nat \<Rightarrow> net_msg_t option" where
  "net_msg_create alloc junk sz headroom =
     (if alloc sz
      then Some (junk \<lparr> data := map (byte_at (data junk)) [0..<sz], start := min headroom sz,
                        finish := min headroom sz, nic := None \<rparr>)
      else None)"

definition net_msg_new :: "(nat \<Rightarrow> bool) \<Rightarrow> net_msg_t \<Rightarrow> nat \<Rightarrow> net_msg_t option" where
  "net_msg_new alloc junk sz =
     (if alloc sz
      then Some (junk \<lparr> data := map (byte_at (data junk)) [0..<(sz + NET_MIN_HEADROOM) mod 2 ^ 32],
                        start := NET_MIN_HEADROOM, finish := NET_MIN_HEADROOM, nic := None \<rparr>)
      else None)"

text \<open>
  The headers of the clone are moved along with the buffer, except \<open>udp_hdr\<close>, which is copied and
  still points into the buffer of the original.
\<close>

definition net_msg_clone :: "bool \<Rightarrow> net_msg_t \<Rightarrow> net_msg_t option" where
  "net_msg_clone mem net_msg =
     (if mem
      then Some (net_msg \<lparr> udp_hdr := (case udp_hdr net_msg of Unset \<Rightarrow> Unset | _ \<Rightarrow> Foreign) \<rparr>)
      else None)"

definition net_msg_append :: "net_msg_t \<Rightarrow> nat \<Rightarrow> (nat \<times> net_msg_t) option" where
  "net_msg_append net_msg sz =
     (if sz > length (data net_msg) then None
      else if finish net_msg > length (data net_msg) - sz then None
      else Some (finish net_msg, net_msg \<lparr> finish := finish net_msg + sz \<rparr>))"

definition net_msg_prepend :: "net_msg_t \<Rightarrow> nat \<Rightarrow> (nat \<times> net_msg_t) option" where
  "net_msg_prepend net_msg sz =
     (if start net_msg < sz then None
      else Some (start net_msg - sz, net_msg \<lparr> start := start net_msg - sz \<rparr>))"

definition net_msg_cut_off :: "net_msg_t \<Rightarrow> nat \<Rightarrow> net_msg_t" where
  "net_msg_cut_off net_msg offset = net_msg \<lparr> finish := start net_msg + offset \<rparr>"

definition hdr_add :: "hdr_ptr \<Rightarrow> nat \<Rightarrow> hdr_ptr" where
  "hdr_add p offset = (case p of Offset n \<Rightarrow> Offset (n + offset) | _ \<Rightarrow> p)"

definition net_msg_set_eth_hdr :: "net_msg_t \<Rightarrow> nat \<Rightarrow> net_msg_t" where
  "net_msg_set_eth_hdr net_msg offset = net_msg \<lparr> eth_hdr := Offset (start net_msg + offset) \<rparr>"

definition net_msg_set_arp_hdr :: "net_msg_t \<Rightarrow> nat \<Rightarrow> net_msg_t" where
  "net_msg_set_arp_hdr net_msg offset = net_msg \<lparr> arp_hdr := hdr_add (eth_hdr net_msg) offset \<rparr>"

definition net_msg_set_ip_hdr :: "net_msg_t \<Rightarrow> nat \<Rightarrow> net_msg_t" where
  "net_msg_set_ip_hdr net_msg offset = net_msg \<lparr> ip_hdr := hdr_add (eth_hdr net_msg) offset \<rparr>"

definition net_msg_set_icmp_hdr :: "net_msg_t \<Rightarrow> nat \<Rightarrow> net_msg_t" where
  "net_msg_set_icmp_hdr net_msg offset = net_msg \<lparr> icmp_hdr := hdr_add (ip_hdr net_msg) offset \<rparr>"

definition net_msg_set_tcp_hdr :: "net_msg_t \<Rightarrow> nat \<Rightarrow> net_msg_t" where
  "net_msg_set_tcp_hdr net_msg offset = net_msg \<lparr> tcp_hdr := hdr_add (ip_hdr net_msg) offset \<rparr>"

definition net_msg_set_udp_hdr :: "net_msg_t \<Rightarrow> nat \<Rightarrow> net_msg_t" where
  "net_msg_set_udp_hdr net_msg offset = net_msg \<lparr> udp_hdr := hdr_add (ip_hdr net_msg) offset \<rparr>"

definition net_msg_get_size :: "net_msg_t \<Rightarrow> nat" where
  "net_msg_get_size net_msg = finish net_msg - start net_msg"

text \<open>A store of bytes into the buffer, and the used part of a message.\<close>

definition store :: "net_msg_t \<Rightarrow> nat \<Rightarrow> u8 list \<Rightarrow> net_msg_t" where
  "store net_msg at bs =
     net_msg \<lparr> data := take at (data net_msg) @ bs @ drop (at + length bs) (data net_msg) \<rparr>"

definition contents :: "net_msg_t \<Rightarrow> u8 list" where
  "contents net_msg = take (finish net_msg - start net_msg) (drop (start net_msg) (data net_msg))"

definition msg_ok :: "net_msg_t \<Rightarrow> bool" where
  "msg_ok m \<longleftrightarrow> start m \<le> finish m \<and> finish m \<le> length (data m)"

subsection \<open>Laws\<close>

lemma net_msg_new_SomeD:
  assumes "net_msg_new alloc junk sz = Some m" "sz + 128 < 4294967296"
  shows "msg_ok m" "contents m = []" "start m = 128" "finish m = 128" "length (data m) = sz + 128"
  using assms by (auto simp: net_msg_new_def msg_ok_def contents_def split: if_splits)

lemma length_store [simp]:
  "at + length bs \<le> length (data m) \<Longrightarrow> length (data (store m at bs)) = length (data m)"
  by (simp add: store_def)

lemma store_frame [simp]:
  "start (store m at bs) = start m" "finish (store m at bs) = finish m" "nic (store m at bs) = nic m"
  "ip_hdr (store m at bs) = ip_hdr m" "ip_src (store m at bs) = ip_src m" "ip_dest (store m at bs) = ip_dest m"
  "ip_proto (store m at bs) = ip_proto m" "ip_df (store m at bs) = ip_df m" "ip_length (store m at bs) = ip_length m"
  by (simp_all add: store_def)

text \<open>Appending bytes extends the contents, writing a header in front of it prepends them.\<close>

lemma append_store:
  assumes "msg_ok m" "net_msg_append m (length bs) = Some (at, m')"
  shows "contents (store m' at bs) = contents m @ bs" "msg_ok (store m' at bs)"
    "start (store m' at bs) = start m"
  using assms by (auto simp: net_msg_append_def msg_ok_def contents_def store_def drop_take split: if_splits)

lemma prepend_store:
  assumes "msg_ok m" "net_msg_prepend m (length bs) = Some (at, m')"
  shows "contents (store m' at bs) = bs @ contents m" "msg_ok (store m' at bs)"
proof -
  have at: "at = start m - length bs" "length bs \<le> start m" "start m' = at" "finish m' = finish m" "data m' = data m"
    using assms(2) by (auto simp: net_msg_prepend_def split: if_splits)
  then have "finish m' - start m' = length bs + (finish m - start m)" "at + length bs = start m"
    using assms(1) by (auto simp: msg_ok_def)
  then show "contents (store m' at bs) = bs @ contents m" "msg_ok (store m' at bs)"
    using at assms(1) by (auto simp: contents_def store_def msg_ok_def)
qed

end
