(* ===== verification/Ip_Reassembly.thy ===== *)
theory Ip_Reassembly
  imports Net_Msg
begin

unbundle bit_operations_syntax

text \<open>
  IP headers and the reassembly of fragments (\<^verbatim>\<open>include/ip.h\<close> and the first part of
  \<^verbatim>\<open>kernel/ip.c\<close>). As suggested in RFC 815, the list of the holes of a datagram is kept in the
  reassembly buffer itself: a hole is a structure of 8 bytes at its own first octet. The model keeps the
  buffer as bytes and the holes as offsets, so that what the code writes into the buffer can also
  damage the list. An access outside the buffer or the message is a fault.
\<close>

subsection \<open>The IP header\<close>

record ip_hdr_t =
  h_version :: u8
  h_priority :: u8
  h_length :: u16
  h_id :: u16
  h_flags :: u16
  h_ttl :: u8
  h_proto :: u8
  h_checksum :: u16
  h_src :: u32
  h_dest :: u32

abbreviation sizeof_ip_hdr :: nat where "sizeof_ip_hdr \<equiv> 20"

definition ip_hdr_bytes :: "ip_hdr_t \<Rightarrow> u8 list" where
  "ip_hdr_bytes h =
     [h_version h, h_priority h] @ st16 (h_length h) @ st16 (h_id h) @ st16 (h_flags h) @
     [h_ttl h, h_proto h] @ st16 (h_checksum h) @ st32 (h_src h) @ st32 (h_dest h)"

definition ip_hdr_of :: "u8 list \<Rightarrow> ip_hdr_t" where
  "ip_hdr_of bs =
     \<lparr> h_version = byte_at bs 0, h_priority = byte_at bs 1, h_length = ld16 bs 2, h_id = ld16 bs 4,
       h_flags = ld16 bs 6, h_ttl = byte_at bs 8, h_proto = byte_at bs 9, h_checksum = ld16 bs 10,
       h_src = ld32 bs 12, h_dest = ld32 bs 16 \<rparr>"

lemma length_ip_hdr_bytes [simp]: "length (ip_hdr_bytes h) = 20"
  by (simp add: ip_hdr_bytes_def)

lemma ip_hdr_round_trip [simp]: "ip_hdr_of (ip_hdr_bytes h @ rest) = h"
  by (simp add: ip_hdr_of_def ip_hdr_bytes_def field_simps_wire)

text \<open>Where the header of a message is, and the header.\<close>

definition ip_off :: "net_msg_t \<Rightarrow> nat" where
  "ip_off m = (case ip_hdr m of Offset n \<Rightarrow> n | _ \<Rightarrow> 0)"

abbreviation msg_ip_hdr :: "net_msg_t \<Rightarrow> ip_hdr_t" where
  "msg_ip_hdr m \<equiv> ip_hdr_of (drop (ip_off m) (data m))"

subsection \<open>Slots and holes\<close>

abbreviation IP_FRAGMENT_MAX_SIZE :: nat where "IP_FRAGMENT_MAX_SIZE \<equiv> 65515"
abbreviation HOLE_INF :: nat where "HOLE_INF \<equiv> 65514"
abbreviation NR_REASSEMBLY_SLOTS :: nat where "NR_REASSEMBLY_SLOTS \<equiv> 16"
abbreviation REASSEMBLY_TIMEOUT :: int where "REASSEMBLY_TIMEOUT \<equiv> 15"

type_synonym buf = "nat \<Rightarrow> u8"

definition rd16 :: "buf \<Rightarrow> nat \<Rightarrow> u16" where
  "rd16 b a = ucast (b a) + 256 * ucast (b (a + 1))"

definition wr16 :: "buf \<Rightarrow> nat \<Rightarrow> u16 \<Rightarrow> buf" where
  "wr16 b a w = b(a := ucast w, a + 1 := ucast (drop_bit 8 w))"

text \<open>The fields of a hole structure.\<close>

datatype hole_field = First | Last | Prev | Next

primrec field_offset :: "hole_field \<Rightarrow> nat" where
  "field_offset First = 0"
| "field_offset Last = 2"
| "field_offset Prev = 4"
| "field_offset Next = 6"

record reassembly_slot_t =
  hole_list_head :: "nat option"
  hole_list_tail :: "nat option"
  slot_src :: u32
  slot_dst :: u32
  slot_id :: u32
  slot_proto :: u8
  buffer :: buf
  payload_length :: nat
  used :: bool
  timeout :: int

definition get_field :: "reassembly_slot_t \<Rightarrow> nat \<Rightarrow> hole_field \<Rightarrow> mem_fault + nat" where
  "get_field slot hole f =
     (if hole + field_offset f + 2 \<le> IP_FRAGMENT_MAX_SIZE
      then Inr (unat (rd16 (buffer slot) (hole + field_offset f))) else Inl Read_overrun)"

definition set_field :: "nat \<Rightarrow> hole_field \<Rightarrow> nat \<Rightarrow> reassembly_slot_t \<Rightarrow> mem_fault + reassembly_slot_t" where
  "set_field hole f v slot =
     (if hole + field_offset f + 2 \<le> IP_FRAGMENT_MAX_SIZE
      then Inr (slot \<lparr> buffer := wr16 (buffer slot) (hole + field_offset f) (of_nat v) \<rparr>)
      else Inl Write_overrun)"

definition remove_hole :: "nat \<Rightarrow> reassembly_slot_t \<Rightarrow> mem_fault + reassembly_slot_t" where
  "remove_hole hole slot =
     sbind (if Some hole = hole_list_head slot then Inr None
            else sbind (get_field slot hole Prev) (\<lambda>p. Inr (Some p))) (\<lambda>prev_hole.
     sbind (if Some hole = hole_list_tail slot then Inr None
            else sbind (get_field slot hole Next) (\<lambda>n. Inr (Some n))) (\<lambda>next_hole.
     sbind (case (next_hole, prev_hole) of
              (Some n, Some p) \<Rightarrow> set_field n Prev p slot
            | _ \<Rightarrow> Inr slot) (\<lambda>slot1.
     sbind (case (prev_hole, next_hole) of
              (Some p, Some n) \<Rightarrow> set_field p Next n slot1
            | _ \<Rightarrow> Inr slot1) (\<lambda>slot2.
     Inr (slot2
       \<lparr> hole_list_head := (if Some hole = hole_list_head slot then next_hole else hole_list_head slot),
         hole_list_tail := (if Some hole = hole_list_tail slot then prev_hole else hole_list_tail slot) \<rparr>)))))"

definition add_hole :: "nat \<Rightarrow> nat \<Rightarrow> reassembly_slot_t \<Rightarrow> mem_fault + reassembly_slot_t" where
  "add_hole first last_octet slot =
     sbind (set_field first First first slot) (\<lambda>slot.
     sbind (set_field first Last last_octet slot) (\<lambda>slot.
     sbind (set_field first Prev 0 slot) (\<lambda>slot.
     case hole_list_head slot of
       Some head \<Rightarrow>
         sbind (set_field first Next head slot) (\<lambda>slot.
         sbind (set_field head Prev first slot) (\<lambda>slot.
         Inr (slot \<lparr> hole_list_head := Some first \<rparr>)))
     | None \<Rightarrow> Inr (slot \<lparr> hole_list_tail := Some first, hole_list_head := Some first \<rparr>))))"

definition init_slot :: "ip_hdr_t \<Rightarrow> reassembly_slot_t \<Rightarrow> mem_fault + reassembly_slot_t" where
  "init_slot h slot =
     add_hole 0 HOLE_INF
       (slot \<lparr> used := True, slot_dst := h_dest h, slot_src := h_src h, slot_id := ucast (h_id h),
               slot_proto := h_proto h, hole_list_tail := None, hole_list_head := None,
               payload_length := 0, timeout := REASSEMBLY_TIMEOUT \<rparr>)"

subsection \<open>Reassembly\<close>

text \<open>
  The message that is built at the end. Prepending the header cannot fail, as a new message has
  room for it, and appending the payload neither; the code asserts both.
\<close>

definition final_hdr :: "ip_hdr_t \<Rightarrow> nat \<Rightarrow> ip_hdr_t" where
  "final_hdr h n =
     (let r = h \<lparr> h_checksum := 0, h_flags := 0, h_length := ntohs (of_nat (n + sizeof_ip_hdr)) \<rparr>
      in r \<lparr> h_checksum := ntohs (net_compute_checksum (ip_hdr_bytes r) sizeof_ip_hdr) \<rparr>)"

definition build_final_msg ::
    "(nat \<Rightarrow> bool) \<Rightarrow> net_msg_t \<Rightarrow> reassembly_slot_t \<Rightarrow> ip_hdr_t \<Rightarrow> net_msg_t option" where
  "build_final_msg alloc junk slot h =
     (case net_msg_new alloc junk (payload_length slot) of
        None \<Rightarrow> None
      | Some result \<Rightarrow>
          (case net_msg_prepend result sizeof_ip_hdr of
             None \<Rightarrow> None
           | Some (at, result) \<Rightarrow>
               (let result = store result at (ip_hdr_bytes (final_hdr h (payload_length slot)))
                in case net_msg_append result (payload_length slot) of
                     None \<Rightarrow> None
                   | Some (pos, result) \<Rightarrow>
                       Some (store result pos (map (buffer slot) [0..<payload_length slot])
                         \<lparr> ip_dest := slot_dst slot, ip_src := slot_src slot, ip_hdr := Offset at,
                           ip_length := of_nat (payload_length slot), ip_proto := slot_proto slot,
                           nic := None \<rparr>))))"

text \<open>First and last octet of a fragment; the subtraction wraps.\<close>

definition frag_offset :: "ip_hdr_t \<Rightarrow> nat" where
  "frag_offset h = unat (ntohs (h_flags h) AND 0x1FFF) * 8"

definition frag_mf :: "ip_hdr_t \<Rightarrow> bool" where
  "frag_mf h \<longleftrightarrow> drop_bit 13 (ntohs (h_flags h)) AND 1 = 1"

definition frag_last :: "ip_hdr_t \<Rightarrow> nat" where
  "frag_last h = (frag_offset h + unat (ntohs (h_length h)) + (2 ^ 32 - sizeof_ip_hdr - 1)) mod 2 ^ 32"

text \<open>The copy of the payload into the buffer.\<close>

definition copy_payload :: "u8 list \<Rightarrow> nat \<Rightarrow> nat \<Rightarrow> reassembly_slot_t \<Rightarrow> mem_fault + reassembly_slot_t" where
  "copy_payload src offset n slot =
     (if n > length src then Inl Read_overrun
      else if offset + n > IP_FRAGMENT_MAX_SIZE then Inl Write_overrun
      else Inr (slot \<lparr> buffer :=
             (\<lambda>i. if offset \<le> i \<and> i < offset + n then src ! (i - offset) else buffer slot i) \<rparr>))"

text \<open>One hole: the result is the next hole and the slot.\<close>

definition visit_hole ::
    "nat \<Rightarrow> nat \<Rightarrow> bool \<Rightarrow> u8 list \<Rightarrow> nat \<Rightarrow> reassembly_slot_t \<Rightarrow> mem_fault + (nat option \<times> reassembly_slot_t)" where
  "visit_hole fragment_first fragment_last mf src hole slot =
     sbind (if Some hole \<noteq> hole_list_tail slot
            then sbind (get_field slot hole Next) (\<lambda>n. Inr (Some n)) else Inr None) (\<lambda>next.
     sbind (get_field slot hole Last) (\<lambda>hole_last.
     sbind (get_field slot hole First) (\<lambda>hole_first.
     if fragment_first > hole_last \<or> fragment_last < hole_first then Inr (next, slot)
     else
       sbind (if fragment_first > hole_first then set_field hole Last (fragment_first - 1) slot
              else remove_hole hole slot) (\<lambda>slot.
       sbind (if fragment_last < hole_last \<and> mf then add_hole (fragment_last + 1) hole_last slot
              else Inr slot) (\<lambda>slot.
       sbind (copy_payload src fragment_first ((fragment_last + 1 + (2 ^ 32 - fragment_first)) mod 2 ^ 32)
               (slot \<lparr> payload_length := max (payload_length slot) (fragment_last + 1) \<rparr>)) (\<lambda>slot.
       Inr (next, slot)))))))"

partial_function (option) visit_holes ::
    "nat \<Rightarrow> nat \<Rightarrow> bool \<Rightarrow> u8 list \<Rightarrow> nat option \<Rightarrow> reassembly_slot_t \<Rightarrow> (mem_fault + reassembly_slot_t) option" where
  "visit_holes fragment_first fragment_last mf src hole slot =
     (case hole of
        None \<Rightarrow> Some (Inr slot)
      | Some h \<Rightarrow>
          (case visit_hole fragment_first fragment_last mf src h slot of
             Inl e \<Rightarrow> Some (Inl e)
           | Inr (next, slot) \<Rightarrow> visit_holes fragment_first fragment_last mf src next slot))"

definition slot_matches :: "ip_hdr_t \<Rightarrow> reassembly_slot_t \<Rightarrow> bool" where
  "slot_matches h slot \<longleftrightarrow>
     h_dest h = slot_dst slot \<and> h_src h = slot_src slot \<and> ucast (h_id h) = slot_id slot \<and>
     h_proto h = slot_proto slot \<and> used slot"

text \<open>The search: the matching slot, or the last free one.\<close>

fun find_slot :: "ip_hdr_t \<Rightarrow> reassembly_slot_t list \<Rightarrow> nat \<Rightarrow> nat option \<Rightarrow> nat option \<times> nat option" where
  "find_slot h [] i unused = (None, unused)"
| "find_slot h (slot # slots) i unused =
     (if slot_matches h slot then (Some i, unused)
      else find_slot h slots (i + 1) (if \<not> used slot then Some i else unused))"

text \<open>
  The result is the message to be processed further, if there is one, the slots, and whether
  the argument has been destroyed.
\<close>

definition reassemble_in ::
    "(nat \<Rightarrow> bool) \<Rightarrow> net_msg_t \<Rightarrow> net_msg_t \<Rightarrow> nat \<Rightarrow> reassembly_slot_t \<Rightarrow> reassembly_slot_t list \<Rightarrow>
     (mem_fault + (net_msg_t option \<times> reassembly_slot_t list \<times> bool)) option" where
  "reassemble_in alloc junk net_msg i slot slots =
     (let h = msg_ip_hdr net_msg
      in if frag_last h > IP_FRAGMENT_MAX_SIZE - 1 then Some (Inr (None, slots[i := slot], True))
         else
           (case visit_holes (frag_offset h) (frag_last h) (frag_mf h)
                   (drop (ip_off net_msg + sizeof_ip_hdr) (data net_msg)) (hole_list_head slot) slot of
              None \<Rightarrow> None
            | Some (Inl e) \<Rightarrow> Some (Inl e)
            | Some (Inr slot) \<Rightarrow>
                if hole_list_head slot = None
                then Some (Inr (build_final_msg alloc junk (slot \<lparr> used := False \<rparr>) h,
                                slots[i := slot \<lparr> used := False \<rparr>], True))
                else Some (Inr (None, slots[i := slot], True))))"

definition ip_reassembly ::
    "(nat \<Rightarrow> bool) \<Rightarrow> net_msg_t \<Rightarrow> net_msg_t \<Rightarrow> reassembly_slot_t list \<Rightarrow>
     (mem_fault + (net_msg_t option \<times> reassembly_slot_t list \<times> bool)) option" where
  "ip_reassembly alloc junk net_msg slots =
     (let h = msg_ip_hdr net_msg
      in if \<not> frag_mf h \<and> frag_offset h = 0 then Some (Inr (Some net_msg, slots, False))
         else
           (case find_slot h slots 0 None of
              (Some i, _) \<Rightarrow> reassemble_in alloc junk net_msg i (slots ! i) slots
            | (None, None) \<Rightarrow> Some (Inr (None, slots, True))
            | (None, Some i) \<Rightarrow>
                (case init_slot h (slots ! i) of
                   Inl e \<Rightarrow> Some (Inl e)
                 | Inr slot \<Rightarrow> reassemble_in alloc junk net_msg i slot slots)))"

text \<open>The tick: slots that have waited too long are given up.\<close>

definition tick_slot :: "reassembly_slot_t \<Rightarrow> reassembly_slot_t" where
  "tick_slot slot =
     (if used slot
      then (let t = (if timeout slot > 0 then timeout slot - 1 else timeout slot)
            in slot \<lparr> timeout := t, used := t \<noteq> 0 \<rparr>)
      else slot)"

definition ip_do_tick :: "reassembly_slot_t list \<Rightarrow> reassembly_slot_t list" where
  "ip_do_tick slots = map tick_slot slots"

end
