(* ===== verification/Routing.thy ===== *)
theory Routing
  imports Net_Msg
begin

unbundle bit_operations_syntax

text \<open>
  The table of network cards (\<^verbatim>\<open>kernel/net_if.c\<close>) and the routing table (the second part of
  \<^verbatim>\<open>kernel/ip.c\<close>), which depend on each other: an interface that gets an address gets a route,
  and a route names an interface. Cards are referred to by number. Of a socket address only the IPv4
  address is kept, in network byte order as in the code.
\<close>

subsection \<open>State\<close>

record rtentry =
  rt_dst :: u32
  rt_gateway :: u32
  rt_genmask :: u32
  dev :: string
  rt_flags :: u16

record route_t =
  rt_entry :: rtentry
  rt_nic :: "nat option"

text \<open>A slot of the table of cards; \<open>has_tx\<close> says that the driver has a transmit operation.\<close>

record nic_entry_t =
  e_nic :: "nat option"
  has_tx :: bool

record net_state =
  nics :: "nat \<Rightarrow> nic_t"
  registered_nics :: "nic_entry_t list"
  routing_table :: "route_t list"

abbreviation (input) INADDR_ANY :: u32 where "INADDR_ANY \<equiv> 0"
abbreviation (input) RT_FLAGS_GW :: u16 where "RT_FLAGS_GW \<equiv> 1"
abbreviation (input) RT_FLAGS_UP :: u16 where "RT_FLAGS_UP \<equiv> 2"
abbreviation ROUTING_TABLE_ENTRIES :: nat where "ROUTING_TABLE_ENTRIES \<equiv> 256"
abbreviation NET_IF_MAX_NICS :: nat where "NET_IF_MAX_NICS \<equiv> 16"
abbreviation NET_IF_DEFAULT_MTU :: int where "NET_IF_DEFAULT_MTU \<equiv> 576"

text \<open>Equality of two names by \<^verbatim>\<open>strncmp\<close> with a limit of 4 characters.\<close>

definition same_name :: "string \<Rightarrow> string \<Rightarrow> bool" where
  "same_name a b \<longleftrightarrow>
     takeWhile (\<lambda>c. c \<noteq> CHR 0x00) (take 4 a) = takeWhile (\<lambda>c. c \<noteq> CHR 0x00) (take 4 b)"

subsection \<open>Network cards\<close>

fun first_nic :: "(nat \<Rightarrow> bool) \<Rightarrow> nic_entry_t list \<Rightarrow> nat option" where
  "first_nic P [] = None"
| "first_nic P (e # es) =
     (case e_nic e of Some n \<Rightarrow> if P n then Some n else first_nic P es | None \<Rightarrow> first_nic P es)"

definition net_if_get_nic :: "net_state \<Rightarrow> u32 \<Rightarrow> nat option" where
  "net_if_get_nic st ip_address =
     first_nic (\<lambda>n. ip_addr_assigned (nics st n) \<and> nic_ip_addr (nics st n) = ip_address) (registered_nics st)"

definition net_if_get_nic_by_name :: "net_state \<Rightarrow> string \<Rightarrow> nat option" where
  "net_if_get_nic_by_name st name =
     first_nic (\<lambda>n. same_name (nic_name (nics st n)) name) (registered_nics st)"

text \<open>The driver of a card.\<close>

definition get_ops :: "net_state \<Rightarrow> nat \<Rightarrow> bool" where
  "get_ops st n \<longleftrightarrow> (\<exists>e \<in> set (registered_nics st). e_nic e = Some n \<and> has_tx e)"

subsection \<open>The routing table\<close>

text \<open>\<^verbatim>\<open>for (i = 0; i < sizeof(u32); i++) if ((1 << i) & netmask) length++;\<close>\<close>

definition get_netmask_length :: "u32 \<Rightarrow> int" where
  "get_netmask_length netmask =
     fold (\<lambda>i len. if push_bit i 1 AND netmask \<noteq> 0 then len + 1 else len) [0..<4] 0"

definition route_considered :: "net_state \<Rightarrow> u32 \<Rightarrow> u32 \<Rightarrow> route_t \<Rightarrow> bool" where
  "route_considered st src dst r \<longleftrightarrow>
     (case rt_nic r of
        None \<Rightarrow> False
      | Some n \<Rightarrow>
          \<not> (src \<noteq> 0 \<and> (src \<noteq> nic_ip_addr (nics st n) \<or> \<not> ip_addr_assigned (nics st n))) \<and>
          rt_genmask (rt_entry r) AND dst = rt_dst (rt_entry r))"

fun best_route :: "net_state \<Rightarrow> u32 \<Rightarrow> u32 \<Rightarrow> route_t list \<Rightarrow> route_t option \<Rightarrow> int \<Rightarrow> route_t option" where
  "best_route st src dst [] best len = best"
| "best_route st src dst (r # rs) best len =
     (if route_considered st src dst r \<and> len < get_netmask_length (rt_genmask (rt_entry r))
      then best_route st src dst rs (Some r) (get_netmask_length (rt_genmask (rt_entry r)))
      else best_route st src dst rs best len)"

text \<open>The card and the next hop.\<close>

definition ip_get_route :: "net_state \<Rightarrow> u32 \<Rightarrow> u32 \<Rightarrow> (nat \<times> u32) option" where
  "ip_get_route st src dst =
     (case best_route st src dst (routing_table st) None (- 1) of
        None \<Rightarrow> None
      | Some r \<Rightarrow>
          (case rt_nic r of
             None \<Rightarrow> None
           | Some n \<Rightarrow>
               Some (n, if rt_flags (rt_entry r) AND RT_FLAGS_GW \<noteq> 0 then rt_gateway (rt_entry r) else dst)))"

definition ip_get_src_addr :: "net_state \<Rightarrow> u32 \<Rightarrow> u32" where
  "ip_get_src_addr st dst =
     (case ip_get_route st INADDR_ANY dst of None \<Rightarrow> 0 | Some (n, _) \<Rightarrow> nic_ip_addr (nics st n))"

definition ip_get_mtu :: "net_state \<Rightarrow> u32 \<Rightarrow> int" where
  "ip_get_mtu st src =
     (if src = INADDR_ANY then NET_IF_DEFAULT_MTU
      else case net_if_get_nic st src of None \<Rightarrow> - 1 | Some n \<Rightarrow> mtu (nics st n))"

text \<open>Deleting: the fields of the request are compared with those of the stored routes.\<close>

definition same_route :: "net_state \<Rightarrow> rtentry \<Rightarrow> route_t \<Rightarrow> bool" where
  "same_route st e r \<longleftrightarrow>
     (case rt_nic r of
        None \<Rightarrow> False
      | Some n \<Rightarrow>
          rt_dst e = rt_dst (rt_entry r) \<and> rt_gateway e = rt_gateway (rt_entry r) \<and>
          rt_genmask e = rt_genmask (rt_entry r) \<and> same_name (dev e) (nic_name (nics st n)))"

definition ip_del_route :: "rtentry \<Rightarrow> net_state \<Rightarrow> int \<times> net_state" where
  "ip_del_route e st =
     (case net_if_get_nic_by_name st (dev e) of
        None \<Rightarrow> (- ENODEV, st)
      | Some n \<Rightarrow>
          (0, st \<lparr> routing_table :=
                     map (\<lambda>r. if same_route st e r then r \<lparr> rt_nic := None \<rparr> else r) (routing_table st) \<rparr>))"

fun free_route :: "route_t list \<Rightarrow> nat option" where
  "free_route [] = None"
| "free_route (r # rs) = (if rt_nic r = None then Some 0 else map_option Suc (free_route rs))"

definition stored_entry :: "rtentry \<Rightarrow> rtentry" where
  "stored_entry e =
     e \<lparr> rt_dst := rt_dst e AND rt_genmask e,
         rt_gateway := (if rt_flags e AND RT_FLAGS_GW = 0 then INADDR_ANY else rt_gateway e) \<rparr>"

definition ip_add_route :: "rtentry \<Rightarrow> net_state \<Rightarrow> int \<times> net_state" where
  "ip_add_route e st =
     (case net_if_get_nic_by_name st (dev e) of
        None \<Rightarrow> (- ENODEV, st)
      | Some n \<Rightarrow>
          (let st = snd (ip_del_route e st)
           in case free_route (routing_table st) of
                None \<Rightarrow> (- ENOMEM, st)
              | Some i \<Rightarrow>
                  (0, st \<lparr> routing_table := (routing_table st)
                             [i := (routing_table st ! i) \<lparr> rt_entry := stored_entry e, rt_nic := Some n \<rparr>] \<rparr>)))"

definition ip_purge_nic :: "nat \<Rightarrow> net_state \<Rightarrow> net_state" where
  "ip_purge_nic n st =
     st \<lparr> routing_table :=
            map (\<lambda>r. if rt_nic r = Some n then r \<lparr> rt_nic := None \<rparr> else r) (routing_table st) \<rparr>"

text \<open>
  The dump of the table into an array of the caller of \<open>len\<close> bytes: an entry is copied
  if the array does not end before its first byte.
\<close>

abbreviation sizeof_rtentry :: nat where "sizeof_rtentry \<equiv> 30"

fun rtconf_entries :: "nat \<Rightarrow> route_t list \<Rightarrow> nat \<Rightarrow> rtentry list" where
  "rtconf_entries len [] count = []"
| "rtconf_entries len (r # rs) count =
     (case rt_nic r of
        None \<Rightarrow> rtconf_entries len rs count
      | Some _ \<Rightarrow>
          if count * sizeof_rtentry < len then rt_entry r # rtconf_entries len rs (count + 1) else [])"

definition ip_get_rtconf :: "net_state \<Rightarrow> nat \<Rightarrow> rtentry list \<times> nat" where
  "ip_get_rtconf st rtc_len =
     (let es = rtconf_entries rtc_len (routing_table st) 0 in (es, length es * sizeof_rtentry))"

subsection \<open>Configuration of interfaces\<close>

abbreviation (input) HW_TYPE_ETH :: u8 where "HW_TYPE_ETH \<equiv> 0"

definition nic_count :: "net_state \<Rightarrow> u8 \<Rightarrow> nat" where
  "nic_count st t =
     length (filter (\<lambda>e. case e_nic e of None \<Rightarrow> False | Some n \<Rightarrow> hw_type (nics st n) = t) (registered_nics st))"

definition set_nic_name :: "nat \<Rightarrow> net_state \<Rightarrow> int \<times> net_state" where
  "set_nic_name n st =
     (let t = hw_type (nics st n); count = nic_count st t
      in if count > 16 then (- 1, st)
         else (0, st \<lparr> nics := (nics st)(n := (nics st n)
                  \<lparr> nic_name := (if t = HW_TYPE_ETH then ''eth'' else ''net'') @ [char_of (count mod 16 + 48)] \<rparr>) \<rparr>))"

fun free_nic :: "nic_entry_t list \<Rightarrow> nat option" where
  "free_nic [] = None"
| "free_nic (e # es) = (if e_nic e = None then Some 0 else map_option Suc (free_nic es))"

definition net_if_add_nic :: "nat \<Rightarrow> bool \<Rightarrow> net_state \<Rightarrow> net_state" where
  "net_if_add_nic n tx st =
     (case set_nic_name n st of
        (rc, st) \<Rightarrow>
          if rc = - 1 then st
          else (case free_nic (registered_nics st) of
                  None \<Rightarrow> st
                | Some i \<Rightarrow> st \<lparr> registered_nics := (registered_nics st)[i := \<lparr> e_nic = Some n, has_tx = tx \<rparr>] \<rparr>))"

definition get_default_netmask :: "u32 \<Rightarrow> u32" where
  "get_default_netmask a =
     (if a AND 0x80 = 0 then 0xff
      else if a AND 0xc0 = 0x80 then 0xffff
      else if a AND 0xe0 = 0xc0 then 0xffffff
      else 0xffffffff)"

text \<open>The gateway of the route that is added for the connected network is never set: \<open>gw\<close> is what was on the stack.\<close>

definition setup_if :: "u32 \<Rightarrow> nat \<Rightarrow> u32 \<Rightarrow> u32 \<Rightarrow> net_state \<Rightarrow> int \<times> net_state" where
  "setup_if gw n addr netmask st =
     (let st = st \<lparr> nics := (nics st)(n := (nics st n)
                 \<lparr> nic_ip_addr := addr, nic_ip_netmask := netmask, ip_addr_assigned := (addr \<noteq> 0) \<rparr>) \<rparr>
      in if addr \<noteq> 0
         then ip_add_route \<lparr> rt_dst = netmask AND addr, rt_gateway = gw, rt_genmask = netmask,
                             dev = take 4 (nic_name (nics st n)), rt_flags = RT_FLAGS_UP \<rparr> st
         else (0, st))"

text \<open>An interface request: the name of the card, the family and the address.\<close>

record ifreq =
  ifrn_name :: string
  ifr_family :: nat
  ifr_addr :: u32

abbreviation (input) AF_INET :: nat where "AF_INET \<equiv> 2"

definition purge_old :: "nat \<Rightarrow> net_state \<Rightarrow> net_state" where
  "purge_old n st = (if ip_addr_assigned (nics st n) then ip_purge_nic n st else st)"

definition net_if_set_addr :: "u32 \<Rightarrow> ifreq \<Rightarrow> net_state \<Rightarrow> int \<times> net_state" where
  "net_if_set_addr gw ifr st =
     (case net_if_get_nic_by_name st (ifrn_name ifr) of
        None \<Rightarrow> (- ENODEV, st)
      | Some n \<Rightarrow>
          if ifr_family ifr \<noteq> AF_INET then (- EAFNOSUPPORT, st)
          else setup_if gw n (ifr_addr ifr) (get_default_netmask (ifr_addr ifr)) (purge_old n st))"

definition net_if_get_addr :: "net_state \<Rightarrow> ifreq \<Rightarrow> int \<times> ifreq" where
  "net_if_get_addr st ifr =
     (case net_if_get_nic_by_name st (ifrn_name ifr) of
        None \<Rightarrow> (- ENODEV, ifr)
      | Some n \<Rightarrow>
          (0, ifr \<lparr> ifr_addr := (if ip_addr_assigned (nics st n) then nic_ip_addr (nics st n) else INADDR_ANY),
                    ifr_family := AF_INET \<rparr>))"

definition net_if_set_netmask :: "u32 \<Rightarrow> ifreq \<Rightarrow> net_state \<Rightarrow> int \<times> net_state" where
  "net_if_set_netmask gw ifr st =
     (case net_if_get_nic_by_name st (ifrn_name ifr) of
        None \<Rightarrow> (- ENODEV, st)
      | Some n \<Rightarrow>
          if ifr_family ifr \<noteq> AF_INET then (- EAFNOSUPPORT, st)
          else (let st = purge_old n st
                in setup_if gw n (if ip_addr_assigned (nics st n) then nic_ip_addr (nics st n) else INADDR_ANY)
                     (ifr_addr ifr) st))"

definition net_if_get_netmask :: "net_state \<Rightarrow> ifreq \<Rightarrow> int \<times> ifreq" where
  "net_if_get_netmask st ifr =
     (case net_if_get_nic_by_name st (ifrn_name ifr) of
        None \<Rightarrow> (- ENODEV, ifr)
      | Some n \<Rightarrow>
          (0, ifr \<lparr> ifr_addr := (if ip_addr_assigned (nics st n) then nic_ip_netmask (nics st n) else INADDR_ANY),
                    ifr_family := AF_INET \<rparr>))"

definition net_if_remove_all :: "net_state \<Rightarrow> net_state" where
  "net_if_remove_all st = st \<lparr> registered_nics := map (\<lambda>e. e \<lparr> e_nic := None \<rparr>) (registered_nics st) \<rparr>"

text \<open>The list of the interfaces for a caller with an array of \<open>len\<close> bytes: name and address of each.\<close>

abbreviation sizeof_ifreq :: nat where "sizeof_ifreq \<equiv> 12"

fun ifconf_entries :: "net_state \<Rightarrow> nat \<Rightarrow> nic_entry_t list \<Rightarrow> nat \<Rightarrow> ifreq list" where
  "ifconf_entries st len [] count = []"
| "ifconf_entries st len (e # es) count =
     (case e_nic e of
        None \<Rightarrow> ifconf_entries st len es count
      | Some n \<Rightarrow>
          if count * sizeof_ifreq < len
          then \<lparr> ifrn_name = take 4 (nic_name (nics st n)), ifr_family = AF_INET,
                 ifr_addr = (if ip_addr_assigned (nics st n) then nic_ip_addr (nics st n) else INADDR_ANY) \<rparr>
               # ifconf_entries st len es (count + 1)
          else [])"

definition net_if_get_ifconf :: "net_state \<Rightarrow> nat \<Rightarrow> ifreq list \<times> nat" where
  "net_if_get_ifconf st ifc_len =
     (let rs = ifconf_entries st ifc_len (registered_nics st) 0 in (rs, length rs * sizeof_ifreq))"

subsection \<open>Lookup\<close>

abbreviation mask_length :: "route_t \<Rightarrow> int" where
  "mask_length r \<equiv> get_netmask_length (rt_genmask (rt_entry r))"

lemma netmask_length_nonneg: "get_netmask_length m \<ge> 0"
  by (simp add: get_netmask_length_def upt_rec)

lemma best_route_SomeD:
  "best_route st s d rs b len = Some r \<Longrightarrow> b = Some r \<or> r \<in> set rs \<and> route_considered st s d r"
  by (induction st s d rs b len rule: best_route.induct) (auto split: if_splits)

text \<open>Among the routes that are considered, one with the greatest mask length is taken.\<close>

lemma best_route_max:
  assumes "len = (case b of None \<Rightarrow> - 1 | Some r \<Rightarrow> mask_length r)"
    and "x \<in> set rs \<and> route_considered st s d x \<or> b = Some x"
  shows "\<exists>r. best_route st s d rs b len = Some r \<and> mask_length x \<le> mask_length r"
  using assms
proof (induction st s d rs b len arbitrary: x rule: best_route.induct)
  case (2 st s d r rs b len)
  show ?case
  proof (cases "route_considered st s d r \<and> len < mask_length r")
    case True
    note IH = 2(1) [OF True]
    from 2(4) consider "x = r" | "x \<in> set rs" "route_considered st s d x" | "b = Some x" by auto
    then show ?thesis
    proof cases
      case 3
      then have "mask_length x \<le> mask_length r" using True 2(3) by simp
      moreover obtain r' where "best_route st s d rs (Some r) (mask_length r) = Some r'" "mask_length r \<le> mask_length r'"
        using IH [of r] by auto
      ultimately show ?thesis using True by auto
    qed (use IH True in auto)
  next
    case False
    note IH = 2(2) [OF False 2(3)]
    from 2(4) consider "x = r" "route_considered st s d r" | "x \<in> set rs" "route_considered st s d x" | "b = Some x" by auto
    then show ?thesis
    proof cases
      case 1
      then have le: "mask_length x \<le> len" using False by auto
      then obtain y where y: "b = Some y" using 2(3) netmask_length_nonneg [of "rt_genmask (rt_entry x)"] by (cases b) auto
      then show ?thesis using IH [of y] le 2(3) False by auto
    qed (use IH False in auto)
  qed
qed auto

lemma ip_get_route_SomeD:
  assumes "ip_get_route st s d = Some (n, hop)"
  obtains r where "r \<in> set (routing_table st)" "route_considered st s d r" "rt_nic r = Some n"
    "hop = (if rt_flags (rt_entry r) AND RT_FLAGS_GW \<noteq> 0 then rt_gateway (rt_entry r) else d)"
    "\<forall>x \<in> set (routing_table st). route_considered st s d x \<longrightarrow> mask_length x \<le> mask_length r"
proof -
  obtain r where r: "best_route st s d (routing_table st) None (- 1) = Some r" "rt_nic r = Some n"
    "hop = (if rt_flags (rt_entry r) AND RT_FLAGS_GW \<noteq> 0 then rt_gateway (rt_entry r) else d)"
    using assms by (auto simp: ip_get_route_def split: option.splits)
  have "\<forall>x \<in> set (routing_table st). route_considered st s d x \<longrightarrow> mask_length x \<le> mask_length r"
    using best_route_max [of "- 1" None _ "routing_table st" st s d] r(1) by fastforce
  then show thesis using that best_route_SomeD [OF r(1)] r(2,3) by auto
qed

lemma ip_get_route_None: "ip_get_route st s d = None \<longleftrightarrow> (\<forall>r \<in> set (routing_table st). \<not> route_considered st s d r)"
proof
  assume none: "ip_get_route st s d = None"
  show "\<forall>r \<in> set (routing_table st). \<not> route_considered st s d r"
  proof (intro ballI notI)
    fix x assume "x \<in> set (routing_table st)" "route_considered st s d x"
    then obtain r where r: "best_route st s d (routing_table st) None (- 1) = Some r"
      using best_route_max [of "- 1" None x "routing_table st" st s d] by auto
    then have "route_considered st s d r" using best_route_SomeD by fastforce
    then show False using r none by (auto simp: ip_get_route_def route_considered_def split: option.splits)
  qed
next
  assume "\<forall>r \<in> set (routing_table st). \<not> route_considered st s d r"
  then show "ip_get_route st s d = None"
    using best_route_SomeD [of st s d "routing_table st" None "- 1"]
    by (auto simp: ip_get_route_def split: option.splits)
qed

text \<open>Masks of at least four bits all count as four, so that the first route is taken.\<close>

lemma netmask_length_four: "m AND 0xF = 0xF \<Longrightarrow> get_netmask_length m = 4"
proof -
  assume m: "m AND 0xF = 0xF"
  have nz: "push_bit i 1 AND m \<noteq> 0" if "i < 4" for i
  proof -
    have "bit (m AND 0xF) i" using that m by (auto simp: less_Suc_eq numeral_eq_Suc)
    then have "bit (push_bit i 1 AND m) i" using that by (simp add: bit_simps)
    then show ?thesis by auto
  qed
  show ?thesis using nz [of 0] nz [of 1] nz [of 2] nz [of 3] by (simp add: get_netmask_length_def upt_rec)
qed

lemma best_route_keeps:
  "(\<forall>r \<in> set rs. mask_length r = 4) \<Longrightarrow> best_route st s d rs (Some b) 4 = Some b"
  by (induction rs) auto

lemma best_route_first:
  "(\<forall>r \<in> set rs. mask_length r = 4) \<Longrightarrow>
   best_route st s d rs None (- 1) = List.find (route_considered st s d) rs"
  by (induction rs) (auto simp: best_route_keeps)

subsection \<open>Adding and deleting\<close>

lemma free_route_SomeD: "free_route rs = Some i \<Longrightarrow> i < length rs \<and> rt_nic (rs ! i) = None"
  by (induction rs arbitrary: i) (auto split: if_splits)

lemma free_route_None: "free_route rs = None \<longleftrightarrow> (\<forall>r \<in> set rs. rt_nic r \<noteq> None)"
  by (induction rs) auto

lemma ip_del_route_frame [simp]:
  "nics (snd (ip_del_route e st)) = nics st" "registered_nics (snd (ip_del_route e st)) = registered_nics st"
  "length (routing_table (snd (ip_del_route e st))) = length (routing_table st)"
  by (simp_all add: ip_del_route_def split: option.splits)

lemma ip_add_route_ok:
  assumes "ip_add_route e st = (0, st')"
  obtains n i where "net_if_get_nic_by_name st (dev e) = Some n" "i < length (routing_table st)"
    "routing_table st' = (routing_table (snd (ip_del_route e st)))[i := routing_table st' ! i]"
    "rt_entry (routing_table st' ! i) = stored_entry e" "rt_nic (routing_table st' ! i) = Some n"
    "nics st' = nics st" "registered_nics st' = registered_nics st"
proof -
  obtain n where n: "net_if_get_nic_by_name st (dev e) = Some n"
    using assms by (auto simp: ip_add_route_def split: option.splits)
  let ?st = "snd (ip_del_route e st)"
  obtain i where i: "free_route (routing_table ?st) = Some i"
    using assms n by (auto simp: ip_add_route_def Let_def split: option.splits)
  have l: "i < length (routing_table st)" using free_route_SomeD [OF i] by simp
  have st': "st' = ?st \<lparr> routing_table := (routing_table ?st)[i := (routing_table ?st ! i) \<lparr> rt_entry := stored_entry e, rt_nic := Some n \<rparr>] \<rparr>"
    using assms n i by (simp add: ip_add_route_def Let_def)
  show thesis using that [OF n l] l by (simp add: st')
qed

subsection \<open>Interfaces\<close>

lemma first_nic_SomeD: "first_nic P es = Some n \<Longrightarrow> P n"
  by (induction es) (auto split: option.splits if_splits)

text \<open>A card is found again under its own name.\<close>

lemma nic_by_own_name:
  assumes "net_if_get_nic_by_name st name = Some n"
  shows "net_if_get_nic_by_name st (take 4 (nic_name (nics st n))) = Some n"
proof -
  have "same_name (nic_name (nics st n)) name"
    using assms first_nic_SomeD unfolding net_if_get_nic_by_name_def by fastforce
  then have "same_name x (take 4 (nic_name (nics st n))) \<longleftrightarrow> same_name x name" for x by (simp add: same_name_def)
  then show ?thesis using assms unfolding net_if_get_nic_by_name_def by simp
qed

lemma ip_add_route_members:
  assumes "ip_add_route e st = (0, st')" "r \<in> set (routing_table st')"
  shows "r \<in> set (routing_table st) \<or> rt_nic r = None \<or>
    rt_entry r = stored_entry e \<and> rt_nic r = net_if_get_nic_by_name st (dev e)"
proof -
  obtain n i where i: "net_if_get_nic_by_name st (dev e) = Some n" "i < length (routing_table st)"
    "routing_table st' = (routing_table (snd (ip_del_route e st)))[i := routing_table st' ! i]"
    "rt_entry (routing_table st' ! i) = stored_entry e" "rt_nic (routing_table st' ! i) = Some n"
    by (rule ip_add_route_ok [OF assms(1)])
  then have "r \<in> insert (routing_table st' ! i) (set (routing_table (snd (ip_del_route e st))))"
    using assms(2) by (metis set_update_subset_insert subsetD)
  then consider "r = routing_table st' ! i" | "r \<in> set (routing_table (snd (ip_del_route e st)))" by auto
  then show ?thesis
  proof cases
    case 2
    then show ?thesis by (auto simp: ip_del_route_def i(1) split: if_splits)
  qed (use i in simp)
qed

lemma ip_add_route_present:
  assumes "ip_add_route e st = (0, st')"
  obtains r where "r \<in> set (routing_table st')" "rt_entry r = stored_entry e" "rt_nic r = net_if_get_nic_by_name st (dev e)"
proof -
  obtain n i where "net_if_get_nic_by_name st (dev e) = Some n" "i < length (routing_table st)"
    "routing_table st' = (routing_table (snd (ip_del_route e st)))[i := routing_table st' ! i]"
    "rt_entry (routing_table st' ! i) = stored_entry e" "rt_nic (routing_table st' ! i) = Some n"
    by (rule ip_add_route_ok [OF assms])
  then show thesis by (metis that ip_del_route_frame(3) length_list_update nth_mem)
qed

text \<open>If all routes that are considered agree, their route is taken.\<close>

lemma ip_get_route_unique:
  assumes "r \<in> set (routing_table st)" "route_considered st s d r"
    and "\<forall>x \<in> set (routing_table st). route_considered st s d x \<longrightarrow>
      rt_nic x = Some n \<and> (if rt_flags (rt_entry x) AND RT_FLAGS_GW \<noteq> 0 then rt_gateway (rt_entry x) else d) = hop"
  shows "ip_get_route st s d = Some (n, hop)"
proof (cases "ip_get_route st s d")
  case None
  then show ?thesis using assms(1,2) ip_get_route_None [of st s d] by auto
next
  case (Some p)
  obtain k h where p: "p = (k, h)" by fastforce
  from Some p obtain x where "x \<in> set (routing_table st)" "route_considered st s d x" "rt_nic x = Some k"
    "h = (if rt_flags (rt_entry x) AND RT_FLAGS_GW \<noteq> 0 then rt_gateway (rt_entry x) else d)"
    by (auto elim: ip_get_route_SomeD)
  then show ?thesis using assms(3) Some p by auto
qed

lemma set_addr_route:
  fixes ifr :: ifreq
  defines "a \<equiv> ifr_addr ifr"
  assumes set: "net_if_set_addr gw ifr st = (0, st')" and a: "a \<noteq> 0"
    and n: "net_if_get_nic_by_name st (ifrn_name ifr) = Some n"
    and unique: "\<forall>k. k \<noteq> n \<longrightarrow> \<not> (ip_addr_assigned (nics st k) \<and> nic_ip_addr (nics st k) = a)"
    and fresh: "ip_addr_assigned (nics st n) \<or> (\<forall>r \<in> set (routing_table st). rt_nic r \<noteq> Some n)"
    and d: "get_default_netmask a AND d = get_default_netmask a AND a"
  shows "ip_get_route st' a d = Some (n, d)" "nic_ip_addr (nics st' n) = a"
proof -
  define st1 where "st1 = (purge_old n st) \<lparr> nics := (nics st)(n := (nics st n)
      \<lparr> nic_ip_addr := a, nic_ip_netmask := get_default_netmask a, ip_addr_assigned := True \<rparr>) \<rparr>"
  define e where "e = \<lparr> rt_dst = get_default_netmask a AND a, rt_gateway = gw, rt_genmask = get_default_netmask a,
      dev = take 4 (nic_name (nics st n)), rt_flags = RT_FLAGS_UP \<rparr>"
  have nn: "nics (purge_old n st) = nics st" "registered_nics (purge_old n st) = registered_nics st"
    by (simp_all add: purge_old_def ip_purge_nic_def)
  have add: "ip_add_route e st1 = (0, st')"
    using set n a nn by (simp add: net_if_set_addr_def setup_if_def e_def st1_def a_def split: if_splits)
  have "same_name (nic_name (nics st1 k)) x = same_name (nic_name (nics st k)) x" for k x by (simp add: st1_def)
  then have by_name: "net_if_get_nic_by_name st1 (dev e) = Some n"
    using nic_by_own_name [OF n] nn by (simp add: net_if_get_nic_by_name_def e_def st1_def)
  have none: "\<forall>r \<in> set (routing_table st1). rt_nic r \<noteq> Some n"
    using fresh by (auto simp: st1_def purge_old_def ip_purge_nic_def)
  have nics: "nics st' = nics st1" using ip_add_route_ok [OF add] by metis
  show "nic_ip_addr (nics st' n) = a" unfolding nics by (simp add: st1_def)
  obtain r where r: "r \<in> set (routing_table st')" "rt_entry r = stored_entry e" "rt_nic r = Some n"
    using ip_add_route_present [OF add] by_name by metis
  have "route_considered st' a d r"
    using r(2,3) d by (simp add: route_considered_def nics st1_def stored_entry_def e_def and.commute and.left_commute)
  moreover have "rt_nic x = Some n \<and> (if rt_flags (rt_entry x) AND RT_FLAGS_GW \<noteq> 0 then rt_gateway (rt_entry x) else d) = d"
    if x: "x \<in> set (routing_table st')" "route_considered st' a d x" for x
  proof -
    have "rt_nic x = Some n"
      using x(2) a unique by (auto simp: route_considered_def nics st1_def split: option.splits if_splits)
    then show ?thesis using ip_add_route_members [OF add x(1)] none by (auto simp: stored_entry_def e_def)
  qed
  ultimately show "ip_get_route st' a d = Some (n, d)" by (intro ip_get_route_unique [OF r(1)]) blast+
qed

end
