(* ===== verification/Ip_Output.thy ===== *)
theory Ip_Output
  imports Ip_Reassembly Routing
begin

unbundle bit_operations_syntax

text \<open>
  Transmission of IP messages (\<^verbatim>\<open>ip_tx_msg\<close> and \<^verbatim>\<open>get_id\<close> of
  \<^verbatim>\<open>kernel/ip.c\<close>): a route is chosen, a header is put in front of the payload and the message
  is cut into fragments if it is longer than the maximum transfer unit of the card. The result lists the
  messages in the order in which they are put into the work queue. \<open>mem k\<close> says whether there is
  memory for the copy of the message number \<open>k\<close>, where number 0 is the copy that is kept while the
  fragments are made.
\<close>

definition get_id :: "u32 \<Rightarrow> u32 \<times> u32" where
  "get_id counter = (let c = (if counter = 0 then counter + 1 else counter) in (c, c + 1))"

definition upd_ip_hdr :: "(ip_hdr_t \<Rightarrow> ip_hdr_t) \<Rightarrow> net_msg_t \<Rightarrow> net_msg_t" where
  "upd_ip_hdr f m = store m (ip_off m) (ip_hdr_bytes (f (msg_ip_hdr m)))"

text \<open>The length of the next fragment.\<close>

definition fragment_size :: "u32 \<Rightarrow> u32 \<Rightarrow> u32 \<Rightarrow> u32" where
  "fragment_size max_unit data_bytes bytes_sent =
     (let fl = min max_unit (data_bytes - bytes_sent + 20) - 20
      in if bytes_sent + fl < data_bytes then push_bit 3 (drop_bit 3 fl) else fl)"

text \<open>The copy of the payload of a fragment from the original message.\<close>

definition copy_fragment :: "net_msg_t option \<Rightarrow> u32 \<Rightarrow> u32 \<Rightarrow> net_msg_t \<Rightarrow> mem_fault + net_msg_t" where
  "copy_fragment orig offset fl m =
     (case orig of
        None \<Rightarrow> Inl Null_pointer
      | Some o' \<Rightarrow>
          if start o' + sizeof_ip_hdr + unat offset + unat fl > length (data o') then Inl Read_overrun
          else if start m + sizeof_ip_hdr + unat fl > length (data m) then Inl Write_overrun
          else Inr (store m (start m + sizeof_ip_hdr)
                      (take (unat fl) (drop (start o' + sizeof_ip_hdr + unat offset) (data o')))))"

text \<open>
  The body of the loop for one fragment: the message that is queued, the number of bytes sent, the
  identification of the datagram and the counter it is taken from.
\<close>

definition tx_fragment ::
    "u32 \<Rightarrow> bool \<Rightarrow> u32 \<Rightarrow> u32 \<Rightarrow> net_msg_t option \<Rightarrow> nat \<Rightarrow> u32 \<Rightarrow> u32 \<Rightarrow> u32 \<Rightarrow> net_msg_t \<Rightarrow>
     mem_fault + (net_msg_t \<times> u32 \<times> u32 \<times> u32)" where
  "tx_fragment max_unit do_fragment data_bytes next_hop orig fragment bytes_sent ident counter m =
     (let offset = bytes_sent;
          fl = (if do_fragment then fragment_size max_unit data_bytes bytes_sent else data_bytes);
          m = (if do_fragment
               then upd_ip_hdr (\<lambda>h. h \<lparr> h_length := htons (ucast (fl + 20)) \<rparr>) (net_msg_cut_off m (unat (fl + 20)))
               else m)
      in sbind (if do_fragment \<and> fragment \<noteq> 0 then copy_fragment orig offset fl m else Inr m) (\<lambda>m.
         let bytes_sent = bytes_sent + fl;
             (ident, counter) = (if do_fragment \<and> fragment = 0 then get_id counter else (ident, counter));
             mf = (if bytes_sent < data_bytes then 1 else 0);
             m = (if do_fragment
                  then upd_ip_hdr (\<lambda>h. h \<lparr> h_id := htons (ucast ident),
                                          h_flags := htons (ucast (push_bit 13 mf + offset div 8)) \<rparr>) m
                  else m);
             m = upd_ip_hdr (\<lambda>h. h \<lparr> h_checksum := htons (net_compute_checksum (ip_hdr_bytes h) sizeof_ip_hdr) \<rparr>) m
         in Inr (m \<lparr> ip_dest := next_hop \<rparr>, bytes_sent, ident, counter)))"

text \<open>A fragment after the first one is made from a copy of the original message.\<close>

definition next_copy ::
    "(nat \<Rightarrow> bool) \<Rightarrow> bool \<Rightarrow> net_msg_t option \<Rightarrow> nat \<Rightarrow> net_msg_t \<Rightarrow> mem_fault + net_msg_t option" where
  "next_copy mem do_fragment orig fragment m =
     (if do_fragment \<and> fragment \<noteq> 0
      then (case orig of None \<Rightarrow> Inl Null_pointer | Some o' \<Rightarrow> Inr (net_msg_clone (mem fragment) o'))
      else Inr (Some m))"

partial_function (option) tx_loop ::
    "(nat \<Rightarrow> bool) \<Rightarrow> u32 \<Rightarrow> bool \<Rightarrow> u32 \<Rightarrow> u32 \<Rightarrow> net_msg_t option \<Rightarrow> nat \<Rightarrow> u32 \<Rightarrow> u32 \<Rightarrow> u32 \<Rightarrow> net_msg_t \<Rightarrow>
     net_msg_t list \<Rightarrow> (mem_fault + (int \<times> net_msg_t list \<times> u32)) option" where
  "tx_loop mem max_unit do_fragment data_bytes next_hop orig fragment bytes_sent ident counter m queued =
     (if \<not> bytes_sent < data_bytes then Some (Inr (0, queued, counter))
      else
        (case next_copy mem do_fragment orig fragment m of
           Inl e \<Rightarrow> Some (Inl e)
         | Inr None \<Rightarrow> Some (Inr (- ENOMEM, queued, counter))
         | Inr (Some m) \<Rightarrow>
             (case tx_fragment max_unit do_fragment data_bytes next_hop orig fragment bytes_sent ident counter m of
                Inl e \<Rightarrow> Some (Inl e)
              | Inr (m, bytes_sent, ident, counter) \<Rightarrow>
                  tx_loop mem max_unit do_fragment data_bytes next_hop orig (fragment + 1) bytes_sent ident counter m
                    (queued @ [m]))))"

abbreviation (input) ETHERTYPE_IP :: u16 where "ETHERTYPE_IP \<equiv> 0x800"
abbreviation (input) IP_DEFAULT_TTL :: u8 where "IP_DEFAULT_TTL \<equiv> 64"

text \<open>The header that is written first.\<close>

definition tx_hdr :: "net_state \<Rightarrow> nat \<Rightarrow> net_msg_t \<Rightarrow> ip_hdr_t" where
  "tx_hdr st n m =
     \<lparr> h_version = 0x45, h_priority = 0, h_length = htons (of_nat (net_msg_get_size m)), h_id = 0,
       h_flags = ntohs (of_int (ip_df m * 2 ^ 14)), h_ttl = IP_DEFAULT_TTL, h_proto = ip_proto m, h_checksum = 0,
       h_src = (if ip_src m \<noteq> 0 then ip_src m else nic_ip_addr (nics st n)), h_dest = ip_dest m \<rparr>"

text \<open>The code asserts that there is room for the header; the model stops with a fault there.\<close>

definition ip_tx_msg ::
    "(nat \<Rightarrow> bool) \<Rightarrow> net_state \<Rightarrow> u32 \<Rightarrow> net_msg_t \<Rightarrow> (mem_fault + (int \<times> net_msg_t list \<times> u32)) option" where
  "ip_tx_msg mem st counter m =
     (case ip_get_route st (ip_src m) (ip_dest m) of
        None \<Rightarrow> Some (Inr (- ENETUNREACH, [], counter))
      | Some (n, next_hop) \<Rightarrow>
          (let m = m \<lparr> nic := Some n \<rparr>;
               max_unit = word_of_int (mtu (nics st n)) :: u32;
               data_bytes = of_nat (net_msg_get_size m) :: u32;
               do_fragment = data_bytes + 20 > max_unit
           in if ip_df m \<noteq> 0 \<and> do_fragment then Some (Inr (- EMSGSIZE, [], counter))
              else
                (case net_msg_prepend (m \<lparr> ethertype := htons ETHERTYPE_IP \<rparr>) sizeof_ip_hdr of
                   None \<Rightarrow> Some (Inl Write_overrun)
                 | Some (at, m) \<Rightarrow>
                     (let m = store (m \<lparr> ip_hdr := Offset at \<rparr>) at (ip_hdr_bytes (tx_hdr st n m));
                          orig = (if do_fragment then net_msg_clone (mem 0) m else None)
                      in tx_loop mem max_unit do_fragment data_bytes next_hop orig 0 0 0 counter m []))))"

end
