(* ===== verification/Ip_Holes.thy ===== *)
theory Ip_Holes
  imports Ip_Reassembly
begin

text \<open>
  The list of holes in the reassembly buffer as a list of intervals: what the operations on the list and
  the visit of the holes by a fragment do to it, as long as every hole has room for its
  structure and the fragment meets a single hole.
\<close>

subsection \<open>Fields in the buffer\<close>

lemma rd16_cong: "b' a = b a \<Longrightarrow> b' (a + 1) = b (a + 1) \<Longrightarrow> rd16 b' a = rd16 b a"
  by (simp add: rd16_def)

lemma rd16_wr16 [simp]: "rd16 (wr16 b a w) a = w"
proof -
  have "rd16 (wr16 b a w) a = ld16 (st16 w) 0"
    by (simp add: rd16_def wr16_def ld16_def st16_def byte_at_def)
  then show ?thesis by (simp add: ld16_st16)
qed

lemma wr16_other [simp]: "i < a \<or> a + 2 \<le> i \<Longrightarrow> wr16 b a w i = b i"
  by (auto simp: wr16_def)

lemma rd16_wr16_other [simp]: "c + 2 \<le> a \<or> a + 2 \<le> c \<Longrightarrow> rd16 (wr16 b a w) c = rd16 b c"
  by (intro rd16_cong wr16_other) auto

lemma unat_u16_of_nat [simp]: "n < 65536 \<Longrightarrow> unat (of_nat n :: u16) = n"
  by (simp add: unat_of_nat)

subsection \<open>Lists of holes\<close>

type_synonym hole = "nat \<times> nat"

definition hole_at :: "buf \<Rightarrow> hole \<Rightarrow> bool" where
  "hole_at b x \<longleftrightarrow> rd16 b (fst x) = of_nat (fst x) \<and> rd16 b (fst x + 2) = of_nat (snd x)"

definition joined :: "buf \<Rightarrow> hole \<Rightarrow> hole \<Rightarrow> bool" where
  "joined b x y \<longleftrightarrow> rd16 b (fst x + 6) = of_nat (fst y) \<and> rd16 b (fst y + 4) = of_nat (fst x)"

fun hole_links :: "buf \<Rightarrow> hole list \<Rightarrow> bool" where
  "hole_links b [] \<longleftrightarrow> True"
| "hole_links b [x] \<longleftrightarrow> hole_at b x"
| "hole_links b (x # y # zs) \<longleftrightarrow> hole_at b x \<and> joined b x y \<and> hole_links b (y # zs)"

lemma hole_links_append:
  "hole_links b (xs @ ys) \<longleftrightarrow>
   hole_links b xs \<and> hole_links b ys \<and> (xs \<noteq> [] \<longrightarrow> ys \<noteq> [] \<longrightarrow> joined b (last xs) (hd ys))"
proof (induction b xs rule: hole_links.induct)
  case (2 b x)
  then show ?case by (cases ys) auto
qed auto

text \<open>The previous field of the first hole and the next field of the last one are not used.\<close>

lemma hole_links_cong:
  assumes "hole_links b hs"
    and "\<And>x i. x \<in> set hs \<Longrightarrow> fst x \<le> i \<Longrightarrow> i < fst x + 4 \<Longrightarrow> b' i = b i"
    and "\<And>x i. x \<in> set (tl hs) \<Longrightarrow> fst x + 4 \<le> i \<Longrightarrow> i < fst x + 6 \<Longrightarrow> b' i = b i"
    and "\<And>x i. x \<in> set (butlast hs) \<Longrightarrow> fst x + 6 \<le> i \<Longrightarrow> i < fst x + 8 \<Longrightarrow> b' i = b i"
  shows "hole_links b' hs"
  using assms
proof (induction b hs rule: hole_links.induct)
  case (2 b x)
  then show ?case by (simp add: hole_at_def rd16_def)
next
  case (3 b x y zs)
  have "hole_at b' x" using 3(2) 3(3) [of x] by (simp add: hole_at_def rd16_def)
  moreover have "joined b' x y" using 3(2) 3(4) [of y] 3(5) [of x] by (simp add: joined_def rd16_def)
  moreover have "hole_links b' (y # zs)"
  proof (rule 3(1))
    show "hole_links b (y # zs)" using 3(2) by simp
    show "b' i = b i" if "u \<in> set (y # zs)" "fst u \<le> i" "i < fst u + 4" for u i
      using 3(3) [of u i] that by auto
    show "b' i = b i" if "u \<in> set (tl (y # zs))" "fst u + 4 \<le> i" "i < fst u + 6" for u i
      using 3(4) [of u i] that by auto
    show "b' i = b i" if "u \<in> set (butlast (y # zs))" "fst u + 6 \<le> i" "i < fst u + 8" for u i
      using 3(5) [of u i] that by auto
  qed
  ultimately show ?case by simp
qed simp

definition good_hole :: "hole \<Rightarrow> bool" where
  "good_hole x \<longleftrightarrow> fst x + 7 \<le> snd x \<and> snd x < IP_FRAGMENT_MAX_SIZE"

definition apart :: "hole \<Rightarrow> hole \<Rightarrow> bool" where
  "apart x y \<longleftrightarrow> snd x < fst y \<or> snd y < fst x"

definition holes_ok :: "hole list \<Rightarrow> bool" where
  "holes_ok hs \<longleftrightarrow> (\<forall>x \<in> set hs. good_hole x) \<and> sorted_wrt apart hs"

definition in_holes :: "hole list \<Rightarrow> nat \<Rightarrow> bool" where
  "in_holes hs i \<longleftrightarrow> (\<exists>x \<in> set hs. fst x \<le> i \<and> i \<le> snd x)"

lemma apart_sym: "apart x y \<longleftrightarrow> apart y x"
  by (auto simp: apart_def)

lemma in_holes_simps [simp]:
  "\<not> in_holes [] i" "in_holes (x # hs) i \<longleftrightarrow> fst x \<le> i \<and> i \<le> snd x \<or> in_holes hs i"
  "in_holes (xs @ ys) i \<longleftrightarrow> in_holes xs i \<or> in_holes ys i"
  by (auto simp: in_holes_def)

lemma holes_ok_simps [simp]:
  "holes_ok []" "holes_ok (x # hs) \<longleftrightarrow> good_hole x \<and> (\<forall>y \<in> set hs. apart x y) \<and> holes_ok hs"
  "holes_ok (xs @ ys) \<longleftrightarrow> holes_ok xs \<and> holes_ok ys \<and> (\<forall>x \<in> set xs. \<forall>y \<in> set ys. apart x y)"
  by (auto simp: holes_ok_def sorted_wrt_append)

text \<open>Writes that meet no structure of the list, or an unused field at one of its ends.\<close>

lemma hole_links_outside:
  assumes "hole_links b hs" "holes_ok hs" "\<And>i. in_holes hs i \<Longrightarrow> b' i = b i"
  shows "hole_links b' hs"
proof (rule hole_links_cong [OF assms(1)])
  have hit: "b' i = b i" if "x \<in> set hs" "fst x \<le> i" "i < fst x + 8" for x i
    using that assms(2) by (intro assms(3)) (force simp: in_holes_def holes_ok_def good_hole_def)
  show "b' i = b i" if "x \<in> set hs" "fst x \<le> i" "i < fst x + 4" for x i using hit that by simp
  show "b' i = b i" if "x \<in> set (tl hs)" "fst x + 4 \<le> i" "i < fst x + 6" for x i
    using hit [of x i] that list.set_sel(2) [of hs x] by (cases hs) auto
  show "b' i = b i" if "x \<in> set (butlast hs)" "fst x + 6 \<le> i" "i < fst x + 8" for x i
    using hit [of x i] that in_set_butlastD [of x hs] by auto
qed

lemma apart_fields:
  assumes "apart x y" "good_hole x" "good_hole y" "k < 8" "j < 8"
  shows "fst x + k \<noteq> fst y + j"
  using assms by (auto simp: apart_def good_hole_def)

lemma hole_links_prev_head:
  assumes "hole_links b (x # hs)" "holes_ok (x # hs)"
  shows "hole_links (wr16 b (fst x + 4) v) (x # hs)"
proof (rule hole_links_cong [OF assms(1)])
  have other: "wr16 b (fst x + 4) v i = b i" if "y \<in> set hs" "fst y \<le> i" "i < fst y + 8" for y i
  proof -
    have "apart x y" "good_hole x" "good_hole y" using assms(2) that by (auto simp: holes_ok_def)
    then show ?thesis using that by (intro wr16_other) (auto simp: apart_def good_hole_def)
  qed
  show "wr16 b (fst x + 4) v i = b i" if "y \<in> set (x # hs)" "fst y \<le> i" "i < fst y + 4" for y i
    using that other [of y i] by (cases "y = x") auto
  show "wr16 b (fst x + 4) v i = b i" if "y \<in> set (tl (x # hs))" "fst y + 4 \<le> i" "i < fst y + 6" for y i
    using that other [of y i] by auto
  show "wr16 b (fst x + 4) v i = b i" if "y \<in> set (butlast (x # hs))" "fst y + 6 \<le> i" "i < fst y + 8" for y i
  proof (cases "y = x")
    case False
    then have "y \<in> set hs" using that in_set_butlastD [of y "x # hs"] by auto
    then show ?thesis using other [of y i] that by auto
  qed (use that in auto)
qed

lemma hole_links_next_last:
  assumes "hole_links b (hs @ [x])" "holes_ok (hs @ [x])"
  shows "hole_links (wr16 b (fst x + 6) v) (hs @ [x])"
proof (rule hole_links_cong [OF assms(1)])
  have other: "wr16 b (fst x + 6) v i = b i" if "y \<in> set hs" "fst y \<le> i" "i < fst y + 8" for y i
  proof -
    have "apart y x" "good_hole x" "good_hole y" using assms(2) that by (auto simp: holes_ok_def sorted_wrt_append)
    then show ?thesis using that by (intro wr16_other) (auto simp: apart_def good_hole_def)
  qed
  show "wr16 b (fst x + 6) v i = b i" if "y \<in> set (hs @ [x])" "fst y \<le> i" "i < fst y + 4" for y i
    using that other [of y i] by (cases "y = x") auto
  show "wr16 b (fst x + 6) v i = b i" if "y \<in> set (tl (hs @ [x]))" "fst y + 4 \<le> i" "i < fst y + 6" for y i
    using that other [of y i] by (cases "y = x"; cases hs) auto
  show "wr16 b (fst x + 6) v i = b i" if "y \<in> set (butlast (hs @ [x]))" "fst y + 6 \<le> i" "i < fst y + 8" for y i
    using that other [of y i] by auto
qed

subsection \<open>Operations on the list\<close>

definition first_hole :: "hole list \<Rightarrow> nat option" where
  "first_hole hs = (case hs of [] \<Rightarrow> None | x # _ \<Rightarrow> Some (fst x))"

lemma first_hole_simps [simp]: "first_hole [] = None" "first_hole (x # hs) = Some (fst x)"
  by (simp_all add: first_hole_def)

lemma first_hole_append [simp]: "first_hole (xs @ ys) = (if xs = [] then first_hole ys else first_hole xs)"
  by (cases xs) simp_all

definition slot_holes :: "reassembly_slot_t \<Rightarrow> hole list \<Rightarrow> bool" where
  "slot_holes s hs \<longleftrightarrow>
     hole_links (buffer s) hs \<and> holes_ok hs \<and> hole_list_head s = first_hole hs \<and>
     hole_list_tail s = (if hs = [] then None else Some (fst (last hs)))"

lemma field_inside: "good_hole x \<Longrightarrow> fst x + field_offset f + 2 \<le> IP_FRAGMENT_MAX_SIZE"
  by (cases f) (simp_all add: good_hole_def)

lemma good_hole_bounds: "good_hole x \<Longrightarrow> fst x < 65536" "good_hole x \<Longrightarrow> snd x < 65536"
  by (simp_all add: good_hole_def)

lemma get_field_ok:
  assumes "slot_holes s (xs @ x # ys)"
  shows "get_field s (fst x) First = Inr (fst x)" "get_field s (fst x) Last = Inr (snd x)"
    "ys \<noteq> [] \<Longrightarrow> get_field s (fst x) Next = Inr (fst (hd ys))"
    "xs \<noteq> [] \<Longrightarrow> get_field s (fst x) Prev = Inr (fst (last xs))"
proof -
  have ok: "hole_links (buffer s) (xs @ x # ys)" "holes_ok (xs @ x # ys)" using assms by (auto simp: slot_holes_def)
  then have x: "good_hole x" "hole_at (buffer s) x"
    by (cases ys; simp add: hole_links_append)+
  show "get_field s (fst x) First = Inr (fst x)" "get_field s (fst x) Last = Inr (snd x)"
    using x field_inside [of x First] field_inside [of x Last]
    by (simp_all add: get_field_def hole_at_def good_hole_bounds)
  show "get_field s (fst x) Next = Inr (fst (hd ys))" if "ys \<noteq> []"
  proof -
    obtain y zs where y: "ys = y # zs" using \<open>ys \<noteq> []\<close> by (cases ys) auto
    have "joined (buffer s) x y" "good_hole y" using ok y by (simp_all add: hole_links_append)
    then show ?thesis using field_inside [OF x(1), of Next] y
      by (simp add: get_field_def joined_def good_hole_bounds)
  qed
  show "get_field s (fst x) Prev = Inr (fst (last xs))" if "xs \<noteq> []"
  proof -
    have "joined (buffer s) (last xs) x" "good_hole (last xs)"
      using ok that by (simp_all add: hole_links_append holes_ok_def)
    then show ?thesis using field_inside [OF x(1), of Prev]
      by (simp add: get_field_def joined_def good_hole_bounds)
  qed
qed

lemma fst_neq:
  assumes "holes_ok (xs @ x # ys)" "y \<in> set xs \<union> set ys"
  shows "fst y \<noteq> fst x"
proof -
  have "apart x y \<or> apart y x" "good_hole x" "good_hole y" using assms by (auto simp: holes_ok_def sorted_wrt_append)
  then show ?thesis by (auto simp: apart_def good_hole_def)
qed

lemma hole_position:
  assumes "slot_holes s (xs @ x # ys)"
  shows "Some (fst x) = hole_list_head s \<longleftrightarrow> xs = []" "Some (fst x) = hole_list_tail s \<longleftrightarrow> ys = []"
proof -
  have ok: "holes_ok (xs @ x # ys)" and h: "hole_list_head s = first_hole (xs @ x # ys)"
    and t: "hole_list_tail s = Some (fst (last (xs @ x # ys)))" using assms by (auto simp: slot_holes_def)
  show "Some (fst x) = hole_list_head s \<longleftrightarrow> xs = []"
    using h fst_neq [OF ok, of "hd xs"] by (cases xs) auto
  show "Some (fst x) = hole_list_tail s \<longleftrightarrow> ys = []"
    using t fst_neq [OF ok, of "last ys"] by (cases "ys = []") auto
qed

text \<open>Only bytes of holes are changed, and only fields of the slot that describe the list.\<close>

definition only_holes :: "hole list \<Rightarrow> reassembly_slot_t \<Rightarrow> reassembly_slot_t \<Rightarrow> bool" where
  "only_holes hs s s' \<longleftrightarrow>
     (\<forall>i. \<not> in_holes hs i \<longrightarrow> buffer s' i = buffer s i) \<and>
     slot_src s' = slot_src s \<and> slot_dst s' = slot_dst s \<and> slot_id s' = slot_id s \<and>
     slot_proto s' = slot_proto s \<and> payload_length s' = payload_length s \<and> used s' = used s \<and>
     timeout s' = timeout s"

lemma only_holes_refl [simp]: "only_holes hs s s"
  by (simp add: only_holes_def)

lemma wr16_field_inside:
  assumes "good_hole x" "x \<in> set hs" "\<not> in_holes hs i"
  shows "wr16 b (fst x + field_offset f) v i = b i"
  using assms by (cases f; intro wr16_other; force simp: in_holes_def good_hole_def)

lemma set_field_inside: "good_hole x \<Longrightarrow>
  set_field (fst x) f v s = Inr (s \<lparr> buffer := wr16 (buffer s) (fst x + field_offset f) (of_nat v) \<rparr>)"
  using field_inside [of x f] by (simp add: set_field_def)

lemma remove_hole_ok:
  assumes s: "slot_holes s (xs @ x # ys)"
  obtains s' where "remove_hole (fst x) s = Inr s'" "slot_holes s' (xs @ ys)"
    "only_holes (xs @ x # ys) s s'"
proof -
  note pos = hole_position [OF s] and get = get_field_ok [OF s]
  have ok: "hole_links (buffer s) xs" "hole_links (buffer s) ys" "holes_ok (xs @ x # ys)"
    using s by (cases ys; auto simp: slot_holes_def hole_links_append)+
  have oxy: "holes_ok (xs @ ys)" using ok(3) by auto
  consider (both) p n where "xs = butlast xs @ [p]" "ys = n # tl ys" | (front) "xs = []" | (rear) "xs \<noteq> []" "ys = []"
    by (cases xs rule: rev_cases; cases ys) auto
  then show thesis
  proof cases
    case front
    then have "remove_hole (fst x) s = Inr (s \<lparr> hole_list_head := first_hole ys,
        hole_list_tail := (if ys = [] then None else hole_list_tail s) \<rparr>)"
      using pos get by (cases ys) (auto simp: remove_hole_def)
    moreover have "slot_holes (s \<lparr> hole_list_head := first_hole ys,
        hole_list_tail := (if ys = [] then None else hole_list_tail s) \<rparr>) ys"
      using s ok front by (auto simp: slot_holes_def)
    ultimately show thesis using front by (intro that) (auto simp: only_holes_def)
  next
    case rear
    then have "remove_hole (fst x) s = Inr (s \<lparr> hole_list_tail := Some (fst (last xs)) \<rparr>)"
      using pos get by (auto simp: remove_hole_def)
    moreover have "slot_holes (s \<lparr> hole_list_tail := Some (fst (last xs)) \<rparr>) xs"
      using s ok rear by (cases xs) (auto simp: slot_holes_def)
    ultimately show thesis using rear by (intro that) (auto simp: only_holes_def)
  next
    case both
    have ne: "xs \<noteq> []" "ys \<noteq> []" "last xs = p" "hd ys = n" using both
      by (metis append_is_Nil_conv list.distinct(1), metis list.distinct(1), metis last_snoc, metis list.sel(1))
    have g: "good_hole p" "good_hole n" "apart p n"
      using ok(3) both by (metis holes_ok_simps(2,3) in_set_conv_decomp list.set_intros(1) list.set_intros(2))+
    let ?b1 = "wr16 (buffer s) (fst n + 4) (of_nat (fst p))"
    let ?b2 = "wr16 ?b1 (fst p + 6) (of_nat (fst n))"
    let ?s = "s \<lparr> buffer := ?b2 \<rparr>"
    have run: "remove_hole (fst x) s = Inr ?s"
      using pos get ne g by (simp add: remove_hole_def set_field_inside)
    have px: "holes_ok xs" "holes_ok ys" using ok(3) by auto
    have "hole_links ?b2 xs"
    proof -
      have "hole_links ?b1 xs"
      proof (rule hole_links_outside [OF ok(1) px(1)])
        fix i assume "in_holes xs i"
        then obtain y where y: "y \<in> set xs" "fst y \<le> i" "i \<le> snd y" by (auto simp: in_holes_def)
        then have "apart y n" using ok(3) both(2) by (metis holes_ok_simps(3) list.set_intros(1) list.set_intros(2))
        then show "?b1 i = buffer s i" using y g(2) by (intro wr16_other) (auto simp: apart_def good_hole_def)
      qed
      then show ?thesis using hole_links_next_last [of ?b1 "butlast xs" p] px(1) both(1) by metis
    qed
    moreover have "hole_links ?b2 ys"
    proof (rule hole_links_outside [of ?b1])
      show "hole_links ?b1 ys" using hole_links_prev_head [of "buffer s" n "tl ys"] ok(2) px(2) both(2) by metis
      fix i assume "in_holes ys i"
      then obtain y where y: "y \<in> set ys" "fst y \<le> i" "i \<le> snd y" by (auto simp: in_holes_def)
      then have "apart p y" using ok(3) both(1) by (metis holes_ok_simps(3) in_set_conv_decomp list.set_intros(2))
      then show "?b2 i = ?b1 i" using y g(1) by (intro wr16_other) (auto simp: apart_def good_hole_def)
    qed (rule px)
    moreover have "joined ?b2 p n"
      using g by (auto simp: joined_def apart_def good_hole_def)
    ultimately have "hole_links ?b2 (xs @ ys)" using ne by (simp add: hole_links_append)
    then have "slot_holes ?s (xs @ ys)"
      using s ne oxy by (simp add: slot_holes_def)
    moreover have "only_holes (xs @ x # ys) s ?s"
      using wr16_field_inside [OF g(1), of "xs @ x # ys" _ _ Next] wr16_field_inside [OF g(2), of "xs @ x # ys" _ _ Prev]
        ne by (auto simp: only_holes_def)
    ultimately show thesis using run by (intro that)
  qed
qed

lemma apart_bytes:
  assumes "apart x y" "fst y \<le> i" "i \<le> snd y" "good_hole x" "k \<le> 6"
  shows "wr16 b (fst x + k) v i = b i"
  using assms by (intro wr16_other) (auto simp: apart_def good_hole_def)

lemma add_hole_ok:
  assumes s: "slot_holes s hs" and x: "good_hole (f, l)" "\<forall>y \<in> set hs. apart (f, l) y"
  obtains s' where "add_hole f l s = Inr s'" "slot_holes s' ((f, l) # hs)" "only_holes ((f, l) # hs) s s'"
proof -
  let ?b3 = "wr16 (wr16 (wr16 (buffer s) f (of_nat f)) (f + 2) (of_nat l)) (f + 4) 0"
  have ok: "hole_links (buffer s) hs" "holes_ok hs" using s by (auto simp: slot_holes_def)
  note set = set_field_inside [OF x(1)]
  have b3: "?b3 i = buffer s i" if "\<not> (f \<le> i \<and> i \<le> l)" for i
    using that x(1) by (auto simp: good_hole_def)
  have at3: "hole_at ?b3 (f, l)" by (simp add: hole_at_def)
  show thesis
  proof (cases hs)
    case Nil
    then have "add_hole f l s = Inr (s \<lparr> buffer := ?b3, hole_list_tail := Some f, hole_list_head := Some f \<rparr>)"
      using s set by (simp add: add_hole_def slot_holes_def)
    moreover have "slot_holes (s \<lparr> buffer := ?b3, hole_list_tail := Some f, hole_list_head := Some f \<rparr>) [(f, l)]"
      using at3 x(1) by (simp add: slot_holes_def)
    ultimately show thesis using Nil b3 by (intro that) (auto simp: only_holes_def)
  next
    case (Cons h zs)
    have h: "good_hole h" "apart (f, l) h" using Cons ok(2) x(2) by auto
    let ?b4 = "wr16 ?b3 (f + 6) (of_nat (fst h))"
    let ?b5 = "wr16 ?b4 (fst h + 4) (of_nat f)"
    let ?s = "s \<lparr> buffer := ?b5, hole_list_head := Some f \<rparr>"
    have run: "add_hole f l s = Inr ?s"
      using s set Cons set_field_inside [OF h(1), of Prev] by (simp add: add_hole_def slot_holes_def)
    have b4: "?b4 i = buffer s i" if "\<not> (f \<le> i \<and> i \<le> l)" for i
      using that x(1) b3 [OF that] by (auto simp: good_hole_def)
    have "hole_links ?b4 (h # zs)"
    proof (rule hole_links_outside)
      show "hole_links (buffer s) (h # zs)" "holes_ok (h # zs)" using ok Cons by simp_all
      fix i assume "in_holes (h # zs) i"
      then show "?b4 i = buffer s i" using x(2) Cons by (intro b4) (auto simp: in_holes_def apart_def)
    qed
    then have "hole_links ?b5 (h # zs)" using hole_links_prev_head [of ?b4 h zs] ok(2) Cons by blast
    moreover have "hole_at ?b5 (f, l)" "joined ?b5 (f, l) h"
      using h x(1) at3 by (auto simp: hole_at_def joined_def apart_def good_hole_def)
    ultimately have "slot_holes ?s ((f, l) # hs)"
      using s Cons x ok by (simp add: slot_holes_def)
    moreover have "only_holes ((f, l) # hs) s ?s"
      using wr16_field_inside [OF h(1), of "(f, l) # hs" _ _ Prev] b4 Cons by (auto simp: only_holes_def)
    ultimately show thesis using run by (intro that)
  qed
qed

lemma shrink_hole_ok:
  assumes s: "slot_holes s (xs @ (f, l) # ys)" and a: "f + 8 \<le> a" "a \<le> l"
  obtains s' where "set_field f Last (a - 1) s = Inr s'" "slot_holes s' (xs @ (f, a - 1) # ys)"
    "only_holes (xs @ (f, l) # ys) s s'"
proof -
  let ?b = "wr16 (buffer s) (f + 2) (of_nat (a - 1))"
  have ok: "hole_links (buffer s) xs" "hole_links (buffer s) ((f, l) # ys)" "holes_ok (xs @ (f, l) # ys)"
    "xs \<noteq> [] \<longrightarrow> joined (buffer s) (last xs) (f, l)"
    using s by (auto simp: slot_holes_def hole_links_append)
  have x: "good_hole (f, l)" using ok(3) by simp
  have g: "good_hole (f, a - 1)" using x a unfolding good_hole_def by (simp, linarith)
  have far: "?b i = buffer s i" if "y \<in> set xs \<union> set ys" "fst y \<le> i" "i \<le> snd y" for y i
    using that ok(3) x by (intro wr16_other) (auto simp: apart_def good_hole_def)
  have "hole_links ?b xs" using ok(1,3) far by (intro hole_links_outside [OF ok(1)]) (auto simp: in_holes_def)
  moreover have "hole_links ?b ys" if "hole_links (buffer s) ys"
    using ok(3) far by (intro hole_links_outside [OF that]) (auto simp: in_holes_def)
  then have "hole_links ?b ((f, a - 1) # ys)"
    using ok(2,3) x by (cases ys) (auto simp: hole_at_def joined_def apart_def good_hole_def)
  moreover have "joined ?b (last xs) (f, a - 1)" if "xs \<noteq> []"
  proof -
    have "apart (last xs) (f, l)" "good_hole (last xs)" using ok(3) last_in_set [OF that] by (auto simp: holes_ok_def sorted_wrt_append)
    then show ?thesis using ok(4) that x by (auto simp: joined_def apart_def good_hole_def)
  qed
  ultimately have "hole_links ?b (xs @ (f, a - 1) # ys)" by (simp add: hole_links_append)
  moreover have "holes_ok (xs @ (f, a - 1) # ys)" using ok(3) g a by (auto simp: apart_def)
  ultimately have "slot_holes (s \<lparr> buffer := ?b \<rparr>) (xs @ (f, a - 1) # ys)"
    using s by (cases xs; simp add: slot_holes_def)
  moreover have "set_field f Last (a - 1) s = Inr (s \<lparr> buffer := ?b \<rparr>)" using set_field_inside [OF x] by simp
  moreover have "only_holes (xs @ (f, l) # ys) s (s \<lparr> buffer := ?b \<rparr>)"
    using wr16_field_inside [OF x, of "xs @ (f, l) # ys" _ _ Last] by (auto simp: only_holes_def)
  ultimately show thesis by (intro that)
qed

subsection \<open>A fragment visits the holes\<close>

definition left_hole :: "nat \<Rightarrow> hole \<Rightarrow> hole list" where
  "left_hole a x = (if a > fst x then [(fst x, a - 1)] else [])"

definition right_hole :: "nat \<Rightarrow> bool \<Rightarrow> hole \<Rightarrow> hole list" where
  "right_hole e mf x = (if e < snd x \<and> mf then [(e + 1, snd x)] else [])"

lemma right_holeE:
  assumes "k \<in> set (right_hole e mf x)"
  shows "k = (e + 1, snd x)" "mf"
  using assms by (cases "e < snd x \<and> mf";
      simp only: right_hole_def if_True if_False list.set insert_iff empty_iff simp_thms)+

lemma left_holeE:
  assumes "k \<in> set (left_hole a x)"
  shows "k = (fst x, a - 1)" "fst x < a"
  using assms by (cases "a > fst x";
      simp only: left_hole_def if_True if_False list.set insert_iff empty_iff simp_thms)+

definition same_key :: "reassembly_slot_t \<Rightarrow> reassembly_slot_t \<Rightarrow> bool" where
  "same_key s s' \<longleftrightarrow>
     slot_src s' = slot_src s \<and> slot_dst s' = slot_dst s \<and> slot_id s' = slot_id s \<and>
     slot_proto s' = slot_proto s \<and> used s' = used s \<and> timeout s' = timeout s"

text \<open>The octets \<open>a\<close> to \<open>e\<close> lie in the hole, and what is left of it on either side has room for a structure.\<close>

definition fits :: "nat \<Rightarrow> nat \<Rightarrow> bool \<Rightarrow> hole \<Rightarrow> bool" where
  "fits a e mf x \<longleftrightarrow>
     fst x \<le> a \<and> a \<le> e \<and> e \<le> snd x \<and> (a = fst x \<or> fst x + 8 \<le> a) \<and> (mf \<longrightarrow> e = snd x \<or> e + 8 \<le> snd x)"

lemma narrow_hole:
  assumes s: "slot_holes s (xs @ x # ys)" and fit: "fits a e mf x"
  obtains s' where
    "(if a > fst x then set_field (fst x) Last (a - 1) s else remove_hole (fst x) s) = Inr s'"
    "slot_holes s' (xs @ left_hole a x @ ys)" "only_holes (xs @ x # ys) s s'"
proof (cases "a > fst x")
  case True
  then have "fst x + 8 \<le> a" "a \<le> snd x" using fit by (auto simp: fits_def)
  then obtain s' where "set_field (fst x) Last (a - 1) s = Inr s'" "slot_holes s' (xs @ (fst x, a - 1) # ys)"
    "only_holes (xs @ x # ys) s s'"
    using shrink_hole_ok [of s xs "fst x" "snd x" ys a] s by auto
  then show thesis using that True by (simp add: left_hole_def)
next
  case False
  obtain s' where "remove_hole (fst x) s = Inr s'" "slot_holes s' (xs @ ys)" "only_holes (xs @ x # ys) s s'"
    by (rule remove_hole_ok [OF s])
  then show thesis using that False by (simp add: left_hole_def)
qed

lemma widen_list:
  assumes s: "slot_holes s (xs @ left_hole a x @ ys)" and fit: "fits a e mf x" and ok: "holes_ok (xs @ x # ys)"
  obtains s' where
    "(if e < snd x \<and> mf then add_hole (e + 1) (snd x) s else Inr s) = Inr s'"
    "slot_holes s' (right_hole e mf x @ xs @ left_hole a x @ ys)"
    "only_holes (xs @ x # ys) s s'"
proof (cases "e < snd x \<and> mf")
  case True
  then have e: "e + 8 \<le> snd x" using fit by (auto simp: fits_def)
  have x: "good_hole x" using ok by simp
  then have "good_hole (e + 1, snd x)" using e by (simp add: good_hole_def)
  moreover have "\<forall>y \<in> set (xs @ left_hole a x @ ys). apart (e + 1, snd x) y"
  proof
    fix y assume "y \<in> set (xs @ left_hole a x @ ys)"
    then consider "y \<in> set xs \<union> set ys" | "y = (fst x, a - 1)" "a > fst x"
      by (cases "a > fst x") (auto simp: left_hole_def)
    then show "apart (e + 1, snd x) y"
    proof cases
      case 1
      then have "apart x y \<or> apart y x" using ok by auto
      then show ?thesis using fit by (auto simp: apart_def fits_def)
    next
      case 2
      then show ?thesis using fit by (auto simp: apart_def fits_def)
    qed
  qed
  ultimately obtain s' where s': "add_hole (e + 1) (snd x) s = Inr s'"
    "slot_holes s' ((e + 1, snd x) # xs @ left_hole a x @ ys)"
    "only_holes ((e + 1, snd x) # xs @ left_hole a x @ ys) s s'"
    by (rule add_hole_ok [OF s])
  have "only_holes (xs @ x # ys) s s'"
    using s'(3) fit by (auto simp: only_holes_def left_hole_def fits_def)
  then show thesis using that s' True by (simp add: right_hole_def)
next
  case False
  have "right_hole e mf x = []" using False by (simp add: right_hole_def)
  then show thesis by (intro that [of s]) (use s False in auto)
qed

lemma visit_hit:
  assumes s: "slot_holes s (xs @ x # ys)" and fit: "fits a e mf x" and src: "e + 1 - a \<le> length src"
  obtains s' where "visit_hole a e mf src (fst x) s = Inr (first_hole ys, s')"
    "slot_holes s' (right_hole e mf x @ xs @ left_hole a x @ ys)"
    "\<forall>i. a \<le> i \<and> i \<le> e \<longrightarrow> buffer s' i = src ! (i - a)"
    "\<forall>i. \<not> in_holes (xs @ x # ys) i \<longrightarrow> buffer s' i = buffer s i"
    "payload_length s' = max (payload_length s) (e + 1)" "same_key s s'"
proof -
  have ok: "holes_ok (xs @ x # ys)" using s by (simp add: slot_holes_def)
  have x: "good_hole x" using ok by simp
  note get = get_field_ok [OF s] and pos = hole_position [OF s]
  obtain s1 where s1: "(if a > fst x then set_field (fst x) Last (a - 1) s else remove_hole (fst x) s) = Inr s1"
    "slot_holes s1 (xs @ left_hole a x @ ys)" "only_holes (xs @ x # ys) s s1"
    by (rule narrow_hole [OF s fit])
  obtain s2 where s2: "(if e < snd x \<and> mf then add_hole (e + 1) (snd x) s1 else Inr s1) = Inr s2"
    "slot_holes s2 (right_hole e mf x @ xs @ left_hole a x @ ys)" "only_holes (xs @ x # ys) s1 s2"
    by (rule widen_list [OF s1(2) fit ok])
  define s' where "s' = s2 \<lparr> payload_length := max (payload_length s2) (e + 1),
    buffer := (\<lambda>i. if a \<le> i \<and> i < a + (e + 1 - a) then src ! (i - a) else buffer s2 i) \<rparr>"
  have n: "(e + 1 + (2 ^ 32 - a)) mod 2 ^ 32 = e + 1 - a"
  proof -
    have "e + 1 < 65536" "a \<le> e + 1" using fit x by (auto simp: fits_def good_hole_def)
    then have "e + 1 + (2 ^ 32 - a) = (e + 1 - a) + 2 ^ 32" "e + 1 - a < 2 ^ 32" by simp_all
    then show ?thesis by (metis mod_add_self2 mod_less)
  qed
  have copy: "copy_payload src a ((e + 1 + (2 ^ 32 - a)) mod 2 ^ 32)
      (s2 \<lparr> payload_length := max (payload_length s2) (e + 1) \<rparr>) = Inr s'"
  proof -
    have "\<not> e + 1 - a > length src" "\<not> a + (e + 1 - a) > IP_FRAGMENT_MAX_SIZE"
      using src fit x by (auto simp: fits_def good_hole_def)
    moreover have "buffer (s2 \<lparr> payload_length := v \<rparr>) = buffer s2" for v by simp
    ultimately show ?thesis unfolding n copy_payload_def s'_def by (simp only: if_False)
  qed
  have next_hole: "(if Some (fst x) \<noteq> hole_list_tail s then sbind (get_field s (fst x) Next) (\<lambda>n. Inr (Some n)) else Inr None)
      = Inr (first_hole ys)"
    using pos(2) get(3) by (cases ys) auto
  have "\<not> (a > snd x \<or> e < fst x)" using fit by (auto simp: fits_def)
  then have run: "visit_hole a e mf src (fst x) s = Inr (first_hole ys, s')"
    unfolding visit_hole_def next_hole sbind.simps get(1,2) by (simp only: if_False s1(1) s2(1) copy sbind.simps)
  have out: "\<not> in_holes (right_hole e mf x @ xs @ left_hole a x @ ys) i" if "a \<le> i" "i \<le> e" for i
  proof -
    have x_i: "fst x \<le> i" "i \<le> snd x" using that fit by (auto simp: fits_def)
    have "\<not> in_holes (right_hole e mf x) i" "\<not> in_holes (left_hole a x) i"
      using that by (auto simp: right_hole_def left_hole_def)
    moreover have "\<not> (fst y \<le> i \<and> i \<le> snd y)" if "y \<in> set xs \<union> set ys" for y
    proof -
      have "apart x y \<or> apart y x" using that ok by auto
      then show ?thesis using x_i by (auto simp: apart_def)
    qed
    ultimately show ?thesis by (auto simp: in_holes_def)
  qed
  have "hole_links (buffer s') (right_hole e mf x @ xs @ left_hole a x @ ys)"
  proof (rule hole_links_outside)
    show "hole_links (buffer s2) (right_hole e mf x @ xs @ left_hole a x @ ys)"
      "holes_ok (right_hole e mf x @ xs @ left_hole a x @ ys)"
      using s2(2) unfolding slot_holes_def by blast+
    fix i assume "in_holes (right_hole e mf x @ xs @ left_hole a x @ ys) i"
    then show "buffer s' i = buffer s2 i" using out [of i] fit by (force simp: s'_def fits_def)
  qed
  then have "slot_holes s' (right_hole e mf x @ xs @ left_hole a x @ ys)"
    using s2(2) by (simp add: slot_holes_def s'_def)
  moreover have "buffer s' i = buffer s i" if "\<not> in_holes (xs @ x # ys) i" for i
    using that s1(3) s2(3) fit by (auto simp: only_holes_def s'_def fits_def)
  moreover have "buffer s' i = src ! (i - a)" if "a \<le> i" "i \<le> e" for i using that by (simp add: s'_def)
  moreover have "same_key s s'" "payload_length s' = max (payload_length s) (e + 1)"
    using s1(3) s2(3) by (simp_all add: same_key_def only_holes_def s'_def)
  ultimately show thesis by (intro that [OF run]) auto
qed

lemma visit_miss:
  assumes s: "slot_holes s (xs @ x # ys)" and miss: "a > snd x \<or> e < fst x"
  shows "visit_hole a e mf src (fst x) s = Inr (first_hole ys, s)"
proof -
  note get = get_field_ok [OF s] and pos = hole_position [OF s]
  have "(if Some (fst x) \<noteq> hole_list_tail s then sbind (get_field s (fst x) Next) (\<lambda>n. Inr (Some n)) else Inr None)
      = Inr (first_hole ys)"
    using pos(2) get(3) by (cases ys) auto
  then show ?thesis unfolding visit_hole_def using get(1,2) miss by simp
qed

lemma visit_holes_unfold:
  "visit_holes a e mf src None s = Some (Inr s)"
  "visit_hole a e mf src h s = Inr (n, s') \<Longrightarrow>
   visit_holes a e mf src (Some h) s = visit_holes a e mf src n s'"
  by (subst visit_holes.simps, simp)+

lemma walk_miss:
  assumes "slot_holes s (xs @ ys)" "\<forall>y \<in> set ys. a > snd y \<or> e < fst y"
  shows "visit_holes a e mf src (first_hole ys) s = Some (Inr s)"
  using assms
proof (induction ys arbitrary: xs)
  case Nil
  then show ?case by (simp add: visit_holes_unfold)
next
  case (Cons y ys)
  have "visit_hole a e mf src (fst y) s = Inr (first_hole ys, s)"
    using visit_miss [OF Cons(2)] Cons(3) by simp
  then have "visit_holes a e mf src (Some (fst y)) s = visit_holes a e mf src (first_hole ys) s"
    by (rule visit_holes_unfold)
  moreover have "visit_holes a e mf src (first_hole ys) s = Some (Inr s)"
    using Cons(1) [of "xs @ [y]"] Cons(2,3) by simp
  ultimately show ?case by simp
qed

lemma walk_to:
  assumes "slot_holes s (xs @ us @ ys)" "\<forall>y \<in> set us. a > snd y \<or> e < fst y"
  shows "visit_holes a e mf src (first_hole (us @ ys)) s = visit_holes a e mf src (first_hole ys) s"
  using assms
proof (induction us arbitrary: xs)
  case (Cons u us)
  have "slot_holes s (xs @ u # (us @ ys))" using Cons(2) by simp
  from visit_miss [OF this] have "visit_hole a e mf src (fst u) s = Inr (first_hole (us @ ys), s)"
    using Cons(3) by simp
  then have "visit_holes a e mf src (Some (fst u)) s = visit_holes a e mf src (first_hole (us @ ys)) s"
    by (rule visit_holes_unfold)
  then show ?case using Cons(1) [of "xs @ [u]"] Cons(2,3) by simp
qed simp

text \<open>A fragment that meets one hole only.\<close>

lemma walk_hit:
  assumes s: "slot_holes s (xs @ x # ys)" and fit: "fits a e mf x" and src: "e + 1 - a \<le> length src"
  obtains s' where "visit_holes a e mf src (hole_list_head s) s = Some (Inr s')"
    "slot_holes s' (right_hole e mf x @ xs @ left_hole a x @ ys)"
    "\<forall>i. a \<le> i \<and> i \<le> e \<longrightarrow> buffer s' i = src ! (i - a)"
    "\<forall>i. \<not> in_holes (xs @ x # ys) i \<longrightarrow> buffer s' i = buffer s i"
    "payload_length s' = max (payload_length s) (e + 1)" "same_key s s'"
proof -
  have ok: "holes_ok (xs @ x # ys)" and h: "hole_list_head s = first_hole (xs @ x # ys)"
    using s by (simp_all add: slot_holes_def)
  have miss: "a > snd y \<or> e < fst y" if "y \<in> set xs \<union> set ys" for y
  proof -
    have "apart x y \<or> apart y x" using that ok by auto
    then show ?thesis using fit by (auto simp: apart_def fits_def)
  qed
  obtain s' where s': "visit_hole a e mf src (fst x) s = Inr (first_hole ys, s')"
    "slot_holes s' (right_hole e mf x @ xs @ left_hole a x @ ys)"
    "\<forall>i. a \<le> i \<and> i \<le> e \<longrightarrow> buffer s' i = src ! (i - a)"
    "\<forall>i. \<not> in_holes (xs @ x # ys) i \<longrightarrow> buffer s' i = buffer s i"
    "payload_length s' = max (payload_length s) (e + 1)" "same_key s s'"
    by (rule visit_hit [OF s fit src])
  have "visit_holes a e mf src (hole_list_head s) s = visit_holes a e mf src (Some (fst x)) s"
    using walk_to [of s "[]" xs "x # ys" a e mf src] s miss h by simp
  also have "\<dots> = visit_holes a e mf src (first_hole ys) s'" using s'(1) by (rule visit_holes_unfold)
  also have "\<dots> = Some (Inr s')"
    using walk_miss [of s' "right_hole e mf x @ xs @ left_hole a x" ys a e mf src] s'(2) miss by simp
  finally show thesis using that s' by blast
qed

end
