(* ===== verification/Ip_Datagram.thy ===== *)
theory Ip_Datagram
  imports Ip_Holes
begin

text \<open>
  Reassembly of a datagram that was cut into fragments once: the holes of its slot are exactly
  the octets that have not arrived, whatever the order of the fragments and however often one of them
  arrives, and the message that is built in the end is the datagram.
\<close>

subsection \<open>Datagrams and fragments\<close>

text \<open>
  A fragment is the interval of its octets. Fragments of a datagram begin at multiples of 8, all
  but the last end at one, and two of them have no octet in common. For reassembly the last one extends
  to the end of the buffer.
\<close>

definition cut :: "u8 list \<Rightarrow> hole set \<Rightarrow> bool" where
  "cut D F \<longleftrightarrow>
     length D \<le> 65512 \<and>
     (\<forall>x \<in> F. fst x \<le> snd x \<and> snd x < length D \<and> 8 dvd fst x \<and> (snd x + 1 < length D \<longrightarrow> 8 dvd snd x + 1)) \<and>
     (\<forall>x \<in> F. \<forall>y \<in> F. x \<noteq> y \<longrightarrow> apart x y)"

definition extent :: "u8 list \<Rightarrow> hole \<Rightarrow> hole" where
  "extent D x = (if snd x + 1 = length D then (fst x, HOLE_INF) else x)"

definition within :: "hole \<Rightarrow> nat \<Rightarrow> bool" where
  "within x i \<longleftrightarrow> fst x \<le> i \<and> i \<le> snd x"

definition covered :: "u8 list \<Rightarrow> hole set \<Rightarrow> nat \<Rightarrow> bool" where
  "covered D R i \<longleftrightarrow> (\<exists>x \<in> R. within (extent D x) i)"

definition aligned_hole :: "hole \<Rightarrow> bool" where
  "aligned_hole h \<longleftrightarrow> 8 dvd fst h \<and> (snd h = HOLE_INF \<or> 8 dvd snd h + 1)"

text \<open>The state of a slot after the fragments \<open>R\<close> of \<open>D\<close> have arrived.\<close>

definition slot_inv :: "u8 list \<Rightarrow> hole set \<Rightarrow> hole set \<Rightarrow> reassembly_slot_t \<Rightarrow> hole list \<Rightarrow> bool" where
  "slot_inv D F R s hs \<longleftrightarrow>
     slot_holes s hs \<and> R \<subseteq> F \<and> (\<forall>h \<in> set hs. aligned_hole h) \<and>
     (\<forall>i < IP_FRAGMENT_MAX_SIZE. in_holes hs i \<longleftrightarrow> \<not> covered D R i) \<and>
     (\<forall>x \<in> F - R. \<exists>h \<in> set hs. fst h \<le> fst x \<and> snd (extent D x) \<le> snd h) \<and>
     (\<forall>i < length D. covered D R i \<longrightarrow> buffer s i = D ! i) \<and>
     (\<forall>x \<in> R. snd x + 1 \<le> payload_length s) \<and> payload_length s \<le> length D"

text \<open>A message carries the fragment \<open>x\<close> of \<open>D\<close>: \<open>h\<close> is its header, \<open>src\<close> are the bytes behind it.\<close>

definition carries :: "ip_hdr_t \<Rightarrow> u8 list \<Rightarrow> u8 list \<Rightarrow> hole \<Rightarrow> bool" where
  "carries h src D x \<longleftrightarrow>
     frag_offset h = fst x \<and> frag_last h = snd x \<and> (frag_mf h \<longleftrightarrow> snd x + 1 < length D) \<and>
     (\<forall>i. within x i \<longrightarrow> i - fst x < length src \<and> src ! (i - fst x) = D ! i)"

lemma extent_fst [simp]: "fst (extent D x) = fst x"
  by (simp add: extent_def)

lemma extent_le: "cut D F \<Longrightarrow> x \<in> F \<Longrightarrow> snd x \<le> snd (extent D x) \<and> snd (extent D x) \<le> HOLE_INF"
  by (auto simp: cut_def extent_def)

lemma extent_apart:
  assumes "cut D F" "x \<in> F" "y \<in> F" "x \<noteq> y"
  shows "apart (extent D x) (extent D y)"
proof -
  have "apart x y" "fst x \<le> snd x" "snd x < length D" "fst y \<le> snd y" "snd y < length D"
    using assms by (auto simp: cut_def)
  then show ?thesis by (auto simp: apart_def extent_def)
qed

subsection \<open>One fragment\<close>

lemma slot_inv_start:
  assumes "cut D F" "init_slot h s = Inr s'"
  shows "slot_inv D F {} s' [(0, HOLE_INF)]" "used s'" "slot_src s' = h_src h" "slot_dst s' = h_dest h"
    "slot_id s' = ucast (h_id h)" "slot_proto s' = h_proto h"
proof -
  let ?s = "s \<lparr> used := True, slot_dst := h_dest h, slot_src := h_src h, slot_id := ucast (h_id h),
               slot_proto := h_proto h, hole_list_tail := None, hole_list_head := None,
               payload_length := 0, timeout := REASSEMBLY_TIMEOUT \<rparr>"
  have "slot_holes ?s []" by (simp add: slot_holes_def)
  moreover have "good_hole (0, HOLE_INF)" "\<forall>y \<in> set []. apart (0, HOLE_INF) y" by (simp_all add: good_hole_def)
  ultimately obtain s1 where s1: "add_hole 0 HOLE_INF ?s = Inr s1" "slot_holes s1 [(0, HOLE_INF)]"
    "only_holes [(0, HOLE_INF)] ?s s1" by (rule add_hole_ok)
  then have eq: "s' = s1" using assms(2) by (simp add: init_slot_def)
  show "used s'" "slot_src s' = h_src h" "slot_dst s' = h_dest h" "slot_id s' = ucast (h_id h)"
    "slot_proto s' = h_proto h" using s1(3) eq by (simp_all add: only_holes_def)
  show "slot_inv D F {} s' [(0, HOLE_INF)]"
    using s1(2,3) eq extent_le [OF assms(1)]
    by (auto simp: slot_inv_def covered_def aligned_hole_def only_holes_def)
qed

lemma init_slot_returns: "\<exists>s'. init_slot h s = Inr s'"
proof -
  let ?s = "s \<lparr> used := True, slot_dst := h_dest h, slot_src := h_src h, slot_id := ucast (h_id h),
               slot_proto := h_proto h, hole_list_tail := None, hole_list_head := None,
               payload_length := 0, timeout := REASSEMBLY_TIMEOUT \<rparr>"
  have "slot_holes ?s []" by (simp add: slot_holes_def)
  moreover have "good_hole (0, HOLE_INF)" "\<forall>y \<in> set []. apart (0, HOLE_INF) y" by (simp_all add: good_hole_def)
  ultimately obtain s1 where "add_hole 0 HOLE_INF ?s = Inr s1" by (rule add_hole_ok)
  then show ?thesis by (simp add: init_slot_def)
qed

text \<open>A fragment that has been received before changes nothing.\<close>

lemma visit_duplicate:
  assumes cut: "cut D F" and inv: "slot_inv D F R s hs" and x: "x \<in> R"
  shows "visit_holes (fst x) (snd x) mf src (hole_list_head s) s = Some (Inr s)"
proof -
  have ok: "slot_holes s hs" "holes_ok hs" and h: "hole_list_head s = first_hole hs"
    using inv by (auto simp: slot_inv_def slot_holes_def)
  have x': "fst x \<le> snd x" "snd x < IP_FRAGMENT_MAX_SIZE" using cut inv x by (auto simp: cut_def slot_inv_def)
  have "fst x > snd y \<or> snd x < fst y" if y: "y \<in> set hs" for y
  proof (rule ccontr)
    assume meet: "\<not> (fst x > snd y \<or> snd x < fst y)"
    let ?i = "max (fst x) (fst y)"
    have g: "good_hole y" using y ok(2) by (simp add: holes_ok_def)
    have i: "within x ?i" "fst y \<le> ?i" "?i \<le> snd y" "?i < IP_FRAGMENT_MAX_SIZE"
      using meet x' g by (auto simp: within_def good_hole_def max_def)
    then have "in_holes hs ?i" unfolding in_holes_def using y by blast
    then have "\<not> covered D R ?i" using inv i(4) by (simp add: slot_inv_def)
    moreover have "covered D R ?i"
      using x i(1) extent_le [OF cut, of x] inv by (auto simp: covered_def within_def slot_inv_def intro!: bexI [of _ x])
    ultimately show False by blast
  qed
  then show ?thesis using walk_miss [of s "[]" hs "fst x" "snd x" mf src] ok(1) h by simp
qed

text \<open>A new fragment lies in one hole.\<close>

lemma next_multiple:
  assumes "(8 :: nat) dvd a" "8 dvd b" "a \<le> b"
  shows "a = b \<or> a + 8 \<le> b"
proof -
  obtain i j where "a = 8 * i" "b = 8 * j" using assms(1,2) by (elim dvdE)
  then show ?thesis using assms(3) by (cases "i < j") auto
qed

lemma fragment_fits:
  assumes cut: "cut D F" and inv: "slot_inv D F R s hs" and x: "x \<in> F - R"
  obtains xs h ys where "hs = xs @ h # ys" "fits (fst x) (snd x) (snd x + 1 < length D) h"
    "snd (extent D x) \<le> snd h"
proof -
  obtain h where h: "h \<in> set hs" "fst h \<le> fst x" "snd (extent D x) \<le> snd h"
    using inv x unfolding slot_inv_def by blast
  have al: "aligned_hole h" "good_hole h" using inv h(1) by (auto simp: slot_inv_def slot_holes_def holes_ok_def)
  have c: "fst x \<le> snd x" "snd x < length D" "8 dvd fst x" "snd x + 1 < length D \<longrightarrow> 8 dvd snd x + 1"
    "length D \<le> 65512" using cut x by (auto simp: cut_def)
  have "snd x \<le> snd h" using extent_le [OF cut, of x] x h(3) by auto
  moreover have "fst x = fst h \<or> fst h + 8 \<le> fst x"
    using next_multiple [of "fst h" "fst x"] c(3) al(1) h(2) by (auto simp: aligned_hole_def)
  moreover have "snd x = snd h \<or> snd x + 8 \<le> snd h" if "snd x + 1 < length D"
  proof (cases "snd h = HOLE_INF")
    case True
    have "snd x + 1 = 65512 \<or> snd x + 1 + 8 \<le> 65512" using that c(4,5) by (intro next_multiple) simp_all
    then show ?thesis using True that c(5) by linarith
  next
    case False
    then have "snd x + 1 = snd h + 1 \<or> snd x + 1 + 8 \<le> snd h + 1"
      using that c(4) al(1) \<open>snd x \<le> snd h\<close> by (intro next_multiple) (simp_all add: aligned_hole_def)
    then show ?thesis by linarith
  qed
  ultimately have "fits (fst x) (snd x) (snd x + 1 < length D) h" using h(2) c(1) by (auto simp: fits_def)
  moreover obtain xs ys where "hs = xs @ h # ys" using h(1) by (meson split_list)
  ultimately show thesis using that h(3) by blast
qed

text \<open>The holes that are left, and where the other fragments lie.\<close>

lemma holes_left:
  assumes ok: "holes_ok (xs @ h # ys)" and fit: "fits (fst x) (snd x) (snd x + 1 < length D) h"
    and x: "snd x < length D" "snd (extent D x) \<le> snd h" and i: "i < IP_FRAGMENT_MAX_SIZE"
  defines "hs' \<equiv> right_hole (snd x) (snd x + 1 < length D) h @ xs @ left_hole (fst x) h @ ys"
  shows "in_holes hs' i \<longleftrightarrow> in_holes (xs @ h # ys) i \<and> \<not> within (extent D x) i"
proof (cases "within h i")
  case True
  have "\<not> (fst y \<le> i \<and> i \<le> snd y)" if "y \<in> set xs \<union> set ys" for y
  proof -
    have "apart h y \<or> apart y h" using that ok by auto
    then show ?thesis using True by (auto simp: apart_def within_def)
  qed
  then have "\<not> in_holes xs i" "\<not> in_holes ys i" by (auto simp: in_holes_def)
  moreover have "in_holes (right_hole (snd x) (snd x + 1 < length D) h) i \<longleftrightarrow> snd x + 1 < length D \<and> snd x < i"
    using True by (auto simp: right_hole_def within_def)
  moreover have "in_holes (left_hole (fst x) h) i \<longleftrightarrow> i < fst x"
    using True by (auto simp: left_hole_def within_def)
  moreover have "within (extent D x) i \<longleftrightarrow> fst x \<le> i \<and> (snd x + 1 < length D \<longrightarrow> i \<le> snd x)"
    using x(1) i by (auto simp: within_def extent_def)
  ultimately show ?thesis using True by (auto simp: hs'_def within_def)
next
  case False
  then have "\<not> in_holes (right_hole (snd x) (snd x + 1 < length D) h) i" "\<not> in_holes (left_hole (fst x) h) i"
    using fit by (auto simp: right_hole_def left_hole_def within_def fits_def)
  moreover have "\<not> within (extent D x) i" using False fit x(2) by (auto simp: within_def fits_def)
  ultimately show ?thesis using False by (auto simp: hs'_def within_def)
qed

lemma fragments_left:
  assumes cut: "cut D F" and fit: "fits (fst x) (snd x) (snd x + 1 < length D) h"
    and x: "x \<in> F" and y: "y \<in> F" "y \<noteq> x" "k \<in> set (xs @ h # ys)" "fst k \<le> fst y" "snd (extent D y) \<le> snd k"
  defines "hs' \<equiv> right_hole (snd x) (snd x + 1 < length D) h @ xs @ left_hole (fst x) h @ ys"
  shows "\<exists>k \<in> set hs'. fst k \<le> fst y \<and> snd (extent D y) \<le> snd k"
proof (cases "k = h")
  case False
  then show ?thesis using y by (intro bexI [of _ k]) (auto simp: hs'_def)
next
  case True
  have yb: "fst y \<le> snd (extent D y)" "snd (extent D y) \<le> HOLE_INF"
    using extent_le [OF cut y(1)] cut y(1) by (auto simp: cut_def)
  from extent_apart [OF cut x y(1)] y(2) consider "snd (extent D x) < fst y" | "snd (extent D y) < fst x"
    by (auto simp: apart_def)
  then show ?thesis
  proof cases
    case 1
    then have "snd x + 1 \<noteq> length D" using yb by (auto simp: extent_def)
    moreover have "snd x < length D" using cut x by (auto simp: cut_def)
    ultimately have "snd x + 1 < length D" "snd x < fst y" using 1 by (auto simp: extent_def)
    then show ?thesis using True y(5) yb(1)
      by (intro bexI [of _ "(snd x + 1, snd h)"]) (auto simp: hs'_def right_hole_def)
  next
    case 2
    then show ?thesis using True y(4) yb(1)
      by (intro bexI [of _ "(fst h, fst x - 1)"]) (auto simp: hs'_def left_hole_def)
  qed
qed

lemma visit_new:
  assumes cut: "cut D F" and inv: "slot_inv D F R s hs" and x: "x \<in> F - R"
    and car: "carries hdr src D x"
  obtains s' hs' where
    "visit_holes (fst x) (snd x) (snd x + 1 < length D) src (hole_list_head s) s = Some (Inr s')"
    "slot_inv D F (insert x R) s' hs'" "same_key s s'"
proof -
  obtain xs h ys where hs: "hs = xs @ h # ys" and fit: "fits (fst x) (snd x) (snd x + 1 < length D) h"
    and ext: "snd (extent D x) \<le> snd h" by (rule fragment_fits [OF cut inv x])
  let ?mf = "snd x + 1 < length D"
  have s: "slot_holes s (xs @ h # ys)" and ok: "holes_ok (xs @ h # ys)"
    using inv hs by (auto simp: slot_inv_def slot_holes_def)
  have c: "fst x \<le> snd x" "snd x < length D" "length D \<le> 65512" "8 dvd fst x" "?mf \<longrightarrow> 8 dvd snd x + 1"
    using cut x by (auto simp: cut_def)
  have "within x (snd x)" using c(1) by (simp add: within_def)
  then have "snd x - fst x < length src" using car by (simp add: carries_def)
  then have src: "snd x + 1 - fst x \<le> length src" by simp
  define hs' where "hs' = right_hole (snd x) ?mf h @ xs @ left_hole (fst x) h @ ys"
  obtain s' where run: "visit_holes (fst x) (snd x) ?mf src (hole_list_head s) s = Some (Inr s')"
    and s': "slot_holes s' hs'"
      "\<forall>i. fst x \<le> i \<and> i \<le> snd x \<longrightarrow> buffer s' i = src ! (i - fst x)"
      "\<forall>i. \<not> in_holes hs i \<longrightarrow> buffer s' i = buffer s i"
      "payload_length s' = max (payload_length s) (snd x + 1)" "same_key s s'"
    using walk_hit [OF s fit src] unfolding hs'_def hs by blast
  have g: "good_hole h" "aligned_hole h" using inv hs by (auto simp: slot_inv_def slot_holes_def)
  have end_h: "snd h = HOLE_INF" if "\<not> ?mf"
  proof -
    have "snd x + 1 = length D" using that c(2) by simp
    then show ?thesis using ext g(1) by (simp add: extent_def good_hole_def)
  qed
  have gone: "in_holes hs' i \<longleftrightarrow> in_holes hs i \<and> \<not> within (extent D x) i" if "i < IP_FRAGMENT_MAX_SIZE" for i
    unfolding hs'_def hs by (rule holes_left [OF ok fit c(2) ext that])
  have "\<forall>y \<in> F - insert x R. \<exists>k \<in> set hs'. fst k \<le> fst y \<and> snd (extent D y) \<le> snd k"
  proof
    fix y assume y: "y \<in> F - insert x R"
    then obtain k where "k \<in> set (xs @ h # ys)" "fst k \<le> fst y" "snd (extent D y) \<le> snd k"
      using inv unfolding slot_inv_def hs by blast
    then show "\<exists>k \<in> set hs'. fst k \<le> fst y \<and> snd (extent D y) \<le> snd k"
      unfolding hs'_def using y x by (intro fragments_left [OF cut fit]) auto
  qed
  moreover have "\<forall>k \<in> set hs'. aligned_hole k"
  proof
    fix k assume "k \<in> set hs'"
    moreover have "aligned_hole k" if "k \<in> set (right_hole (snd x) ?mf h)"
      using right_holeE [OF that] g(2) c(5) by (simp add: aligned_hole_def)
    moreover have "aligned_hole k" if "k \<in> set (left_hole (fst x) h)"
      using left_holeE [OF that] g(2) c(4) by (simp add: aligned_hole_def)
    moreover have "aligned_hole k" if "k \<in> set xs \<union> set ys"
      using that inv hs by (simp add: slot_inv_def)
    ultimately show "aligned_hole k" unfolding hs'_def set_append by blast
  qed
  moreover have "\<forall>i < length D. covered D (insert x R) i \<longrightarrow> buffer s' i = D ! i"
  proof (intro allI impI)
    fix i assume i: "i < length D" "covered D (insert x R) i"
    show "buffer s' i = D ! i"
    proof (cases "within x i")
      case True
      then show ?thesis using s'(2) car by (auto simp: within_def carries_def)
    next
      case False
      then have "\<not> within (extent D x) i" using i(1) by (auto simp: within_def extent_def)
      then have cov: "covered D R i" using i(2) by (auto simp: covered_def)
      then have "\<not> in_holes hs i" using inv i(1) c(3) by (auto simp: slot_inv_def)
      then show ?thesis using s'(3) inv i(1) cov by (simp add: slot_inv_def)
    qed
  qed
  moreover have "\<forall>i < IP_FRAGMENT_MAX_SIZE. in_holes hs' i \<longleftrightarrow> \<not> covered D (insert x R) i"
    using gone inv by (auto simp: slot_inv_def covered_def)
  ultimately have "slot_inv D F (insert x R) s' hs'"
    using s'(1,4) inv x c(2) by (auto simp: slot_inv_def)
  then show thesis using that run s'(5) by blast
qed

subsection \<open>Completion\<close>

definition complete :: "u8 list \<Rightarrow> hole set \<Rightarrow> bool" where
  "complete D R \<longleftrightarrow> (\<forall>i < length D. \<exists>x \<in> R. within x i)"

lemma complete_last:
  assumes "complete D R" "D \<noteq> []"
  obtains x where "x \<in> R" "within x (length D - 1)"
proof -
  have "length D - 1 < length D" using assms(2) by simp
  then show thesis using assms(1) that unfolding complete_def by blast
qed

lemma slot_complete_iff:
  assumes cut: "cut D F" "D \<noteq> []" and inv: "slot_inv D F R s hs"
  shows "hs = [] \<longleftrightarrow> complete D R"
proof
  have L: "length D \<le> 65512" using cut by (simp add: cut_def)
  assume "hs = []"
  then have cov: "covered D R i" if "i < IP_FRAGMENT_MAX_SIZE" for i using inv that by (simp add: slot_inv_def)
  show "complete D R" unfolding complete_def
  proof (intro allI impI)
    fix i assume "i < length D"
    then show "\<exists>x \<in> R. within x i"
      using cov [of i] L by (auto simp: covered_def within_def extent_def split: if_splits)
  qed
next
  assume c: "complete D R"
  show "hs = []"
  proof (rule ccontr)
    assume "hs \<noteq> []"
    then obtain h hs' where h: "hs = h # hs'" by (cases hs) auto
    have g: "good_hole h" using inv h by (simp add: slot_inv_def slot_holes_def)
    then have "in_holes hs (fst h)" "fst h < IP_FRAGMENT_MAX_SIZE" using h by (simp_all add: good_hole_def)
    then have nc: "\<not> covered D R (fst h)" using inv by (simp add: slot_inv_def)
    have sub: "x \<in> F" if "x \<in> R" for x using inv that by (auto simp: slot_inv_def)
    show False
    proof (cases "fst h < length D")
      case True
      then obtain x where x: "x \<in> R" "within x (fst h)" using c by (auto simp: complete_def)
      then show False using nc extent_le [OF cut(1) sub [OF x(1)]]
        by (auto simp: covered_def within_def intro!: bexI [of _ x])
    next
      case False
      obtain x where x: "x \<in> R" "within x (length D - 1)" by (rule complete_last [OF c cut(2)])
      then have "snd x + 1 = length D" using sub [OF x(1)] cut by (auto simp: cut_def within_def)
      then have "within (extent D x) (fst h)"
        using x False g by (auto simp: within_def extent_def good_hole_def)
      then show False using nc x(1) by (auto simp: covered_def)
    qed
  qed
qed

lemma slot_complete:
  assumes cut: "cut D F" "D \<noteq> []" and inv: "slot_inv D F R s []"
  shows "payload_length s = length D" "map (buffer s) [0..<length D] = D"
proof -
  have L: "length D \<le> 65512" using cut by (simp add: cut_def)
  have cov: "covered D R i" if "i < IP_FRAGMENT_MAX_SIZE" for i using inv that by (simp add: slot_inv_def)
  have "complete D R" using slot_complete_iff [OF cut inv] by simp
  then obtain x where x: "x \<in> R" "within x (length D - 1)" by (rule complete_last [OF _ cut(2)])
  then have "length D \<le> snd x + 1" "snd x + 1 \<le> payload_length s"
    using inv by (auto simp: within_def slot_inv_def)
  then show "payload_length s = length D" using inv by (simp add: slot_inv_def)
  show "map (buffer s) [0..<length D] = D"
    using inv cov L by (intro nth_equalityI) (auto simp: slot_inv_def)
qed

text \<open>The message that is built.\<close>

lemma build_final_msg_ok:
  assumes "payload_length s \<le> 65515" "alloc (payload_length s)"
  obtains r where "build_final_msg alloc junk s h = Some r" "msg_ok r"
    "contents r = ip_hdr_bytes (final_hdr h (payload_length s)) @ map (buffer s) [0..<payload_length s]"
    "ip_hdr r = Offset (start r)" "ip_src r = slot_src s" "ip_dest r = slot_dst s"
    "ip_proto r = slot_proto s" "ip_length r = of_nat (payload_length s)"
proof -
  let ?n = "payload_length s" and ?hb = "ip_hdr_bytes (final_hdr h (payload_length s))"
  obtain m0 where m0: "net_msg_new alloc junk ?n = Some m0" using assms by (auto simp: net_msg_new_def)
  note new = net_msg_new_SomeD [OF m0]
  have n: "msg_ok m0" "contents m0 = []" "start m0 = 128" "finish m0 = 128" "length (data m0) = ?n + 128"
    using new assms(1) by simp_all
  let ?m1 = "m0 \<lparr> start := 108 \<rparr>"
  have p: "net_msg_prepend m0 (length ?hb) = Some (108, ?m1)" using n by (simp add: net_msg_prepend_def)
  let ?m2 = "store ?m1 108 ?hb"
  note m2 = prepend_store [OF n(1) p]
  have d2: "length (data ?m2) = ?n + 128" using n by simp
  let ?bs = "map (buffer s) [0..<?n]"
  have a: "net_msg_append ?m2 (length ?bs) = Some (128, ?m2 \<lparr> finish := 128 + ?n \<rparr>)"
    using n d2 by (simp add: net_msg_append_def)
  note m3 = append_store [OF m2(2) a]
  let ?r = "store (?m2 \<lparr> finish := 128 + ?n \<rparr>) 128 ?bs
    \<lparr> ip_dest := slot_dst s, ip_src := slot_src s, ip_hdr := Offset 108,
      ip_length := of_nat ?n, ip_proto := slot_proto s, nic := None \<rparr>"
  have b: "build_final_msg alloc junk s h = Some ?r"
    unfolding build_final_msg_def m0 using p a by (simp add: Let_def)
  have c: "contents ?r = ?hb @ ?bs" "msg_ok ?r"
    using m2(1) m3(1,2) n(2) by (simp_all add: contents_def msg_ok_def)
  show thesis by (rule that [OF b c(2,1)]) simp_all
qed

end
