(* ===== verification/Ip_Slots.thy ===== *)
theory Ip_Slots
  imports Ip_Datagram
begin

text \<open>
  The reassembly slots together: against a map from the keys of the datagrams under way to the
  sets of fragments that have arrived, \<open>ip_reassembly\<close> and \<open>ip_do_tick\<close> are refinements of the
  abstract operations that add a fragment to a set and forget some of the sets.
\<close>

subsection \<open>The abstract reassembly\<close>

type_synonym dg_key = "u32 \<times> u32 \<times> u32 \<times> u8"

definition hdr_key :: "ip_hdr_t \<Rightarrow> dg_key" where
  "hdr_key h = (h_src h, h_dest h, ucast (h_id h), h_proto h)"

definition slot_key :: "reassembly_slot_t \<Rightarrow> dg_key" where
  "slot_key s = (slot_src s, slot_dst s, slot_id s, slot_proto s)"

type_synonym datagrams = "dg_key \<Rightarrow> u8 list \<times> hole set"

text \<open>
  Adding the fragment \<open>x\<close> of the datagram \<open>k\<close> when at most \<open>n\<close> datagrams can be under way: the
  payload that is complete, if it is, and the new map.
\<close>

definition reassemble_spec ::
    "nat \<Rightarrow> datagrams \<Rightarrow> dg_key \<Rightarrow> hole \<Rightarrow> (dg_key \<rightharpoonup> hole set) \<Rightarrow> u8 list option \<times> (dg_key \<rightharpoonup> hole set)" where
  "reassemble_spec n dg k x A =
     (if A k = None \<and> card (dom A) \<ge> n then (None, A)
      else let R = insert x (case A k of None \<Rightarrow> {} | Some R \<Rightarrow> R)
           in if complete (fst (dg k)) R then (Some (fst (dg k)), A(k := None)) else (None, A(k \<mapsto> R)))"

text \<open>The slots represent the map \<open>A\<close>.\<close>

definition slots_rel :: "datagrams \<Rightarrow> (dg_key \<rightharpoonup> hole set) \<Rightarrow> reassembly_slot_t list \<Rightarrow> bool" where
  "slots_rel dg A slots \<longleftrightarrow>
     (\<forall>i < length slots. used (slots ! i) \<longrightarrow>
        (\<exists>R hs. A (slot_key (slots ! i)) = Some R \<and>
           slot_inv (fst (dg (slot_key (slots ! i)))) (snd (dg (slot_key (slots ! i)))) R (slots ! i) hs)) \<and>
     (\<forall>k \<in> dom A. \<exists>i < length slots. used (slots ! i) \<and> slot_key (slots ! i) = k) \<and>
     (\<forall>i < length slots. \<forall>j < length slots. used (slots ! i) \<longrightarrow> used (slots ! j) \<longrightarrow>
        slot_key (slots ! i) = slot_key (slots ! j) \<longrightarrow> i = j)"

text \<open>The datagrams that are sent, and a message that carries a fragment of one of them.\<close>

definition datagrams_ok :: "datagrams \<Rightarrow> bool" where
  "datagrams_ok dg \<longleftrightarrow> (\<forall>k. cut (fst (dg k)) (snd (dg k)) \<and> fst (dg k) \<noteq> [])"

definition fragment_msg :: "datagrams \<Rightarrow> net_msg_t \<Rightarrow> hole \<Rightarrow> bool" where
  "fragment_msg dg m x \<longleftrightarrow>
     (let h = msg_ip_hdr m; k = hdr_key h
      in x \<in> snd (dg k) \<and> (frag_mf h \<or> frag_offset h \<noteq> 0) \<and>
         carries h (drop (ip_off m + sizeof_ip_hdr) (data m)) (fst (dg k)) x)"

subsection \<open>The search\<close>

lemma slot_matches_key: "slot_matches h s \<longleftrightarrow> used s \<and> slot_key s = hdr_key h"
  by (auto simp: slot_matches_def slot_key_def hdr_key_def)

lemma find_slot_cases:
  assumes "find_slot h slots n u = r"
  shows "case r of
      (Some i, _) \<Rightarrow> n \<le> i \<and> i < n + length slots \<and> slot_matches h (slots ! (i - n))
    | (None, w) \<Rightarrow> (\<forall>s \<in> set slots. \<not> slot_matches h s) \<and>
        (case w of
           None \<Rightarrow> u = None \<and> (\<forall>s \<in> set slots. used s)
         | Some i \<Rightarrow> w = u \<or> n \<le> i \<and> i < n + length slots \<and> \<not> used (slots ! (i - n)))"
  using assms
proof (induction h slots n u arbitrary: r rule: find_slot.induct)
  case (2 h s slots i u)
  show ?case
  proof (cases "slot_matches h s")
    case False
    let ?u = "if \<not> used s then Some i else u"
    have "find_slot h slots (i + 1) ?u = r" using 2(2) False by simp
    note IH = 2(1) [OF False this]
    show ?thesis
      using IH False
      by (auto split: prod.splits option.splits if_splits simp: nth_Cons' le_Suc_eq)
  qed (use 2 in auto)
qed (auto split: option.splits)

lemma slots_rel_slot:
  assumes "slots_rel dg A slots" "i < length slots" "used (slots ! i)"
  obtains R hs where "A (slot_key (slots ! i)) = Some R"
    "slot_inv (fst (dg (slot_key (slots ! i)))) (snd (dg (slot_key (slots ! i)))) R (slots ! i) hs"
  using assms unfolding slots_rel_def by blast

lemma slots_rel_index:
  assumes "slots_rel dg A slots" "k \<in> dom A"
  obtains i where "i < length slots" "used (slots ! i)" "slot_key (slots ! i) = k"
  using assms unfolding slots_rel_def by blast

lemma slots_rel_unique:
  "slots_rel dg A slots \<Longrightarrow> i < length slots \<Longrightarrow> j < length slots \<Longrightarrow> used (slots ! i) \<Longrightarrow> used (slots ! j) \<Longrightarrow>
   slot_key (slots ! i) = slot_key (slots ! j) \<Longrightarrow> i = j"
  unfolding slots_rel_def by blast

text \<open>The number of datagrams under way is the number of slots in use.\<close>

lemma slots_rel_card:
  assumes "slots_rel dg A slots"
  shows "card (dom A) = card {i. i < length slots \<and> used (slots ! i)}"
proof -
  have "bij_betw (\<lambda>i. slot_key (slots ! i)) {i. i < length slots \<and> used (slots ! i)} (dom A)"
  proof (rule bij_betw_imageI)
    show "inj_on (\<lambda>i. slot_key (slots ! i)) {i. i < length slots \<and> used (slots ! i)}"
      using slots_rel_unique [OF assms] by (intro inj_onI) auto
    show "(\<lambda>i. slot_key (slots ! i)) ` {i. i < length slots \<and> used (slots ! i)} = dom A"
    proof (intro set_eqI iffI)
      fix k assume "k \<in> (\<lambda>i. slot_key (slots ! i)) ` {i. i < length slots \<and> used (slots ! i)}"
      then show "k \<in> dom A" using slots_rel_slot [OF assms] by auto
    next
      fix k assume "k \<in> dom A"
      then show "k \<in> (\<lambda>i. slot_key (slots ! i)) ` {i. i < length slots \<and> used (slots ! i)}"
        using slots_rel_index [OF assms, of k] by auto
    qed
  qed
  then show ?thesis by (simp add: bij_betw_same_card)
qed

lemma slots_rel_full:
  assumes "slots_rel dg A slots"
  shows "card (dom A) \<ge> length slots \<longleftrightarrow> (\<forall>i < length slots. used (slots ! i))"
proof -
  let ?U = "{i. i < length slots \<and> used (slots ! i)}"
  have sub: "?U \<subseteq> {..<length slots}" by auto
  then have "card ?U = length slots \<longleftrightarrow> ?U = {..<length slots}"
    by (metis card_lessThan card_subset_eq finite_lessThan)
  moreover have "card ?U \<le> length slots" using card_mono [OF finite_lessThan sub] by simp
  ultimately show ?thesis using slots_rel_card [OF assms] by auto
qed

lemma slots_rel_none:
  "slots_rel dg A slots \<Longrightarrow> A k = None \<longleftrightarrow> (\<forall>i < length slots. used (slots ! i) \<longrightarrow> slot_key (slots ! i) \<noteq> k)"
  using slots_rel_slot [of dg A slots] slots_rel_index [of dg A slots k] by (metis domIff option.discI)

text \<open>The slot of a datagram is replaced, or given up.\<close>

lemma slots_rel_update:
  assumes rel: "slots_rel dg A slots" and i: "i < length slots"
    and old: "used (slots ! i) \<longrightarrow> slot_key (slots ! i) = k" "\<not> used (slots ! i) \<longrightarrow> A k = None"
    and new: "case r of
      None \<Rightarrow> \<not> used s | Some R \<Rightarrow> used s \<and> slot_key s = k \<and> (\<exists>hs. slot_inv (fst (dg k)) (snd (dg k)) R s hs)"
  shows "slots_rel dg (A(k := r)) (slots[i := s])"
proof -
  have other: "j = i" if "j < length slots" "used (slots ! j)" "slot_key (slots ! j) = k" for j
    using slots_rel_unique [OF rel that(1) i] old that by (cases "used (slots ! i)") (auto simp: slots_rel_none [OF rel])
  show ?thesis unfolding slots_rel_def
  proof (intro conjI allI impI ballI)
    fix j assume j: "j < length (slots[i := s])" "used (slots[i := s] ! j)"
    show "\<exists>R hs. (A(k := r)) (slot_key (slots[i := s] ! j)) = Some R \<and>
        slot_inv (fst (dg (slot_key (slots[i := s] ! j)))) (snd (dg (slot_key (slots[i := s] ! j)))) R (slots[i := s] ! j) hs"
    proof (cases "j = i")
      case True
      then show ?thesis using j i new by (auto split: option.splits)
    next
      case False
      then have j': "j < length slots" "used (slots ! j)" "slots[i := s] ! j = slots ! j" using j by auto
      then have "slot_key (slots ! j) \<noteq> k" using other False by blast
      then show ?thesis using slots_rel_slot [OF rel j'(1,2)] j'(3) by (metis fun_upd_other)
    qed
  next
    fix k' assume k': "k' \<in> dom (A(k := r))"
    show "\<exists>j < length (slots[i := s]). used (slots[i := s] ! j) \<and> slot_key (slots[i := s] ! j) = k'"
    proof (cases "k' = k")
      case True
      then show ?thesis using k' i new by (auto split: option.splits)
    next
      case False
      then have "k' \<in> dom A" using k' by (auto split: if_splits)
      then obtain j where j: "j < length slots" "used (slots ! j)" "slot_key (slots ! j) = k'"
        by (rule slots_rel_index [OF rel])
      then have "j \<noteq> i" using False old(1) by blast
      then show ?thesis using j by (intro exI [of _ j]) simp
    qed
  next
    fix a b assume ab: "a < length (slots[i := s])" "b < length (slots[i := s])" "used (slots[i := s] ! a)" "used (slots[i := s] ! b)"
      "slot_key (slots[i := s] ! a) = slot_key (slots[i := s] ! b)"
    have sk: "used s \<Longrightarrow> slot_key s = k" using new by (cases r) auto
    consider "a = i" "b = i" | "a = i" "b \<noteq> i" | "a \<noteq> i" "b = i" | "a \<noteq> i" "b \<noteq> i" by blast
    then show "a = b"
    proof cases
      case 2
      then show ?thesis using ab i sk other [of b] by simp
    next
      case 3
      then show ?thesis using ab i sk other [of a] by simp
    next
      case 4
      then show ?thesis using ab slots_rel_unique [OF rel, of a b] by simp
    qed simp
  qed
qed

subsection \<open>A fragment arrives\<close>

lemma visit_fragment:
  assumes "cut D F" "slot_inv D F R s hs" "x \<in> F" "carries h src D x"
  obtains s' hs' where
    "visit_holes (frag_offset h) (frag_last h) (frag_mf h) src (hole_list_head s) s = Some (Inr s')"
    "slot_inv D F (insert x R) s' hs'" "same_key s s'"
proof (cases "x \<in> R")
  case True
  then have "insert x R = R" by auto
  then show thesis
    using that visit_duplicate [OF assms(1,2) True] assms(2,4) by (simp add: carries_def same_key_def)
next
  case False
  then have "x \<in> F - R" using assms(3) by simp
  then obtain s' hs' where
    "visit_holes (fst x) (snd x) (snd x + 1 < length D) src (hole_list_head s) s = Some (Inr s')"
    "slot_inv D F (insert x R) s' hs'" "same_key s s'" by (rule visit_new [OF assms(1,2) _ assms(4)])
  then show thesis using that assms(4) by (simp add: carries_def)
qed

text \<open>The message handed on after the last fragment carries the datagram behind a header without fragmentation.\<close>

definition delivers :: "net_msg_t \<Rightarrow> ip_hdr_t \<Rightarrow> u8 list \<Rightarrow> bool" where
  "delivers r h D \<longleftrightarrow>
     contents r = ip_hdr_bytes (final_hdr h (length D)) @ D \<and> msg_ok r \<and> ip_hdr r = Offset (start r) \<and>
     ip_src r = h_src h \<and> ip_dest r = h_dest h \<and> ip_proto r = h_proto h \<and> ip_length r = of_nat (length D)"

definition result_ok :: "(nat \<Rightarrow> bool) \<Rightarrow> ip_hdr_t \<Rightarrow> u8 list option \<Rightarrow> net_msg_t option \<Rightarrow> bool" where
  "result_ok alloc h d r \<longleftrightarrow>
     (case d of
        None \<Rightarrow> r = None
      | Some D \<Rightarrow> if alloc (length D) then \<exists>m. r = Some m \<and> delivers m h D else r = None)"

lemma build_complete:
  assumes cut: "cut D F" "D \<noteq> []" and inv: "slot_inv D F R s []" and key: "slot_key s = hdr_key h"
  shows "result_ok alloc h (Some D) (build_final_msg alloc junk (s \<lparr> used := False \<rparr>) h)"
proof -
  let ?s = "s \<lparr> used := False \<rparr>"
  note pl = slot_complete [OF cut inv]
  have L: "payload_length ?s \<le> 65515" using pl cut by (simp add: cut_def)
  show ?thesis
  proof (cases "alloc (length D)")
    case True
    then have "alloc (payload_length ?s)" using pl by simp
    then obtain r where "build_final_msg alloc junk ?s h = Some r" "msg_ok r"
      "contents r = ip_hdr_bytes (final_hdr h (payload_length ?s)) @ map (buffer ?s) [0..<payload_length ?s]"
      "ip_hdr r = Offset (start r)" "ip_src r = slot_src ?s" "ip_dest r = slot_dst ?s"
      "ip_proto r = slot_proto ?s" "ip_length r = of_nat (payload_length ?s)"
      by (rule build_final_msg_ok [where alloc = alloc, OF L])
    then show ?thesis using True pl key by (simp add: result_ok_def delivers_def slot_key_def hdr_key_def)
  next
    case False
    then show ?thesis using pl by (simp add: result_ok_def build_final_msg_def net_msg_new_def)
  qed
qed

lemma reassemble_in_ok:
  fixes m :: net_msg_t and x :: hole and dg :: datagrams
  defines "h \<equiv> msg_ip_hdr m"
  defines "k \<equiv> hdr_key h"
  assumes dg: "datagrams_ok dg" and frag: "fragment_msg dg m x" and rel: "slots_rel dg A slots"
    and i: "i < length slots" and old: "used (slots ! i) \<longrightarrow> slot_key (slots ! i) = k" "\<not> used (slots ! i) \<longrightarrow> A k = None"
    and s: "used s" "slot_key s = k" "slot_inv (fst (dg k)) (snd (dg k)) R s hs"
  obtains r slots' where "reassemble_in alloc junk m i s slots = Some (Inr (r, slots', True))"
    "length slots' = length slots"
    "slots_rel dg (A(k := if complete (fst (dg k)) (insert x R) then None else Some (insert x R))) slots'"
    "result_ok alloc h (if complete (fst (dg k)) (insert x R) then Some (fst (dg k)) else None) r"
proof -
  let ?D = "fst (dg k)" and ?F = "snd (dg k)" and ?R = "insert x R"
  let ?src = "drop (ip_off m + sizeof_ip_hdr) (data m)"
  have c: "cut ?D ?F" "?D \<noteq> []" using dg unfolding datagrams_ok_def by blast+
  have x: "x \<in> ?F" "carries h ?src ?D x" using frag by (simp_all add: fragment_msg_def h_def k_def Let_def)
  obtain s' hs' where v: "visit_holes (frag_offset h) (frag_last h) (frag_mf h) ?src (hole_list_head s) s = Some (Inr s')"
    and inv: "slot_inv ?D ?F ?R s' hs'" and key: "same_key s s'" by (rule visit_fragment [OF c(1) s(3) x])
  have fl: "frag_last h = snd x" "snd x < length ?D" "length ?D \<le> 65512"
    using x c by (simp_all add: carries_def cut_def)
  have hd: "hole_list_head s' = None \<longleftrightarrow> complete ?D ?R"
    using slot_complete_iff [OF c inv] inv by (cases hs') (auto simp: slot_inv_def slot_holes_def)
  have sk: "slot_key s' = k" "used s'" using key s by (auto simp: same_key_def slot_key_def)
  show thesis
  proof (cases "complete ?D ?R")
    case True
    then have "hs' = []" using slot_complete_iff [OF c inv] by simp
    then have "result_ok alloc h (Some ?D) (build_final_msg alloc junk (s' \<lparr> used := False \<rparr>) h)"
      using build_complete [OF c] inv sk(1) by (simp add: k_def)
    moreover have "slots_rel dg (A(k := None)) (slots[i := s' \<lparr> used := False \<rparr>])"
      using slots_rel_update [OF rel i old, where r = None] by simp
    ultimately show thesis
      using that v fl hd True by (simp add: reassemble_in_def Let_def h_def [symmetric])
  next
    case False
    have "slots_rel dg (A(k := Some ?R)) (slots[i := s'])"
      using slots_rel_update [OF rel i old, where r = "Some ?R" and s = s'] sk inv by auto
    moreover obtain y where "hole_list_head s' = Some y" using hd False by auto
    ultimately show thesis
      using that [of None "slots[i := s']"] v fl False
      by (simp add: reassemble_in_def Let_def h_def [symmetric] result_ok_def)
  qed
qed

lemma ip_reassembly_step:
  assumes dg: "datagrams_ok dg" and frag: "fragment_msg dg m x" and rel: "slots_rel dg A slots"
  obtains r slots' where "ip_reassembly alloc junk m slots = Some (Inr (r, slots', True))"
    "length slots' = length slots"
    "slots_rel dg (snd (reassemble_spec (length slots) dg (hdr_key (msg_ip_hdr m)) x A)) slots'"
    "result_ok alloc (msg_ip_hdr m) (fst (reassemble_spec (length slots) dg (hdr_key (msg_ip_hdr m)) x A)) r"
proof -
  let ?h = "msg_ip_hdr m" and ?k = "hdr_key (msg_ip_hdr m)"
  have nf: "\<not> (\<not> frag_mf ?h \<and> frag_offset ?h = 0)" using frag by (auto simp: fragment_msg_def Let_def)
  note R = ip_reassembly_def Let_def nf if_False
  note cs = find_slot_cases [of ?h slots 0 None, OF refl]
  consider (found) i u where "find_slot ?h slots 0 None = (Some i, u)"
    | (full) "find_slot ?h slots 0 None = (None, None)"
    | (free) i where "find_slot ?h slots 0 None = (None, Some i)"
    by (metis option.exhaust surj_pair)
  then show thesis
  proof cases
    case found
    then have i: "i < length slots" "used (slots ! i)" "slot_key (slots ! i) = ?k"
      using cs by (auto simp: slot_matches_key)
    obtain R hs where R': "A ?k = Some R" "slot_inv (fst (dg ?k)) (snd (dg ?k)) R (slots ! i) hs"
      using slots_rel_slot [OF rel i(1,2)] i(3) by auto
    show thesis
      by (rule reassemble_in_ok [OF dg frag rel i(1) _ _ i(2,3) R'(2), of alloc junk])
        (use i found that R' in \<open>auto simp: R reassemble_spec_def split: if_splits\<close>)
  next
    case full
    then have "\<forall>s \<in> set slots. \<not> slot_matches ?h s" "\<forall>s \<in> set slots. used s" using cs by simp_all
    then have "A ?k = None" "length slots \<le> card (dom A)"
      by (auto simp: slots_rel_none [OF rel] slots_rel_full [OF rel] slot_matches_key)
    then show thesis
      using that [of None slots] full rel by (simp add: R reassemble_spec_def result_ok_def)
  next
    case free
    then have nm: "\<forall>s \<in> set slots. \<not> slot_matches ?h s" and i: "i < length slots" "\<not> used (slots ! i)" using cs by auto
    have A: "A ?k = None" "\<not> length slots \<le> card (dom A)"
      using nm i nth_mem by (auto simp: slots_rel_none [OF rel] slots_rel_full [OF rel] slot_matches_key)
    obtain s where s: "init_slot ?h (slots ! i) = Inr s" using init_slot_returns by blast
    have c: "cut (fst (dg ?k)) (snd (dg ?k))" using dg unfolding datagrams_ok_def by blast
    note s' = slot_inv_start [OF c s]
    have sk: "slot_key s = ?k" using s' by (simp add: slot_key_def hdr_key_def)
    show thesis
      by (rule reassemble_in_ok [OF dg frag rel i(1) _ _ s'(2) sk s'(1), of alloc junk])
        (use i free that A s in \<open>auto simp: R reassemble_spec_def split: if_splits\<close>)
  qed
qed

text \<open>A tick forgets the datagrams whose time is over and changes no other.\<close>

lemma ip_do_tick_rel:
  assumes rel: "slots_rel dg A slots"
  defines "A' \<equiv> A |` {slot_key s | s. s \<in> set slots \<and> used (tick_slot s)}"
  shows "slots_rel dg A' (ip_do_tick slots)"
proof -
  have t: "slot_key (tick_slot s) = slot_key s" "used (tick_slot s) \<Longrightarrow> used s"
    "slot_inv D F R (tick_slot s) hs \<longleftrightarrow> slot_inv D F R s hs" for s D F R hs
    by (auto simp: tick_slot_def slot_key_def slot_inv_def slot_holes_def Let_def split: if_splits)
  show ?thesis unfolding slots_rel_def
  proof (intro conjI allI impI ballI)
    fix i assume i: "i < length (ip_do_tick slots)" "used (ip_do_tick slots ! i)"
    then have i': "i < length slots" "used (slots ! i)" "used (tick_slot (slots ! i))" "ip_do_tick slots ! i = tick_slot (slots ! i)"
      using t(2) by (simp_all add: ip_do_tick_def)
    moreover have "slot_key (slots ! i) \<in> {slot_key s | s. s \<in> set slots \<and> used (tick_slot s)}"
      using i' nth_mem by blast
    moreover obtain R hs where "A (slot_key (slots ! i)) = Some R"
      "slot_inv (fst (dg (slot_key (slots ! i)))) (snd (dg (slot_key (slots ! i)))) R (slots ! i) hs"
      by (rule slots_rel_slot [OF rel i'(1,2)])
    ultimately show "\<exists>R hs. A' (slot_key (ip_do_tick slots ! i)) = Some R \<and>
        slot_inv (fst (dg (slot_key (ip_do_tick slots ! i)))) (snd (dg (slot_key (ip_do_tick slots ! i)))) R
          (ip_do_tick slots ! i) hs"
      by (auto simp: t(1,3) A'_def)
  next
    fix k assume "k \<in> dom A'"
    then obtain s where "s \<in> set slots" "used (tick_slot s)" "slot_key s = k" by (auto simp: A'_def restrict_map_def split: if_splits)
    then show "\<exists>i < length (ip_do_tick slots). used (ip_do_tick slots ! i) \<and> slot_key (ip_do_tick slots ! i) = k"
      by (auto simp: in_set_conv_nth ip_do_tick_def t(1))
  next
    fix a b assume "a < length (ip_do_tick slots)" "b < length (ip_do_tick slots)" "used (ip_do_tick slots ! a)"
      "used (ip_do_tick slots ! b)" "slot_key (ip_do_tick slots ! a) = slot_key (ip_do_tick slots ! b)"
    then show "a = b" using slots_rel_unique [OF rel, of a b] t(2) by (simp add: ip_do_tick_def t(1))
  qed
qed

subsection \<open>Sequences of fragments\<close>

fun spec_run ::
    "nat \<Rightarrow> datagrams \<Rightarrow> (dg_key \<rightharpoonup> hole set) \<Rightarrow> (dg_key \<times> hole) list \<Rightarrow> u8 list option list \<times> (dg_key \<rightharpoonup> hole set)" where
  "spec_run n dg A [] = ([], A)"
| "spec_run n dg A ((k, x) # kxs) =
     (let p = reassemble_spec n dg k x A; q = spec_run n dg (snd p) kxs in (fst p # fst q, snd q))"

fun reassemble_all ::
    "(nat \<Rightarrow> bool) \<Rightarrow> net_msg_t \<Rightarrow> reassembly_slot_t list \<Rightarrow> net_msg_t list \<Rightarrow>
     (mem_fault + (net_msg_t option list \<times> reassembly_slot_t list)) option" where
  "reassemble_all alloc junk slots [] = Some (Inr ([], slots))"
| "reassemble_all alloc junk slots (m # ms) =
     (case ip_reassembly alloc junk m slots of
        None \<Rightarrow> None
      | Some (Inl e) \<Rightarrow> Some (Inl e)
      | Some (Inr (r, slots, _)) \<Rightarrow>
          (case reassemble_all alloc junk slots ms of
             None \<Rightarrow> None
           | Some (Inl e) \<Rightarrow> Some (Inl e)
           | Some (Inr (rs, slots)) \<Rightarrow> Some (Inr (r # rs, slots))))"

abbreviation msg_key :: "net_msg_t \<Rightarrow> dg_key" where
  "msg_key m \<equiv> hdr_key (msg_ip_hdr m)"

lemma reassemble_all_refines:
  assumes dg: "datagrams_ok dg"
  shows "list_all2 (fragment_msg dg) ms xs \<Longrightarrow> slots_rel dg A slots \<Longrightarrow>
    \<exists>rs slots'. reassemble_all alloc junk slots ms = Some (Inr (rs, slots')) \<and> length slots' = length slots \<and>
      slots_rel dg (snd (spec_run (length slots) dg A (zip (map msg_key ms) xs))) slots' \<and>
      length rs = length ms \<and>
      list_all2 (\<lambda>(m, d). result_ok alloc (msg_ip_hdr m) d)
        (zip ms (fst (spec_run (length slots) dg A (zip (map msg_key ms) xs)))) rs"
proof (induction ms xs arbitrary: A slots rule: list_all2_induct)
  case (Cons m ms x xs)
  let ?p = "reassemble_spec (length slots) dg (msg_key m) x A"
  obtain r slots1 where s: "ip_reassembly alloc junk m slots = Some (Inr (r, slots1, True))"
    "length slots1 = length slots" "slots_rel dg (snd ?p) slots1" "result_ok alloc (msg_ip_hdr m) (fst ?p) r"
    by (rule ip_reassembly_step [OF dg Cons(1,4)])
  from Cons(3) [OF s(3)] s show ?case by (auto simp: Let_def)
qed auto

lemma length_spec_run [simp]: "length (fst (spec_run n dg A kxs)) = length kxs"
  by (induction n dg A kxs rule: spec_run.induct) (simp_all add: Let_def)

lemma zip_of_key:
  assumes "length xs = length ms"
  shows "{x. (k, x) \<in> set (zip (map f ms) xs)} = {xs ! i | i. i < length ms \<and> f (ms ! i) = k}"
proof (intro set_eqI iffI)
  fix x assume "x \<in> {x. (k, x) \<in> set (zip (map f ms) xs)}"
  then obtain i where "map f ms ! i = k" "xs ! i = x" "i < length ms" using assms by (auto simp: in_set_zip)
  then show "x \<in> {xs ! i | i. i < length ms \<and> f (ms ! i) = k}" by auto
next
  fix x assume "x \<in> {xs ! i | i. i < length ms \<and> f (ms ! i) = k}"
  then obtain i where "x = xs ! i" "i < length ms" "f (ms ! i) = k" by auto
  then have "(k, x) = zip (map f ms) xs ! i" "i < length (zip (map f ms) xs)" using assms by simp_all
  then show "x \<in> {x. (k, x) \<in> set (zip (map f ms) xs)}" by (metis mem_Collect_eq nth_mem)
qed

text \<open>What is delivered is the datagram of the key.\<close>

lemma spec_run_sound:
  "i < length kxs \<Longrightarrow> fst (spec_run n dg A kxs) ! i = Some D \<Longrightarrow> D = fst (dg (fst (kxs ! i)))"
proof (induction n dg A kxs arbitrary: i rule: spec_run.induct)
  case (2 n dg A k x kxs)
  then show ?case
    by (cases i) (auto simp: Let_def, auto simp: reassemble_spec_def Let_def split: if_splits)
qed simp

text \<open>A datagram all of whose fragments arrive is delivered if there are enough slots.\<close>

lemma spec_run_delivers:
  assumes "finite (dom A)" "card (dom A \<union> fst ` set kxs) \<le> n"
    and "\<not> complete (fst (dg k)) (case A k of None \<Rightarrow> {} | Some R \<Rightarrow> R)"
    and "complete (fst (dg k)) ((case A k of None \<Rightarrow> {} | Some R \<Rightarrow> R) \<union> {x. (k, x) \<in> set kxs})"
  shows "\<exists>i < length kxs. fst (kxs ! i) = k \<and> fst (spec_run n dg A kxs) ! i \<noteq> None"
  using assms
proof (induction n dg A kxs rule: spec_run.induct)
  case (2 n dg A k' x kxs)
  let ?R = "\<lambda>A. case A k of None \<Rightarrow> {} | Some R \<Rightarrow> R"
  let ?p = "reassemble_spec n dg k' x A"
  have room: "\<not> (A k' = None \<and> card (dom A) \<ge> n)"
  proof
    assume a: "A k' = None \<and> card (dom A) \<ge> n"
    have "insert k' (dom A) \<subseteq> dom A \<union> fst ` set ((k', x) # kxs)" by auto
    then have "card (insert k' (dom A)) \<le> n" using 2(2,3) by (meson card_mono finite_UnI finite_imageI finite_set le_trans)
    then show False using a 2(2) by (simp add: domIff)
  qed
  show ?case
  proof (cases "k' = k \<and> complete (fst (dg k)) (insert x (?R A))")
    case True
    then have "fst ?p \<noteq> None" using room by (simp add: reassemble_spec_def)
    then show ?thesis using True by (intro exI [of _ 0]) (simp add: Let_def)
  next
    case False
    have sub: "dom (snd ?p) \<subseteq> insert k' (dom A)" by (auto simp: reassemble_spec_def Let_def split: if_splits)
    have R: "?R (snd ?p) = (if k' = k then insert x (?R A) else ?R A)"
      using False room by (auto simp: reassemble_spec_def Let_def)
    have "card (dom (snd ?p) \<union> fst ` set kxs) \<le> card (dom A \<union> fst ` set ((k', x) # kxs))"
      using sub 2(2) by (intro card_mono) auto
    then have c: "card (dom (snd ?p) \<union> fst ` set kxs) \<le> n" using 2(3) by simp
    have f: "finite (dom (snd ?p))" using sub 2(2) by (meson finite_insert finite_subset)
    have "?R (snd ?p) \<union> {y. (k, y) \<in> set kxs} = ?R A \<union> {y. (k, y) \<in> set ((k', x) # kxs)}"
      using R by (cases "k' = k") auto
    then have "\<exists>i < length kxs. fst (kxs ! i) = k \<and> fst (spec_run n dg (snd ?p) kxs) ! i \<noteq> None"
      using 2(1) [OF refl] f c R False 2(4,5) by (cases "k' = k") simp_all
    then obtain i where "i < length kxs" "fst (kxs ! i) = k" "fst (spec_run n dg (snd ?p) kxs) ! i \<noteq> None" by blast
    then show ?thesis by (intro exI [of _ "Suc i"]) (simp add: Let_def)
  qed
qed simp

lemma reassemble_all_delivers:
  assumes dg: "datagrams_ok dg" and ms: "list_all2 (fragment_msg dg) ms xs"
    and free: "\<forall>s \<in> set sl. \<not> used s" and room: "card (msg_key ` set ms) \<le> length sl"
  shows "\<exists>rs sl'. reassemble_all alloc junk sl ms = Some (Inr (rs, sl')) \<and> length rs = length ms \<and>
    (\<forall>i < length ms. \<forall>r. rs ! i = Some r \<longrightarrow> delivers r (msg_ip_hdr (ms ! i)) (fst (dg (msg_key (ms ! i))))) \<and>
    (\<forall>k. complete (fst (dg k)) {xs ! i | i. i < length ms \<and> msg_key (ms ! i) = k} \<and> alloc (length (fst (dg k))) \<longrightarrow>
      (\<exists>i < length ms. msg_key (ms ! i) = k \<and> rs ! i \<noteq> None))"
proof -
  let ?kxs = "zip (map msg_key ms) xs"
  let ?ds = "fst (spec_run (length sl) dg Map.empty ?kxs)"
  have len: "length xs = length ms" using ms by (simp add: list_all2_lengthD)
  have rel: "slots_rel dg Map.empty sl" using free by (auto simp: slots_rel_def)
  obtain rs sl' where r: "reassemble_all alloc junk sl ms = Some (Inr (rs, sl'))" "length rs = length ms"
    "list_all2 (\<lambda>(m, d). result_ok alloc (msg_ip_hdr m) d) (zip ms ?ds) rs"
    using reassemble_all_refines [OF dg ms rel, of alloc junk] by blast
  have each: "result_ok alloc (msg_ip_hdr (ms ! i)) (?ds ! i) (rs ! i)" if "i < length ms" for i
    using r(3) that len by (auto simp: list_all2_conv_all_nth)
  have sound: "delivers m (msg_ip_hdr (ms ! i)) (fst (dg (msg_key (ms ! i))))" if "i < length ms" "rs ! i = Some m" for i m
  proof -
    have "?ds ! i \<noteq> None" using each [OF that(1)] that(2) by (auto simp: result_ok_def split: option.splits)
    then obtain D where D: "?ds ! i = Some D" by auto
    then have "D = fst (dg (msg_key (ms ! i)))" using spec_run_sound [of i ?kxs _ dg _ D] that(1) len by simp
    then show ?thesis using each [OF that(1)] D that(2) by (auto simp: result_ok_def split: if_splits)
  qed
  have live: "\<exists>i < length ms. msg_key (ms ! i) = k \<and> rs ! i \<noteq> None"
    if c: "complete (fst (dg k)) {xs ! i | i. i < length ms \<and> msg_key (ms ! i) = k}" and al: "alloc (length (fst (dg k)))" for k
  proof -
    note zip_of_key [OF len, of k msg_key]
    moreover have "fst ` set ?kxs \<subseteq> msg_key ` set ms" by (auto dest: set_zip_leftD)
    then have "card (fst ` set ?kxs) \<le> length sl" using room by (meson card_mono finite_imageI finite_set le_trans)
    moreover have "fst (dg k) \<noteq> []" using dg unfolding datagrams_ok_def by blast
    then have "\<not> complete (fst (dg k)) {}" by (auto simp: complete_def)
    ultimately obtain i where i: "i < length ?kxs" "fst (?kxs ! i) = k" "?ds ! i \<noteq> None"
      using spec_run_delivers [of Map.empty ?kxs "length sl" dg k] c by auto
    then have i': "i < length ms" "msg_key (ms ! i) = k" using len by simp_all
    obtain D where D: "?ds ! i = Some D" using i(3) by auto
    then have "D = fst (dg k)" using spec_run_sound [OF i(1) D] i(2) by simp
    then have "rs ! i \<noteq> None" using each [OF i'(1)] D al by (auto simp: result_ok_def)
    then show ?thesis using i' by blast
  qed
  show ?thesis using r(1,2) sound live by blast
qed

end
