(* ===== verification/Ip_Fragment.thy ===== *)
theory Ip_Fragment
  imports Ip_Output Ip_Slots
begin

unbundle bit_operations_syntax

text \<open>
  What \<open>ip_tx_msg\<close> queues: the fragments of a message cover its payload without gaps and
  overlaps, each of them fits the maximum transfer unit, and their headers describe them in the way that
  reassembly expects.
\<close>

subsection \<open>The length of a fragment\<close>

definition frag_len :: "nat \<Rightarrow> nat \<Rightarrow> nat \<Rightarrow> nat" where
  "frag_len M n sent = (if n - sent + 20 \<le> M then n - sent else 8 * ((M - 20) div 8))"

lemma frag_len_bounds:
  assumes "28 \<le> M" "sent < n"
  shows "0 < frag_len M n sent" "sent + frag_len M n sent \<le> n" "frag_len M n sent + 20 \<le> M"
    "sent + frag_len M n sent < n \<Longrightarrow> 8 dvd frag_len M n sent"
proof -
  have q: "8 * ((M - 20) div 8) \<le> M - 20" "1 \<le> (M - 20) div 8" using assms by auto
  show "0 < frag_len M n sent" "sent + frag_len M n sent \<le> n" "frag_len M n sent + 20 \<le> M"
    using q assms by (auto simp: frag_len_def)
  show "sent + frag_len M n sent < n \<Longrightarrow> 8 dvd frag_len M n sent"
    using assms by (auto simp: frag_len_def split: if_splits)
qed

lemma unat_fragment_size:
  fixes M :: u32
  assumes "28 \<le> unat M" "sent < n" "n \<le> 65515"
  shows "unat (fragment_size M (of_nat n) (of_nat sent)) = frag_len (unat M) n sent"
proof -
  have w: "unat (of_nat n :: u32) = n" "unat (of_nat sent :: u32) = sent" using assms by (simp_all add: of_nat_unat_u32)
  have rem: "unat (of_nat n - of_nat sent + 20 :: u32) = n - sent + 20"
  proof -
    have "(of_nat n - of_nat sent + 20 :: u32) = of_nat (n - sent + 20)" using assms by (simp add: of_nat_diff)
    then show ?thesis using assms by (simp only: of_nat_unat_u32)
  qed
  let ?m = "min M (of_nat n - of_nat sent + 20)"
  have mn: "unat ?m = min (unat M) (n - sent + 20)" using rem by (simp add: min_def word_le_nat_alt)
  have fl: "unat (?m - 20) = min (unat M) (n - sent + 20) - 20"
    using mn assms by (subst unat_sub) (simp_all add: word_le_nat_alt)
  have sum: "unat (of_nat sent + (?m - 20)) = sent + (min (unat M) (n - sent + 20) - 20)"
    using fl w assms by (subst unat_add_no_wrap) auto
  have sh: "unat (push_bit 3 (drop_bit 3 (?m - 20))) = 8 * ((min (unat M) (n - sent + 20) - 20) div 8)"
  proof -
    have "unat (drop_bit 3 (?m - 20)) = (min (unat M) (n - sent + 20) - 20) div 8"
      using fl by (simp add: drop_bit_eq_div unat_div)
    moreover have "8 * ((min (unat M) (n - sent + 20) - 20) div 8) < 4294967296" using assms by auto
    ultimately show ?thesis by (simp add: push_bit_eq_mult unat_word_ariths mult.commute)
  qed
  show ?thesis
  proof (cases "n - sent + 20 \<le> unat M")
    case True
    then have "\<not> of_nat sent + (?m - 20) < (of_nat n :: u32)" using sum w assms by (simp add: word_less_nat_alt)
    then show ?thesis using True fl by (simp add: fragment_size_def frag_len_def Let_def)
  next
    case False
    then have "of_nat sent + (?m - 20) < (of_nat n :: u32)" using sum w assms by (simp add: word_less_nat_alt)
    then show ?thesis using False sh by (simp add: fragment_size_def frag_len_def Let_def)
  qed
qed

subsection \<open>The memory of a message\<close>

text \<open>The buffer of a message with a header: what is in front of it, the header and what follows.\<close>

definition laid_out :: "net_msg_t \<Rightarrow> u8 list \<Rightarrow> ip_hdr_t \<Rightarrow> u8 list \<Rightarrow> bool" where
  "laid_out m pre h rest \<longleftrightarrow>
     data m = pre @ ip_hdr_bytes h @ rest \<and> start m = length pre \<and> ip_hdr m = Offset (length pre)"

lemma laid_out_hdr: "laid_out m pre h rest \<Longrightarrow> ip_off m = length pre \<and> msg_ip_hdr m = h"
  by (simp add: laid_out_def ip_off_def)

lemma upd_ip_hdr_laid_out: "laid_out m pre h rest \<Longrightarrow> laid_out (upd_ip_hdr f m) pre (f h) rest"
  using laid_out_hdr [of m pre h rest] by (simp add: upd_ip_hdr_def laid_out_def store_def)

lemma cut_off_laid_out [simp]: "laid_out (net_msg_cut_off m k) pre h rest = laid_out m pre h rest"
  by (simp add: laid_out_def net_msg_cut_off_def)

lemma ip_dest_laid_out [simp]: "laid_out (m \<lparr> ip_dest := a \<rparr>) pre h rest = laid_out m pre h rest"
  by (simp add: laid_out_def)

lemma clone_laid_out:
  "net_msg_clone True m = Some m' \<Longrightarrow> laid_out m' pre h rest = laid_out m pre h rest"
  by (auto simp: net_msg_clone_def laid_out_def)

lemma finish_upd [simp]: "finish (upd_ip_hdr f m) = finish m"
  by (simp add: upd_ip_hdr_def)

lemma contents_laid_out:
  "laid_out m pre h (bs @ rest) \<Longrightarrow> finish m = length pre + 20 + length bs \<Longrightarrow>
   contents m = ip_hdr_bytes h @ bs \<and> msg_ok m"
  by (simp add: contents_def laid_out_def msg_ok_def)

lemma copy_fragment_laid_out:
  assumes o': "laid_out o' pre h0 (D @ post)" and m: "laid_out m pre h (D @ post)"
    and len: "unat offset + unat fl \<le> length D"
  obtains m' where "copy_fragment (Some o') offset fl m = Inr m'" "finish m' = finish m"
    "laid_out m' pre h (take (unat fl) (drop (unat offset) D) @ drop (unat fl) (D @ post))"
proof -
  let ?p = "take (unat fl) (drop (unat offset) D)"
  have l: "length (data o') = length pre + 20 + length D + length post"
    "length (data m) = length pre + 20 + length D + length post"
    using o' m by (simp_all add: laid_out_def)
  have s: "start o' = length pre" "start m = length pre" using o' m by (simp_all add: laid_out_def)
  have src: "take (unat fl) (drop (start o' + 20 + unat offset) (data o')) = ?p"
    using o' len by (simp add: laid_out_def)
  have pl: "length ?p = unat fl" using len by simp
  have "copy_fragment (Some o') offset fl m = Inr (store m (length pre + 20) ?p)"
    using l s len src by (simp add: copy_fragment_def)
  moreover have "laid_out (store m (length pre + 20) ?p) pre h (?p @ drop (unat fl) (D @ post))"
    using m pl unfolding laid_out_def store_def by simp
  ultimately show thesis using that by simp
qed

subsection \<open>One fragment\<close>

text \<open>The header of the fragment \<open>x\<close> of a datagram of \<open>n\<close> octets.\<close>

definition with_checksum :: "ip_hdr_t \<Rightarrow> ip_hdr_t" where
  "with_checksum h = h \<lparr> h_checksum := htons (net_compute_checksum (ip_hdr_bytes h) sizeof_ip_hdr) \<rparr>"

definition frag_hdr :: "ip_hdr_t \<Rightarrow> u32 \<Rightarrow> nat \<Rightarrow> hole \<Rightarrow> ip_hdr_t" where
  "frag_hdr h ident n x =
     with_checksum (h \<lparr> h_length := htons (of_nat (snd x + 1 - fst x + sizeof_ip_hdr)), h_id := htons (ucast ident),
       h_flags := htons (of_nat ((if snd x + 1 < n then 8192 else 0) + fst x div 8)) \<rparr>)"

definition piece :: "u8 list \<Rightarrow> hole \<Rightarrow> u8 list" where
  "piece D x = take (snd x + 1 - fst x) (drop (fst x) D)"

definition is_fragment :: "nat \<Rightarrow> u32 \<Rightarrow> ip_hdr_t \<Rightarrow> u32 \<Rightarrow> u8 list \<Rightarrow> hole \<Rightarrow> net_msg_t \<Rightarrow> bool" where
  "is_fragment M hop h ident D x m \<longleftrightarrow>
     contents m = ip_hdr_bytes (frag_hdr h ident (length D) x) @ piece D x \<and> msg_ok m \<and>
     ip_hdr m = Offset (start m) \<and> ip_dest m = hop \<and> length (contents m) \<le> M"

lemma ucast_of_nat16: "(ucast (x :: u32) :: u16) = of_nat (unat x)"
  by simp

lemma flags_word:
  assumes "sent \<le> 65535"
  shows "(ucast (push_bit 13 (if b then 1 else 0) + of_nat sent div 8 :: u32) :: u16) = of_nat ((if b then 8192 else 0) + sent div 8)"
proof -
  have "(push_bit 13 (if b then 1 else 0) + of_nat sent div 8 :: u32) = of_nat ((if b then 8192 else 0) + sent div 8)"
    using assms by (simp add: word_unat_eq_iff unat_word_ariths unat_div of_nat_unat_u32)
  moreover have "unat (of_nat ((if b then 8192 else 0) + sent div 8) :: u32) = (if b then 8192 else 0) + sent div 8"
    using assms div_le_dividend [of sent 8] by (intro of_nat_unat_u32) (auto split: if_splits)
  ultimately show ?thesis by (simp only: ucast_of_nat16)
qed

lemma tx_fragment_ok:
  fixes M :: u32 and D post :: "u8 list" and sent :: nat
  defines "n \<equiv> length D"
  defines "fl \<equiv> frag_len (unat M) n sent"
  assumes M: "28 \<le> unat M" and n: "sent < n" "n \<le> 65515" and cs: "h_checksum h = 0"
    and m: "laid_out m pre h (D @ post)" and o': "laid_out o' pre h (D @ post)" and first: "fragment = 0 \<longrightarrow> sent = 0"
    and id: "(ident', counter') = (if fragment = 0 then get_id counter else (ident, counter))"
  obtains m' where
    "tx_fragment M True (of_nat n) hop (Some o') fragment (of_nat sent) ident counter m =
       Inr (m', of_nat (sent + fl), ident', counter')"
    "is_fragment (unat M) hop h ident' D (sent, sent + fl - 1) m'"
proof -
  note b = frag_len_bounds [OF M n(1), folded fl_def]
  let ?fl = "fragment_size M (of_nat n) (of_nat sent)"
  have fl: "unat ?fl = fl" unfolding fl_def using unat_fragment_size [OF M n] .
  have us: "unat (of_nat sent :: u32) = sent" using n by (simp add: of_nat_unat_u32)
  have fl20: "unat (?fl + 20) = fl + 20" using fl b n by (subst unat_add_no_wrap) simp_all
  have sum: "of_nat sent + ?fl = (of_nat (sent + fl) :: u32)"
    using fl us b n by (simp add: word_unat_eq_iff unat_word_ariths of_nat_unat_u32)
  have lt: "of_nat (sent + fl) < (of_nat n :: u32) \<longleftrightarrow> sent + fl < n"
    using b n by (simp add: word_less_nat_alt of_nat_unat_u32 del: of_nat_add)
  define h1 where "h1 = h \<lparr> h_length := htons (ucast (?fl + 20)) \<rparr>"
  define m1 where "m1 = upd_ip_hdr (\<lambda>h. h \<lparr> h_length := htons (ucast (?fl + 20)) \<rparr>) (net_msg_cut_off m (unat (?fl + 20)))"
  have m1: "laid_out m1 pre h1 (D @ post)" "finish m1 = length pre + 20 + fl"
  proof -
    show "laid_out m1 pre h1 (D @ post)" unfolding m1_def h1_def by (rule upd_ip_hdr_laid_out) (simp add: m)
    show "finish m1 = length pre + 20 + fl" using m fl20 by (simp add: m1_def net_msg_cut_off_def laid_out_def)
  qed
  let ?p = "take fl (drop sent D)"
  obtain m2 where m2: "(if fragment \<noteq> 0 then copy_fragment (Some o') (of_nat sent) ?fl m1 else Inr m1) = Inr m2"
    "laid_out m2 pre h1 (?p @ drop fl (D @ post))" "finish m2 = length pre + 20 + fl"
  proof (cases "fragment = 0")
    case True
    then have eq: "D @ post = ?p @ drop fl (D @ post)" using first b n by (simp add: n_def)
    have "laid_out m1 pre h1 (?p @ drop fl (D @ post))" by (rule subst [where P = "laid_out m1 pre h1", OF eq m1(1)])
    then show thesis using that [of m1] m1(2) True by simp
  next
    case False
    have "unat (of_nat sent :: u32) + unat ?fl \<le> length D" using fl us b by (simp add: n_def)
    from copy_fragment_laid_out [OF o' m1(1) this] that m1(2) False show thesis unfolding fl us by auto
  qed
  define f :: "ip_hdr_t \<Rightarrow> ip_hdr_t" where "f = (\<lambda>h. h \<lparr> h_id := htons (ucast ident'),
      h_flags := htons (ucast (push_bit 13 (if sent + fl < n then 1 else 0) + of_nat sent div 8 :: u32)) \<rparr>)"
  define m3 where "m3 = upd_ip_hdr with_checksum (upd_ip_hdr f m2) \<lparr> ip_dest := hop \<rparr>"
  have m3: "laid_out m3 pre (with_checksum (f h1)) (?p @ drop fl (D @ post))" "finish m3 = length pre + 20 + fl"
    unfolding m3_def using upd_ip_hdr_laid_out [OF upd_ip_hdr_laid_out [OF m2(2)]] m2(3) by simp_all
  have hdr: "with_checksum (f h1) = frag_hdr h ident' n (sent, sent + fl - 1)"
    using b n flags_word [of sent "sent + fl < n"]
    by (simp add: f_def h1_def frag_hdr_def ucast_of_nat16 [of "?fl + 20"] fl20 del: of_nat_unat)
  have "tx_fragment M True (of_nat n) hop (Some o') fragment (of_nat sent) ident counter m =
      Inr (m3, of_nat (sent + fl), ident', counter')"
    unfolding tx_fragment_def Let_def if_True simp_thms m1_def [symmetric] m2(1) sbind.simps sum lt id [symmetric] prod.case
      m3_def f_def with_checksum_def [abs_def] ..
  moreover have "is_fragment (unat M) hop h ident' D (sent, sent + fl - 1) m3"
  proof -
    have "length ?p = fl" "finish m3 = length pre + 20 + length ?p" using b m3(2) by (simp_all add: n_def)
    then have c: "contents m3 = ip_hdr_bytes (with_checksum (f h1)) @ ?p" "msg_ok m3" "length ?p = fl"
      using contents_laid_out [OF m3(1)] by simp_all
    moreover have "piece D (sent, sent + fl - 1) = ?p" using b by (simp add: piece_def)
    moreover have "ip_hdr m3 = Offset (start m3)" "ip_dest m3 = hop" using m3(1) by (simp_all add: laid_out_def m3_def)
    ultimately show ?thesis using hdr b by (simp add: is_fragment_def n_def)
  qed
  ultimately show thesis by (rule that)
qed

subsection \<open>All fragments\<close>

text \<open>The intervals \<open>xs\<close> cover the octets from \<open>a\<close> to \<open>n\<close> one after the other.\<close>

fun tiles :: "nat \<Rightarrow> nat \<Rightarrow> hole list \<Rightarrow> bool" where
  "tiles n a [] \<longleftrightarrow> a = n"
| "tiles n a (x # xs) \<longleftrightarrow>
     fst x = a \<and> a \<le> snd x \<and> snd x < n \<and> (snd x + 1 < n \<longrightarrow> 8 dvd snd x + 1) \<and> tiles n (snd x + 1) xs"

lemma tx_loop_unfold:
  "next_copy mem b orig k m = Inr (Some m1) \<Longrightarrow>
   tx_fragment M b nn hop orig k s ident counter m1 = Inr (m2, s', ident', counter') \<Longrightarrow> s < nn \<Longrightarrow>
   tx_loop mem M b nn hop orig k s ident counter m q = tx_loop mem M b nn hop orig (k + 1) s' ident' counter' m2 (q @ [m2])"
  by (subst tx_loop.simps) simp

lemma tx_loop_done: "tx_loop mem M b nn hop orig k nn ident counter m q = Some (Inr (0, q, counter))"
  by (subst tx_loop.simps) simp

lemma tx_loop_rest:
  fixes M :: u32 and D post :: "u8 list"
  assumes M: "28 \<le> unat M" and n: "length D \<le> 65515" and cs: "h_checksum h = 0"
    and o': "laid_out o' pre h (D @ post)" and mem: "\<forall>k. mem k"
  shows "sent \<le> length D \<Longrightarrow> 8 dvd sent \<or> sent = length D \<Longrightarrow> k \<noteq> 0 \<Longrightarrow>
    \<exists>xs ms. tx_loop mem M True (of_nat (length D)) hop (Some o') k (of_nat sent) ident counter m q =
        Some (Inr (0, q @ ms, counter)) \<and>
      tiles (length D) sent xs \<and> list_all2 (is_fragment (unat M) hop h ident D) xs ms"
proof (induction "length D - sent" arbitrary: sent k m q rule: less_induct)
  case less
  show ?case
  proof (cases "sent = length D")
    case True
    then show ?thesis by (intro exI [of _ "[]"]) (simp add: tx_loop_done)
  next
    case False
    let ?fl = "frag_len (unat M) (length D) sent"
    have lt: "sent < length D" using False less(2) by simp
    note b = frag_len_bounds [OF M lt]
    obtain m1 where m1: "net_msg_clone True o' = Some m1" by (simp add: net_msg_clone_def)
    have lo: "laid_out m1 pre h (D @ post)" using clone_laid_out [OF m1] o' by simp
    have k: "k = 0 \<longrightarrow> sent = 0" "(ident, counter) = (if k = 0 then get_id counter else (ident, counter))" using less(4) by simp_all
    obtain m2 where m2: "tx_fragment M True (of_nat (length D)) hop (Some o') k (of_nat sent) ident counter m1 =
        Inr (m2, of_nat (sent + ?fl), ident, counter)"
      "is_fragment (unat M) hop h ident D (sent, sent + ?fl - 1) m2"
      by (rule tx_fragment_ok [OF M lt n cs lo o' k])
    have nc: "next_copy mem True (Some o') k m = Inr (Some m1)" using less(4) mem m1 by (simp add: next_copy_def)
    have wlt: "(of_nat sent :: u32) < of_nat (length D)" using lt n by (simp add: word_less_nat_alt of_nat_unat_u32)
    note step = tx_loop_unfold [OF nc m2(1) wlt, of q]
    have al: "8 dvd sent + ?fl \<or> sent + ?fl = length D" using b less(3) False by (auto simp: dvd_add)
    have less_len: "length D - (sent + ?fl) < length D - sent" using b lt by linarith
    obtain xs ms where ih: "tx_loop mem M True (of_nat (length D)) hop (Some o') (k + 1) (of_nat (sent + ?fl)) ident counter m2 (q @ [m2]) =
        Some (Inr (0, (q @ [m2]) @ ms, counter))" "tiles (length D) (sent + ?fl) xs" "list_all2 (is_fragment (unat M) hop h ident D) xs ms"
      using less(1) [OF less_len b(2) al, of "k + 1" m2 "q @ [m2]"] by auto
    have "tiles (length D) sent ((sent, sent + ?fl - 1) # xs)" using ih(2) b al by auto
    then show ?thesis using step ih m2(2) by (intro exI [of _ "(sent, sent + ?fl - 1) # xs"] exI [of _ "m2 # ms"]) simp
  qed
qed

lemma tx_loop_all:
  fixes M :: u32 and D post :: "u8 list"
  assumes M: "28 \<le> unat M" and n: "length D \<le> 65515" "D \<noteq> []" and cs: "h_checksum h = 0"
    and m: "laid_out m pre h (D @ post)" and o': "laid_out o' pre h (D @ post)" and mem: "\<forall>k. mem k"
    and id: "get_id counter = (ident, counter')"
  obtains xs ms where "tx_loop mem M True (of_nat (length D)) hop (Some o') 0 0 i0 counter m [] = Some (Inr (0, ms, counter'))"
    "tiles (length D) 0 xs" "list_all2 (is_fragment (unat M) hop h ident D) xs ms"
proof -
  let ?fl = "frag_len (unat M) (length D) 0"
  have lt: "0 < length D" using n by simp
  note b = frag_len_bounds [OF M lt]
  have k: "(0 :: nat) = 0 \<longrightarrow> (0 :: nat) = 0" "(ident, counter') = (if (0 :: nat) = 0 then get_id counter else (i0, counter))"
    using id by simp_all
  obtain m2 where m2: "tx_fragment M True (of_nat (length D)) hop (Some o') 0 (of_nat 0) i0 counter m =
      Inr (m2, of_nat (0 + ?fl), ident, counter')" "is_fragment (unat M) hop h ident D (0, 0 + ?fl - 1) m2"
    by (rule tx_fragment_ok [OF M lt n(1) cs m o' k])
  have nc: "next_copy mem True (Some o') 0 m = Inr (Some m)" by (simp add: next_copy_def)
  have wlt: "(of_nat 0 :: u32) < of_nat (length D)" using n by (simp add: word_less_nat_alt of_nat_unat_u32)
  note step = tx_loop_unfold [OF nc m2(1) wlt, of "[]"]
  have al: "8 dvd ?fl \<or> ?fl = length D" "?fl \<le> length D" using b by auto
  obtain xs ms where ih: "tx_loop mem M True (of_nat (length D)) hop (Some o') 1 (of_nat ?fl) ident counter' m2 [m2] =
      Some (Inr (0, [m2] @ ms, counter'))" "tiles (length D) ?fl xs" "list_all2 (is_fragment (unat M) hop h ident D) xs ms"
    using tx_loop_rest [OF M n(1) cs o' mem al(2,1), of 1 hop ident counter' m2 "[m2]"] by auto
  have "tiles (length D) 0 ((0, ?fl - 1) # xs)" using ih(2) b al by auto
  then show thesis using that [of "m2 # ms" "(0, ?fl - 1) # xs"] step ih m2(2) by simp
qed

subsection \<open>Transmission\<close>

text \<open>The message with its header in front, from which the fragments are made.\<close>

lemma tx_prepared:
  assumes m: "msg_ok m" "20 \<le> start m"
  obtains m1 m2 pre post where
    "net_msg_prepend (m \<lparr> nic := Some n, ethertype := e \<rparr>) sizeof_ip_hdr = Some (length pre, m1)"
    "m2 = store (m1 \<lparr> ip_hdr := Offset (length pre) \<rparr>) (length pre) (ip_hdr_bytes (tx_hdr st n m1))"
    "laid_out m2 pre (tx_hdr st n m1) (contents m @ post)"
    "tx_hdr st n m1 = (tx_hdr st n m) \<lparr> h_length := htons (of_nat (length (contents m) + 20)) \<rparr>" "finish m2 = finish m" "length pre = start m - 20"
proof -
  let ?m1 = "m \<lparr> nic := Some n, ethertype := e, start := start m - 20 \<rparr>"
  let ?pre = "take (start m - 20) (data m)"
  have l: "length ?pre = start m - 20" using m by (auto simp: msg_ok_def)
  have d: "drop (start m) (data m) = contents m @ drop (finish m) (data m)"
    using m append_take_drop_id [of "finish m - start m" "drop (start m) (data m)"]
    by (simp add: contents_def msg_ok_def)
  have "net_msg_prepend (m \<lparr> nic := Some n, ethertype := e \<rparr>) 20 = Some (length ?pre, ?m1)"
    using m l by (simp add: net_msg_prepend_def)
  moreover have "laid_out (store (?m1 \<lparr> ip_hdr := Offset (length ?pre) \<rparr>) (length ?pre) (ip_hdr_bytes (tx_hdr st n ?m1)))
      ?pre (tx_hdr st n ?m1) (contents m @ drop (finish m) (data m))"
    using l d m by (simp add: laid_out_def store_def)
  moreover have "tx_hdr st n ?m1 = (tx_hdr st n m) \<lparr> h_length := htons (of_nat (length (contents m) + 20)) \<rparr>"
  proof -
    have "net_msg_get_size ?m1 = length (contents m) + 20"
      using m by (auto simp: net_msg_get_size_def contents_def msg_ok_def min_def)
    then show ?thesis unfolding tx_hdr_def by simp
  qed
  ultimately show thesis by (rule that [OF _ refl]) (simp_all only: l, simp)
qed

lemma unat_mtu: "0 \<le> k \<Longrightarrow> k < 2 ^ 32 \<Longrightarrow> unat (word_of_int k :: u32) = nat k"
  by (simp add: unat_eq_nat_uint uint_word_of_int)

lemma ip_tx_msg_fragments:
  fixes st :: net_state and m :: net_msg_t and n :: nat
  defines "D \<equiv> contents m"
  defines "h \<equiv> (tx_hdr st n m) \<lparr> h_length := htons (of_nat (length D + 20)) \<rparr>"
  assumes m: "msg_ok m" "20 \<le> start m" "ip_df m = 0" "D \<noteq> []" "length D \<le> 65515"
    and route: "ip_get_route st (ip_src m) (ip_dest m) = Some (n, hop)"
    and M: "28 \<le> mtu (nics st n)" "mtu (nics st n) < int (length D) + 20"
    and mem: "\<forall>k. mem k" and id: "get_id counter = (ident, counter')"
  obtains xs ms where "ip_tx_msg mem st counter m = Some (Inr (0, ms, counter'))"
    "tiles (length D) 0 xs" "list_all2 (is_fragment (nat (mtu (nics st n))) hop h ident D) xs ms"
proof -
  obtain m1 m2 pre post where p:
    "net_msg_prepend (m \<lparr> nic := Some n, ethertype := htons ETHERTYPE_IP \<rparr>) sizeof_ip_hdr = Some (length pre, m1)"
    "m2 = store (m1 \<lparr> ip_hdr := Offset (length pre) \<rparr>) (length pre) (ip_hdr_bytes (tx_hdr st n m1))"
    "laid_out m2 pre (tx_hdr st n m1) (D @ post)" "tx_hdr st n m1 = h"
    using tx_prepared [OF m(1,2), where n = n and e = "htons ETHERTYPE_IP" and st = st] unfolding h_def D_def by metis
  let ?M = "word_of_int (mtu (nics st n)) :: u32"
  have uM: "unat ?M = nat (mtu (nics st n))" using M m(5) by (intro unat_mtu) simp_all
  have sz: "net_msg_get_size m = length D" using m by (simp add: net_msg_get_size_def D_def contents_def msg_ok_def)
  have frag: "of_nat (length D) + 20 > ?M"
  proof -
    have "unat (of_nat (length D) + 20 :: u32) = length D + 20"
      using m(5) by (subst unat_add_no_wrap) (simp_all add: of_nat_unat_u32)
    then show ?thesis using uM M by (simp add: word_less_nat_alt)
  qed
  obtain o' where o': "net_msg_clone True m2 = Some o'" by (simp add: net_msg_clone_def)
  have lo: "laid_out m2 pre h (D @ post)" "laid_out o' pre h (D @ post)" using p clone_laid_out [OF o'] by simp_all
  have uM28: "28 \<le> unat ?M" using uM M by simp
  have cs: "h_checksum h = 0" by (simp add: h_def tx_hdr_def)
  obtain xs ms where r: "tx_loop mem ?M True (of_nat (length D)) hop (Some o') 0 0 0 counter m2 [] = Some (Inr (0, ms, counter'))"
    "tiles (length D) 0 xs" "list_all2 (is_fragment (unat ?M) hop h ident D) xs ms"
    by (rule tx_loop_all [OF uM28 m(5,4) cs lo mem id])
  have "ip_tx_msg mem st counter m = Some (Inr (0, ms, counter'))"
    unfolding ip_tx_msg_def route option.case prod.case Let_def
    using frag m(3) p(1) mem o' r(1) sz by (simp add: net_msg_get_size_def p(2) [symmetric])
  then show thesis using that r uM by simp
qed

subsection \<open>What a receiver reads in the header\<close>

lemma put16_checksum: "put16 (ip_hdr_bytes h) 10 c = ip_hdr_bytes (h \<lparr> h_checksum := c \<rparr>)"
  by (simp add: put16_def ip_hdr_bytes_def st16_def st32_def list_update_append)

lemma with_checksum_valid:
  assumes "h_checksum h = 0"
  shows "net_compute_checksum (ip_hdr_bytes (with_checksum h)) sizeof_ip_hdr = 0"
proof -
  have "h \<lparr> h_checksum := 0 \<rparr> = h" using assms by simp
  then show ?thesis
    using net_checksum_round_trip [of 5 "ip_hdr_bytes h" 20] by (simp add: put16_checksum with_checksum_def)
qed

lemma frag_hdr_fields:
  "h_src (frag_hdr h ident n x) = h_src h" "h_dest (frag_hdr h ident n x) = h_dest h"
  "h_proto (frag_hdr h ident n x) = h_proto h" "h_id (frag_hdr h ident n x) = htons (ucast ident)"
  "h_ttl (frag_hdr h ident n x) = h_ttl h" "h_version (frag_hdr h ident n x) = h_version h"
  by (simp_all add: frag_hdr_def with_checksum_def)

lemma unat_of_nat16: "k < 65536 \<Longrightarrow> unat (of_nat k :: u16) = k"
  by (simp add: unat_of_nat)

lemma frag_hdr_position:
  assumes "fst x \<le> snd x" "snd x < n" "n \<le> 65515" "8 dvd fst x"
  shows "frag_offset (frag_hdr h ident n x) = fst x" "frag_last (frag_hdr h ident n x) = snd x"
    "frag_mf (frag_hdr h ident n x) \<longleftrightarrow> snd x + 1 < n"
proof -
  let ?h = "frag_hdr h ident n x" and ?v = "(if snd x + 1 < n then 8192 else 0) + fst x div 8"
  have q: "fst x div 8 < 8192" "8 * (fst x div 8) = fst x" using assms by (auto simp: dvd_div_mult_self)
  have fl: "ntohs (h_flags ?h) = of_nat ?v" and ln: "ntohs (h_length ?h) = of_nat (snd x + 1 - fst x + 20)"
    by (simp_all add: frag_hdr_def with_checksum_def)
  have uv: "unat (of_nat ?v :: u16) = ?v" using q by (intro unat_of_nat16) auto
  have "of_nat ?v AND (0x1FFF :: u16) = take_bit 13 (of_nat ?v)" by (simp add: take_bit_eq_mask mask_eq_exp_minus_1)
  then have "unat (of_nat ?v AND (0x1FFF :: u16)) = ?v mod 8192"
    using uv by (simp add: take_bit_eq_mod unat_mod)
  moreover have "?v mod 8192 = fst x div 8" using q by auto
  ultimately show off: "frag_offset ?h = fst x" using q(2) by (simp add: frag_offset_def fl)
  have "unat (drop_bit 13 (of_nat ?v :: u16)) = ?v div 8192" using uv by (simp add: drop_bit_eq_div unat_div)
  moreover have "?v div 8192 = (if snd x + 1 < n then 1 else 0)" using q by auto
  ultimately have "drop_bit 13 (of_nat ?v :: u16) = (if snd x + 1 < n then 1 else 0)"
    by (simp add: word_unat_eq_iff del: of_nat_add)
  then show "frag_mf ?h \<longleftrightarrow> snd x + 1 < n" unfolding frag_mf_def fl by simp
  have "unat (of_nat (snd x + 1 - fst x + 20) :: u16) = snd x + 1 - fst x + 20"
    using assms by (intro unat_of_nat16) linarith
  then have "frag_last ?h = (fst x + (snd x + 1 - fst x + 20) + (2 ^ 32 - 20 - 1)) mod 2 ^ 32"
    by (simp add: frag_last_def off ln)
  also have "fst x + (snd x + 1 - fst x + 20) + (2 ^ 32 - 20 - 1) = snd x + 2 ^ 32" using assms by simp
  finally show "frag_last ?h = snd x" using assms by simp
qed

subsection \<open>Fragments are what reassembly expects\<close>

lemma tiles_member:
  assumes "tiles n a xs" "x \<in> set xs"
  shows "a \<le> fst x \<and> fst x \<le> snd x \<and> snd x < n \<and> (snd x + 1 < n \<longrightarrow> 8 dvd snd x + 1)"
  using assms by (induction n a xs rule: tiles.induct) fastforce+

lemma tiles_aligned: "tiles n a xs \<Longrightarrow> x \<in> set xs \<Longrightarrow> 8 dvd a \<Longrightarrow> 8 dvd fst x"
proof (induction n a xs rule: tiles.induct)
  case (2 n a y ys)
  show ?case
  proof (cases "x = y")
    case False
    then have x: "x \<in> set ys" "tiles n (snd y + 1) ys" using 2 by auto
    then have "snd y + 1 < n" using tiles_member [OF x(2,1)] by simp
    then show ?thesis using 2 x by simp
  qed (use 2 in simp)
qed simp

lemma tiles_apart: "tiles n a xs \<Longrightarrow> x \<in> set xs \<Longrightarrow> y \<in> set xs \<Longrightarrow> x \<noteq> y \<Longrightarrow> apart x y"
proof (induction n a xs rule: tiles.induct)
  case (2 n a z zs)
  then show ?case using tiles_member [of n "snd z + 1" zs] by (fastforce simp: apart_def)
qed simp

lemma tiles_cover: "tiles n a xs \<Longrightarrow> a \<le> i \<Longrightarrow> i < n \<Longrightarrow> \<exists>x \<in> set xs. within x i"
proof (induction n a xs rule: tiles.induct)
  case (2 n a z zs)
  then show ?case by (cases "i \<le> snd z") (auto simp: within_def)
qed simp

lemma tiles_cut: "tiles (length D) 0 xs \<Longrightarrow> length D \<le> 65512 \<Longrightarrow> cut D (set xs)"
  unfolding cut_def using tiles_member tiles_aligned tiles_apart by fastforce

lemma tiles_complete: "tiles (length D) 0 xs \<Longrightarrow> complete D (set xs)"
  using tiles_cover by (auto simp: complete_def)

text \<open>A message that has arrived: behind its IP header pointer are the bytes that were sent.\<close>

definition received :: "net_msg_t \<Rightarrow> net_msg_t \<Rightarrow> bool" where
  "received f r \<longleftrightarrow> take (length (contents f)) (drop (ip_off r) (data r)) = contents f"

lemma received_fragment:
  assumes f: "is_fragment M hop h ident D x f" and r: "received f r"
    and x: "fst x \<le> snd x" "snd x < length D" "8 dvd fst x" and D: "length D \<le> 65515"
  shows "msg_ip_hdr r = frag_hdr h ident (length D) x" "carries (msg_ip_hdr r) (drop (ip_off r + 20) (data r)) D x"
proof -
  let ?h = "frag_hdr h ident (length D) x"
  obtain pad where pad: "drop (ip_off r) (data r) = contents f @ pad" using r
    by (metis append_take_drop_id received_def)
  have c: "contents f = ip_hdr_bytes ?h @ piece D x" using f by (simp add: is_fragment_def)
  show hdr: "msg_ip_hdr r = ?h" unfolding pad c append.assoc by (rule ip_hdr_round_trip)
  have "drop (ip_off r + 20) (data r) = drop 20 (drop (ip_off r) (data r))" by (simp add: add.commute)
  then have src: "drop (ip_off r + 20) (data r) = piece D x @ pad" unfolding pad c by simp
  show "carries (msg_ip_hdr r) (drop (ip_off r + 20) (data r)) D x"
    unfolding hdr src carries_def using frag_hdr_position [OF x(1,2) D x(3)] x
    by (auto simp: within_def piece_def nth_append)
qed

lemma received_fragment_msg:
  assumes f: "is_fragment M hop h ident D x f" and r: "received f r" and big: "M < length D + 20"
    and xs: "tiles (length D) 0 xs" "x \<in> set xs" and D: "length D \<le> 65515"
    and dg: "dg (h_src h, h_dest h, ucast (htons (ucast ident)), h_proto h) = (D, set xs)"
  shows "fragment_msg dg r x" "msg_key r = (h_src h, h_dest h, ucast (htons (ucast ident)), h_proto h)"
proof -
  have x: "fst x \<le> snd x" "snd x < length D" "8 dvd fst x"
    using tiles_member [OF xs] tiles_aligned [OF xs] by simp_all
  note rf = received_fragment [OF f r x D]
  show key: "msg_key r = (h_src h, h_dest h, ucast (htons (ucast ident)), h_proto h)"
    unfolding rf(1) by (simp add: hdr_key_def frag_hdr_fields)
  have "length (contents f) = 20 + (snd x + 1 - fst x)" using f x by (simp add: is_fragment_def piece_def)
  then have "snd x + 1 - fst x < length D" using f big by (simp add: is_fragment_def)
  then have "frag_mf (msg_ip_hdr r) \<or> frag_offset (msg_ip_hdr r) \<noteq> 0"
    unfolding rf(1) using frag_hdr_position [OF x(1,2) D x(3)] x by auto
  then show "fragment_msg dg r x" using rf(2) xs(2) unfolding fragment_msg_def Let_def key dg by simp
qed

text \<open>The messages that arrive, with the fragments that they carry.\<close>

lemma received_all:
  assumes fs: "list_all2 (is_fragment M hop h ident D) xs fs" and big: "M < length D + 20"
    and xs: "tiles (length D) 0 xs" and D: "length D \<le> 65515"
    and dg: "dg (h_src h, h_dest h, ucast (htons (ucast ident)), h_proto h) = (D, set xs)"
    and rs: "\<forall>r \<in> set rs. \<exists>f \<in> set fs. received f r" "\<forall>f \<in> set fs. \<exists>r \<in> set rs. received f r"
  obtains ys where "list_all2 (fragment_msg dg) rs ys" "set ys = set xs"
    "\<forall>r \<in> set rs. msg_key r = (h_src h, h_dest h, ucast (htons (ucast ident)), h_proto h)"
proof -
  have pair: "\<exists>x \<in> set xs. is_fragment M hop h ident D x f" if "f \<in> set fs" for f
    using fs that by (metis in_set_conv_nth list_all2_conv_all_nth)
  have pair': "\<exists>f \<in> set fs. is_fragment M hop h ident D x f" if "x \<in> set xs" for x
    using fs that by (metis in_set_conv_nth list_all2_conv_all_nth)
  have at: "fragment_msg dg r x" "msg_key r = (h_src h, h_dest h, ucast (htons (ucast ident)), h_proto h)"
    "frag_offset (msg_ip_hdr r) = fst x" if "is_fragment M hop h ident D x f" "received f r" "x \<in> set xs" for x f r
  proof -
    show "fragment_msg dg r x" "msg_key r = (h_src h, h_dest h, ucast (htons (ucast ident)), h_proto h)"
      using received_fragment_msg [OF that(1,2) big xs that(3) D, of dg] dg by auto
    then show "frag_offset (msg_ip_hdr r) = fst x" by (simp add: fragment_msg_def Let_def carries_def)
  qed
  have "\<forall>r \<in> set rs. \<exists>x. x \<in> set xs \<and> fragment_msg dg r x" using rs(1) pair at(1) by metis
  then obtain g where g: "\<forall>r \<in> set rs. g r \<in> set xs \<and> fragment_msg dg r (g r)" by metis
  have "x \<in> set (map g rs)" if x: "x \<in> set xs" for x
  proof -
    obtain f where f: "f \<in> set fs" "is_fragment M hop h ident D x f" using pair' [OF x] by blast
    obtain r where r: "r \<in> set rs" "received f r" using rs(2) f(1) by blast
    have "fst (g r) = frag_offset (msg_ip_hdr r)" using g r(1) by (simp add: fragment_msg_def Let_def carries_def)
    also have "\<dots> = fst x" by (rule at(3) [OF f(2) r(2) x])
    finally have "\<not> apart x (g r)" using tiles_member [OF xs x] tiles_member [OF xs, of "g r"] g r(1) by (auto simp: apart_def)
    then have "g r = x" using tiles_apart [OF xs x, of "g r"] g r(1) by blast
    then show ?thesis using r(1) by auto
  qed
  then have "set (map g rs) = set xs" using g by auto
  moreover have "list_all2 (fragment_msg dg) rs (map g rs)" using g by (auto simp: list_all2_conv_all_nth)
  moreover have "\<forall>r \<in> set rs. msg_key r = (h_src h, h_dest h, ucast (htons (ucast ident)), h_proto h)"
    using rs(1) pair at(2) by metis
  ultimately show thesis using that by blast
qed

subsection \<open>Messages that fit\<close>

lemma ip_tx_msg_whole:
  fixes st :: net_state and m :: net_msg_t and n :: nat
  defines "D \<equiv> contents m"
  defines "h \<equiv> (tx_hdr st n m) \<lparr> h_length := htons (of_nat (length D + 20)) \<rparr>"
  assumes m: "msg_ok m" "20 \<le> start m" "D \<noteq> []" "length D \<le> 65515"
    and route: "ip_get_route st (ip_src m) (ip_dest m) = Some (n, hop)"
    and M: "int (length D) + 20 \<le> mtu (nics st n)" "mtu (nics st n) < 2 ^ 31"
  obtains f where "ip_tx_msg mem st counter m = Some (Inr (0, [f], counter))"
    "contents f = ip_hdr_bytes (with_checksum h) @ D" "msg_ok f" "ip_dest f = hop"
proof -
  obtain m1 m2 pre post where p:
    "net_msg_prepend (m \<lparr> nic := Some n, ethertype := htons ETHERTYPE_IP \<rparr>) sizeof_ip_hdr = Some (length pre, m1)"
    "m2 = store (m1 \<lparr> ip_hdr := Offset (length pre) \<rparr>) (length pre) (ip_hdr_bytes (tx_hdr st n m1))"
    "laid_out m2 pre (tx_hdr st n m1) (D @ post)" "tx_hdr st n m1 = h" "finish m2 = finish m" "length pre = start m - 20"
    using tx_prepared [OF m(1,2), where n = n and e = "htons ETHERTYPE_IP" and st = st] unfolding h_def D_def by metis
  let ?M = "word_of_int (mtu (nics st n)) :: u32"
  have uM: "unat ?M = nat (mtu (nics st n))" using M by (intro unat_mtu) simp_all
  have sz: "net_msg_get_size m = length D" using m by (simp add: net_msg_get_size_def D_def contents_def msg_ok_def)
  have whole: "\<not> of_nat (length D) + 20 > ?M"
  proof -
    have "unat (of_nat (length D) + 20 :: u32) = length D + 20"
      using m(4) by (subst unat_add_no_wrap) (simp_all add: of_nat_unat_u32)
    then show ?thesis using uM M by (simp add: word_less_nat_alt nat_le_iff)
  qed
  let ?f = "upd_ip_hdr with_checksum m2 \<lparr> ip_dest := hop \<rparr>"
  have lo: "laid_out ?f pre (with_checksum h) (D @ post)" using upd_ip_hdr_laid_out [OF p(3)] p(4) by simp
  have fin: "finish ?f = length pre + 20 + length D" using p(5,6) m sz by (auto simp: net_msg_get_size_def msg_ok_def)
  have lt: "(of_nat 0 :: u32) < of_nat (length D)" using m by (simp add: word_less_nat_alt of_nat_unat_u32)
  have "tx_fragment ?M False (of_nat (length D)) hop None 0 0 0 counter m2 = Inr (?f, of_nat (length D), 0, counter)"
    by (simp add: tx_fragment_def Let_def with_checksum_def [abs_def])
  moreover have "next_copy mem False None 0 m2 = Inr (Some m2)" by (simp add: next_copy_def)
  ultimately have "tx_loop mem ?M False (of_nat (length D)) hop None 0 0 0 counter m2 [] = Some (Inr (0, [?f], counter))"
    using tx_loop_unfold [of mem False None 0 m2 m2 ?M "of_nat (length D)" hop 0 0 counter ?f "of_nat (length D)" 0 counter "[]"] lt
    by (simp add: tx_loop_done)
  then have "ip_tx_msg mem st counter m = Some (Inr (0, [?f], counter))"
    unfolding ip_tx_msg_def route option.case prod.case Let_def
    using whole p(1) sz by (simp add: net_msg_get_size_def p(2) [symmetric])
  then show thesis using that [of ?f] contents_laid_out [OF lo fin] by simp
qed

subsection \<open>A transfer unit that is too small\<close>

text \<open>With less than 8 bytes of payload per packet no fragment carries anything.\<close>

lemma fragment_size_small:
  fixes M :: u32
  assumes "20 \<le> unat M" "unat M < 28" "unat M < n + 20" "n \<le> 65515"
  shows "fragment_size M (of_nat n) 0 = 0"
proof -
  have r: "unat (of_nat n + 20 :: u32) = n + 20" using assms by (subst unat_add_no_wrap) (simp_all add: of_nat_unat_u32)
  then have mn: "min M (of_nat n + 20) = M" using assms by (simp add: min_def word_le_nat_alt)
  have u: "unat (M - 20) = unat M - 20" using assms by (subst unat_sub) (simp_all add: word_le_nat_alt)
  have "M - 20 < of_nat n" using u assms by (simp add: word_less_nat_alt of_nat_unat_u32)
  moreover have "drop_bit 3 (M - 20) = 0"
    using u assms by (simp add: word_unat_eq_iff drop_bit_eq_div unat_div)
  ultimately show ?thesis by (simp add: fragment_size_def mn Let_def)
qed

lemma tx_fragment_small:
  assumes z: "fragment_size M nn 0 = 0" and m: "laid_out m pre h rest" and o': "laid_out o' pre h rest"
  shows "\<exists>m' ident' counter'. tx_fragment M True nn hop (Some o') k 0 ident counter m = Inr (m', 0, ident', counter') \<and>
    net_msg_get_size m' = 20"
proof -
  define m1 where "m1 = upd_ip_hdr (\<lambda>h. h \<lparr> h_length := htons (ucast (0 + 20 :: u32)) \<rparr>) (net_msg_cut_off m (unat (0 + 20 :: u32)))"
  have s: "start m1 = start m" "finish m1 = start m + 20" "length (data m1) = length (data m)"
  proof -
    show "start m1 = start m" "finish m1 = start m + 20" by (simp_all add: m1_def net_msg_cut_off_def upd_ip_hdr_def)
    have "laid_out m1 pre (h \<lparr> h_length := htons (ucast (0 + 20 :: u32)) \<rparr>) rest"
      unfolding m1_def by (rule upd_ip_hdr_laid_out) (simp add: m)
    then show "length (data m1) = length (data m)" using m by (simp add: laid_out_def)
  qed
  have "copy_fragment (Some o') 0 0 m1 = Inr (store m1 (start m1 + 20) [])"
    using s m o' by (simp add: copy_fragment_def laid_out_def)
  then obtain m2 where m2: "(if k \<noteq> 0 then copy_fragment (Some o') 0 0 m1 else Inr m1) = Inr m2"
    "start m2 = start m" "finish m2 = start m + 20" using s by (cases "k = 0") auto
  show ?thesis unfolding tx_fragment_def Let_def if_True simp_thms z m1_def [symmetric] m2(1) sbind.simps
    using m2(2,3) by (simp add: case_prod_beta net_msg_get_size_def upd_ip_hdr_def)
qed

lemma tx_loop_small:
  assumes z: "fragment_size M nn 0 = 0" and nn: "0 < nn" and o': "laid_out o' pre h rest"
    and mem: "\<forall>j < K. mem j" "\<not> mem K"
  shows "k \<le> K \<Longrightarrow> k \<noteq> 0 \<Longrightarrow> \<exists>ms c. tx_loop mem M True nn hop (Some o') k 0 ident counter m q = Some (Inr (- ENOMEM, q @ ms, c)) \<and>
    length ms = K - k \<and> (\<forall>f \<in> set ms. net_msg_get_size f = 20)"
proof (induction "K - k" arbitrary: k ident counter m q)
  case 0
  then have "next_copy mem True (Some o') k m = Inr None" using mem by (simp add: next_copy_def net_msg_clone_def)
  then have "tx_loop mem M True nn hop (Some o') k 0 ident counter m q = Some (Inr (- ENOMEM, q, counter))"
    using nn by (subst tx_loop.simps) simp
  then show ?case using 0 by (intro exI [of _ "[]"]) simp
next
  case (Suc j)
  then have k: "k < K" by simp
  obtain m1 where m1: "net_msg_clone True o' = Some m1" by (simp add: net_msg_clone_def)
  have nc: "next_copy mem True (Some o') k m = Inr (Some m1)" using Suc(4) mem k m1 by (simp add: next_copy_def)
  have lo: "laid_out m1 pre h rest" using clone_laid_out [OF m1] o' by simp
  obtain m2 i c where m2: "tx_fragment M True nn hop (Some o') k 0 ident counter m1 = Inr (m2, 0, i, c)" "net_msg_get_size m2 = 20"
    using tx_fragment_small [OF z lo o'] by blast
  have j: "j = K - (k + 1)" using Suc(2) by simp
  obtain ms c' where ih: "tx_loop mem M True nn hop (Some o') (k + 1) 0 i c m2 (q @ [m2]) = Some (Inr (- ENOMEM, (q @ [m2]) @ ms, c'))"
    "length ms = K - (k + 1)" "\<forall>f \<in> set ms. net_msg_get_size f = 20"
    using Suc(1) [OF j, of i c m2 "q @ [m2]"] k by auto
  then show ?case using tx_loop_unfold [OF nc m2(1) nn, of q] m2(2) k by (intro exI [of _ "m2 # ms"] exI [of _ c']) auto
qed

end
