(* ===== verification/Ip_Input.thy ===== *)
theory Ip_Input
  imports Ip_Output
begin

unbundle bit_operations_syntax

text \<open>
  Raw IP sockets and the receipt of IP messages (\<^verbatim>\<open>ip_rx_msg\<close>, \<^verbatim>\<open>store_in_socket\<close> and
  the operations on raw sockets of \<^verbatim>\<open>kernel/ip.c\<close>). Sockets are referred to by number. A
  completed reassembly frees the message that was received, but the code goes on using it: \<open>stale\<close> is
  the message that is found in the freed memory. Memory for copies is granted by the argument \<open>mem\<close>.
\<close>

subsection \<open>State\<close>

record ip_socket =
  s_proto :: u8
  rcv_buffer :: "net_msg_t list"
  pending_bytes :: u32
  ref_count :: int
  bound :: bool
  connected :: bool
  laddr :: u32
  faddr :: u32
  freed :: bool

record ip_state =
  sockets :: "nat \<Rightarrow> ip_socket"
  raw_sockets :: "nat option list"
  slots :: "reassembly_slot_t list"

abbreviation IP_SOCKET_SLOTS :: nat where "IP_SOCKET_SLOTS \<equiv> 1024"
abbreviation (input) IP_RCV_BUFFER_SIZE :: u32 where "IP_RCV_BUFFER_SIZE \<equiv> 16 * 65536"

definition upd_socket :: "nat \<Rightarrow> (ip_socket \<Rightarrow> ip_socket) \<Rightarrow> ip_state \<Rightarrow> ip_state" where
  "upd_socket s f st = st \<lparr> sockets := (sockets st)(s := f (sockets st s)) \<rparr>"

subsection \<open>References\<close>

definition ip_clone_socket :: "nat \<Rightarrow> ip_state \<Rightarrow> ip_state" where
  "ip_clone_socket s st = upd_socket s (\<lambda>so. so \<lparr> ref_count := ref_count so + 1 \<rparr>) st"

text \<open>\<^verbatim>\<open>count = (ipcb->ref_count--)\<close> is the old value.\<close>

definition ip_release_socket :: "nat \<Rightarrow> ip_state \<Rightarrow> ip_state" where
  "ip_release_socket s st =
     upd_socket s (\<lambda>so. so \<lparr> ref_count := ref_count so - 1, freed := freed so \<or> ref_count so = 0 \<rparr>) st"

fun free_slot :: "nat option list \<Rightarrow> nat option" where
  "free_slot [] = None"
| "free_slot (x # xs) = (if x = None then Some 0 else map_option Suc (free_slot xs))"

definition add_socket :: "nat \<Rightarrow> ip_state \<Rightarrow> int \<times> ip_state" where
  "add_socket s st =
     (case free_slot (raw_sockets st) of
        None \<Rightarrow> (- ENOBUFS, st)
      | Some i \<Rightarrow> (0, ip_clone_socket s (st \<lparr> raw_sockets := (raw_sockets st)[i := Some s] \<rparr>)))"

fun drop_slots :: "nat \<Rightarrow> nat \<Rightarrow> ip_state \<Rightarrow> ip_state" where
  "drop_slots s 0 st = st"
| "drop_slots s (Suc n) st =
     (let st = drop_slots s n st
      in if raw_sockets st ! n = Some s
         then (ip_release_socket s st) \<lparr> raw_sockets := (raw_sockets st)[n := None] \<rparr> else st)"

definition ip_drop_socket :: "nat \<Rightarrow> ip_state \<Rightarrow> ip_state" where
  "ip_drop_socket s st = drop_slots s (length (raw_sockets st)) st"

subsection \<open>Operations on sockets\<close>

definition ip_create_socket :: "nat \<Rightarrow> nat \<Rightarrow> u8 \<Rightarrow> ip_state \<Rightarrow> int \<times> ip_state" where
  "ip_create_socket s domain proto st =
     (if domain \<noteq> AF_INET then (- EINVAL, st)
      else (0, upd_socket s (\<lambda>so. so \<lparr> s_proto := proto, rcv_buffer := [], pending_bytes := 0, ref_count := 1 \<rparr>) st))"

abbreviation (input) sizeof_sockaddr_in :: int where "sizeof_sockaddr_in \<equiv> 16"

definition ip_connect_socket :: "net_state \<Rightarrow> nat \<Rightarrow> u32 \<Rightarrow> int \<Rightarrow> ip_state \<Rightarrow> int \<times> ip_state" where
  "ip_connect_socket net s addr addrlen st =
     (if addrlen \<noteq> sizeof_sockaddr_in then (- EINVAL, st)
      else
        (let (rc, st) =
           (if bound (sockets st s) then (0, st)
            else (let st = upd_socket s (\<lambda>so. so \<lparr> laddr := ip_get_src_addr net addr \<rparr>) st
                  in case add_socket s st of
                       (rc, st) \<Rightarrow> if rc < 0 then (- ENOBUFS, st) else (0, upd_socket s (\<lambda>so. so \<lparr> bound := True \<rparr>) st)))
         in if rc < 0 then (rc, st) else (0, upd_socket s (\<lambda>so. so \<lparr> faddr := addr, connected := True \<rparr>) st)))"

definition ip_bind :: "nat \<Rightarrow> u32 \<Rightarrow> int \<Rightarrow> ip_state \<Rightarrow> int \<times> ip_state" where
  "ip_bind s addr addrlen st =
     (if addrlen \<noteq> sizeof_sockaddr_in then (- EINVAL, st)
      else if bound (sockets st s) then (- EINVAL, st)
      else (let st = upd_socket s (\<lambda>so. so \<lparr> laddr := addr \<rparr>) st
            in case add_socket s st of
                 (rc, st) \<Rightarrow> if rc = 0 then (0, upd_socket s (\<lambda>so. so \<lparr> bound := True \<rparr>) st) else (- ENOBUFS, st)))"

definition ip_close_socket :: "nat \<Rightarrow> ip_state \<Rightarrow> int \<times> ip_state" where
  "ip_close_socket s st = (0, upd_socket s (\<lambda>so. so \<lparr> rcv_buffer := [] \<rparr>) (ip_drop_socket s st))"

text \<open>Sending: a message is built and handed to \<open>ip_tx_msg\<close>; the result lists what is queued.\<close>

definition ip_socket_sendto ::
    "(nat \<Rightarrow> bool) \<Rightarrow> net_msg_t \<Rightarrow> (nat \<Rightarrow> bool) \<Rightarrow> net_state \<Rightarrow> u32 \<Rightarrow> ip_socket \<Rightarrow> u8 list \<Rightarrow> (u32 \<times> nat) option \<Rightarrow>
     (mem_fault + (int \<times> net_msg_t list \<times> u32)) option" where
  "ip_socket_sendto alloc junk mem net counter so buf addr =
     (if \<not> connected so \<and> addr = None then Some (Inr (- ENOTCONN, [], counter))
      else if (case addr of None \<Rightarrow> False | Some (_, addrlen) \<Rightarrow> addrlen \<noteq> 16) then Some (Inr (- EINVAL, [], counter))
      else if addr \<noteq> None \<and> connected so then Some (Inr (- EISCONN, [], counter))
      else if length buf > IP_FRAGMENT_MAX_SIZE then Some (Inr (- EMSGSIZE, [], counter))
      else
        (case net_msg_new alloc junk (length buf) of
           None \<Rightarrow> Some (Inr (- ENOMEM, [], counter))
         | Some m \<Rightarrow>
             (let m = m \<lparr> ip_src := (if bound so then laddr so else INADDR_ANY),
                          ip_dest := (if connected so then faddr so else (case addr of None \<Rightarrow> 0 | Some (a, _) \<Rightarrow> a)),
                          ip_df := 0, ip_proto := s_proto so \<rparr>
              in case net_msg_append m (length buf) of
                   None \<Rightarrow> Some (Inl Write_overrun)
                 | Some (at, m) \<Rightarrow>
                     (case ip_tx_msg mem net counter (store m at buf) of
                        Some (Inr (rc, queued, counter)) \<Rightarrow>
                          Some (Inr (if rc = 0 then int (length buf) else rc, queued, counter))
                      | r \<Rightarrow> r))))"

definition ip_socket_send ::
    "(nat \<Rightarrow> bool) \<Rightarrow> net_msg_t \<Rightarrow> (nat \<Rightarrow> bool) \<Rightarrow> net_state \<Rightarrow> u32 \<Rightarrow> ip_socket \<Rightarrow> u8 list \<Rightarrow>
     (mem_fault + (int \<times> net_msg_t list \<times> u32)) option" where
  "ip_socket_send alloc junk mem net counter so buf = ip_socket_sendto alloc junk mem net counter so buf None"

text \<open>
  Reading: the bytes, the address of the sender and the socket. The bytes are read at the IP header
  of the queued message.
\<close>

definition ip_recvfrom :: "ip_socket \<Rightarrow> nat \<Rightarrow> (int + (mem_fault + u8 list \<times> u32)) \<times> ip_socket" where
  "ip_recvfrom so len =
     (if \<not> bound so then (Inl (- EINVAL), so)
      else (case rcv_buffer so of
              [] \<Rightarrow> (Inl (- EAGAIN), so)
            | item # items \<Rightarrow>
                (let bytes = min (unat (ip_length item) + sizeof_ip_hdr) len
                 in if ip_off item + bytes > length (data item) then (Inr (Inl Read_overrun), so)
                    else (Inr (Inr (take bytes (drop (ip_off item) (data item)), ip_src item)),
                          so \<lparr> pending_bytes := pending_bytes so - of_nat bytes, rcv_buffer := items \<rparr>))))"

definition ip_recv :: "ip_socket \<Rightarrow> nat \<Rightarrow> (int + (mem_fault + u8 list)) \<times> ip_socket" where
  "ip_recv so len =
     (case ip_recvfrom so len of
        (Inl rc, so) \<Rightarrow> (Inl rc, so)
      | (Inr (Inl e), so) \<Rightarrow> (Inr (Inl e), so)
      | (Inr (Inr (bs, _)), so) \<Rightarrow> (Inr (Inr bs), so))"

abbreviation (input) NET_EVENT_CAN_READ :: int where "NET_EVENT_CAN_READ \<equiv> 1"
abbreviation (input) NET_EVENT_CAN_WRITE :: int where "NET_EVENT_CAN_WRITE \<equiv> 2"

definition ip_select :: "ip_socket \<Rightarrow> bool \<Rightarrow> bool \<Rightarrow> int" where
  "ip_select so rd wr =
     (if rd \<and> pending_bytes so > 0 then NET_EVENT_CAN_READ else 0) + (if wr then NET_EVENT_CAN_WRITE else 0)"

subsection \<open>Receipt\<close>

definition store_in_socket :: "bool \<Rightarrow> net_msg_t \<Rightarrow> ip_socket \<Rightarrow> ip_socket" where
  "store_in_socket mem m so =
     (let bytes = ucast (ip_length m) + 20 :: u32
      in if pending_bytes so + bytes > IP_RCV_BUFFER_SIZE then so
         else (case net_msg_clone mem m of
                 None \<Rightarrow> so
               | Some c \<Rightarrow> so \<lparr> rcv_buffer := rcv_buffer so @ [c], pending_bytes := pending_bytes so + bytes \<rparr>))"

text \<open>What becomes of a message.\<close>

datatype rx_result =
    Dropped
  | Leaked
  | Incomplete
  | Icmp net_msg_t
  | Tcp net_msg_t
  | Udp net_msg_t
  | Unknown_proto net_msg_t bool

text \<open>
  The walk over the raw sockets. The message stored is \<open>m\<close>, the destination compared is that of
  \<open>out\<close>; the reference taken on a socket is given back.
\<close>

fun offer_raw :: "(nat \<Rightarrow> bool) \<Rightarrow> net_msg_t \<Rightarrow> net_msg_t \<Rightarrow> nat \<Rightarrow> nat option list \<Rightarrow> ip_state \<Rightarrow> ip_state" where
  "offer_raw mem m out i [] st = st"
| "offer_raw mem m out i (x # xs) st =
     (case x of
        None \<Rightarrow> offer_raw mem m out (i + 1) xs st
      | Some s \<Rightarrow>
          (let st = ip_clone_socket s st;
               so = sockets st s;
               st = (if bound so \<and> ip_dest out = laddr so \<and> h_proto (msg_ip_hdr m) = s_proto so
                     then upd_socket s (store_in_socket (mem i) m) st else st)
           in offer_raw mem m out (i + 1) xs (ip_release_socket s st)))"

definition hdr_acceptable :: "net_state \<Rightarrow> net_msg_t \<Rightarrow> bool" where
  "hdr_acceptable net m \<longleftrightarrow>
     (let h = msg_ip_hdr m
      in drop_bit 4 (h_version h) = 4 \<and> h_version h AND 0xF = 5 \<and>
         (case nic m of
            None \<Rightarrow> False
          | Some n \<Rightarrow> ip_addr_assigned (nics net n) \<and> nic_ip_addr (nics net n) = h_dest h) \<and>
         h_ttl h \<noteq> 0 \<and> net_compute_checksum (drop (ip_off m) (data m)) 20 = 0)"

definition ip_demultiplex :: "net_msg_t \<Rightarrow> net_msg_t \<Rightarrow> bool \<Rightarrow> rx_result" where
  "ip_demultiplex m out destroyed =
     (let proto = h_proto (msg_ip_hdr m)
      in if proto = 0x1 then Icmp (net_msg_set_icmp_hdr out 20)
         else if proto = 0x6 then Tcp (net_msg_set_tcp_hdr out 20)
         else if proto = 0x11 then Udp (net_msg_set_udp_hdr out 20)
         else Unknown_proto out destroyed)"

definition ip_rx_msg ::
    "(nat \<Rightarrow> bool) \<Rightarrow> (nat \<Rightarrow> bool) \<Rightarrow> net_msg_t \<Rightarrow> net_msg_t \<Rightarrow> net_state \<Rightarrow> net_msg_t \<Rightarrow> ip_state \<Rightarrow>
     (mem_fault + (rx_result \<times> ip_state)) option" where
  "ip_rx_msg alloc mem junk stale net m st =
     (let h = msg_ip_hdr m
      in if \<not> hdr_acceptable net m then Some (Inr (Dropped, st))
         else if unat (ntohs (h_length h)) < 20 then Some (Inr (Leaked, st))
         else
           (let m = m \<lparr> ip_dest := h_dest h, ip_src := h_src h, ip_length := ntohs (h_length h) - 20 \<rparr>
            in case ip_reassembly alloc junk m (slots st) of
                 None \<Rightarrow> None
               | Some (Inl e) \<Rightarrow> Some (Inl e)
               | Some (Inr (None, sl, _)) \<Rightarrow> Some (Inr (Incomplete, st \<lparr> slots := sl \<rparr>))
               | Some (Inr (Some out, sl, destroyed)) \<Rightarrow>
                   (let m = (if destroyed then stale else m);
                        st = offer_raw mem m out 0 (raw_sockets st) (st \<lparr> slots := sl \<rparr>)
                    in Some (Inr (ip_demultiplex m out destroyed, st)))))"

subsection \<open>Initialization\<close>

definition ip_init :: "net_state \<Rightarrow> ip_state \<Rightarrow> net_state \<times> ip_state" where
  "ip_init net st =
     (net \<lparr> routing_table :=
        map (\<lambda>r. r \<lparr> rt_nic := None, rt_entry := (rt_entry r) \<lparr> rt_flags := 0 \<rparr> \<rparr>) (routing_table net) \<rparr>,
      st \<lparr> slots := map (\<lambda>s. s \<lparr> used := False \<rparr>) (slots st), raw_sockets := map (\<lambda>_. None) (raw_sockets st) \<rparr>)"

subsection \<open>Frame\<close>

lemma upd_socket_frame [simp]:
  "slots (upd_socket s f st) = slots st" "raw_sockets (upd_socket s f st) = raw_sockets st"
  by (simp_all add: upd_socket_def)

lemma socket_refs_frame [simp]:
  "slots (ip_clone_socket s st) = slots st" "raw_sockets (ip_clone_socket s st) = raw_sockets st"
  "slots (ip_release_socket s st) = slots st" "raw_sockets (ip_release_socket s st) = raw_sockets st"
  by (simp_all add: ip_clone_socket_def ip_release_socket_def)

lemma offer_raw_frame [simp]:
  "slots (offer_raw mem m out i xs st) = slots st" "raw_sockets (offer_raw mem m out i xs st) = raw_sockets st"
  by (induction mem m out i xs st rule: offer_raw.induct) (simp_all add: Let_def split: option.splits)

end
