(* ===== verification/Ip_Properties.thy ===== *)
theory Ip_Properties
  imports Ip_Fragment Ip_Input
begin

unbundle bit_operations_syntax

text \<open>
  What the IP layer guarantees: reassembly refines its abstract description and delivers what
  arrives, fragments made by one host are put together again by another, routing finds a matching
  route, and the cases in which the code does not do what it is meant to do.
\<close>

subsection \<open>Reassembly\<close>

text \<open>
  (C12) A fragment that arrives is added to the set of the fragments received of its datagram, for
  any mixture of up to 16 datagrams in any state: the hole list in the buffer is never damaged, no access
  leaves the buffer, the search over the holes ends, and when the last fragment has come the message that
  is returned is the datagram.
\<close>

theorem ip_reassembly_refines:
  assumes "datagrams_ok dg" "fragment_msg dg m x" "slots_rel dg A sl"
  shows "\<exists>r sl'. ip_reassembly alloc junk m sl = Some (Inr (r, sl', True)) \<and>
    slots_rel dg (snd (reassemble_spec (length sl) dg (msg_key m) x A)) sl' \<and>
    result_ok alloc (msg_ip_hdr m) (fst (reassemble_spec (length sl) dg (msg_key m) x A)) r"
  using ip_reassembly_step [OF assms, of alloc junk] by metis

text \<open>Two fragments of a datagram of 16 octets.\<close>

definition demo_payload :: "u8 list" where
  "demo_payload = [1, 2, 3, 4, 5, 6, 7, 8, 9, 10, 11, 12, 13, 14, 15, 16]"

definition demo_datagrams :: datagrams where
  "demo_datagrams = (\<lambda>_. (demo_payload, {(0, 7), (8, 15)}))"

definition blank_msg :: net_msg_t where
  "blank_msg = \<lparr> data = [], start = 0, finish = 0, nic = None, eth_hdr = Unset, arp_hdr = Unset, ip_hdr = Unset,
     icmp_hdr = Unset, tcp_hdr = Unset, udp_hdr = Unset, hw_dest = [], ethertype = 0, ip_length = 0, ip_proto = 0,
     ip_dest = 0, ip_src = 0, ip_df = 0 \<rparr>"

definition demo_fragment :: "u16 \<Rightarrow> u8 list \<Rightarrow> net_msg_t" where
  "demo_fragment flags bs =
     blank_msg \<lparr> data := ip_hdr_bytes \<lparr> h_version = 0x45, h_priority = 0, h_length = htons 28, h_id = 7, h_flags = htons flags,
       h_ttl = 64, h_proto = 17, h_checksum = 0, h_src = 1, h_dest = 2 \<rparr> @ bs, ip_hdr := Offset 0 \<rparr>"

definition demo_slots :: "reassembly_slot_t list" where
  "demo_slots = replicate NR_REASSEMBLY_SLOTS
     \<lparr> hole_list_head = None, hole_list_tail = None, slot_src = 0, slot_dst = 0, slot_id = 0, slot_proto = 0,
       buffer = (\<lambda>_. 0), payload_length = 0, used = False, timeout = 0 \<rparr>"

lemma demo_datagrams_ok: "datagrams_ok demo_datagrams"
  by (auto simp: datagrams_ok_def demo_datagrams_def demo_payload_def cut_def apart_def)

lemma demo_fragment_msg:
  "fragment_msg demo_datagrams (demo_fragment 0x2000 (take 8 demo_payload)) (0, 7)"
  "fragment_msg demo_datagrams (demo_fragment 1 (drop 8 demo_payload)) (8, 15)"
proof -
  have l: "length demo_payload = 16" by (simp add: demo_payload_def)
  note defs = fragment_msg_def demo_fragment_def demo_datagrams_def blank_msg_def ip_off_def Let_def carries_def
    frag_offset_def frag_last_def frag_mf_def within_def l
  show "fragment_msg demo_datagrams (demo_fragment 0x2000 (take 8 demo_payload)) (0, 7)" by (simp add: defs)
  show "fragment_msg demo_datagrams (demo_fragment 1 (drop 8 demo_payload)) (8, 15)" by (auto simp: defs)
qed

lemma demo_slots_rel: "slots_rel dg Map.empty demo_slots"
  by (auto simp: slots_rel_def demo_slots_def)

theorem ip_reassembly_refines_witness:
  "\<exists>r sl'. ip_reassembly (\<lambda>_. True) blank_msg (demo_fragment 1 (drop 8 demo_payload)) demo_slots = Some (Inr (r, sl', True)) \<and>
    slots_rel demo_datagrams (snd (reassemble_spec (length demo_slots) demo_datagrams
      (msg_key (demo_fragment 1 (drop 8 demo_payload))) (8, 15) Map.empty)) sl' \<and>
    result_ok (\<lambda>_. True) (msg_ip_hdr (demo_fragment 1 (drop 8 demo_payload)))
      (fst (reassemble_spec (length demo_slots) demo_datagrams
        (msg_key (demo_fragment 1 (drop 8 demo_payload))) (8, 15) Map.empty)) r"
  by (rule ip_reassembly_refines [OF demo_datagrams_ok demo_fragment_msg(2) demo_slots_rel])

text \<open>
  (C13) Whatever the order in which the fragments of up to 16 datagrams arrive, mixed with each other
  and some of them repeatedly: every message that is returned is one of the datagrams, and every datagram
  of which all fragments have arrived is returned, if there is memory for it.
\<close>

theorem reassembly_delivers:
  assumes dg: "datagrams_ok dg" and ms: "list_all2 (fragment_msg dg) ms xs"
    and free: "\<forall>s \<in> set sl. \<not> used s" and room: "card (msg_key ` set ms) \<le> length sl"
  shows "\<exists>rs sl'. reassemble_all alloc junk sl ms = Some (Inr (rs, sl')) \<and> length rs = length ms \<and>
    (\<forall>i < length ms. \<forall>r. rs ! i = Some r \<longrightarrow> delivers r (msg_ip_hdr (ms ! i)) (fst (dg (msg_key (ms ! i))))) \<and>
    (\<forall>k. complete (fst (dg k)) {xs ! i | i. i < length ms \<and> msg_key (ms ! i) = k} \<and> alloc (length (fst (dg k))) \<longrightarrow>
      (\<exists>i < length ms. msg_key (ms ! i) = k \<and> rs ! i \<noteq> None))"
  by (rule reassemble_all_delivers [OF assms])

theorem reassembly_delivers_witness:
  "\<exists>rs sl'. reassemble_all (\<lambda>_. True) blank_msg demo_slots
      [demo_fragment 1 (drop 8 demo_payload), demo_fragment 0x2000 (take 8 demo_payload)] = Some (Inr (rs, sl')) \<and>
    (\<exists>i < 2. rs ! i \<noteq> None)"
proof -
  let ?a = "demo_fragment 1 (drop 8 demo_payload)" and ?b = "demo_fragment 0x2000 (take 8 demo_payload)"
  have k: "msg_key ?a = (1, 2, 7, 17)" "msg_key ?b = (1, 2, 7, 17)"
    by (simp_all add: demo_fragment_def blank_msg_def ip_off_def hdr_key_def)
  have set: "{[(8 :: nat, 15 :: nat), (0, 7)] ! i | i. i < length [?a, ?b] \<and> msg_key ([?a, ?b] ! i) = (1, 2, 7, 17)} = {(8, 15), (0, 7)}"
    using k by (auto simp: less_Suc_eq intro: exI [of _ 0] exI [of _ 1])
  have all: "complete (fst (demo_datagrams (1, 2, 7, 17))) {(8, 15), (0, 7)}"
    by (auto simp: complete_def demo_datagrams_def demo_payload_def within_def)
  have ms: "list_all2 (fragment_msg demo_datagrams) [?a, ?b] [(8, 15), (0, 7)]" using demo_fragment_msg by simp
  have sl: "\<forall>s \<in> set demo_slots. \<not> used s" "card (msg_key ` set [?a, ?b]) \<le> length demo_slots"
    using k by (simp_all add: demo_slots_def)
  obtain rs sl' where rs: "reassemble_all (\<lambda>_. True) blank_msg demo_slots [?a, ?b] = Some (Inr (rs, sl'))"
    and live: "\<forall>k. complete (fst (demo_datagrams k)) {[(8, 15), (0, 7)] ! i | i. i < length [?a, ?b] \<and> msg_key ([?a, ?b] ! i) = k} \<and> True \<longrightarrow>
      (\<exists>i < length [?a, ?b]. msg_key ([?a, ?b] ! i) = k \<and> rs ! i \<noteq> None)"
    using reassembly_delivers [OF demo_datagrams_ok ms sl, of "\<lambda>_. True" blank_msg] by blast
  have "\<exists>i < length [?a, ?b]. msg_key ([?a, ?b] ! i) = (1, 2, 7, 17) \<and> rs ! i \<noteq> None"
    using live [THEN spec, of "(1, 2, 7, 17)"] all unfolding set by blast
  then have "\<exists>i < 2. rs ! i \<noteq> None" by (auto simp: numeral_2_eq_2)
  then show ?thesis using rs by blast
qed

subsection \<open>Fragmentation\<close>

text \<open>
  (C14) A message that is longer than the maximum transfer unit is cut into fragments that fit it; a
  host that receives these fragments, in any order and each of them at least once, gets back the message
  and nothing else.
\<close>

theorem fragmentation_round_trip:
  assumes m: "msg_ok m" "20 \<le> start m" "ip_df m = 0" "contents m \<noteq> []" "length (contents m) \<le> 65512"
    and route: "ip_get_route st (ip_src m) (ip_dest m) = Some (n, hop)"
    and M: "28 \<le> mtu (nics st n)" "mtu (nics st n) < int (length (contents m)) + 20"
    and mem: "\<forall>k. mem k" "alloc (length (contents m))"
  shows "\<exists>fs counter'. ip_tx_msg mem st counter m = Some (Inr (0, fs, counter')) \<and>
    (\<forall>f \<in> set fs. int (length (contents f)) \<le> mtu (nics st n) \<and> ip_dest f = hop) \<and>
    (\<forall>rs sl. (\<forall>r \<in> set rs. \<exists>f \<in> set fs. received f r) \<and> (\<forall>f \<in> set fs. \<exists>r \<in> set rs. received f r) \<and>
        (\<forall>s \<in> set sl. \<not> used s) \<and> sl \<noteq> [] \<longrightarrow>
      (\<exists>out sl'. reassemble_all alloc junk sl rs = Some (Inr (out, sl')) \<and> (\<exists>i < length out. out ! i \<noteq> None) \<and>
        (\<forall>i < length out. \<forall>r. out ! i = Some r \<longrightarrow>
           drop 20 (contents r) = contents m \<and> ip_dest r = ip_dest m \<and> ip_proto r = ip_proto m)))"
proof -
  let ?D = "contents m"
  let ?h = "(tx_hdr st n m) \<lparr> h_length := htons (of_nat (length ?D + 20)) \<rparr>"
  obtain ident counter' where id: "get_id counter = (ident, counter')" by fastforce
  have m5: "length ?D \<le> 65515" using m(5) by simp
  obtain xs fs where tx: "ip_tx_msg mem st counter m = Some (Inr (0, fs, counter'))" "tiles (length ?D) 0 xs"
    "list_all2 (is_fragment (nat (mtu (nics st n))) hop ?h ident ?D) xs fs"
    by (rule ip_tx_msg_fragments [OF m(1-4) m5 route M mem(1) id])
  let ?k = "(h_src ?h, h_dest ?h, ucast (htons (ucast ident)) :: u32, h_proto ?h)"
  define dg :: datagrams where "dg k = (if k = ?k then (?D, set xs) else ([0], {}))" for k
  have dg: "datagrams_ok dg" using tiles_cut [OF tx(2) m(5)] m(4) by (auto simp: datagrams_ok_def dg_def cut_def)
  have dgk: "dg ?k = (?D, set xs)" by (simp add: dg_def)
  have size: "\<forall>f \<in> set fs. int (length (contents f)) \<le> mtu (nics st n) \<and> ip_dest f = hop"
  proof
    fix f assume "f \<in> set fs"
    then obtain x where "is_fragment (nat (mtu (nics st n))) hop ?h ident ?D x f"
      using tx(3) by (metis in_set_conv_nth list_all2_conv_all_nth)
    then have "length (contents f) \<le> nat (mtu (nics st n))" "ip_dest f = hop" unfolding is_fragment_def by blast+
    then show "int (length (contents f)) \<le> mtu (nics st n) \<and> ip_dest f = hop" using M by linarith
  qed
  have "\<exists>out sl'. reassemble_all alloc junk sl rs = Some (Inr (out, sl')) \<and> (\<exists>i < length out. out ! i \<noteq> None) \<and>
        (\<forall>i < length out. \<forall>r. out ! i = Some r \<longrightarrow>
           drop 20 (contents r) = contents m \<and> ip_dest r = ip_dest m \<and> ip_proto r = ip_proto m)"
    if rs: "\<forall>r \<in> set rs. \<exists>f \<in> set fs. received f r" "\<forall>f \<in> set fs. \<exists>r \<in> set rs. received f r"
      and sl: "\<forall>s \<in> set sl. \<not> used s" "sl \<noteq> []" for rs sl
  proof -
    have big: "nat (mtu (nics st n)) < length ?D + 20" using M by linarith
    obtain ys where ys: "list_all2 (fragment_msg dg) rs ys" "set ys = set xs" "\<forall>r \<in> set rs. msg_key r = ?k"
      by (rule received_all [where dg = dg, OF tx(3) big tx(2) m5 dgk rs])
    have "msg_key ` set rs \<subseteq> {?k}" using ys(3) by auto
    then have "card (msg_key ` set rs) \<le> card {?k}" by (intro card_mono) auto
    moreover have "1 \<le> length sl" using sl(2) by (cases sl) auto
    ultimately have room: "card (msg_key ` set rs) \<le> length sl" by simp
    obtain out sl' where out: "reassemble_all alloc junk sl rs = Some (Inr (out, sl'))" "length out = length rs"
      and sound: "\<forall>i < length rs. \<forall>r. out ! i = Some r \<longrightarrow> delivers r (msg_ip_hdr (rs ! i)) (fst (dg (msg_key (rs ! i))))"
      and live: "\<forall>k. complete (fst (dg k)) {ys ! i | i. i < length rs \<and> msg_key (rs ! i) = k} \<and> alloc (length (fst (dg k))) \<longrightarrow>
        (\<exists>i < length rs. msg_key (rs ! i) = k \<and> out ! i \<noteq> None)"
      using reassemble_all_delivers [OF dg ys(1) sl(1) room, of alloc junk] by blast
    have "{ys ! i | i. i < length rs \<and> msg_key (rs ! i) = ?k} = set ys"
      using ys(3) list_all2_lengthD [OF ys(1)] by (auto simp: set_conv_nth)
    then have "\<exists>i < length rs. out ! i \<noteq> None"
      using live [THEN spec, of ?k] tiles_complete [OF tx(2)] ys(2) mem(2) dgk by auto
    moreover have "drop 20 (contents r) = ?D \<and> ip_dest r = ip_dest m \<and> ip_proto r = ip_proto m"
      if "i < length out" "out ! i = Some r" for i r
    proof -
      have "i < length rs" using that out(2) by simp
      then have k: "msg_key (rs ! i) = ?k" and d: "delivers r (msg_ip_hdr (rs ! i)) (fst (dg (msg_key (rs ! i))))"
        using ys(3) sound that by auto
      show ?thesis using d k dgk by (simp add: delivers_def hdr_key_def tx_hdr_def)
    qed
    ultimately show ?thesis using out by (intro exI [of _ out] exI [of _ sl']) simp
  qed
  then show ?thesis using tx(1) size by blast
qed

definition demo_net :: net_state where
  "demo_net =
     \<lparr> nics = (\<lambda>_. \<lparr> nic_ip_addr = 1, nic_ip_netmask = 0xff, ip_addr_assigned = True, mtu = 28, nic_name = ''eth0'', hw_type = 0 \<rparr>),
       registered_nics = [\<lparr> e_nic = Some 0, has_tx = True \<rparr>],
       routing_table = [\<lparr> rt_entry = \<lparr> rt_dst = 2, rt_gateway = 0, rt_genmask = 0xff, dev = ''eth0'', rt_flags = RT_FLAGS_UP \<rparr>,
         rt_nic = Some 0 \<rparr>] \<rparr>"

definition demo_msg :: net_msg_t where
  "demo_msg = blank_msg \<lparr> data := replicate 20 0 @ demo_payload, start := 20, finish := 36, ip_dest := 2, ip_proto := 17 \<rparr>"

lemma demo_route: "ip_get_route demo_net 0 2 = Some (0, 2)"
  by (simp add: ip_get_route_def demo_net_def route_considered_def get_netmask_length_def upt_rec)

lemma demo_msg_simps:
  "msg_ok demo_msg" "contents demo_msg = demo_payload" "start demo_msg = 20" "ip_df demo_msg = 0" "ip_src demo_msg = 0"
  "ip_dest demo_msg = 2"
  by (simp_all add: msg_ok_def demo_msg_def blank_msg_def contents_def demo_payload_def)

theorem fragmentation_round_trip_witness:
  "\<exists>fs counter'. ip_tx_msg (\<lambda>_. True) demo_net 1 demo_msg = Some (Inr (0, fs, counter')) \<and>
    (\<forall>f \<in> set fs. int (length (contents f)) \<le> 28 \<and> ip_dest f = 2)"
proof -
  have h: "msg_ok demo_msg" "20 \<le> start demo_msg" "ip_df demo_msg = 0" "contents demo_msg \<noteq> []"
    "length (contents demo_msg) \<le> 65512" "ip_get_route demo_net (ip_src demo_msg) (ip_dest demo_msg) = Some (0, 2)"
    by (simp_all add: demo_msg_simps demo_route) (simp_all add: demo_payload_def)
  have M: "28 \<le> mtu (nics demo_net 0)" "mtu (nics demo_net 0) < int (length (contents demo_msg)) + 20"
    "mtu (nics demo_net 0) = 28"
    by (simp_all add: demo_net_def demo_msg_simps demo_payload_def)
  have mem: "\<forall>k :: nat. (\<lambda>_ :: nat. True) k" "(\<lambda>_ :: nat. True) (length (contents demo_msg))" by simp_all
  from fragmentation_round_trip [OF h M(1,2) mem, of 1 blank_msg]
  obtain fs c where "ip_tx_msg (\<lambda>_. True) demo_net 1 demo_msg = Some (Inr (0, fs, c))"
    "\<forall>f \<in> set fs. int (length (contents f)) \<le> mtu (nics demo_net 0) \<and> ip_dest f = 2"
    by (elim exE conjE) simp_all
  then show ?thesis unfolding M(3) by blast
qed

subsection \<open>From host to host\<close>

definition handed_to :: "u8 \<Rightarrow> net_msg_t \<Rightarrow> rx_result" where
  "handed_to proto out = (if proto = 0x1 then Icmp out else if proto = 0x6 then Tcp out else Udp out)"

lemma whole_hdr_accepted:
  assumes h: "h_version h = 0x45" "h_ttl h \<noteq> 0" "h_checksum h = 0"
    and r: "drop (ip_off r) (data r) = ip_hdr_bytes (with_checksum h) @ rest"
    and nic: "nic r = Some k" "ip_addr_assigned (nics net k)" "nic_ip_addr (nics net k) = h_dest h"
  shows "hdr_acceptable net r"
proof -
  have "net_compute_checksum (drop (ip_off r) (data r)) 20 = 0"
    using with_checksum_valid [OF h(3)] unfolding r by (subst net_checksum_append) simp_all
  then show ?thesis using h nic unfolding hdr_acceptable_def Let_def r ip_hdr_round_trip by (simp add: with_checksum_def)
qed

text \<open>A packet that is not a fragment is handed to its protocol.\<close>

lemma ip_rx_msg_whole:
  assumes acc: "hdr_acceptable net r" and ln: "ntohs (h_length (msg_ip_hdr r)) = of_nat (n + 20)"
    and len: "unat (of_nat (n + 20) :: u16) = n + 20"
    and fl: "frag_offset (msg_ip_hdr r) = 0" "\<not> frag_mf (msg_ip_hdr r)"
    and pr: "h_proto (msg_ip_hdr r) = 0x1 \<or> h_proto (msg_ip_hdr r) = 0x6 \<or> h_proto (msg_ip_hdr r) = 0x11"
  shows "\<exists>out ist'. ip_rx_msg alloc mem junk stale net r ist = Some (Inr (handed_to (h_proto (msg_ip_hdr r)) out, ist')) \<and>
    slots ist' = slots ist \<and> ip_off out = ip_off r \<and> data out = data r \<and> ip_length out = of_nat n \<and>
    ip_dest out = h_dest (msg_ip_hdr r)"
proof -
  let ?p = "h_proto (msg_ip_hdr r)"
  define r' where "r' = r \<lparr> ip_dest := h_dest (msg_ip_hdr r), ip_src := h_src (msg_ip_hdr r), ip_length := of_nat n \<rparr>"
  have same: "msg_ip_hdr r' = msg_ip_hdr r" "ip_off r' = ip_off r" "data r' = data r" by (simp_all add: r'_def ip_off_def)
  have l20: "(of_nat (n + 20) - 20 :: u16) = of_nat n" by simp
  have re: "ip_reassembly alloc junk r' sl = Some (Inr (Some r', sl, False))" for sl
    using fl by (simp add: ip_reassembly_def same)
  have rx: "ip_rx_msg alloc mem junk stale net r ist =
      Some (Inr (ip_demultiplex r' r' False, offer_raw mem r' r' 0 (raw_sockets ist) ist))"
    unfolding ip_rx_msg_def Let_def ln len l20 r'_def [symmetric] re using acc by simp
  define out where "out = (if ?p = 0x1 then net_msg_set_icmp_hdr r' 20 else if ?p = 0x6 then net_msg_set_tcp_hdr r' 20 else net_msg_set_udp_hdr r' 20)"
  have "ip_demultiplex r' r' False = handed_to ?p out"
    using pr unfolding ip_demultiplex_def Let_def same by (auto simp: handed_to_def out_def)
  moreover have "ip_off out = ip_off r'" "data out = data r'" "ip_length out = ip_length r'" "ip_dest out = ip_dest r'"
    by (simp_all add: out_def net_msg_set_icmp_hdr_def net_msg_set_tcp_hdr_def net_msg_set_udp_hdr_def ip_off_def)
  ultimately show ?thesis using rx same by (auto simp: r'_def)
qed

text \<open>
  (C16) A message that fits the maximum transfer unit is sent as one packet, and the host with the
  destination address that gets this packet hands the payload to the protocol it is for; what other
  datagrams have left in the reassembly slots does not matter and is not changed.
\<close>

theorem ip_message_delivered:
  assumes m: "msg_ok m" "20 \<le> start m" "contents m \<noteq> []" "length (contents m) \<le> 65515"
    and fields: "ip_df m = 0 \<or> ip_df m = 1" "ip_proto m = 0x1 \<or> ip_proto m = 0x6 \<or> ip_proto m = 0x11"
    and route: "ip_get_route st (ip_src m) (ip_dest m) = Some (n, hop)"
    and M: "int (length (contents m)) + 20 \<le> mtu (nics st n)" "mtu (nics st n) < 2 ^ 31"
  shows "\<exists>f. ip_tx_msg mem st counter m = Some (Inr (0, [f], counter)) \<and> ip_dest f = hop \<and>
    (\<forall>r k net ist. received f r \<and> ip_hdr r \<noteq> Unset \<and> ip_hdr r \<noteq> Foreign \<and> nic r = Some k \<and> ip_addr_assigned (nics net k) \<and>
        nic_ip_addr (nics net k) = ip_dest m \<longrightarrow>
      (\<exists>out ist'. ip_rx_msg alloc mem' junk stale net r ist = Some (Inr (handed_to (ip_proto m) out, ist')) \<and>
        slots ist' = slots ist \<and> unat (ip_length out) = length (contents m) \<and> ip_dest out = ip_dest m \<and>
        take (length (contents m)) (drop (ip_off out + 20) (data out)) = contents m))"
proof -
  let ?D = "contents m"
  let ?h = "(tx_hdr st n m) \<lparr> h_length := htons (of_nat (length ?D + 20)) \<rparr>"
  obtain f where f: "ip_tx_msg mem st counter m = Some (Inr (0, [f], counter))"
    "contents f = ip_hdr_bytes (with_checksum ?h) @ ?D" "msg_ok f" "ip_dest f = hop"
    by (rule ip_tx_msg_whole [OF m route M])
  have "\<exists>out ist'. ip_rx_msg alloc mem' junk stale net r ist = Some (Inr (handed_to (ip_proto m) out, ist')) \<and>
        slots ist' = slots ist \<and> unat (ip_length out) = length ?D \<and> ip_dest out = ip_dest m \<and>
        take (length ?D) (drop (ip_off out + 20) (data out)) = ?D"
    if r: "received f r" "ip_hdr r \<noteq> Unset" "ip_hdr r \<noteq> Foreign"
      and k: "nic r = Some k" "ip_addr_assigned (nics net k)" "nic_ip_addr (nics net k) = ip_dest m" for r k net ist
  proof -
    obtain pad where pad: "drop (ip_off r) (data r) = ip_hdr_bytes (with_checksum ?h) @ ?D @ pad"
      using r(1) f(2) by (metis append.assoc append_take_drop_id received_def)
    have hdr: "msg_ip_hdr r = with_checksum ?h" unfolding pad by simp
    have acc: "hdr_acceptable net r"
      by (rule whole_hdr_accepted [OF _ _ _ pad k(1,2)]) (simp_all add: tx_hdr_def k(3))
    have len: "unat (of_nat (length ?D + 20) :: u16) = length ?D + 20" using m(4) by (intro unat_of_nat16) simp
    have ln: "ntohs (h_length (msg_ip_hdr r)) = of_nat (length ?D + 20)" unfolding hdr by (simp add: with_checksum_def)
    have fl: "frag_offset (msg_ip_hdr r) = 0" "\<not> frag_mf (msg_ip_hdr r)"
      using fields(1) unfolding hdr by (auto simp: frag_offset_def frag_mf_def with_checksum_def tx_hdr_def ntohs_htons [unfolded htons_def])
    have pr: "h_proto (msg_ip_hdr r) = ip_proto m" and ds: "h_dest (msg_ip_hdr r) = ip_dest m"
      unfolding hdr by (simp_all add: with_checksum_def tx_hdr_def)
    obtain out ist' where o2: "ip_rx_msg alloc mem' junk stale net r ist = Some (Inr (handed_to (ip_proto m) out, ist'))"
      "slots ist' = slots ist" "ip_off out = ip_off r" "data out = data r" "ip_length out = of_nat (length ?D)" "ip_dest out = ip_dest m"
      using ip_rx_msg_whole [OF acc ln len fl, unfolded pr ds, OF fields(2)] by blast
    have "drop (ip_off r + 20) (data r) = drop 20 (drop (ip_off r) (data r))" by (simp add: add.commute)
    then have "take (length ?D) (drop (ip_off out + 20) (data out)) = ?D" unfolding o2 pad by simp
    moreover have "unat (ip_length out) = length ?D" unfolding o2 using m(4) by (intro unat_of_nat16) simp
    ultimately show ?thesis using o2(1,2,6) by blast
  qed
  then show ?thesis using f by blast
qed

definition wide_net :: net_state where
  "wide_net = demo_net \<lparr> nics := (\<lambda>k. (nics demo_net k) \<lparr> mtu := 1500 \<rparr>) \<rparr>"

lemma wide_route: "ip_get_route wide_net 0 2 = Some (0, 2)"
  by (simp add: ip_get_route_def wide_net_def demo_net_def route_considered_def get_netmask_length_def upt_rec)

theorem ip_message_delivered_witness:
  "\<exists>f. ip_tx_msg (\<lambda>_. True) wide_net 1 demo_msg = Some (Inr (0, [f], 1)) \<and> ip_dest f = 2"
proof -
  have h: "msg_ok demo_msg" "20 \<le> start demo_msg" "contents demo_msg \<noteq> []" "length (contents demo_msg) \<le> 65515"
    "ip_df demo_msg = 0 \<or> ip_df demo_msg = 1" "ip_get_route wide_net (ip_src demo_msg) (ip_dest demo_msg) = Some (0, 2)"
    by (simp_all add: demo_msg_simps wide_route) (simp_all add: demo_payload_def)
  have p: "ip_proto demo_msg = 0x1 \<or> ip_proto demo_msg = 0x6 \<or> ip_proto demo_msg = 0x11" by (simp add: demo_msg_def)
  have M: "int (length (contents demo_msg)) + 20 \<le> mtu (nics wide_net 0)" "mtu (nics wide_net 0) < 2 ^ 31"
    by (simp_all add: wide_net_def demo_msg_simps demo_payload_def)
  from ip_message_delivered [OF h(1-5) p h(6) M, where mem = "\<lambda>_. True" and counter = 1]
  show ?thesis by blast
qed

subsection \<open>Routing\<close>



text \<open>
  The length of a netmask is counted over four bits only. If all routes have masks whose first
  byte is complete, as all class A, B and C masks, the first matching route of the table is taken, however
  short its prefix is.
\<close>

theorem prefix_length_ignored:
  assumes "\<forall>r \<in> set (routing_table st). rt_genmask (rt_entry r) AND 0xF = 0xF"
  shows "map_option fst (ip_get_route st s d) =
    Option.bind (List.find (route_considered st s d) (routing_table st)) rt_nic"
proof -
  have "\<forall>r \<in> set (routing_table st). mask_length r = 4" using assms netmask_length_four by blast
  then show ?thesis by (auto simp: ip_get_route_def best_route_first split: option.splits)
qed

definition prefix_net :: net_state where
  "prefix_net = demo_net \<lparr> routing_table :=
     [\<lparr> rt_entry = \<lparr> rt_dst = 10, rt_gateway = 0, rt_genmask = 0xff, dev = ''eth0'', rt_flags = RT_FLAGS_UP \<rparr>, rt_nic = Some 0 \<rparr>,
      \<lparr> rt_entry = \<lparr> rt_dst = 10, rt_gateway = 0, rt_genmask = 0xffffff, dev = ''eth1'', rt_flags = RT_FLAGS_UP \<rparr>, rt_nic = Some 1 \<rparr>] \<rparr>"

theorem prefix_length_ignored_witness:
  "map_option fst (ip_get_route prefix_net 0 0x100000A) = Some 0 \<and>
   (\<exists>r \<in> set (routing_table prefix_net). route_considered prefix_net 0 0x100000A r \<and> rt_genmask (rt_entry r) = 0xffffff)"
proof
  have "\<forall>r \<in> set (routing_table prefix_net). rt_genmask (rt_entry r) AND 0xF = 0xF" by (simp add: prefix_net_def)
  from prefix_length_ignored [OF this, of 0 "0x100000A"] show "map_option fst (ip_get_route prefix_net 0 0x100000A) = Some 0"
    by (simp add: prefix_net_def route_considered_def)
  show "\<exists>r \<in> set (routing_table prefix_net). route_considered prefix_net 0 0x100000A r \<and> rt_genmask (rt_entry r) = 0xffffff"
    by (simp add: prefix_net_def route_considered_def)
qed

text \<open>
  When an interface gets an address, packets from this address to the connected network of its
  class are sent directly through this interface, whatever routes the table had before.
\<close>

theorem set_addr_reachable:
  assumes "net_if_set_addr gw ifr st = (0, st')" "ifr_addr ifr \<noteq> 0"
    and "net_if_get_nic_by_name st (ifrn_name ifr) = Some n"
    and "\<forall>k. k \<noteq> n \<longrightarrow> \<not> (ip_addr_assigned (nics st k) \<and> nic_ip_addr (nics st k) = ifr_addr ifr)"
    and "ip_addr_assigned (nics st n) \<or> (\<forall>r \<in> set (routing_table st). rt_nic r \<noteq> Some n)"
    and "get_default_netmask (ifr_addr ifr) AND d = get_default_netmask (ifr_addr ifr) AND ifr_addr ifr"
  shows "ip_get_route st' (ifr_addr ifr) d = Some (n, d) \<and> nic_ip_addr (nics st' n) = ifr_addr ifr"
  using set_addr_route [OF assms] by blast

definition config_net :: net_state where
  "config_net = demo_net \<lparr> nics := (\<lambda>k. if k = 0 then nics demo_net 0 else (nics demo_net 0) \<lparr> ip_addr_assigned := False, nic_name := ''eth1'' \<rparr>) \<rparr>"

theorem set_addr_reachable_witness:
  "\<exists>st'. net_if_set_addr 77 \<lparr> ifrn_name = ''eth0'', ifr_family = AF_INET, ifr_addr = 0x0100A8C0 \<rparr> config_net = (0, st') \<and>
     ip_get_route st' 0x0100A8C0 0x0900A8C0 = Some (0, 0x0900A8C0)"
proof -
  let ?ifr = "\<lparr> ifrn_name = ''eth0'', ifr_family = AF_INET, ifr_addr = 0x0100A8C0 \<rparr>"
  have name: "net_if_get_nic_by_name config_net ''eth0'' = Some 0"
    by (simp add: net_if_get_nic_by_name_def config_net_def demo_net_def same_name_def)
  have "fst (net_if_set_addr 77 ?ifr config_net) = 0"
    by (simp add: net_if_set_addr_def name setup_if_def purge_old_def ip_purge_nic_def ip_add_route_def ip_del_route_def
        same_route_def get_default_netmask_def)
      (simp add: net_if_get_nic_by_name_def config_net_def demo_net_def same_name_def Let_def ip_del_route_def same_route_def)
  then have s: "net_if_set_addr 77 ?ifr config_net = (0, snd (net_if_set_addr 77 ?ifr config_net))" by (metis prod.collapse)
  have "ip_get_route (snd (net_if_set_addr 77 ?ifr config_net)) (ifr_addr ?ifr) 0x0900A8C0 = Some (0, 0x0900A8C0)"
    using set_addr_reachable [OF s, of 0 "0x0900A8C0"] name
    by (auto simp: config_net_def demo_net_def get_default_netmask_def)
  then show ?thesis using s by (intro exI [of _ "snd (net_if_set_addr 77 ?ifr config_net)"]) simp
qed

subsection \<open>Limits\<close>

text \<open>
  If the maximum transfer unit leaves less than 8 bytes for the payload, a message that has to be
  cut is never sent: the loop queues packets without payload until there is no memory for the next copy.
\<close>

theorem small_mtu_floods:
  assumes m: "msg_ok m" "20 \<le> start m" "ip_df m = 0" "length (contents m) \<le> 65515"
    and route: "ip_get_route st (ip_src m) (ip_dest m) = Some (n, hop)"
    and M: "20 \<le> mtu (nics st n)" "mtu (nics st n) < 28" "mtu (nics st n) < int (length (contents m)) + 20"
    and mem: "\<forall>j < K. mem j" "\<not> mem K" "0 < K"
  shows "\<exists>fs c. ip_tx_msg mem st counter m = Some (Inr (- ENOMEM, fs, c)) \<and> length fs = K \<and>
    (\<forall>f \<in> set fs. net_msg_get_size f = sizeof_ip_hdr)"
proof -
  define D where "D = contents m"
  let ?M = "word_of_int (mtu (nics st n)) :: u32"
  let ?nn = "of_nat (length D) :: u32"
  obtain m1 m2 pre post where p:
    "net_msg_prepend (m \<lparr> nic := Some n, ethertype := htons ETHERTYPE_IP \<rparr>) sizeof_ip_hdr = Some (length pre, m1)"
    "m2 = store (m1 \<lparr> ip_hdr := Offset (length pre) \<rparr>) (length pre) (ip_hdr_bytes (tx_hdr st n m1))"
    "laid_out m2 pre (tx_hdr st n m1) (D @ post)"
    using tx_prepared [OF m(1,2), where n = n and e = "htons ETHERTYPE_IP" and st = st] unfolding D_def by metis
  have uM: "unat ?M = nat (mtu (nics st n))" using M by (intro unat_mtu) simp_all
  have sz: "net_msg_get_size m = length D" using m(1) by (auto simp: net_msg_get_size_def D_def contents_def msg_ok_def)
  have ne: "length D > 0" "length D \<le> 65515" using M m(4) unfolding D_def by linarith+
  have z: "fragment_size ?M ?nn 0 = 0" using M ne uM by (intro fragment_size_small) (auto simp: D_def)
  have nn: "0 < ?nn" using ne by (simp add: word_less_nat_alt of_nat_unat_u32)
  have frag: "?nn + 20 > ?M"
  proof -
    have "unat (?nn + 20) = length D + 20" using ne by (subst unat_add_no_wrap) (simp_all add: of_nat_unat_u32)
    then show ?thesis using uM M by (simp add: word_less_nat_alt D_def)
  qed
  obtain o' where o': "net_msg_clone True m2 = Some o'" by (simp add: net_msg_clone_def)
  have lo: "laid_out o' pre (tx_hdr st n m1) (D @ post)" using p(3) clone_laid_out [OF o'] by simp
  obtain f i c where f: "tx_fragment ?M True ?nn hop (Some o') 0 0 0 counter m2 = Inr (f, 0, i, c)" "net_msg_get_size f = 20"
    using tx_fragment_small [OF z p(3) lo] by blast
  have nc: "next_copy mem True (Some o') 0 m2 = Inr (Some m2)" by (simp add: next_copy_def)
  obtain fs c' where fs: "tx_loop mem ?M True ?nn hop (Some o') 1 0 i c f [f] = Some (Inr (- ENOMEM, [f] @ fs, c'))"
    "length fs = K - 1" "\<forall>g \<in> set fs. net_msg_get_size g = 20"
    using tx_loop_small [OF z nn lo mem(1,2), of 1 hop i c f "[f]"] mem(3) by auto
  have "ip_tx_msg mem st counter m = Some (Inr (- ENOMEM, f # fs, c'))"
    unfolding ip_tx_msg_def route option.case prod.case Let_def
    using frag m(3) p(1) mem o' sz tx_loop_unfold [OF nc f(1) nn, of "[]"] fs(1)
    by (simp add: net_msg_get_size_def p(2) [symmetric])
  then show ?thesis using fs f(2) mem(3) by (intro exI [of _ "f # fs"] exI [of _ c']) auto
qed

definition narrow_net :: net_state where
  "narrow_net = demo_net \<lparr> nics := (\<lambda>k. (nics demo_net k) \<lparr> mtu := 27 \<rparr>) \<rparr>"

lemma narrow_route: "ip_get_route narrow_net 0 2 = Some (0, 2)"
  by (simp add: ip_get_route_def narrow_net_def demo_net_def route_considered_def get_netmask_length_def upt_rec)

theorem small_mtu_floods_witness:
  "\<exists>fs c. ip_tx_msg (\<lambda>k. k < 1000) narrow_net 1 demo_msg = Some (Inr (- ENOMEM, fs, c)) \<and> length fs = 1000 \<and>
    (\<forall>f \<in> set fs. net_msg_get_size f = sizeof_ip_hdr)"
proof -
  have h: "msg_ok demo_msg" "20 \<le> start demo_msg" "ip_df demo_msg = 0" "length (contents demo_msg) \<le> 65515"
    "ip_get_route narrow_net (ip_src demo_msg) (ip_dest demo_msg) = Some (0, 2)"
    by (simp_all add: demo_msg_simps narrow_route) (simp_all add: demo_payload_def)
  have M: "20 \<le> mtu (nics narrow_net 0)" "mtu (nics narrow_net 0) < 28"
    "mtu (nics narrow_net 0) < int (length (contents demo_msg)) + 20"
    by (simp_all add: narrow_net_def demo_msg_simps demo_payload_def)
  show ?thesis by (rule small_mtu_floods [OF h M]) simp_all
qed

lemma add_hole_overruns: "65510 \<le> first \<Longrightarrow> add_hole first l s = Inl Write_overrun"
  by (simp add: add_hole_def set_field_def)

lemma visit_fresh_overruns:
  assumes s: "slot_holes s [(0, HOLE_INF)]" and e: "a \<le> e" "65509 \<le> e" "e \<le> 65513"
  shows "visit_holes a e True src (hole_list_head s) s = Some (Inl Write_overrun)"
proof -
  have s': "slot_holes s ([] @ (0, HOLE_INF) # [])" using s by simp
  note get = get_field_ok [OF s', simplified]
  have hd: "hole_list_head s = Some 0" "hole_list_tail s = Some 0" using s by (simp_all add: slot_holes_def)
  obtain s1 where s1: "(if a > 0 then set_field 0 Last (a - 1) s else remove_hole 0 s) = Inr s1"
  proof (cases "a > 0")
    case False
    then show thesis using that remove_hole_ok [OF s'] by auto
  qed (use that in \<open>simp add: set_field_def\<close>)
  have "add_hole (e + 1) HOLE_INF s1 = Inl Write_overrun" using e by (intro add_hole_overruns) simp
  then have "visit_hole a e True src 0 s = Inl Write_overrun"
    unfolding visit_hole_def get hd using e s1 by simp
  then show ?thesis unfolding hd by (subst visit_holes.simps) simp
qed

text \<open>
  The structure of a hole needs 8 bytes of the buffer. A first fragment that is followed by
  others and ends close to the end of the buffer leaves a hole with less room: its structure is written
  past the end of the buffer. This holds for the fragment that ends at octet 65511, which is the last
  multiple of 8.
\<close>

theorem hole_past_buffer:
  assumes "frag_mf (msg_ip_hdr m)" "frag_offset (msg_ip_hdr m) \<le> frag_last (msg_ip_hdr m)"
    and "65509 \<le> frag_last (msg_ip_hdr m)" "frag_last (msg_ip_hdr m) \<le> 65513"
    and "\<forall>s \<in> set sl. \<not> slot_matches (msg_ip_hdr m) s" "\<exists>s \<in> set sl. \<not> used s"
  shows "ip_reassembly alloc junk m sl = Some (Inl Write_overrun)"
proof -
  let ?h = "msg_ip_hdr m"
  note cs = find_slot_cases [of ?h sl 0 None, OF refl]
  obtain i where i: "find_slot ?h sl 0 None = (None, Some i)"
  proof -
    consider j u where "find_slot ?h sl 0 None = (Some j, u)" | "find_slot ?h sl 0 None = (None, None)"
      | i where "find_slot ?h sl 0 None = (None, Some i)" by (metis option.exhaust surj_pair)
    then show thesis
    proof cases
      case 1
      then show thesis using cs assms(5) by (auto dest: nth_mem)
    next
      case 2
      then show thesis using cs assms(6) by auto
    qed (rule that)
  qed
  obtain s where s: "init_slot ?h (sl ! i) = Inr s" using init_slot_returns by blast
  have "slot_holes s [(0, HOLE_INF)]"
    using slot_inv_start(1) [OF _ s, of "[]" "{}"] by (simp add: cut_def slot_inv_def)
  note ov = visit_fresh_overruns [OF this assms(2-4)]
  show ?thesis using assms(1,4) i s ov by (simp add: ip_reassembly_def reassemble_in_def Let_def)
qed

definition late_fragment :: net_msg_t where
  "late_fragment = blank_msg \<lparr> data := ip_hdr_bytes \<lparr> h_version = 0x45, h_priority = 0, h_length = htons 28, h_id = 7,
     h_flags = htons 0x3FFC, h_ttl = 64, h_proto = 17, h_checksum = 0, h_src = 1, h_dest = 2 \<rparr> @ replicate 8 0, ip_hdr := Offset 0 \<rparr>"

theorem hole_past_buffer_witness:
  "ip_reassembly (\<lambda>_. True) blank_msg late_fragment demo_slots = Some (Inl Write_overrun)"
proof -
  have h: "frag_mf (msg_ip_hdr late_fragment)" "frag_offset (msg_ip_hdr late_fragment) = 65512 - 8" "frag_last (msg_ip_hdr late_fragment) = 65511"
    by (simp_all add: late_fragment_def blank_msg_def ip_off_def frag_mf_def frag_offset_def frag_last_def)
  show ?thesis by (rule hole_past_buffer) (simp_all add: h, simp_all add: demo_slots_def slot_matches_def)
qed

subsection \<open>Raw sockets\<close>

definition queued_bytes :: "ip_socket \<Rightarrow> nat" where
  "queued_bytes so = (\<Sum>m \<leftarrow> rcv_buffer so. unat (ip_length m) + sizeof_ip_hdr)"

definition queue_ok :: "ip_socket \<Rightarrow> bool" where
  "queue_ok so \<longleftrightarrow> queued_bytes so \<le> unat (pending_bytes so) \<and> unat (pending_bytes so) \<le> 1048576"

lemma unat_msg_bytes: "unat (ucast (ip_length m) + 20 :: u32) = unat (ip_length m) + 20"
proof -
  have "unat (ucast (ip_length m) :: u32) + unat (20 :: u32) = unat (ip_length m) + 20" by simp
  moreover have "unat (ip_length m) + 20 < 4294967296" using unat_u16_less [of "ip_length m"] by linarith
  ultimately show ?thesis by (simp only: unat_add_no_wrap)
qed

text \<open>
  The receive queue of a raw socket is bounded: its messages never take more than the size
  of the receive buffer, whatever arrives and however it is read; messages leave it in the order in which
  they came, and a read returns the beginning of the IP packet.
\<close>

theorem raw_socket_queue:
  assumes "queue_ok so"
  shows "queue_ok (store_in_socket mem m so) \<and> queue_ok (snd (ip_recvfrom so len)) \<and> queued_bytes so \<le> 1048576 \<and>
    (rcv_buffer (store_in_socket mem m so) = rcv_buffer so \<or>
     (\<exists>c. net_msg_clone mem m = Some c \<and> rcv_buffer (store_in_socket mem m so) = rcv_buffer so @ [c])) \<and>
    (\<forall>bs src so'. ip_recvfrom so len = (Inr (Inr (bs, src)), so') \<longrightarrow>
       (\<exists>c. rcv_buffer so = c # rcv_buffer so' \<and> src = ip_src c \<and>
          bs = take (min (unat (ip_length c) + sizeof_ip_hdr) len) (drop (ip_off c) (data c))))"
proof -
  let ?b = "ucast (ip_length m) + 20 :: u32"
  have small: "unat (ip_length x) < 65536" for x by (rule unat_u16_less)
  have sum: "unat (pending_bytes so + ?b) = unat (pending_bytes so) + (unat (ip_length m) + 20)"
    using assms small [of m] unat_msg_bytes [of m] unfolding queue_ok_def by (subst unat_add_no_wrap) linarith+
  have "queue_ok (store_in_socket mem m so)"
    using assms sum by (auto simp: store_in_socket_def Let_def queue_ok_def queued_bytes_def net_msg_clone_def word_less_nat_alt)
  moreover have "queue_ok (snd (ip_recvfrom so len))"
  proof (cases "rcv_buffer so")
    case (Cons c cs)
    let ?n = "min (unat (ip_length c) + 20) len"
    have n: "?n \<le> unat (ip_length c) + 20" "?n < 4294967296" using small [of c] by linarith+
    have "?n \<le> unat (pending_bytes so)" using assms Cons by (auto simp: queue_ok_def queued_bytes_def min_le_iff_disj)
    then have "unat (pending_bytes so - of_nat ?n) = unat (pending_bytes so) - ?n"
      using n(2) by (subst unat_sub) (simp_all add: word_le_nat_alt of_nat_unat_u32)
    then show ?thesis
      using assms Cons n unfolding queue_ok_def queued_bytes_def by (auto simp: ip_recvfrom_def Let_def)
  qed (use assms in \<open>simp add: ip_recvfrom_def\<close>)
  ultimately show ?thesis using assms
    by (auto simp: queue_ok_def store_in_socket_def ip_recvfrom_def Let_def split: option.splits list.splits if_splits)
qed

definition demo_socket :: ip_socket where
  "demo_socket = \<lparr> s_proto = 17, rcv_buffer = [demo_fragment 0 (take 8 demo_payload) \<lparr> ip_length := 8 \<rparr>], pending_bytes = 28,
     ref_count = 2, bound = True, connected = False, laddr = 2, faddr = 0, freed = False \<rparr>"

theorem raw_socket_queue_witness:
  "queue_ok (store_in_socket True (demo_fragment 0 [1, 2]) demo_socket) \<and> queue_ok (snd (ip_recvfrom demo_socket 4))"
proof -
  have "queue_ok demo_socket" by (simp add: queue_ok_def queued_bytes_def demo_socket_def)
  from raw_socket_queue [OF this] show ?thesis by blast
qed

text \<open>
  A read that takes only a part of a packet drops the rest but leaves it in the count of
  the pending bytes: with an empty queue the socket is reported as readable, and a read finds nothing.
\<close>

theorem truncated_read_leaks:
  assumes "bound so" "rcv_buffer so = [c]" "queue_ok so" "len < unat (ip_length c) + sizeof_ip_hdr"
    and "ip_off c + len \<le> length (data c)"
  shows "\<exists>bs so'. ip_recvfrom so len = (Inr (Inr (bs, ip_src c)), so') \<and> rcv_buffer so' = [] \<and>
    ip_select so' True False = NET_EVENT_CAN_READ \<and> ip_recvfrom so' k = (Inl (- EAGAIN), so')"
proof -
  have l: "len < 4294967296" using assms(4) unat_u16_less [of "ip_length c"] by linarith
  have "unat (pending_bytes so - of_nat len) = unat (pending_bytes so) - len"
    using assms(2-4) l by (subst unat_sub) (simp_all add: queue_ok_def queued_bytes_def word_le_nat_alt of_nat_unat_u32)
  then have "0 < pending_bytes so - of_nat len"
    using assms(2-4) by (simp add: queue_ok_def queued_bytes_def word_less_nat_alt)
  then show ?thesis using assms by (simp add: ip_recvfrom_def ip_select_def Let_def)
qed

theorem truncated_read_leaks_witness:
  "\<exists>bs so'. ip_recvfrom demo_socket 4 = (Inr (Inr (bs, 0)), so') \<and> rcv_buffer so' = [] \<and>
    ip_select so' True False = NET_EVENT_CAN_READ \<and> ip_recvfrom so' 4 = (Inl (- EAGAIN), so')"
  using truncated_read_leaks [of demo_socket "demo_fragment 0 (take 8 demo_payload) \<lparr> ip_length := 8 \<rparr>" 4 4]
  by (simp add: demo_socket_def queue_ok_def queued_bytes_def demo_fragment_def blank_msg_def ip_off_def)

end
