(* ===== verification/Block_Device.thy ===== *)
theory Block_Device
  imports Wire
begin

unbundle bit_operations_syntax

text \<open>
  Block devices: the table of drivers (\<^verbatim>\<open>kernel/dm.c\<close>), the driver of the RAM disk
  (\<^verbatim>\<open>driver/ramdisk.c\<close>) and what the block layer expects of a driver. The state of the device
  is passed explicitly. A read returns the return code and the bytes that it has stored into the buffer
  of the caller.
\<close>

subsection \<open>Driver manager\<close>

record 'd blk_dev_ops =
  blk_open :: "(u8 \<Rightarrow> 'd \<Rightarrow> int) option"
  blk_close :: "(u8 \<Rightarrow> 'd \<Rightarrow> int) option"
  blk_read :: "(u8 \<Rightarrow> int \<Rightarrow> int \<Rightarrow> 'd \<Rightarrow> int \<times> u8 list) option"
  blk_write :: "(u8 \<Rightarrow> int \<Rightarrow> int \<Rightarrow> u8 list \<Rightarrow> 'd \<Rightarrow> int \<times> 'd) option"

datatype ('d, 'c) driver_t = Driver_none | Driver_char 'c | Driver_blk "'d blk_dev_ops"

type_synonym ('d, 'c) drivers = "u8 \<Rightarrow> ('d, 'c) driver_t"

abbreviation EALREADY :: int where "EALREADY \<equiv> 109"

definition MAJOR :: "u32 \<Rightarrow> u8" where
  "MAJOR dev = ucast (drop_bit 8 dev)"

definition MINOR :: "u32 \<Rightarrow> u8" where
  "MINOR dev = ucast dev"

definition dm_get_blk_dev_ops :: "('d, 'c) drivers \<Rightarrow> u8 \<Rightarrow> 'd blk_dev_ops option" where
  "dm_get_blk_dev_ops drv major = (case drv major of Driver_blk ops \<Rightarrow> Some ops | _ \<Rightarrow> None)"

definition dm_get_char_dev_ops :: "('d, 'c) drivers \<Rightarrow> u8 \<Rightarrow> 'c option" where
  "dm_get_char_dev_ops drv major = (case drv major of Driver_char ops \<Rightarrow> Some ops | _ \<Rightarrow> None)"

definition dm_register_blk_dev :: "u8 \<Rightarrow> 'd blk_dev_ops \<Rightarrow> ('d, 'c) drivers \<Rightarrow> int \<times> ('d, 'c) drivers" where
  "dm_register_blk_dev major ops drv =
     (case drv major of Driver_none \<Rightarrow> (0, drv(major := Driver_blk ops)) | _ \<Rightarrow> (EALREADY, drv))"

definition dm_register_char_dev :: "u8 \<Rightarrow> 'c \<Rightarrow> ('d, 'c) drivers \<Rightarrow> int \<times> ('d, 'c) drivers" where
  "dm_register_char_dev major ops drv =
     (case drv major of Driver_none \<Rightarrow> (0, drv(major := Driver_char ops)) | _ \<Rightarrow> (EALREADY, drv))"

text \<open>
  The initialization empties the table and calls the initialization function of each built-in driver.
  Only the one of the RAM disk is modelled below, the others are arguments.
\<close>

definition dm_init :: "('s \<times> ('d, 'c) drivers \<Rightarrow> 's \<times> ('d, 'c) drivers) list \<Rightarrow> 's \<times> ('d, 'c) drivers \<Rightarrow> 's \<times> ('d, 'c) drivers" where
  "dm_init built_in_drivers s = fold (\<lambda>f. f) built_in_drivers (fst s, \<lambda>_. Driver_none)"

subsection \<open>RAM disk\<close>

record ramdisk =
  have_ramdisk :: bool
  ramdisk_start :: u32
  ramdisk_end :: u32
  ram :: "u32 \<Rightarrow> u8"

definition validate_minor_dev :: "u8 \<Rightarrow> ramdisk \<Rightarrow> int" where
  "validate_minor_dev minor r = (if \<not> have_ramdisk r then ENODEV else if minor \<noteq> 0 then ENODEV else 0)"

text \<open>First and last byte of the access; both wrap. The result is an error or the two addresses.\<close>

definition ramdisk_range :: "u8 \<Rightarrow> int \<Rightarrow> int \<Rightarrow> ramdisk \<Rightarrow> int + u32 \<times> u32" where
  "ramdisk_range minor blocks lba r =
     (if validate_minor_dev minor r \<noteq> 0 then Inl (- ENODEV)
      else let first = word_of_int (lba * 1024) + ramdisk_start r;
               final = first + word_of_int (blocks * 1024) - 1
           in if final > ramdisk_end r then Inl (- EIO) else Inr (first, final))"

definition ramdisk_read :: "u8 \<Rightarrow> int \<Rightarrow> int \<Rightarrow> ramdisk \<Rightarrow> int \<times> u8 list" where
  "ramdisk_read minor blocks lba r =
     (case ramdisk_range minor blocks lba r of
        Inl rc \<Rightarrow> (rc, [])
      | Inr (first, final) \<Rightarrow>
          (sint (final - first + 1), map (\<lambda>i. ram r (first + of_nat i)) [0..<unat (final - first + 1)]))"

definition ramdisk_write :: "u8 \<Rightarrow> int \<Rightarrow> int \<Rightarrow> u8 list \<Rightarrow> ramdisk \<Rightarrow> int \<times> ramdisk" where
  "ramdisk_write minor blocks lba bs r =
     (case ramdisk_range minor blocks lba r of
        Inl rc \<Rightarrow> (rc, r)
      | Inr (first, final) \<Rightarrow>
          (sint (final - first + 1),
           r \<lparr> ram := (\<lambda>a. if unat (a - first) < unat (final - first + 1) then byte_at bs (unat (a - first)) else ram r a) \<rparr>))"

definition ramdisk_ops :: "ramdisk blk_dev_ops" where
  "ramdisk_ops = \<lparr> blk_open = Some validate_minor_dev, blk_close = Some validate_minor_dev,
                   blk_read = Some ramdisk_read, blk_write = Some ramdisk_write \<rparr>"

abbreviation (input) MAJOR_RAMDISK :: u8 where "MAJOR_RAMDISK \<equiv> 1"

text \<open>Initialization with the location that the memory manager reports, if there is a RAM disk.\<close>

definition ramdisk_init :: "(u32 \<times> u32) option \<Rightarrow> ramdisk \<Rightarrow> (ramdisk, 'c) drivers \<Rightarrow> ramdisk \<times> (ramdisk, 'c) drivers" where
  "ramdisk_init initrd r drv =
     (case initrd of
        None \<Rightarrow> (r, drv)
      | Some (base, limit) \<Rightarrow>
          (r \<lparr> have_ramdisk := True, ramdisk_start := base, ramdisk_end := limit \<rparr>,
           snd (dm_register_blk_dev MAJOR_RAMDISK ramdisk_ops drv)))"

subsection \<open>What the block layer expects of a driver\<close>

abbreviation BLOCK_SIZE :: nat where "BLOCK_SIZE \<equiv> 1024"

definition splice :: "'a list \<Rightarrow> nat \<Rightarrow> 'a list \<Rightarrow> 'a list" where
  "splice xs i ys = take i xs @ ys @ drop (i + length ys) xs"

lemma length_splice [simp]: "i + length ys \<le> length xs \<Longrightarrow> length (splice xs i ys) = length xs"
  by (simp add: splice_def)

lemma nth_splice:
  assumes "i + length ys \<le> length xs" "k < length xs"
  shows "splice xs i ys ! k = (if i \<le> k \<and> k < i + length ys then ys ! (k - i) else xs ! k)"
proof -
  consider "k < i" | "i \<le> k" "k < i + length ys" | "i + length ys \<le> k" by linarith
  then show ?thesis using assms by cases (auto simp: splice_def nth_append)
qed

lemma take_drop_splice [simp]: "i + length ys \<le> length xs \<Longrightarrow> take (length ys) (drop i (splice xs i ys)) = ys"
  by (simp add: splice_def)

text \<open>
  A device of whole blocks: reads and writes of blocks that exist succeed, report the number of
  bytes and move exactly these blocks.
\<close>

locale block_device =
  fixes rd :: "int \<Rightarrow> int \<Rightarrow> 'd \<Rightarrow> int \<times> u8 list"
    and wr :: "int \<Rightarrow> int \<Rightarrow> u8 list \<Rightarrow> 'd \<Rightarrow> int \<times> 'd"
    and disk :: "'d \<Rightarrow> u8 list"
    and ready :: "'d \<Rightarrow> bool"
  assumes disk_size: "ready d \<Longrightarrow> length (disk d) < 2147483648"
    and rd_blocks: "ready d \<Longrightarrow> 0 < n \<Longrightarrow> (b + n) * BLOCK_SIZE \<le> length (disk d) \<Longrightarrow>
      rd (int n) (int b) d = (int (n * BLOCK_SIZE), take (n * BLOCK_SIZE) (drop (b * BLOCK_SIZE) (disk d)))"
    and wr_blocks: "ready d \<Longrightarrow> 0 < n \<Longrightarrow> (b + n) * BLOCK_SIZE \<le> length (disk d) \<Longrightarrow> length bs = n * BLOCK_SIZE \<Longrightarrow>
      \<exists>d'. wr (int n) (int b) bs d = (int (n * BLOCK_SIZE), d') \<and> ready d' \<and> disk d' = splice (disk d) (b * BLOCK_SIZE) bs"

text \<open>The RAM disk is such a device if it lies below the top of the address space.\<close>

definition ramdisk_bytes :: "ramdisk \<Rightarrow> u8 list" where
  "ramdisk_bytes r = map (\<lambda>i. ram r (ramdisk_start r + of_nat i)) [0..<unat (ramdisk_end r) + 1 - unat (ramdisk_start r)]"

definition ramdisk_ready :: "ramdisk \<Rightarrow> bool" where
  "ramdisk_ready r \<longleftrightarrow> have_ramdisk r \<and> ramdisk_start r \<le> ramdisk_end r \<and>
     unat (ramdisk_end r) + 1 - unat (ramdisk_start r) < 2147483648"

lemma length_ramdisk_bytes: "length (ramdisk_bytes r) = unat (ramdisk_end r) + 1 - unat (ramdisk_start r)"
  by (simp add: ramdisk_bytes_def)

lemma ramdisk_range_ok:
  assumes r: "ramdisk_ready r" and n: "0 < n" "(b + n) * 1024 \<le> length (ramdisk_bytes r)"
  shows "ramdisk_range 0 (int n) (int b) r =
      Inr (of_nat (b * 1024) + ramdisk_start r, of_nat (b * 1024) + ramdisk_start r + of_nat (n * 1024 - 1))"
    "unat (of_nat (b * 1024) + ramdisk_start r + of_nat (n * 1024 - 1) - (of_nat (b * 1024) + ramdisk_start r) + 1) = n * 1024"
    "sint (of_nat (b * 1024) + ramdisk_start r + of_nat (n * 1024 - 1) - (of_nat (b * 1024) + ramdisk_start r) + 1 :: u32) = int (n * 1024)"
proof -
  let ?s = "ramdisk_start r" and ?e = "ramdisk_end r"
  have len: "b * 1024 + n * 1024 + unat ?s \<le> unat ?e + 1" using n by (simp add: length_ramdisk_bytes)
  have e: "unat ?e < 4294967296" by (rule unat_u32_less)
  have first: "(word_of_int (int b * 1024) + ?s :: u32) = of_nat (b * 1024) + ?s" by simp
  have "(word_of_int (int n * 1024) :: u32) = of_nat (n * 1024 - 1) + 1" using n by simp
  then have final: "of_nat (b * 1024) + ?s + word_of_int (int n * 1024) - 1 = of_nat (b * 1024) + ?s + (of_nat (n * 1024 - 1) :: u32)"
    by (simp only: add.assoc [symmetric] add_diff_cancel)
  have "of_nat (b * 1024) + ?s + of_nat (n * 1024 - 1) = ?s + of_nat (b * 1024 + (n * 1024 - 1))"
    by (simp only: of_nat_add add.assoc add.left_commute)
  then have "unat (of_nat (b * 1024) + ?s + of_nat (n * 1024 - 1)) = (unat ?s + (b * 1024 + (n * 1024 - 1))) mod 4294967296"
    by (simp only: unat_add_of_nat)
  also have "\<dots> = unat ?s + (b * 1024 + (n * 1024 - 1))" using len e n(1) by (intro mod_less) linarith
  finally have "unat (of_nat (b * 1024) + ?s + of_nat (n * 1024 - 1)) \<le> unat ?e" using len n(1) by simp
  then have "\<not> of_nat (b * 1024) + ?s + of_nat (n * 1024 - 1) > ?e" by (simp only: word_less_nat_alt not_less)
  then show "ramdisk_range 0 (int n) (int b) r =
      Inr (of_nat (b * 1024) + ?s, of_nat (b * 1024) + ?s + of_nat (n * 1024 - 1))"
    using r unfolding ramdisk_range_def Let_def first final by (simp add: validate_minor_dev_def ramdisk_ready_def)
  have "of_nat (b * 1024) + ?s + of_nat (n * 1024 - 1) - (of_nat (b * 1024) + ?s) + 1 = (of_nat (n * 1024) :: u32)"
    using n by (simp add: of_nat_diff)
  moreover have small: "n * 1024 < 2147483648" using n r by (simp add: length_ramdisk_bytes ramdisk_ready_def)
  then have "unat (of_nat (n * 1024) :: u32) = n * 1024" by (intro of_nat_unat_u32) linarith
  ultimately show u: "unat (of_nat (b * 1024) + ?s + of_nat (n * 1024 - 1) - (of_nat (b * 1024) + ?s) + 1) = n * 1024"
    by (simp only:)
  show "sint (of_nat (b * 1024) + ?s + of_nat (n * 1024 - 1) - (of_nat (b * 1024) + ?s) + 1 :: u32) = int (n * 1024)"
    unfolding sint_u32 u using small by simp
qed

lemma ramdisk_read_ok:
  assumes r: "ramdisk_ready r" and n: "0 < n" "(b + n) * 1024 \<le> length (ramdisk_bytes r)"
  shows "ramdisk_read 0 (int n) (int b) r = (int (n * 1024), take (n * 1024) (drop (b * 1024) (ramdisk_bytes r)))"
proof -
  note rg = ramdisk_range_ok [OF assms]
  have "map (\<lambda>i. ram r (of_nat (b * 1024) + ramdisk_start r + of_nat i)) [0..<n * 1024] =
      take (n * 1024) (drop (b * 1024) (ramdisk_bytes r))"
    using n by (intro nth_equalityI) (simp_all add: ramdisk_bytes_def length_ramdisk_bytes add.assoc add.left_commute)
  then show ?thesis unfolding ramdisk_read_def rg(1) sum.case prod.case rg(2,3) by simp
qed

lemma ramdisk_write_ok:
  assumes r: "ramdisk_ready r" and n: "0 < n" "(b + n) * 1024 \<le> length (ramdisk_bytes r)" and bs: "length bs = n * 1024"
  shows "\<exists>r'. ramdisk_write 0 (int n) (int b) bs r = (int (n * 1024), r') \<and> ramdisk_ready r' \<and>
    ramdisk_bytes r' = splice (ramdisk_bytes r) (b * 1024) bs"
proof -
  note rg = ramdisk_range_ok [OF r n]
  let ?first = "of_nat (b * 1024) + ramdisk_start r :: u32"
  have small: "n * 1024 < 2147483648" using n r by (simp add: length_ramdisk_bytes ramdisk_ready_def)
  let ?r = "r \<lparr> ram := (\<lambda>a. if unat (a - ?first) < n * 1024 then byte_at bs (unat (a - ?first)) else ram r a) \<rparr>"
  have "ramdisk_write 0 (int n) (int b) bs r = (int (n * 1024), ?r)"
    unfolding ramdisk_write_def rg(1) sum.case prod.case rg(2,3) ..
  moreover have "ramdisk_bytes ?r = splice (ramdisk_bytes r) (b * 1024) bs"
  proof (rule nth_equalityI)
    show "length (ramdisk_bytes ?r) = length (splice (ramdisk_bytes r) (b * 1024) bs)"
      using n bs by (simp add: length_ramdisk_bytes)
    fix k assume k: "k < length (ramdisk_bytes ?r)"
    then have k': "k < unat (ramdisk_end r) + 1 - unat (ramdisk_start r)" by (simp add: length_ramdisk_bytes)
    have kb: "k < 2147483648" "b * 1024 < 2147483648" using k' n r by (auto simp: ramdisk_ready_def length_ramdisk_bytes)
    have diff: "unat (ramdisk_start r + of_nat k - ?first) = (if b * 1024 \<le> k then k - b * 1024 else 4294967296 - (b * 1024 - k))"
    proof (cases "b * 1024 \<le> k")
      case True
      then have "ramdisk_start r + of_nat k - ?first = of_nat (k - b * 1024)" by (simp add: of_nat_diff)
      then show ?thesis using True kb by (simp only: of_nat_unat_u32 if_True)
    next
      case False
      then have "ramdisk_start r + of_nat k - ?first = - of_nat (b * 1024 - k)" by (simp add: of_nat_diff)
      also have "\<dots> = of_nat (4294967296 - (b * 1024 - k))" using kb by (subst of_nat_diff) simp_all
      finally show ?thesis using False kb by (simp only: of_nat_unat_u32 if_False)
    qed
    have "ramdisk_bytes ?r ! k = (if b * 1024 \<le> k \<and> k < b * 1024 + n * 1024 then bs ! (k - b * 1024) else ramdisk_bytes r ! k)"
      using k' kb diff bs small by (auto simp: ramdisk_bytes_def byte_at_def)
    then show "ramdisk_bytes ?r ! k = splice (ramdisk_bytes r) (b * 1024) bs ! k"
      using n bs k' by (simp add: nth_splice length_ramdisk_bytes)
  qed
  moreover have "ramdisk_ready ?r" using r by (simp add: ramdisk_ready_def)
  ultimately show ?thesis by blast
qed

interpretation ram_dev: block_device "ramdisk_read 0" "ramdisk_write 0" ramdisk_bytes ramdisk_ready
proof
  show "length (ramdisk_bytes r) < 2147483648" if "ramdisk_ready r" for r
    using that by (simp add: ramdisk_ready_def length_ramdisk_bytes)
qed (rule ramdisk_read_ok ramdisk_write_ok; assumption)+

end
