(* ===== verification/Block_Cache.thy ===== *)
theory Block_Cache
  imports Block_Device
begin

unbundle bit_operations_syntax

text \<open>
  Reading and writing bytes of a block device (\<^verbatim>\<open>kernel/blockcache.c\<close>). \<open>mem\<close> says for
  which sizes there is memory for the temporary buffer, \<open>junk\<close> is what the memory contains. The
  number of blocks is computed in 32 bits and passed on as a signed number.
\<close>

definition bc_read :: "('d, 'c) drivers \<Rightarrow> u32 \<Rightarrow> int \<Rightarrow> int \<Rightarrow> 'd \<Rightarrow> int \<times> u8 list" where
  "bc_read drv dev blocks first_block d =
     (case dm_get_blk_dev_ops drv (MAJOR dev) of
        None \<Rightarrow> (- EIO, [])
      | Some ops \<Rightarrow> (case blk_read ops of None \<Rightarrow> (- EIO, []) | Some rd \<Rightarrow> rd (MINOR dev) blocks first_block d))"

definition bc_write :: "('d, 'c) drivers \<Rightarrow> u32 \<Rightarrow> int \<Rightarrow> int \<Rightarrow> u8 list \<Rightarrow> 'd \<Rightarrow> int \<times> 'd" where
  "bc_write drv dev blocks first_block bs d =
     (case dm_get_blk_dev_ops drv (MAJOR dev) of
        None \<Rightarrow> (- EIO, d)
      | Some ops \<Rightarrow> (case blk_write ops of None \<Rightarrow> (- EIO, d) | Some wr \<Rightarrow> wr (MINOR dev) blocks first_block bs d))"

definition bc_open :: "('d, 'c) drivers \<Rightarrow> u32 \<Rightarrow> 'd \<Rightarrow> int" where
  "bc_open drv dev d =
     (case dm_get_blk_dev_ops drv (MAJOR dev) of
        None \<Rightarrow> ENODEV
      | Some ops \<Rightarrow> (case blk_open ops of None \<Rightarrow> ENODEV | Some f \<Rightarrow> f (MINOR dev) d))"

definition bc_close :: "('d, 'c) drivers \<Rightarrow> u32 \<Rightarrow> 'd \<Rightarrow> int" where
  "bc_close drv dev d =
     (case dm_get_blk_dev_ops drv (MAJOR dev) of
        None \<Rightarrow> ENODEV
      | Some ops \<Rightarrow> (case blk_close ops of None \<Rightarrow> ENODEV | Some f \<Rightarrow> f (MINOR dev) d))"

definition block_count :: "u32 \<Rightarrow> u32 \<Rightarrow> int" where
  "block_count bytes offset = sint ((bytes + offset - 1) div 1024 + 1)"

definition tmp_buffer :: "(u32 \<Rightarrow> bool) \<Rightarrow> (nat \<Rightarrow> u8) \<Rightarrow> int \<Rightarrow> u8 list option" where
  "tmp_buffer mem junk blocks =
     (let sz = word_of_int (blocks * 1024) in if mem sz then Some (map junk [0..<unat sz]) else None)"

text \<open>A store of bytes into the temporary buffer.\<close>

definition put_tmp :: "u8 list \<Rightarrow> nat \<Rightarrow> u8 list \<Rightarrow> mem_fault + u8 list" where
  "put_tmp tmp i bs = (if i + length bs > length tmp then Inl Write_overrun else Inr (splice tmp i bs))"

definition bc_read_bytes ::
    "(u32 \<Rightarrow> bool) \<Rightarrow> (nat \<Rightarrow> u8) \<Rightarrow> ('d, 'c) drivers \<Rightarrow> u32 \<Rightarrow> u32 \<Rightarrow> u32 \<Rightarrow> u32 \<Rightarrow> 'd \<Rightarrow> mem_fault + int \<times> u8 list" where
  "bc_read_bytes mem junk drv block bytes device offset d =
     (let blocks_to_read = block_count bytes offset
      in case tmp_buffer mem junk blocks_to_read of
           None \<Rightarrow> Inr (ENOMEM, [])
         | Some tmp \<Rightarrow>
             (case bc_read drv device blocks_to_read (sint block) d of
                (rc, bs) \<Rightarrow>
                  if rc \<le> 0 then Inr (EIO, [])
                  else sbind (put_tmp tmp 0 bs) (\<lambda>tmp.
                    if unat offset + unat bytes > length tmp then Inl Read_overrun
                    else Inr (0, take (unat bytes) (drop (unat offset) tmp)))))"

text \<open>A partial block at one end of a write is read first.\<close>

definition fill_block ::
    "('d, 'c) drivers \<Rightarrow> u32 \<Rightarrow> int \<Rightarrow> nat \<Rightarrow> 'd \<Rightarrow> u8 list \<Rightarrow> mem_fault + u8 list option" where
  "fill_block drv device block at d tmp =
     (case bc_read drv device 1 block d of
        (rc, bs) \<Rightarrow> if rc \<le> 0 then Inr None else sbind (put_tmp tmp at bs) (\<lambda>tmp. Inr (Some tmp)))"

definition bc_write_bytes ::
    "(u32 \<Rightarrow> bool) \<Rightarrow> (nat \<Rightarrow> u8) \<Rightarrow> ('d, 'c) drivers \<Rightarrow> u32 \<Rightarrow> u8 list \<Rightarrow> u32 \<Rightarrow> u32 \<Rightarrow> 'd \<Rightarrow> mem_fault + int \<times> 'd" where
  "bc_write_bytes mem junk drv block buf device offset d =
     (let bytes = of_nat (length buf);
          (block, offset) = (if offset \<ge> 1024 then (block + offset div 1024, offset mod 1024) else (block, offset));
          blocks_to_write = block_count bytes offset;
          first_partial = offset mod 1024 \<noteq> 0
      in case tmp_buffer mem junk blocks_to_write of
           None \<Rightarrow> Inr (ENOMEM, d)
         | Some tmp \<Rightarrow>
             sbind (if first_partial then fill_block drv device (sint block) 0 d tmp else Inr (Some tmp)) (\<lambda>r.
             case r of
               None \<Rightarrow> Inr (EIO, d)
             | Some tmp \<Rightarrow>
                 sbind (if (offset + bytes) mod 1024 \<noteq> 0 \<and> \<not> (first_partial \<and> blocks_to_write = 1)
                        then fill_block drv device (sint (block + word_of_int blocks_to_write - 1))
                               (nat ((blocks_to_write - 1) * 1024)) d tmp
                        else Inr (Some tmp)) (\<lambda>r.
                 case r of
                   None \<Rightarrow> Inr (EIO, d)
                 | Some tmp \<Rightarrow>
                     sbind (put_tmp tmp (unat offset) buf) (\<lambda>tmp.
                     case bc_write drv device blocks_to_write (sint block) tmp d of
                       (rc, d) \<Rightarrow> if rc \<le> 0 then Inr (EIO, d) else Inr (0, d)))))"

subsection \<open>The number of blocks\<close>

definition blocks_for :: "nat \<Rightarrow> nat" where
  "blocks_for n = (n + 1023) div 1024"

lemma block_count_ok:
  assumes "0 < n" "n + i < 2147483648"
  shows "block_count (of_nat n) (of_nat i) = int (blocks_for (n + i))"
proof -
  have "(of_nat n + of_nat i - 1 :: u32) = of_nat (n + i - 1)" using assms by (simp add: of_nat_diff)
  moreover have u: "unat (of_nat (n + i - 1) :: u32) = n + i - 1" using assms by (intro of_nat_unat_u32) linarith
  ultimately have "unat ((of_nat n + of_nat i - 1 :: u32) div 1024) = (n + i - 1) div 1024" by (simp only: unat_div) simp
  moreover have small: "(n + i - 1) div 1024 + 1 < 2147483648" using assms by linarith
  ultimately have "unat ((of_nat n + of_nat i - 1 :: u32) div 1024 + 1) = (n + i - 1) div 1024 + 1"
    by (subst unat_add_no_wrap) simp_all
  moreover have "(n + i - 1) div 1024 + 1 = blocks_for (n + i)"
    using assms by (simp add: blocks_for_def)
  ultimately show ?thesis using small unfolding block_count_def sint_u32 by simp
qed

lemma blocks_for_bounds:
  assumes "0 < n"
  shows "0 < blocks_for n" "n \<le> blocks_for n * 1024" "(blocks_for n - 1) * 1024 < n"
  using assms by (auto simp: blocks_for_def)

lemma blocks_fit:
  assumes "1024 dvd L" "b * 1024 + n \<le> L"
  shows "(b + blocks_for n) * 1024 \<le> L"
proof -
  obtain q where q: "L = 1024 * q" using assms(1) by auto
  then have "n \<le> (q - b) * 1024" "b \<le> q" using assms(2) by (auto simp: diff_mult_distrib)
  then have "blocks_for n \<le> q - b" by (simp add: blocks_for_def)
  then show ?thesis using q \<open>b \<le> q\<close> by simp
qed

lemma tmp_buffer_ok:
  assumes "k * 1024 < 2147483648" "mem (of_nat (k * 1024))"
  shows "tmp_buffer mem junk (int k) = Some (map junk [0..<k * 1024])"
proof -
  have "(word_of_int (int k * 1024) :: u32) = of_nat (k * 1024)" by simp
  moreover have "unat (of_nat (k * 1024) :: u32) = k * 1024" using assms(1) by (intro of_nat_unat_u32) linarith
  ultimately show ?thesis using assms(2) unfolding tmp_buffer_def Let_def by (simp only:) simp
qed

text \<open>The number of a block that exists is the same signed and unsigned.\<close>

lemma sint_block: "b < 2147483648 \<Longrightarrow> sint (of_nat b :: u32) = int b"
  using of_nat_unat_u32 [of b] by (simp add: sint_u32)

subsection \<open>Partial blocks\<close>

text \<open>
  The buffer that is written back: the first and the last block are loaded where the data does not
  cover them. \<open>D\<close> is the disk, the data starts at byte \<open>i\<close> of block \<open>b\<close>.
\<close>

definition disk_block :: "u8 list \<Rightarrow> nat \<Rightarrow> u8 list" where
  "disk_block D b = take 1024 (drop (b * 1024) D)"

definition load_first :: "u8 list \<Rightarrow> nat \<Rightarrow> nat \<Rightarrow> u8 list \<Rightarrow> u8 list" where
  "load_first D b i tmp = (if i \<noteq> 0 then splice tmp 0 (disk_block D b) else tmp)"

definition load_last :: "u8 list \<Rightarrow> nat \<Rightarrow> nat \<Rightarrow> nat \<Rightarrow> u8 list \<Rightarrow> u8 list" where
  "load_last D b i n tmp =
     (let k = blocks_for (n + i)
      in if (i + n) mod 1024 \<noteq> 0 \<and> \<not> (i \<noteq> 0 \<and> k = 1) then splice tmp ((k - 1) * 1024) (disk_block D (b + k - 1)) else tmp)"

lemma length_disk_block: "(b + 1) * 1024 \<le> length D \<Longrightarrow> length (disk_block D b) = 1024"
  by (simp add: disk_block_def)

lemma nth_disk_block: "(b + 1) * 1024 \<le> length D \<Longrightarrow> j < 1024 \<Longrightarrow> disk_block D b ! j = D ! (b * 1024 + j)"
  by (simp add: disk_block_def)

definition loading :: "u8 list \<Rightarrow> u8 list \<Rightarrow> nat \<Rightarrow> nat \<Rightarrow> nat \<Rightarrow> nat \<Rightarrow> bool" where
  "loading D tmp b i n k \<longleftrightarrow>
     0 < n \<and> i < 1024 \<and> k = blocks_for (n + i) \<and> (b + k) * 1024 \<le> length D \<and> length tmp = k * 1024"

lemma loadingD:
  assumes "loading D tmp b i n k"
  shows "0 < n" "i < 1024" "blocks_for (n + i) = k" "(b + k) * 1024 \<le> length D" "length tmp = k * 1024"
    and "0 < k" "n + i \<le> k * 1024" "(k - 1) * 1024 < n + i" "(k - 1) * 1024 + 1024 = k * 1024"
    and "length (disk_block D b) = 1024" "length (disk_block D (b + k - 1)) = 1024"
proof -
  show ld: "0 < n" "i < 1024" "blocks_for (n + i) = k" "(b + k) * 1024 \<le> length D" "length tmp = k * 1024"
    using assms by (simp_all add: loading_def)
  show k: "0 < k" "n + i \<le> k * 1024" "(k - 1) * 1024 < n + i"
    using blocks_for_bounds [of "n + i"] ld(1,3) by simp_all
  then show "(k - 1) * 1024 + 1024 = k * 1024" by (simp add: diff_mult_distrib)
  show "length (disk_block D b) = 1024" "length (disk_block D (b + k - 1)) = 1024"
    using ld(4) k(1) by (auto intro!: length_disk_block)
qed

lemma length_load_first: "loading D tmp b i n k \<Longrightarrow> length (load_first D b i tmp) = k * 1024"
  using loadingD(5,6,10) [of D tmp b i n k] by (simp add: load_first_def)

lemma length_load_last:
  assumes "loading D tmp b i n k"
  shows "length (load_last D b i n (load_first D b i tmp)) = k * 1024"
  using length_load_first [OF assms] loadingD(3,9,11) [OF assms] by (simp add: load_last_def Let_def)

lemma loaded_start:
  assumes ld: "loading D tmp b i n k" and j: "j < i"
  shows "load_last D b i n (load_first D b i tmp) ! j = D ! (b * 1024 + j)"
proof -
  note l = loadingD [OF ld]
  have b: "(b + 1) * 1024 \<le> length D" using l(4,6) mult_le_mono1 [of "b + 1" "b + k" 1024] by linarith
  have "splice tmp 0 (disk_block D b) ! j = D ! (b * 1024 + j)"
    using j l(2,5,6,10) nth_disk_block [OF b, of j] by (subst nth_splice) auto
  then have f: "load_first D b i tmp ! j = D ! (b * 1024 + j)" using j by (simp add: load_first_def)
  show ?thesis
  proof (cases "k = 1")
    case True
    then show ?thesis using f j l(3) by (simp add: load_last_def)
  next
    case False
    then have "j < (k - 1) * 1024" using j l(2,6) by (cases "k - 1") auto
    then have "splice (load_first D b i tmp) ((k - 1) * 1024) (disk_block D (b + k - 1)) ! j = D ! (b * 1024 + j)"
      using f l(9,11) length_load_first [OF ld] by (subst nth_splice) auto
    then show ?thesis using f by (simp only: load_last_def Let_def l(3)) simp
  qed
qed

lemma loaded_end:
  assumes ld: "loading D tmp b i n k" and j: "i + n \<le> j" "j < k * 1024"
  shows "load_last D b i n (load_first D b i tmp) ! j = D ! (b * 1024 + j)"
proof (cases "i \<noteq> 0 \<and> k = 1")
  case True
  note l = loadingD [OF ld]
  have b: "(b + 1) * 1024 \<le> length D" using l(4,6) mult_le_mono1 [of "b + 1" "b + k" 1024] by linarith
  have "splice tmp 0 (disk_block D b) ! j = D ! (b * 1024 + j)"
    using j True l(5,10) nth_disk_block [OF b, of j] by (subst nth_splice) auto
  then show ?thesis using True l(3) by (simp add: load_last_def load_first_def)
next
  case False
  note l = loadingD [OF ld]
  have part: "(i + n) mod 1024 \<noteq> 0"
  proof
    assume "(i + n) mod 1024 = 0"
    then obtain q where q: "i + n = 1024 * q" by (auto elim: dvdE simp only: mod_eq_0_iff_dvd)
    then have "k = q" using l(7,8,9) by linarith
    then show False using j q by simp
  qed
  have low: "(k - 1) * 1024 \<le> j" "j - (k - 1) * 1024 < 1024" using j l(8,9) by linarith+
  have b: "(b + k - 1 + 1) * 1024 \<le> length D" using l(4,6) by simp
  have "(b + k - 1) * 1024 + (j - (k - 1) * 1024) = b * 1024 + j" using low(1) l(6) by (cases k) auto
  then have "disk_block D (b + k - 1) ! (j - (k - 1) * 1024) = D ! (b * 1024 + j)"
    using nth_disk_block [OF b low(2)] by (simp only:)
  then have "splice (load_first D b i tmp) ((k - 1) * 1024) (disk_block D (b + k - 1)) ! j = D ! (b * 1024 + j)"
    using low j l(9,11) length_load_first [OF ld] by (subst nth_splice) auto
  then show ?thesis using False part by (simp only: load_last_def Let_def l(3)) simp
qed

lemma loaded_splice:
  assumes ld: "loading D tmp b i (length buf) k"
  shows "splice D (b * 1024) (splice (load_last D b i (length buf) (load_first D b i tmp)) i buf) = splice D (b * 1024 + i) buf"
proof (rule nth_equalityI)
  define T where "T = load_last D b i (length buf) (load_first D b i tmp)"
  note l = loadingD [OF ld]
  have T: "length T = k * 1024" unfolding T_def by (rule length_load_last [OF ld])
  have lT: "length (splice T i buf) = k * 1024" using T l(7) by simp
  have fD: "b * 1024 + k * 1024 \<le> length D" "b * 1024 + i + length buf \<le> length D"
    using l(4,7) by (auto simp: add_mult_distrib)
  then show "length (splice D (b * 1024) (splice T i buf)) = length (splice D (b * 1024 + i) buf)"
    using lT by simp
  fix x assume "x < length (splice D (b * 1024) (splice T i buf))"
  then have x: "x < length D" using fD lT by simp
  show "splice D (b * 1024) (splice T i buf) ! x = splice D (b * 1024 + i) buf ! x"
  proof (cases "b * 1024 \<le> x \<and> x < b * 1024 + k * 1024")
    case False
    then have "\<not> (b * 1024 + i \<le> x \<and> x < b * 1024 + i + length buf)" using l(7) by linarith
    then show ?thesis using False x fD lT by (auto simp: nth_splice)
  next
    case True
    then obtain j where j: "x = b * 1024 + j" "j < k * 1024" by (metis le_iff_add nat_add_left_cancel_less)
    have "splice T i buf ! j = (if i \<le> j \<and> j < i + length buf then buf ! (j - i) else D ! x)"
      using j l(7) T loaded_start [OF ld, of j] loaded_end [OF ld, of j]
      unfolding T_def [symmetric] by (subst nth_splice) auto
    then show ?thesis using True j x fD lT by (simp add: nth_splice)
  qed
qed

subsection \<open>Bytes of a device\<close>

text \<open>The driver of a device is registered and answers for it.\<close>

definition serves ::
    "('d, 'c) drivers \<Rightarrow> u32 \<Rightarrow> (int \<Rightarrow> int \<Rightarrow> 'd \<Rightarrow> int \<times> u8 list) \<Rightarrow> (int \<Rightarrow> int \<Rightarrow> u8 list \<Rightarrow> 'd \<Rightarrow> int \<times> 'd) \<Rightarrow> bool" where
  "serves drv dev rd wr \<longleftrightarrow>
     (\<exists>ops r w. dm_get_blk_dev_ops drv (MAJOR dev) = Some ops \<and> blk_read ops = Some r \<and> r (MINOR dev) = rd \<and>
        blk_write ops = Some w \<and> w (MINOR dev) = wr)"

lemma serves_bc:
  assumes "serves drv dev rd wr"
  shows "bc_read drv dev n b d = rd n b d" "bc_write drv dev n b bs d = wr n b bs d"
  using assms by (auto simp: serves_def bc_read_def bc_write_def)

context block_device
begin

lemma bc_read_bytes_disk:
  assumes drv: "serves drv dev rd wr" and d: "ready d" "1024 dvd length (disk d)"
    and n: "0 < n" "b * 1024 + i + n \<le> length (disk d)" and mem: "mem (of_nat (blocks_for (n + i) * 1024))"
  shows "bc_read_bytes mem junk drv (of_nat b) (of_nat n) dev (of_nat i) d = Inr (0, take n (drop (b * 1024 + i) (disk d)))"
proof -
  let ?k = "blocks_for (n + i)"
  have L: "length (disk d) < 2147483648" by (rule disk_size [OF d(1)])
  have k: "(b + ?k) * 1024 \<le> length (disk d)" using blocks_fit [OF d(2), of b "n + i"] n by simp
  have kb: "0 < ?k" "n + i \<le> ?k * 1024" using blocks_for_bounds [of "n + i"] n by simp_all
  have small: "n + i < 2147483648" "?k * 1024 < 2147483648" "b < 2147483648" using n k L by auto
  have cnt: "block_count (of_nat n) (of_nat i) = int ?k" by (rule block_count_ok [OF n(1) small(1)])
  have tmp: "tmp_buffer mem junk (int ?k) = Some (map junk [0..<?k * 1024])" by (rule tmp_buffer_ok [of ?k mem, OF small(2) mem])
  let ?bs = "take (?k * 1024) (drop (b * 1024) (disk d))"
  have lbs: "length ?bs = ?k * 1024" using k by simp
  have put: "put_tmp (map junk [0..<?k * 1024]) 0 ?bs = Inr ?bs" using lbs by (simp add: put_tmp_def splice_def)
  have u: "unat (of_nat n :: u32) = n" "unat (of_nat i :: u32) = i" using small by (simp_all add: of_nat_unat_u32)
  have "take n (drop i ?bs) = take n (drop (b * 1024 + i) (disk d))" using kb by (simp add: drop_take min_def add.commute)
  moreover have "\<not> i + n > length ?bs" using kb lbs by simp
  ultimately show ?thesis
    unfolding bc_read_bytes_def Let_def cnt tmp option.case serves_bc(1) [OF drv] sint_block [OF small(3)]
      rd_blocks [OF d(1) kb(1) k] prod.case put sbind.simps u using kb(1) by simp
qed

lemma fill_block_disk:
  assumes drv: "serves drv dev rd wr" and d: "ready d" "(b + 1) * 1024 \<le> length (disk d)" and at: "at + 1024 \<le> length tmp"
  shows "fill_block drv dev (int b) at d tmp = Inr (Some (splice tmp at (disk_block (disk d) b)))"
proof -
  have "rd 1 (int b) d = (1024, disk_block (disk d) b)"
    using rd_blocks [OF d(1), of 1 b] d(2) by (simp add: disk_block_def)
  then show ?thesis
    using at length_disk_block [OF d(2)] by (simp add: fill_block_def serves_bc(1) [OF drv] put_tmp_def)
qed

lemma bc_write_bytes_aligned:
  assumes drv: "serves drv dev rd wr" and d: "ready d" "1024 dvd length (disk d)"
    and buf: "buf \<noteq> []" "i < 1024" "b * 1024 + i + length buf \<le> length (disk d)"
    and mem: "mem (of_nat (blocks_for (length buf + i) * 1024))"
  shows "\<exists>d'. bc_write_bytes mem junk drv (of_nat b) buf dev (of_nat i) d = Inr (0, d') \<and> ready d' \<and>
    disk d' = splice (disk d) (b * 1024 + i) buf"
proof -
  let ?n = "length buf"
  define k where "k = blocks_for (?n + i)"
  define t where "t = map junk [0..<k * 1024]"
  let ?f = "load_first (disk d) b i t"
  let ?l = "load_last (disk d) b i ?n ?f"
  have ld: "loading (disk d) t b i ?n k"
    using blocks_fit [OF d(2), of b "?n + i"] buf by (simp add: loading_def k_def t_def add.commute add.left_commute)
  note l = loadingD [OF ld]
  have small: "?n + i < 2147483648" "k * 1024 < 2147483648" "b + k < 2147483648"
    using buf l(4) disk_size [OF d(1)] by auto
  have cnt: "block_count (of_nat ?n) (of_nat i) = int k"
    unfolding k_def by (rule block_count_ok) (use buf small in auto)
  have tmp: "tmp_buffer mem junk (int k) = Some t"
    unfolding t_def by (rule tmp_buffer_ok [of k mem, OF small(2)]) (use mem in \<open>simp add: k_def\<close>)
  have u: "unat (of_nat i :: u32) = i" "unat ((of_nat i + of_nat ?n) :: u32) = i + ?n"
    using small(1) of_nat_unat_u32 [of i] of_nat_unat_u32 [of "i + ?n"] by simp_all
  have off: "\<not> (1024 :: u32) \<le> of_nat i" using buf(2) u(1) by (simp add: word_le_nat_alt)
  have m: "(of_nat i :: u32) mod 1024 \<noteq> 0 \<longleftrightarrow> i \<noteq> 0" "(of_nat i + of_nat ?n :: u32) mod 1024 \<noteq> 0 \<longleftrightarrow> (i + ?n) mod 1024 \<noteq> 0"
    using buf(2) u by (simp_all add: unat_eq_zero [symmetric] unat_mod)
  have sb: "sint (of_nat b :: u32) = int b" using small by (intro sint_block) simp
  have "(of_nat b + word_of_int (int k) - 1 :: u32) = of_nat (b + k - 1)" using l(6) by (simp add: of_nat_diff)
  then have sl: "sint (of_nat b + word_of_int (int k) - 1 :: u32) = int (b + k - 1)"
    using sint_block [of "b + k - 1"] small by simp
  have at: "nat ((int k - 1) * 1024) = (k - 1) * 1024" using l(6) by (simp add: nat_mult_distrib nat_diff_distrib)
  have first: "(if i \<noteq> 0 then fill_block drv dev (int b) 0 d t else Inr (Some t)) = Inr (Some ?f)"
    using fill_block_disk [OF drv d(1), of b 0 t] l(4,5,6) mult_le_mono1 [of "b + 1" "b + k" 1024]
    by (simp add: load_first_def)
  have k1: "int k = 1 \<longleftrightarrow> k = 1" by simp
  have lst: "(if (i + ?n) mod 1024 \<noteq> 0 \<and> \<not> (i \<noteq> 0 \<and> k = 1) then fill_block drv dev (int (b + k - 1)) ((k - 1) * 1024) d ?f
      else Inr (Some ?f)) = Inr (Some ?l)"
    using fill_block_disk [OF drv d(1), of "b + k - 1" "(k - 1) * 1024" ?f] l(3,4,6,9) length_load_first [OF ld]
    by (simp add: load_last_def Let_def)
  have put: "put_tmp ?l i buf = Inr (splice ?l i buf)" using length_load_last [OF ld] l(7) by (simp add: put_tmp_def)
  have "length (splice ?l i buf) = k * 1024" using length_load_last [OF ld] l(7) by simp
  then obtain d' where w: "wr (int k) (int b) (splice ?l i buf) d = (int (k * 1024), d')" "ready d'"
      "disk d' = splice (disk d) (b * 1024) (splice ?l i buf)"
    using wr_blocks [OF d(1) l(6,4)] by blast
  have "bc_write_bytes mem junk drv (of_nat b) buf dev (of_nat i) d = Inr (0, d')"
    unfolding bc_write_bytes_def Let_def if_not_P [OF off] prod.case cnt tmp option.case m sb sl at k1 first sbind.simps lst u put
      serves_bc(2) [OF drv] w using l(6) by simp
  then show ?thesis using w(2,3) loaded_splice [OF ld] by auto
qed

text \<open>An offset beyond the first block moves the start of a write; a read takes it as it is.\<close>

lemma bc_write_bytes_shift:
  assumes "i < 4294967296"
  shows "bc_write_bytes mem junk drv (of_nat b) buf dev (of_nat i) d =
    bc_write_bytes mem junk drv (of_nat (b + i div 1024)) buf dev (of_nat (i mod 1024)) d"
proof (cases "i < 1024")
  case True
  then show ?thesis by simp
next
  case False
  have u: "unat (of_nat i :: u32) = i" by (rule of_nat_unat_u32 [OF assms])
  have "(1024 :: u32) \<le> of_nat i" using False u by (simp add: word_le_nat_alt)
  moreover have "\<not> (1024 :: u32) \<le> of_nat (i mod 1024)"
    by (simp add: word_le_nat_alt of_nat_unat_u32 not_le less_imp_le [THEN order_trans])
  moreover have "unat (of_nat (i div 1024) :: u32) = i div 1024" "unat (of_nat (i mod 1024) :: u32) = i mod 1024"
    using assms by (intro of_nat_unat_u32; linarith)+
  then have "(of_nat i :: u32) div 1024 = of_nat (i div 1024)" "(of_nat i :: u32) mod 1024 = of_nat (i mod 1024)"
    by (simp_all only: word_unat_eq_iff unat_div unat_mod u) simp_all
  ultimately show ?thesis by (simp add: bc_write_bytes_def)
qed

lemma bc_write_bytes_disk:
  assumes drv: "serves drv dev rd wr" and d: "ready d" "1024 dvd length (disk d)"
    and buf: "buf \<noteq> []" "b * 1024 + i + length buf \<le> length (disk d)"
    and mem: "mem (of_nat (blocks_for (length buf + i mod 1024) * 1024))"
  shows "\<exists>d'. bc_write_bytes mem junk drv (of_nat b) buf dev (of_nat i) d = Inr (0, d') \<and> ready d' \<and>
    disk d' = splice (disk d) (b * 1024 + i) buf"
proof -
  have "(b + i div 1024) * 1024 + i mod 1024 = b * 1024 + i" by (simp add: add_mult_distrib)
  moreover have "i < 4294967296" using buf disk_size [OF d(1)] by linarith
  ultimately show ?thesis
    using bc_write_bytes_aligned [OF drv d buf(1), of "i mod 1024" "b + i div 1024" mem] buf(2) mem
    by (simp add: bc_write_bytes_shift [of i] add.commute)
qed

end

text \<open>The RAM disk, once it is registered, serves the device 1:0.\<close>

lemma ramdisk_serves:
  assumes "drv 1 = Driver_none"
  shows "serves (snd (ramdisk_init (Some (base, limit)) r drv)) 256 (ramdisk_read 0) (ramdisk_write 0)"
proof -
  have "MAJOR 256 = 1" "MINOR 256 = 0" by code_simp+
  then show ?thesis
    using assms by (simp add: serves_def ramdisk_init_def dm_register_blk_dev_def dm_get_blk_dev_ops_def ramdisk_ops_def)
qed

section \<open>Properties\<close>

text \<open>
  (C15) The RAM disk as a store of bytes. Once the RAM disk is initialized, a write of any number of
  bytes at any position succeeds and replaces exactly these bytes of the disk, whatever the
  temporary buffer contained, and a read at any position that follows returns the bytes of the
  resulting disk, as long as there is memory for the buffers.
\<close>

theorem ramdisk_byte_store:
  assumes "drv 1 = Driver_none" "base \<le> limit" "unat limit + 1 - unat base < 2147483648" "1024 dvd unat limit + 1 - unat base"
    and init: "ramdisk_init (Some (base, limit)) r drv = (r1, drv1)"
    and wr: "buf \<noteq> []" "b * 1024 + i + length buf \<le> unat limit + 1 - unat base"
    and rd: "0 < n" "c * 1024 + j + n \<le> unat limit + 1 - unat base"
    and mem: "mem (of_nat (blocks_for (length buf + i mod 1024) * 1024))" "mem (of_nat (blocks_for (n + j) * 1024))"
  shows "\<exists>r2. bc_write_bytes mem junk drv1 (of_nat b) buf 0x100 (of_nat i) r1 = Inr (0, r2) \<and>
    ramdisk_bytes r2 = splice (ramdisk_bytes r1) (b * 1024 + i) buf \<and>
    bc_read_bytes mem junk drv1 (of_nat c) (of_nat n) 0x100 (of_nat j) r2 =
      Inr (0, take n (drop (c * 1024 + j) (splice (ramdisk_bytes r1) (b * 1024 + i) buf)))"
proof -
  have sv: "serves drv1 256 (ramdisk_read 0) (ramdisk_write 0)"
    using ramdisk_serves [of drv base limit r] assms(1) init by simp
  have rdy: "ramdisk_ready r1" and len: "length (ramdisk_bytes r1) = unat limit + 1 - unat base"
    using init assms(2,3) by (auto simp: ramdisk_init_def ramdisk_ready_def length_ramdisk_bytes)
  obtain r2 where r2: "bc_write_bytes mem junk drv1 (of_nat b) buf 0x100 (of_nat i) r1 = Inr (0, r2)" "ramdisk_ready r2"
      "ramdisk_bytes r2 = splice (ramdisk_bytes r1) (b * 1024 + i) buf"
    using ram_dev.bc_write_bytes_disk [OF sv rdy _ wr(1), of b i mem] assms(4) wr(2) mem(1) len by auto
  moreover have "length (ramdisk_bytes r2) = unat limit + 1 - unat base" using r2(3) wr(2) len by simp
  ultimately show ?thesis
    using ram_dev.bc_read_bytes_disk [OF sv r2(2) _ rd(1), of c j mem] assms(4) rd(2) mem(2) by auto
qed

theorem ramdisk_byte_store_witness:
  "\<exists>r1 drv1 r2. ramdisk_init (Some (0x1000, 0x17FF)) \<lparr> have_ramdisk = False, ramdisk_start = 0, ramdisk_end = 0, ram = (\<lambda>_. 0) \<rparr>
      (\<lambda>_. Driver_none :: (ramdisk, unit) driver_t) = (r1, drv1) \<and>
    bc_write_bytes (\<lambda>_. True) (\<lambda>_. 0) drv1 (of_nat 0) [7, 8, 9] 0x100 (of_nat 1022) r1 = Inr (0, r2) \<and>
    bc_read_bytes (\<lambda>_. True) (\<lambda>_. 0) drv1 (of_nat 0) (of_nat 3) 0x100 (of_nat 1022) r2 = Inr (0, [7, 8, 9])"
proof -
  let ?z = "\<lparr> have_ramdisk = False, ramdisk_start = 0, ramdisk_end = 0, ram = (\<lambda>_. 0) \<rparr> :: ramdisk"
  obtain r1 drv1 where init: "ramdisk_init (Some (0x1000, 0x17FF)) ?z (\<lambda>_. Driver_none :: (ramdisk, unit) driver_t) = (r1, drv1)"
    by (metis surj_pair)
  then have "length (ramdisk_bytes r1) = 2048" by (auto simp: length_ramdisk_bytes ramdisk_init_def)
  then have "take 3 (drop (0 * 1024 + 1022) (splice (ramdisk_bytes r1) (0 * 1024 + 1022) [7, 8, 9])) = [7, 8, 9]"
    using take_drop_splice [of 1022 "[7, 8, 9]" "ramdisk_bytes r1"] by (simp add: numeral_3_eq_3)
  then show ?thesis
    using init ramdisk_byte_store [OF _ _ _ _ init, of "[7, 8, 9]" 0 1022 3 0 1022 "\<lambda>_. True" "\<lambda>_. 0"] by auto
qed

text \<open>
  Block numbers of the RAM disk wrap. The driver computes the address of a block in 32 bits and
  compares only the last byte with the end of the disk, so that a block number that is too large by
  a multiple of 4194304 is not refused: it reads and overwrites the block that the remainder denotes,
  and the last block numbers denote memory in front of the disk.
\<close>

theorem ramdisk_block_number_wraps:
  "ramdisk_read minor n (b + 4194304) r = ramdisk_read minor n b r \<and>
   ramdisk_write minor n (b + 4194304) bs r = ramdisk_write minor n b bs r"
proof -
  have "word_of_int ((b + 4194304) * 1024) = (word_of_int (b * 1024) :: u32)"
    by (simp add: word_of_int_eq_iff distrib_right)
  then have "ramdisk_range minor n (b + 4194304) r = ramdisk_range minor n b r"
    unfolding ramdisk_range_def by (simp only:)
  then show ?thesis by (simp only: ramdisk_read_def ramdisk_write_def)
qed

text \<open>
  Transfers of no bytes. At the start of a block of the RAM disk a read and a write of zero bytes
  fail with EIO: the number of blocks is computed as 4194304, the buffer has zero bytes, and the
  driver transfers nothing, which the block layer takes as an error.
\<close>

theorem empty_transfer_fails:
  assumes sv: "serves drv dev (ramdisk_read 0) (ramdisk_write 0)" and r: "ramdisk_ready r" "b * 1024 < length (ramdisk_bytes r)"
    and mem: "mem 0"
  shows "bc_read_bytes mem junk drv (of_nat b) 0 dev 0 r = Inr (EIO, []) \<and>
    bc_write_bytes mem junk drv (of_nat b) [] dev 0 r = Inr (EIO, r)"
proof -
  have cnt: "block_count 0 0 = 4194304" by code_simp
  have z: "(word_of_int (4194304 * 1024) :: u32) = 0" by code_simp
  have tmp: "tmp_buffer mem junk 4194304 = Some []" unfolding tmp_buffer_def z using mem by simp
  have sb: "sint (of_nat b :: u32) = int b" using r by (intro sint_block) (simp add: length_ramdisk_bytes ramdisk_ready_def)
  have v: "validate_minor_dev 0 r = 0" using r by (simp add: validate_minor_dev_def ramdisk_ready_def)
  let ?a = "word_of_int (int b * 1024) + ramdisk_start r"
  have "ramdisk_range 0 4194304 (int b) r = (if ?a - 1 > ramdisk_end r then Inl (- EIO) else Inr (?a, ?a - 1))"
    unfolding ramdisk_range_def Let_def z v by simp
  then have "ramdisk_read 0 4194304 (int b) r = (if ?a - 1 > ramdisk_end r then - EIO else 0, [])"
    "ramdisk_write 0 4194304 (int b) [] r = (if ?a - 1 > ramdisk_end r then - EIO else 0, r)"
    by (simp_all add: ramdisk_read_def ramdisk_write_def)
  then show ?thesis
    by (simp add: bc_read_bytes_def bc_write_bytes_def cnt tmp sb serves_bc [OF sv] put_tmp_def splice_def)
qed

theorem empty_transfer_fails_witness:
  "bc_read_bytes (\<lambda>_. True) (\<lambda>_. 0) (\<lambda>_. Driver_blk ramdisk_ops :: (ramdisk, unit) driver_t) (of_nat 0) 0 256 0
      \<lparr> have_ramdisk = True, ramdisk_start = 0x1000, ramdisk_end = 0x17FF, ram = (\<lambda>_. 0) \<rparr> = Inr (EIO, [])"
proof -
  have "MINOR 256 = 0" by code_simp
  then have "serves (\<lambda>_. Driver_blk ramdisk_ops :: (ramdisk, unit) driver_t) 256 (ramdisk_read 0) (ramdisk_write 0)"
    by (simp add: serves_def dm_get_blk_dev_ops_def ramdisk_ops_def)
  then show ?thesis
    by (rule empty_transfer_fails [THEN conjunct1]) (simp_all add: ramdisk_ready_def length_ramdisk_bytes)
qed

end
