(* ===== verification/Ext2_Disk.thy ===== *)
theory Ext2_Disk
  imports Block_Cache
begin

unbundle bit_operations_syntax

text \<open>
  The structures of an Ext2 file system on the disk (\<^verbatim>\<open>include/fs_ext2.h\<close>) and the first
  part of \<^verbatim>\<open>kernel/fs_ext2.c\<close>: superblock, block group descriptors and inodes as packed
  structures, reading and writing them through the block layer, and the bitmaps of the block groups
  with the allocation of blocks and inodes. A computation stops with a fault (an access outside an
  array) or with a panic of the kernel.
\<close>

datatype ext2_stop = Fault mem_fault | Ext2_panic

definition or_stop :: "mem_fault + 'a \<Rightarrow> ext2_stop + 'a" where
  "or_stop r = (case r of Inl f \<Rightarrow> Inl (Fault f) | Inr a \<Rightarrow> Inr a)"

lemma or_stop_Inr [simp]: "or_stop (Inr a) = Inr a"
  by (simp add: or_stop_def)

subsection \<open>Structures on the disk\<close>

record ext2_superblock_t =
  s_inodes_count :: u32
  s_blocks_count :: u32
  s_r_blocks_count :: u32
  s_free_blocks_count :: u32
  s_free_inode_count :: u32
  s_first_data_block :: u32
  s_log_block_size :: u32
  s_log_frag_size :: u32
  s_blocks_per_group :: u32
  s_frags_per_group :: u32
  s_inodes_per_group :: u32
  s_mtime :: u32
  s_wtime :: u32
  s_mnt_count :: u16
  s_max_mnt_count :: u16
  s_magic :: u16
  s_state :: u16
  s_errors :: u16
  s_minor_rev_level :: u16
  s_last_check :: u32
  s_check_interval :: u32
  s_creator_os :: u32
  s_rev_level :: u32
  s_def_res_uid :: u16
  s_def_res_gid :: u16
  s_first_ino :: u32
  s_inode_size :: u16
  s_block_group_nr :: u16
  s_feature_compat :: u32
  s_feature_incompat :: u32
  s_feature_ro_compat :: u32
  s_uuid :: "u32 list"

record ext2_bgd_t =
  bg_block_bitmap :: u32
  bg_inode_bitmap :: u32
  bg_inode_table :: u32
  bg_free_blocks_count :: u16
  bg_free_inodes_count :: u16
  bg_used_dirs_count :: u16
  bg_pad :: u16
  bg_reserved :: "u8 list"

record ext2_inode_t =
  i_mode :: u16
  i_uid :: u16
  i_size :: u32
  i_atime :: u32
  i_ctime :: u32
  i_mtime :: u32
  i_dtime :: u32
  i_gid :: u16
  i_link_count :: u16
  i_blocks :: u32
  i_flags :: u32
  i_osd1 :: u32
  direct :: "u32 list"
  indirect1 :: u32
  indirect2 :: u32
  indirect3 :: u32
  i_generation :: u32
  i_file_acl :: u32
  i_dir_acl :: u32
  i_faddr :: u32
  i_osd2 :: "u32 list"

text \<open>Arrays of 32-bit words.\<close>

definition st32s :: "u32 list \<Rightarrow> u8 list" where
  "st32s ws = concat (map st32 ws)"

definition ld32s :: "u8 list \<Rightarrow> nat \<Rightarrow> nat \<Rightarrow> u32 list" where
  "ld32s bs i n = map (\<lambda>k. ld32 bs (i + 4 * k)) [0..<n]"

definition super_bytes :: "ext2_superblock_t \<Rightarrow> u8 list" where
  "super_bytes s =
     st32 (s_inodes_count s) @ st32 (s_blocks_count s) @ st32 (s_r_blocks_count s) @ st32 (s_free_blocks_count s) @
     st32 (s_free_inode_count s) @ st32 (s_first_data_block s) @ st32 (s_log_block_size s) @ st32 (s_log_frag_size s) @
     st32 (s_blocks_per_group s) @ st32 (s_frags_per_group s) @ st32 (s_inodes_per_group s) @ st32 (s_mtime s) @
     st32 (s_wtime s) @ st16 (s_mnt_count s) @ st16 (s_max_mnt_count s) @ st16 (s_magic s) @ st16 (s_state s) @
     st16 (s_errors s) @ st16 (s_minor_rev_level s) @ st32 (s_last_check s) @ st32 (s_check_interval s) @
     st32 (s_creator_os s) @ st32 (s_rev_level s) @ st16 (s_def_res_uid s) @ st16 (s_def_res_gid s) @
     st32 (s_first_ino s) @ st16 (s_inode_size s) @ st16 (s_block_group_nr s) @ st32 (s_feature_compat s) @
     st32 (s_feature_incompat s) @ st32 (s_feature_ro_compat s) @ st32s (s_uuid s)"

definition super_of :: "u8 list \<Rightarrow> ext2_superblock_t" where
  "super_of bs =
     \<lparr> s_inodes_count = ld32 bs 0, s_blocks_count = ld32 bs 4, s_r_blocks_count = ld32 bs 8, s_free_blocks_count = ld32 bs 12,
       s_free_inode_count = ld32 bs 16, s_first_data_block = ld32 bs 20, s_log_block_size = ld32 bs 24,
       s_log_frag_size = ld32 bs 28, s_blocks_per_group = ld32 bs 32, s_frags_per_group = ld32 bs 36,
       s_inodes_per_group = ld32 bs 40, s_mtime = ld32 bs 44, s_wtime = ld32 bs 48, s_mnt_count = ld16 bs 52,
       s_max_mnt_count = ld16 bs 54, s_magic = ld16 bs 56, s_state = ld16 bs 58, s_errors = ld16 bs 60,
       s_minor_rev_level = ld16 bs 62, s_last_check = ld32 bs 64, s_check_interval = ld32 bs 68, s_creator_os = ld32 bs 72,
       s_rev_level = ld32 bs 76, s_def_res_uid = ld16 bs 80, s_def_res_gid = ld16 bs 82, s_first_ino = ld32 bs 84,
       s_inode_size = ld16 bs 88, s_block_group_nr = ld16 bs 90, s_feature_compat = ld32 bs 92,
       s_feature_incompat = ld32 bs 96, s_feature_ro_compat = ld32 bs 100, s_uuid = ld32s bs 104 4 \<rparr>"

definition bgd_bytes :: "ext2_bgd_t \<Rightarrow> u8 list" where
  "bgd_bytes g =
     st32 (bg_block_bitmap g) @ st32 (bg_inode_bitmap g) @ st32 (bg_inode_table g) @ st16 (bg_free_blocks_count g) @
     st16 (bg_free_inodes_count g) @ st16 (bg_used_dirs_count g) @ st16 (bg_pad g) @ bg_reserved g"

definition bgd_of :: "u8 list \<Rightarrow> ext2_bgd_t" where
  "bgd_of bs =
     \<lparr> bg_block_bitmap = ld32 bs 0, bg_inode_bitmap = ld32 bs 4, bg_inode_table = ld32 bs 8, bg_free_blocks_count = ld16 bs 12,
       bg_free_inodes_count = ld16 bs 14, bg_used_dirs_count = ld16 bs 16, bg_pad = ld16 bs 18,
       bg_reserved = take 12 (drop 20 bs) \<rparr>"

definition bgdt_bytes :: "ext2_bgd_t list \<Rightarrow> u8 list" where
  "bgdt_bytes gs = concat (map bgd_bytes gs)"

definition bgdt_of :: "nat \<Rightarrow> u8 list \<Rightarrow> ext2_bgd_t list" where
  "bgdt_of n bs = map (\<lambda>k. bgd_of (take 32 (drop (32 * k) bs))) [0..<n]"

definition inode_bytes :: "ext2_inode_t \<Rightarrow> u8 list" where
  "inode_bytes i =
     st16 (i_mode i) @ st16 (i_uid i) @ st32 (i_size i) @ st32 (i_atime i) @ st32 (i_ctime i) @ st32 (i_mtime i) @
     st32 (i_dtime i) @ st16 (i_gid i) @ st16 (i_link_count i) @ st32 (i_blocks i) @ st32 (i_flags i) @ st32 (i_osd1 i) @
     st32s (direct i) @ st32 (indirect1 i) @ st32 (indirect2 i) @ st32 (indirect3 i) @ st32 (i_generation i) @
     st32 (i_file_acl i) @ st32 (i_dir_acl i) @ st32 (i_faddr i) @ st32s (i_osd2 i)"

definition inode_of :: "u8 list \<Rightarrow> ext2_inode_t" where
  "inode_of bs =
     \<lparr> i_mode = ld16 bs 0, i_uid = ld16 bs 2, i_size = ld32 bs 4, i_atime = ld32 bs 8, i_ctime = ld32 bs 12, i_mtime = ld32 bs 16,
       i_dtime = ld32 bs 20, i_gid = ld16 bs 24, i_link_count = ld16 bs 26, i_blocks = ld32 bs 28, i_flags = ld32 bs 32,
       i_osd1 = ld32 bs 36, direct = ld32s bs 40 12, indirect1 = ld32 bs 88, indirect2 = ld32 bs 92, indirect3 = ld32 bs 96,
       i_generation = ld32 bs 100, i_file_acl = ld32 bs 104, i_dir_acl = ld32 bs 108, i_faddr = ld32 bs 112,
       i_osd2 = ld32s bs 116 3 \<rparr>"

abbreviation sizeof_super :: nat where "sizeof_super \<equiv> 120"
abbreviation sizeof_bgd :: nat where "sizeof_bgd \<equiv> 32"
abbreviation sizeof_inode :: nat where "sizeof_inode \<equiv> 128"

subsection \<open>The file system in memory\<close>

record ext2_metadata_t =
  ext2_super :: ext2_superblock_t
  bgdt :: "ext2_bgd_t list"
  meta_device :: u32
  bgdt_size :: u32
  bgdt_blocks :: u32

text \<open>A mounted file system with the device below it.\<close>

record 'd ext2_fs =
  fs_dev :: 'd
  fs_meta :: ext2_metadata_t

text \<open>
  What the file system finds around it: the sizes for which there is memory, what fresh memory
  contains, whether there is memory for the structures that describe a mounted file system, the
  drivers, the time and what an uninitialised word on the stack contains.
\<close>

record ('d, 'c) ext2_env =
  env_mem :: "u32 \<Rightarrow> bool"
  env_junk :: "nat \<Rightarrow> u8"
  env_meta :: bool
  env_drv :: "('d, 'c) drivers"
  env_time :: u32
  env_stack :: u32

text \<open>The generic inode of the virtual file system and the pair that the Ext2 code keeps for it.\<close>

record inode_t =
  inode_size :: u32
  inode_nr :: u32
  inode_dev :: u32
  inode_mode :: u32
  inode_owner :: u32
  inode_link_count :: int
  inode_group :: u32
  inode_s_dev :: u32
  inode_mtime :: u32
  inode_atime :: u32
  mount_point :: bool

record ext2_inode_data_t =
  vfs_inode :: inode_t
  ext2_inode :: ext2_inode_t

definition S_ISDIR :: "u32 \<Rightarrow> bool" where
  "S_ISDIR m \<longleftrightarrow> m AND 0xF000 = 0x4000"

definition S_ISREG :: "u32 \<Rightarrow> bool" where
  "S_ISREG m \<longleftrightarrow> m AND 0xF000 = 0x8000"

text \<open>Transfers of a device, and of the device on which the file system lives.\<close>

definition read_device ::
    "('d, 'c) ext2_env \<Rightarrow> u32 \<Rightarrow> 'd ext2_fs \<Rightarrow> u32 \<Rightarrow> u32 \<Rightarrow> u32 \<Rightarrow> ext2_stop + int \<times> u8 list" where
  "read_device E dev fs block bytes offset =
     or_stop (bc_read_bytes (env_mem E) (env_junk E) (env_drv E) block bytes dev offset (fs_dev fs))"

definition write_device ::
    "('d, 'c) ext2_env \<Rightarrow> u32 \<Rightarrow> 'd ext2_fs \<Rightarrow> u32 \<Rightarrow> u8 list \<Rightarrow> u32 \<Rightarrow> ext2_stop + int \<times> 'd ext2_fs" where
  "write_device E dev fs block bs offset =
     sbind (or_stop (bc_write_bytes (env_mem E) (env_junk E) (env_drv E) block bs dev offset (fs_dev fs)))
       (\<lambda>(rc, d). Inr (rc, fs \<lparr> fs_dev := d \<rparr>))"

abbreviation dev_read ::
    "('d, 'c) ext2_env \<Rightarrow> 'd ext2_fs \<Rightarrow> u32 \<Rightarrow> u32 \<Rightarrow> u32 \<Rightarrow> ext2_stop + int \<times> u8 list" where
  "dev_read E fs \<equiv> read_device E (meta_device (fs_meta fs)) fs"

abbreviation dev_write ::
    "('d, 'c) ext2_env \<Rightarrow> 'd ext2_fs \<Rightarrow> u32 \<Rightarrow> u8 list \<Rightarrow> u32 \<Rightarrow> ext2_stop + int \<times> 'd ext2_fs" where
  "dev_write E fs \<equiv> write_device E (meta_device (fs_meta fs)) fs"

text \<open>A division by zero is a trap that the kernel does not survive.\<close>

definition udivmod :: "u32 \<Rightarrow> u32 \<Rightarrow> ext2_stop + u32 \<times> u32" where
  "udivmod a b = (if b = 0 then Inl Ext2_panic else Inr (a div b, a mod b))"

subsection \<open>Metadata\<close>

definition super_supported :: "ext2_superblock_t \<Rightarrow> bool" where
  "super_supported s \<longleftrightarrow> s_magic s = 0xEF53 \<and> s_feature_incompat s = 0 \<and> s_feature_ro_compat s = 0 \<and>
     s_log_block_size s = 0 \<and> s_log_frag_size s = 0 \<and> s_inode_size s = of_nat sizeof_inode"

definition fs_ext2_probe :: "('d, 'c) ext2_env \<Rightarrow> u32 \<Rightarrow> 'd \<Rightarrow> ext2_stop + int" where
  "fs_ext2_probe E device d =
     (if bc_open (env_drv E) device d \<noteq> 0 then Inr ENODEV
      else if \<not> env_mem E 1024 then Inr ENOMEM
      else sbind (or_stop (bc_read_bytes (env_mem E) (env_junk E) (env_drv E) 1 1024 device 0 d)) (\<lambda>(rc, bs).
        if rc \<noteq> 0 then Inr EIO
        else Inr (if super_supported (super_of bs) then 1 else 0)))"

definition read_meta :: "('d, 'c) ext2_env \<Rightarrow> u32 \<Rightarrow> 'd \<Rightarrow> ext2_stop + ext2_metadata_t option" where
  "read_meta E device d =
     (if \<not> env_meta E then Inr None
      else sbind (or_stop (bc_read_bytes (env_mem E) (env_junk E) (env_drv E) 1 (of_nat sizeof_super) device 0 d)) (\<lambda>(rc, bs).
        if rc \<noteq> 0 then Inr None
        else let super = super_of bs
             in sbind (udivmod (s_blocks_count super) (s_blocks_per_group super)) (\<lambda>(groups, _).
               let n = groups + 1;
                   size_bytes = n * of_nat sizeof_bgd
               in if \<not> env_mem E size_bytes then Inr None
                  else sbind (or_stop (bc_read_bytes (env_mem E) (env_junk E) (env_drv E) (s_first_data_block super + 1) size_bytes device 0 d))
                    (\<lambda>(rc, bs).
                    if rc \<noteq> 0 then Inr None
                    else Inr (Some \<lparr> ext2_super = super, bgdt = bgdt_of (unat n) bs, meta_device = device, bgdt_size = n,
                                     bgdt_blocks = (size_bytes - 1) div 1024 + 1 \<rparr>)))))"

definition put_meta :: "('d, 'c) ext2_env \<Rightarrow> 'd ext2_fs \<Rightarrow> ext2_stop + int \<times> 'd ext2_fs" where
  "put_meta E fs =
     (let m = fs_meta fs;
          n = unat (bgdt_size m * of_nat sizeof_bgd)
      in if n > length (bgdt_bytes (bgdt m)) then Inl (Fault Read_overrun)
         else sbind (dev_write E fs (s_first_data_block (ext2_super m) + 1) (take n (bgdt_bytes (bgdt m))) 0) (\<lambda>(rc, fs).
           if rc \<noteq> 0 then Inr (EIO, fs)
           else sbind (dev_write E fs 1 (super_bytes (ext2_super m)) 0) (\<lambda>(rc, fs).
             if rc \<noteq> 0 then Inr (EIO, fs) else Inr (0, fs))))"

subsection \<open>Inodes\<close>

text \<open>Block group of an inode, its position in the table and the first block of the table.\<close>

definition inode_location :: "ext2_metadata_t \<Rightarrow> u32 \<Rightarrow> ext2_stop + u32 \<times> u32" where
  "inode_location m nr =
     sbind (udivmod (nr - 1) (s_inodes_per_group (ext2_super m))) (\<lambda>(block_group, index).
       if unat block_group \<ge> length (bgdt m) then Inl (Fault Read_overrun)
       else Inr (bg_inode_table (bgdt m ! unat block_group), index))"

definition get_ext2_inode :: "('d, 'c) ext2_env \<Rightarrow> 'd ext2_fs \<Rightarrow> u32 \<Rightarrow> ext2_stop + ext2_inode_t option" where
  "get_ext2_inode E fs nr =
     sbind (inode_location (fs_meta fs) nr) (\<lambda>(block, index).
       if \<not> env_mem E (of_nat sizeof_inode) then Inr None
       else sbind (dev_read E fs block (of_nat sizeof_inode) (index * of_nat sizeof_inode)) (\<lambda>(rc, bs).
         if rc \<noteq> 0 then Inr None else Inr (Some (inode_of bs))))"

definition put_inode :: "('d, 'c) ext2_env \<Rightarrow> 'd ext2_fs \<Rightarrow> u32 \<Rightarrow> ext2_inode_t \<Rightarrow> ext2_stop + int \<times> 'd ext2_fs" where
  "put_inode E fs nr inode =
     sbind (inode_location (fs_meta fs) nr) (\<lambda>(block, index).
       sbind (dev_write E fs block (inode_bytes inode) (index * of_nat sizeof_inode)) (\<lambda>(rc, fs).
         if rc \<noteq> 0 then Inr (EIO, fs) else Inr (0, fs)))"

subsection \<open>Transfers on a device that works\<close>

text \<open>A device of the block layer that serves the file system while there is memory.\<close>

definition ext2_device ::
    "('d, 'c) ext2_env \<Rightarrow> u32 \<Rightarrow> (int \<Rightarrow> int \<Rightarrow> 'd \<Rightarrow> int \<times> u8 list) \<Rightarrow> (int \<Rightarrow> int \<Rightarrow> u8 list \<Rightarrow> 'd \<Rightarrow> int \<times> 'd) \<Rightarrow> bool" where
  "ext2_device E dev rd wr \<longleftrightarrow> serves (env_drv E) dev rd wr \<and> (\<forall>n. env_mem E n)"

context block_device
begin

lemma read_device_disk:
  assumes "ext2_device E dev rd wr" "ready (fs_dev fs)" "1024 dvd length (disk (fs_dev fs))"
    and "n \<noteq> 0" "unat b * 1024 + unat i + unat n \<le> length (disk (fs_dev fs))"
  shows "read_device E dev fs b n i = Inr (0, take (unat n) (drop (unat b * 1024 + unat i) (disk (fs_dev fs))))"
  using bc_read_bytes_disk [of "env_drv E" dev "fs_dev fs" "unat n" "unat b" "unat i" "env_mem E" "env_junk E"] assms
  by (simp add: read_device_def ext2_device_def unat_gt_0)

lemma write_device_disk:
  assumes "ext2_device E dev rd wr" "ready (fs_dev fs)" "1024 dvd length (disk (fs_dev fs))"
    and "bs \<noteq> []" "unat b * 1024 + unat i + length bs \<le> length (disk (fs_dev fs))"
  obtains d where "write_device E dev fs b bs i = Inr (0, fs \<lparr> fs_dev := d \<rparr>)" "ready d"
    "disk d = splice (disk (fs_dev fs)) (unat b * 1024 + unat i) bs"
  using bc_write_bytes_disk [of "env_drv E" dev "fs_dev fs" bs "unat b" "unat i" "env_mem E" "env_junk E"] assms
  by (auto simp: write_device_def ext2_device_def)

end

end
