(* ===== verification/Ext2_Bitmap.thy ===== *)
theory Ext2_Bitmap
  imports Ext2_Disk
begin

unbundle bit_operations_syntax

text \<open>
  The bitmaps of the block groups (\<^verbatim>\<open>kernel/fs_ext2.c\<close>): allocation and release of blocks
  and inodes, over the bit field macros of \<^verbatim>\<open>include/lists.h\<close>. The locks are left out: each
  function is one critical section.
\<close>

subsection \<open>Bit fields\<close>

definition BITFIELD_GET_BIT :: "u8 list \<Rightarrow> nat \<Rightarrow> u8" where
  "BITFIELD_GET_BIT bm i = drop_bit (i mod 8) (bm ! (i div 8)) AND 1"

definition BITFIELD_SET_BIT :: "u8 list \<Rightarrow> nat \<Rightarrow> u8 list" where
  "BITFIELD_SET_BIT bm i = bm[i div 8 := bm ! (i div 8) OR push_bit (i mod 8) 1]"

definition BITFIELD_CLEAR_BIT :: "u8 list \<Rightarrow> nat \<Rightarrow> u8 list" where
  "BITFIELD_CLEAR_BIT bm i = bm[i div 8 := bm ! (i div 8) AND NOT (push_bit (i mod 8) 1)]"

text \<open>The search for the first free entry among the next \<open>n\<close> entries.\<close>

fun scan_bitmap :: "u8 list \<Rightarrow> nat \<Rightarrow> nat \<Rightarrow> ext2_stop + nat option" where
  "scan_bitmap bm i 0 = Inr None"
| "scan_bitmap bm i (Suc n) =
     (if i div 8 \<ge> length bm then Inl (Fault Read_overrun)
      else if BITFIELD_GET_BIT bm i = 0 then Inr (Some i)
      else scan_bitmap bm (Suc i) n)"

subsection \<open>Blocks\<close>

text \<open>
  The number of the block group is the difference of two pointers, which counts descriptors, divided
  by the size of a descriptor once more.
\<close>

definition blocks_in_group :: "ext2_metadata_t \<Rightarrow> nat \<Rightarrow> ext2_stop + u32" where
  "blocks_in_group m g =
     (let s = ext2_super m;
          block_group_nr = of_nat g div of_nat sizeof_bgd
      in if bgdt_size m - 1 = block_group_nr
         then sbind (udivmod (s_blocks_count s) (s_blocks_per_group s)) (\<lambda>(_, r).
                Inr (if r \<noteq> 0 then r else s_blocks_per_group s))
         else Inr (s_blocks_per_group s))"

definition update_bgd :: "nat \<Rightarrow> (ext2_bgd_t \<Rightarrow> ext2_bgd_t) \<Rightarrow> 'd ext2_fs \<Rightarrow> 'd ext2_fs" where
  "update_bgd g f fs = fs \<lparr> fs_meta := fs_meta fs \<lparr> bgdt := (bgdt (fs_meta fs))[g := f (bgdt (fs_meta fs) ! g)] \<rparr> \<rparr>"

definition update_super :: "(ext2_superblock_t \<Rightarrow> ext2_superblock_t) \<Rightarrow> 'd ext2_fs \<Rightarrow> 'd ext2_fs" where
  "update_super f fs = fs \<lparr> fs_meta := fs_meta fs \<lparr> ext2_super := f (ext2_super (fs_meta fs)) \<rparr> \<rparr>"

definition allocate_block_in_group ::
    "('d, 'c) ext2_env \<Rightarrow> nat \<Rightarrow> int \<Rightarrow> 'd ext2_fs \<Rightarrow> ext2_stop + u32 \<times> int \<times> 'd ext2_fs" where
  "allocate_block_in_group E g errno fs =
     (if g \<ge> length (bgdt (fs_meta fs)) then Inl (Fault Read_overrun)
      else let bgd = bgdt (fs_meta fs) ! g
      in if bg_free_blocks_count bgd = 0 then Inr (0, errno, fs)
         else sbind (dev_read E fs (bg_block_bitmap bgd) 1024 0) (\<lambda>(rc, bm).
           if rc \<noteq> 0 then Inr (0, rc, fs)
           else sbind (blocks_in_group (fs_meta fs) g) (\<lambda>n.
             sbind (scan_bitmap bm 0 (unat n)) (\<lambda>found.
             case found of
               None \<Rightarrow> Inr (0, errno, fs)
             | Some i \<Rightarrow>
                 let block_nr = of_nat i + bg_block_bitmap bgd - bgdt_blocks (fs_meta fs) - 1
                 in if block_nr = 0 then Inr (0, errno, fs)
                    else sbind (dev_write E fs (bg_block_bitmap bgd) (BITFIELD_SET_BIT bm i) 0) (\<lambda>(rc, fs).
                      if rc \<noteq> 0 then Inr (0, rc, fs)
                      else let fs = update_bgd g (\<lambda>b. b \<lparr> bg_free_blocks_count := bg_free_blocks_count b - 1 \<rparr>) fs;
                               fs = update_super (\<lambda>s. s \<lparr> s_free_blocks_count := s_free_blocks_count s - 1 \<rparr>) fs
                           in sbind (put_meta E fs) (\<lambda>(rc, fs).
                                if rc \<noteq> 0 then Inr (0, EIO, fs) else Inr (block_nr, errno, fs)))))))"

text \<open>The search in the other block groups.\<close>

fun allocate_block_any ::
    "('d, 'c) ext2_env \<Rightarrow> nat list \<Rightarrow> nat \<Rightarrow> int \<Rightarrow> 'd ext2_fs \<Rightarrow> ext2_stop + u32 \<times> int \<times> 'd ext2_fs" where
  "allocate_block_any E [] preferred errno fs = Inr (0, errno, fs)"
| "allocate_block_any E (g # gs) preferred errno fs =
     (if g = preferred then allocate_block_any E gs preferred errno fs
      else sbind (allocate_block_in_group E g errno fs) (\<lambda>(nr, errno, fs).
        if nr \<noteq> 0 then Inr (nr, errno, fs) else allocate_block_any E gs preferred errno fs))"

definition allocate_block ::
    "('d, 'c) ext2_env \<Rightarrow> u32 \<Rightarrow> int \<Rightarrow> 'd ext2_fs \<Rightarrow> ext2_stop + u32 \<times> int \<times> 'd ext2_fs" where
  "allocate_block E block_group_nr errno fs =
     (if block_group_nr \<ge> bgdt_size (fs_meta fs) then Inr (0, errno, fs)
      else if s_free_blocks_count (ext2_super (fs_meta fs)) = 0 then Inr (0, errno, fs)
      else sbind (allocate_block_in_group E (unat block_group_nr) errno fs) (\<lambda>(nr, errno, fs).
        if nr \<noteq> 0 then Inr (nr, errno, fs)
        else allocate_block_any E [0..<unat (bgdt_size (fs_meta fs))] (unat block_group_nr) errno fs))"

definition deallocate_block :: "('d, 'c) ext2_env \<Rightarrow> u32 \<Rightarrow> 'd ext2_fs \<Rightarrow> ext2_stop + int \<times> 'd ext2_fs" where
  "deallocate_block E block_nr fs =
     sbind (udivmod (block_nr - 1) (s_blocks_per_group (ext2_super (fs_meta fs)))) (\<lambda>(group_nr, index).
     let g = unat group_nr; i = unat index
     in if group_nr \<ge> bgdt_size (fs_meta fs) then Inl Ext2_panic
        else if g \<ge> length (bgdt (fs_meta fs)) then Inl (Fault Read_overrun)
        else sbind (dev_read E fs (bg_block_bitmap (bgdt (fs_meta fs) ! g)) 1024 0) (\<lambda>(rc, bm).
          if rc \<noteq> 0 then Inr (EIO, fs)
          else if i div 8 \<ge> length bm then Inl (Fault Read_overrun)
          else if BITFIELD_GET_BIT bm i = 0 then Inl Ext2_panic
          else sbind (dev_write E fs (bg_block_bitmap (bgdt (fs_meta fs) ! g)) (BITFIELD_CLEAR_BIT bm i) 0) (\<lambda>(rc, fs).
            if rc \<noteq> 0 then Inl Ext2_panic
            else let fs = update_super (\<lambda>s. s \<lparr> s_free_blocks_count := s_free_blocks_count s + 1 \<rparr>) fs;
                     fs = update_bgd g (\<lambda>b. b \<lparr> bg_free_blocks_count := bg_free_blocks_count b + 1 \<rparr>) fs
                 in sbind (put_meta E fs) (\<lambda>(rc, fs). if rc \<noteq> 0 then Inl Ext2_panic else Inr (0, fs)))))"

subsection \<open>Inodes\<close>

definition deallocate_inode ::
    "('d, 'c) ext2_env \<Rightarrow> inode_t \<Rightarrow> 'd ext2_fs \<Rightarrow> ext2_stop + int \<times> 'd ext2_fs" where
  "deallocate_inode E inode fs =
     (if \<not> env_mem E 1024 then Inr (ENOMEM, fs)
      else sbind (udivmod (inode_nr inode - 1) (s_inodes_per_group (ext2_super (fs_meta fs)))) (\<lambda>(group_nr, index).
        let g = unat group_nr; i = unat index
        in if group_nr \<ge> bgdt_size (fs_meta fs) then Inl Ext2_panic
           else if g \<ge> length (bgdt (fs_meta fs)) then Inl (Fault Read_overrun)
           else let bgd = bgdt (fs_meta fs) ! g
           in sbind (dev_read E fs (bg_inode_bitmap bgd) 1024 0) (\<lambda>(rc, bm).
             if rc \<noteq> 0 then Inr (EIO, fs)
             else if i div 8 \<ge> length bm then Inl (Fault Read_overrun)
             else if BITFIELD_GET_BIT bm i = 0 then Inl Ext2_panic
             else sbind (dev_write E fs (bg_inode_bitmap bgd) (BITFIELD_CLEAR_BIT bm i) 0) (\<lambda>(rc, fs).
               if rc \<noteq> 0 then Inl Ext2_panic
               else sbind (dev_write E fs (bg_inode_table bgd) (replicate sizeof_inode 0) (index * of_nat sizeof_inode)) (\<lambda>(rc, fs).
                 if rc \<noteq> 0 then Inl Ext2_panic
                 else let fs = update_bgd g (\<lambda>b. if S_ISDIR (inode_mode inode) then b \<lparr> bg_used_dirs_count := bg_used_dirs_count b - 1 \<rparr> else b) fs;
                          fs = update_bgd g (\<lambda>b. b \<lparr> bg_free_inodes_count := bg_free_inodes_count b + 1 \<rparr>) fs;
                          fs = update_super (\<lambda>s. s \<lparr> s_free_inode_count := s_free_inode_count s + 1 \<rparr>) fs
                      in sbind (put_meta E fs) (\<lambda>(rc, fs). if rc \<noteq> 0 then Inl Ext2_panic else Inr (0, fs)))))))"

definition inodes_in_group :: "ext2_metadata_t \<Rightarrow> nat \<Rightarrow> ext2_stop + u32" where
  "inodes_in_group m g =
     (let s = ext2_super m
      in if bgdt_size m - 1 = of_nat g
         then sbind (udivmod (s_inodes_count s) (s_inodes_per_group s)) (\<lambda>(_, r).
                Inr (if r \<noteq> 0 then r else s_inodes_per_group s))
         else Inr (s_inodes_per_group s))"

text \<open>
  The number of the inode is a variable that is only written when a free entry is found. Without
  memory for the bitmap the error code is returned as if it was the number of an inode.
\<close>

definition allocate_inode_in_group ::
    "('d, 'c) ext2_env \<Rightarrow> nat \<Rightarrow> bool \<Rightarrow> int \<Rightarrow> 'd ext2_fs \<Rightarrow> ext2_stop + u32 \<times> int \<times> 'd ext2_fs" where
  "allocate_inode_in_group E g isdir errno fs =
     (if g \<ge> length (bgdt (fs_meta fs)) then Inl (Fault Read_overrun)
      else let bgd = bgdt (fs_meta fs) ! g
      in if \<not> env_mem E 1024 then Inr (of_int ENOMEM, errno, fs)
         else sbind (dev_read E fs (bg_inode_bitmap bgd) 1024 0) (\<lambda>(rc, bm).
           if rc \<noteq> 0 then Inr (0, rc, fs)
           else sbind (inodes_in_group (fs_meta fs) g) (\<lambda>n.
             sbind (scan_bitmap bm 0 (unat n)) (\<lambda>found.
             let (nr, bm) =
               (case found of
                  None \<Rightarrow> (env_stack E, bm)
                | Some i \<Rightarrow> (of_nat i + 1 + of_nat g * s_inodes_per_group (ext2_super (fs_meta fs)), BITFIELD_SET_BIT bm i))
             in if nr = 0 then Inr (0, errno, fs)
                else sbind (dev_write E fs (bg_inode_bitmap bgd) bm 0) (\<lambda>(rc, fs).
                  if rc \<noteq> 0 then Inl Ext2_panic
                  else let fs = update_bgd g (\<lambda>b. b \<lparr> bg_free_inodes_count := bg_free_inodes_count b - 1 \<rparr>) fs;
                           fs = update_super (\<lambda>s. s \<lparr> s_free_inode_count := s_free_inode_count s - 1 \<rparr>) fs;
                           fs = (if isdir then update_bgd g (\<lambda>b. b \<lparr> bg_used_dirs_count := bg_used_dirs_count b + 1 \<rparr>) fs else fs)
                       in if isdir \<and> bg_used_dirs_count (bgdt (fs_meta fs) ! g) = 0 then Inl Ext2_panic
                          else sbind (put_meta E fs) (\<lambda>(rc, fs).
                            if rc \<noteq> 0 then Inl Ext2_panic else Inr (nr, errno, fs)))))))"

fun allocate_inode_from ::
    "('d, 'c) ext2_env \<Rightarrow> nat list \<Rightarrow> bool \<Rightarrow> int \<Rightarrow> 'd ext2_fs \<Rightarrow> ext2_stop + u32 \<times> int \<times> 'd ext2_fs" where
  "allocate_inode_from E [] isdir errno fs = Inr (0, errno, fs)"
| "allocate_inode_from E (g # gs) isdir errno fs =
     (if g \<ge> length (bgdt (fs_meta fs)) then Inl (Fault Read_overrun)
      else if bg_free_inodes_count (bgdt (fs_meta fs) ! g) = 0 then allocate_inode_from E gs isdir errno fs
      else sbind (allocate_inode_in_group E g isdir errno fs) (\<lambda>(nr, errno, fs).
        if nr \<noteq> 0 then Inr (nr, errno, fs) else allocate_inode_from E gs isdir errno fs))"

definition allocate_inode ::
    "('d, 'c) ext2_env \<Rightarrow> bool \<Rightarrow> int \<Rightarrow> 'd ext2_fs \<Rightarrow> ext2_stop + u32 \<times> int \<times> 'd ext2_fs" where
  "allocate_inode E isdir errno fs =
     (if s_free_inode_count (ext2_super (fs_meta fs)) = 0 then Inr (0, errno, fs)
      else allocate_inode_from E [0..<unat (bgdt_size (fs_meta fs))] isdir errno fs)"

end
