(* ===== verification/Ext2_Walk.thy ===== *)
theory Ext2_Walk
  imports Ext2_Bitmap
begin

unbundle bit_operations_syntax

text \<open>
  The walk through the blocks of a file (\<^verbatim>\<open>kernel/fs_ext2.c\<close>): the twelve direct blocks, the
  indirect, double indirect and triple indirect blocks, and what is done with each block: read, write
  or release. A block that is missing is a hole; a walk that writes allocates it. The lists of block
  numbers that the code changes through pointers are passed and returned.
\<close>

datatype ext2_op = EXT2_OP_READ | EXT2_OP_WRITE | EXT2_OP_TRUNC

record 'd blocklist_walk_t =
  req_data :: "u8 list"
  blocks_processed :: u32
  bytes_processed :: u32
  first_block :: u32
  last_block :: u32
  req_bytes :: u32
  req_offset :: u32
  req_device :: u32
  do_allocate :: bool
  do_deallocate :: bool
  do_zero :: bool
  block_group_nr :: u32
  req_inode :: ext2_inode_t
  abort :: bool
  first_byte :: u32
  last_byte :: u32
  process_block :: ext2_op
  req_fs :: "'d ext2_fs"

definition add_i_blocks :: "u32 \<Rightarrow> 'd blocklist_walk_t \<Rightarrow> 'd blocklist_walk_t" where
  "add_i_blocks n w = w \<lparr> req_inode := req_inode w \<lparr> i_blocks := i_blocks (req_inode w) + n \<rparr> \<rparr>"

text \<open>The block as a list of 256 numbers, or nothing; the number of the block, the flag and errno are in and out.\<close>

definition load_indirect_block ::
    "('d, 'c) ext2_env \<Rightarrow> 'd blocklist_walk_t \<Rightarrow> u32 \<Rightarrow> bool \<Rightarrow> int \<Rightarrow>
     ext2_stop + u32 list option \<times> u32 \<times> bool \<times> int \<times> 'd blocklist_walk_t" where
  "load_indirect_block E w block_nr dirty errno =
     (if \<not> env_mem E 1024 then Inr (None, block_nr, dirty, errno, w)
      else if block_nr = 0 then
        if do_allocate w then
          sbind (allocate_block E (block_group_nr w) errno (req_fs w)) (\<lambda>(block_nr, errno, fs).
            let w = w \<lparr> req_fs := fs \<rparr>
            in if block_nr = 0 then Inr (None, block_nr, dirty, errno, w)
               else let w = add_i_blocks 2 w
               in sbind (write_device E (req_device w) (req_fs w) block_nr (replicate 1024 0) 0) (\<lambda>(rc, fs).
                 let w = w \<lparr> req_fs := fs \<rparr>
                 in if rc \<noteq> 0 then Inr (None, block_nr, dirty, EIO, w)
                    else Inr (Some (replicate 256 0), block_nr, True, errno, w)))
        else Inr (Some (replicate 256 0), block_nr, dirty, errno, w)
      else sbind (read_device E (req_device w) (req_fs w) block_nr 1024 0) (\<lambda>(rc, bs).
        if rc \<noteq> 0 then Inr (None, block_nr, dirty, EIO, w)
        else Inr (Some (ld32s bs 0 256), block_nr, dirty, errno, w)))"

subsection \<open>One block\<close>

definition block_done :: "'d blocklist_walk_t \<Rightarrow> 'd blocklist_walk_t" where
  "block_done w = w \<lparr> bytes_processed := bytes_processed w + (last_byte w - first_byte w + 1),
                      blocks_processed := blocks_processed w + 1 \<rparr>"

definition read_block :: "('d, 'c) ext2_env \<Rightarrow> 'd blocklist_walk_t \<Rightarrow> u32 \<Rightarrow> ext2_stop + int \<times> 'd blocklist_walk_t" where
  "read_block E w block_nr =
     (let n = last_byte w - first_byte w + 1
      in sbind (if block_nr \<noteq> 0 then read_device E (req_device w) (req_fs w) block_nr n (first_byte w)
                else Inr (0, replicate (unat n) 0)) (\<lambda>(rc, bs).
           if rc \<noteq> 0 then Inr (EIO, w)
           else sbind (or_stop (put_tmp (req_data w) (unat (bytes_processed w)) bs)) (\<lambda>data.
             Inr (0, block_done (w \<lparr> req_data := data \<rparr>)))))"

definition write_block :: "('d, 'c) ext2_env \<Rightarrow> 'd blocklist_walk_t \<Rightarrow> u32 \<Rightarrow> ext2_stop + int \<times> 'd blocklist_walk_t" where
  "write_block E w block_nr =
     (let n = last_byte w - first_byte w + 1
      in if block_nr = 0 then Inr (EIO, w)
         else if unat (bytes_processed w) + unat n > length (req_data w) then Inl (Fault Read_overrun)
         else sbind (write_device E (req_device w) (req_fs w) block_nr
                  (take (unat n) (drop (unat (bytes_processed w)) (req_data w))) (first_byte w)) (\<lambda>(rc, fs).
           let w = w \<lparr> req_fs := fs \<rparr>
           in if rc \<noteq> 0 then Inr (EIO, w) else Inr (0, block_done w)))"

definition truncate_block :: "('d, 'c) ext2_env \<Rightarrow> 'd blocklist_walk_t \<Rightarrow> u32 \<Rightarrow> ext2_stop + int \<times> 'd blocklist_walk_t" where
  "truncate_block E w block_nr =
     (if block_nr \<noteq> 0 then
        sbind (deallocate_block E block_nr (req_fs w)) (\<lambda>(rc, fs).
          let w = w \<lparr> req_fs := fs \<rparr>
          in if rc \<noteq> 0 then Inr (EIO, w) else Inr (0, block_done (add_i_blocks (- 2) w)))
      else Inr (0, block_done w))"

definition call_process_block :: "('d, 'c) ext2_env \<Rightarrow> 'd blocklist_walk_t \<Rightarrow> u32 \<Rightarrow> ext2_stop + int \<times> 'd blocklist_walk_t" where
  "call_process_block E w block_nr =
     (case process_block w of
        EXT2_OP_READ \<Rightarrow> read_block E w block_nr
      | EXT2_OP_WRITE \<Rightarrow> write_block E w block_nr
      | EXT2_OP_TRUNC \<Rightarrow> truncate_block E w block_nr)"

subsection \<open>A list of blocks\<close>

definition set_byte_range :: "'d blocklist_walk_t \<Rightarrow> 'd blocklist_walk_t" where
  "set_byte_range w =
     w \<lparr> first_byte := (if blocks_processed w = 0 then req_offset w mod 1024 else 0),
         last_byte := (if blocks_processed w = last_block w - first_block w
                       then (req_bytes w + req_offset w - 1) mod 1024 else 1023) \<rparr>"

text \<open>
  The entries of \<open>bl\<close> from position \<open>i\<close> on, \<open>n\<close> of them. When the device is full the walk
  stops with the flag abort.
\<close>

fun walk_blocklist ::
    "('d, 'c) ext2_env \<Rightarrow> nat \<Rightarrow> u32 list \<Rightarrow> nat \<Rightarrow> bool \<Rightarrow> int \<Rightarrow> 'd blocklist_walk_t \<Rightarrow>
     ext2_stop + int \<times> u32 list \<times> bool \<times> 'd blocklist_walk_t" where
  "walk_blocklist E 0 bl i dirty errno w = Inr (0, bl, dirty, w)"
| "walk_blocklist E (Suc n) bl i dirty errno w =
     (if i \<ge> length bl then Inl (Fault Read_overrun)
      else sbind (if do_allocate w \<and> bl ! i = 0
                  then sbind (allocate_block E (block_group_nr w) errno (req_fs w)) (\<lambda>(nr, errno, fs).
                         let w = w \<lparr> req_fs := fs \<rparr>
                         in if nr = 0 then Inr (Inl (if errno \<noteq> 0 then (EIO, bl, dirty, w) else (0, bl, dirty, w \<lparr> abort := True \<rparr>)))
                            else Inr (Inr (bl[i := nr], True, errno, add_i_blocks 2 w)))
                  else Inr (Inr (bl, dirty, errno, w))) (\<lambda>r.
        case r of
          Inl result \<Rightarrow> Inr result
        | Inr (bl, dirty, errno, w) \<Rightarrow>
            sbind (call_process_block E (set_byte_range w) (bl ! i)) (\<lambda>(rc, w).
              if rc \<noteq> 0 then Inr (EIO, bl, dirty, w)
              else let (bl, dirty) = (if do_zero w then (bl[i := 0], True) else (bl, dirty))
                   in walk_blocklist E n bl (Suc i) dirty errno w)))"

definition blocklist_is_empty :: "u32 list \<Rightarrow> nat \<Rightarrow> bool" where
  "blocklist_is_empty bl n \<longleftrightarrow> list_all (\<lambda>x. x = 0) (take n bl)"

abbreviation EXT2_INDIRECT_BLOCKS :: u32 where "EXT2_INDIRECT_BLOCKS \<equiv> 256"
abbreviation EXT2_DOUBLE_INDIRECT_BLOCKS :: u32 where "EXT2_DOUBLE_INDIRECT_BLOCKS \<equiv> 65536"
abbreviation EXT2_LAST_DIRECT :: u32 where "EXT2_LAST_DIRECT \<equiv> 11"
abbreviation EXT2_LAST_INDIRECT :: u32 where "EXT2_LAST_INDIRECT \<equiv> 267"
abbreviation EXT2_LAST_DOUBLE_INDIRECT :: u32 where "EXT2_LAST_DOUBLE_INDIRECT \<equiv> 65803"

subsection \<open>Indirect blocks\<close>

text \<open>
  What the three functions on indirect blocks do after the walk: write a changed block back, and
  release it if the walk releases blocks and no entry in front of the visited ones is in use. Only
  the function for single indirect blocks sets the flag of its caller when it has released the block.
\<close>

definition write_back ::
    "('d, 'c) ext2_env \<Rightarrow> u32 \<Rightarrow> u32 list \<Rightarrow> bool \<Rightarrow> 'd blocklist_walk_t \<Rightarrow> ext2_stop + int \<times> 'd blocklist_walk_t" where
  "write_back E block_nr bl bl_dirty w =
     (if bl_dirty then
        sbind (write_device E (req_device w) (req_fs w) block_nr (st32s bl) 0) (\<lambda>(rc, fs). Inr (rc, w \<lparr> req_fs := fs \<rparr>))
      else Inr (0, w))"

definition release_indirect ::
    "('d, 'c) ext2_env \<Rightarrow> u32 \<Rightarrow> bool \<Rightarrow> 'd blocklist_walk_t \<Rightarrow> ext2_stop + int \<times> u32 \<times> 'd blocklist_walk_t" where
  "release_indirect E block_nr is_empty w =
     (if block_nr \<noteq> 0 \<and> do_deallocate w \<and> is_empty then
        sbind (deallocate_block E block_nr (req_fs w)) (\<lambda>(rc, fs).
          let w = w \<lparr> req_fs := fs \<rparr>
          in if rc \<noteq> 0 then Inr (EIO, block_nr, w) else Inr (0, 0, add_i_blocks (- 2) w))
      else Inr (0, block_nr, w))"

definition walk_indirect_block ::
    "('d, 'c) ext2_env \<Rightarrow> u32 \<Rightarrow> u32 \<Rightarrow> bool \<Rightarrow> 'd blocklist_walk_t \<Rightarrow>
     ext2_stop + int \<times> u32 \<times> bool \<times> 'd blocklist_walk_t" where
  "walk_indirect_block E indirect_start block_nr dirty w =
     (let indirect_end = indirect_start + EXT2_INDIRECT_BLOCKS - 1;
          actual_start = (if first_block w < indirect_start then indirect_start else first_block w);
          actual_end = (if last_block w \<le> indirect_end then last_block w else indirect_end)
      in if actual_end < actual_start then Inr (0, block_nr, dirty, w)
         else sbind (load_indirect_block E w block_nr dirty 0) (\<lambda>(loaded, block_nr, dirty, errno, w).
           case loaded of
             None \<Rightarrow> Inr (if errno \<noteq> 0 then (EIO, block_nr, dirty, w) else (0, block_nr, dirty, w \<lparr> abort := True \<rparr>))
           | Some bl \<Rightarrow>
               let first = unat (actual_start - indirect_start)
               in sbind (walk_blocklist E (unat (actual_end - actual_start + 1)) bl first False 0 w) (\<lambda>(rc, bl, bl_dirty, w).
                 if rc \<noteq> 0 then Inr (EIO, block_nr, dirty, w)
                 else sbind (write_back E block_nr bl bl_dirty w) (\<lambda>(rc, w).
                   if rc \<noteq> 0 then Inr (EIO, block_nr, dirty, w)
                   else sbind (release_indirect E block_nr (blocklist_is_empty bl first) w) (\<lambda>(rc, nr, w).
                     if rc \<noteq> 0 then Inr (EIO, block_nr, dirty, w)
                     else Inr (0, nr, dirty \<or> nr \<noteq> block_nr, w))))))"

text \<open>The loop over the entries of a double indirect block; \<open>n\<close> entries are left from \<open>block_ptr\<close> on.\<close>

fun walk_indirect_blocks ::
    "('d, 'c) ext2_env \<Rightarrow> u32 \<Rightarrow> nat \<Rightarrow> nat \<Rightarrow> u32 list \<Rightarrow> bool \<Rightarrow> 'd blocklist_walk_t \<Rightarrow>
     ext2_stop + int \<times> nat \<times> u32 list \<times> bool \<times> 'd blocklist_walk_t" where
  "walk_indirect_blocks E double_indirect_start 0 block_ptr bl dirty w = Inr (0, block_ptr, bl, dirty, w)"
| "walk_indirect_blocks E double_indirect_start (Suc n) block_ptr bl dirty w =
     (if \<not> blocks_processed w < last_block w - first_block w + 1 then Inr (0, block_ptr, bl, dirty, w)
      else if block_ptr \<ge> length bl then Inl (Fault Read_overrun)
      else sbind (walk_indirect_block E (double_indirect_start + of_nat block_ptr * EXT2_INDIRECT_BLOCKS) (bl ! block_ptr) dirty w)
        (\<lambda>(rc, nr, dirty, w).
        let bl = bl[block_ptr := nr]
        in if rc \<noteq> 0 then Inr (EIO, block_ptr, bl, dirty, w)
           else if abort w then Inr (0, block_ptr, bl, dirty, w)
           else walk_indirect_blocks E double_indirect_start n (Suc block_ptr) bl dirty w))"

definition walk_double_indirect_block ::
    "('d, 'c) ext2_env \<Rightarrow> u32 \<Rightarrow> u32 \<Rightarrow> bool \<Rightarrow> 'd blocklist_walk_t \<Rightarrow>
     ext2_stop + int \<times> u32 \<times> bool \<times> 'd blocklist_walk_t" where
  "walk_double_indirect_block E double_indirect_start block_nr dirty w =
     (let double_indirect_end = double_indirect_start + EXT2_DOUBLE_INDIRECT_BLOCKS - 1
      in if first_block w > double_indirect_end \<or> last_block w < double_indirect_start then Inr (0, block_nr, dirty, w)
         else sbind (load_indirect_block E w block_nr dirty 0) (\<lambda>(loaded, block_nr, dirty, errno, w).
           case loaded of
             None \<Rightarrow> Inr (if errno \<noteq> 0 then (EIO, block_nr, dirty, w) else (0, block_nr, dirty, w \<lparr> abort := True \<rparr>))
           | Some bl \<Rightarrow>
               sbind (walk_indirect_blocks E double_indirect_start 256 0 bl False w) (\<lambda>(rc, block_ptr, bl, bl_dirty, w).
                 if rc \<noteq> 0 then Inr (EIO, block_nr, dirty, w)
                 else sbind (write_back E block_nr bl bl_dirty w) (\<lambda>(rc, w).
                   if rc \<noteq> 0 then Inr (EIO, block_nr, dirty, w)
                   else sbind (release_indirect E block_nr (blocklist_is_empty bl block_ptr) w) (\<lambda>(rc, nr, w).
                     if rc \<noteq> 0 then Inr (EIO, block_nr, dirty, w)
                     else Inr (0, nr, dirty, w))))))"

fun walk_double_indirect_blocks ::
    "('d, 'c) ext2_env \<Rightarrow> u32 \<Rightarrow> nat \<Rightarrow> nat \<Rightarrow> u32 list \<Rightarrow> bool \<Rightarrow> 'd blocklist_walk_t \<Rightarrow>
     ext2_stop + int \<times> nat \<times> u32 list \<times> bool \<times> 'd blocklist_walk_t" where
  "walk_double_indirect_blocks E triple_indirect_start 0 block_ptr bl dirty w = Inr (0, block_ptr, bl, dirty, w)"
| "walk_double_indirect_blocks E triple_indirect_start (Suc n) block_ptr bl dirty w =
     (if \<not> blocks_processed w < last_block w - first_block w + 1 then Inr (0, block_ptr, bl, dirty, w)
      else if block_ptr \<ge> length bl then Inl (Fault Read_overrun)
      else sbind (walk_double_indirect_block E (triple_indirect_start + of_nat block_ptr * EXT2_DOUBLE_INDIRECT_BLOCKS) (bl ! block_ptr) dirty w)
        (\<lambda>(rc, nr, dirty, w).
        let bl = bl[block_ptr := nr]
        in if rc \<noteq> 0 then Inr (EIO, block_ptr, bl, dirty, w)
           else if abort w then Inr (0, block_ptr, bl, dirty, w)
           else walk_double_indirect_blocks E triple_indirect_start n (Suc block_ptr) bl dirty w))"

definition walk_triple_indirect_block ::
    "('d, 'c) ext2_env \<Rightarrow> u32 \<Rightarrow> u32 \<Rightarrow> 'd blocklist_walk_t \<Rightarrow> ext2_stop + int \<times> u32 \<times> 'd blocklist_walk_t" where
  "walk_triple_indirect_block E triple_indirect_start block_nr w =
     sbind (load_indirect_block E w block_nr False 0) (\<lambda>(loaded, block_nr, dirty, errno, w).
       case loaded of
         None \<Rightarrow> Inr (if errno \<noteq> 0 then (EIO, block_nr, w) else (0, block_nr, w \<lparr> abort := True \<rparr>))
       | Some bl \<Rightarrow>
           sbind (walk_double_indirect_blocks E triple_indirect_start 256 0 bl False w) (\<lambda>(rc, block_ptr, bl, bl_dirty, w).
             if rc \<noteq> 0 then Inr (EIO, block_nr, w)
             else sbind (write_back E block_nr bl bl_dirty w) (\<lambda>(rc, w).
               if rc \<noteq> 0 then Inr (EIO, block_nr, w)
               else sbind (release_indirect E block_nr (blocklist_is_empty bl block_ptr) w) (\<lambda>(rc, nr, w).
                 if rc \<noteq> 0 then Inr (EIO, block_nr, w) else Inr (0, nr, w)))))"

subsection \<open>Reading, writing and truncating a file\<close>

text \<open>Division of signed numbers in C rounds towards zero.\<close>

definition c_div :: "int \<Rightarrow> int \<Rightarrow> int" where
  "c_div a b = (if a < 0 then - ((- a) div b) else a div b)"

definition init_request ::
    "ext2_inode_t \<Rightarrow> int \<Rightarrow> int \<Rightarrow> u8 list \<Rightarrow> u32 \<Rightarrow> ext2_op \<Rightarrow> 'd ext2_fs \<Rightarrow> u32 \<Rightarrow> 'd blocklist_walk_t" where
  "init_request inode bytes offset data dev op fs group_nr =
     (let n = word_of_int bytes; o32 = word_of_int offset;
          n = (if n + o32 > i_size inode \<and> op = EXT2_OP_READ then i_size inode - o32 else n)
      in \<lparr> req_data = data, blocks_processed = 0, bytes_processed = 0,
           first_block = word_of_int (c_div offset 1024), last_block = (o32 + n - 1) div 1024,
           req_bytes = n, req_offset = o32, req_device = dev,
           do_allocate = (op = EXT2_OP_WRITE), do_deallocate = (op = EXT2_OP_TRUNC), do_zero = (op = EXT2_OP_TRUNC),
           block_group_nr = group_nr, req_inode = inode, abort = False, first_byte = 0, last_byte = 0,
           process_block = op, req_fs = fs \<rparr>)"

text \<open>The walk over the four areas of a file; the walk in a later area starts if blocks are left.\<close>

definition blocks_left :: "'d blocklist_walk_t \<Rightarrow> bool" where
  "blocks_left w \<longleftrightarrow> blocks_processed w < last_block w - first_block w + 1"

definition walk_direct :: "('d, 'c) ext2_env \<Rightarrow> 'd blocklist_walk_t \<Rightarrow> ext2_stop + int \<times> 'd blocklist_walk_t" where
  "walk_direct E w =
     (if first_block w \<le> EXT2_LAST_DIRECT then
        let direct_end = (if last_block w > EXT2_LAST_DIRECT then EXT2_LAST_DIRECT else last_block w)
        in sbind (walk_blocklist E (unat (direct_end - first_block w + 1)) (direct (req_inode w)) (unat (first_block w)) False 0 w)
             (\<lambda>(rc, bl, dirty, w). Inr (rc, w \<lparr> req_inode := req_inode w \<lparr> direct := bl \<rparr> \<rparr>))
      else Inr (0, w))"

definition walk_indirect :: "('d, 'c) ext2_env \<Rightarrow> 'd blocklist_walk_t \<Rightarrow> ext2_stop + int \<times> 'd blocklist_walk_t" where
  "walk_indirect E w =
     (if blocks_left w \<and> first_block w \<le> EXT2_LAST_INDIRECT then
        sbind (walk_indirect_block E (EXT2_LAST_DIRECT + 1) (indirect1 (req_inode w)) False w)
          (\<lambda>(rc, nr, dirty, w). Inr (rc, w \<lparr> req_inode := req_inode w \<lparr> indirect1 := nr \<rparr> \<rparr>))
      else Inr (0, w))"

definition walk_double_indirect :: "('d, 'c) ext2_env \<Rightarrow> 'd blocklist_walk_t \<Rightarrow> ext2_stop + int \<times> 'd blocklist_walk_t" where
  "walk_double_indirect E w =
     (if blocks_left w \<and> first_block w \<le> EXT2_LAST_DOUBLE_INDIRECT \<and> \<not> abort w then
        sbind (walk_double_indirect_block E (EXT2_LAST_INDIRECT + 1) (indirect2 (req_inode w)) False w)
          (\<lambda>(rc, nr, dirty, w). Inr (rc, w \<lparr> req_inode := req_inode w \<lparr> indirect2 := nr \<rparr> \<rparr>))
      else Inr (0, w))"

definition walk_triple_indirect :: "('d, 'c) ext2_env \<Rightarrow> 'd blocklist_walk_t \<Rightarrow> ext2_stop + int \<times> 'd blocklist_walk_t" where
  "walk_triple_indirect E w =
     (if blocks_left w \<and> \<not> abort w then
        sbind (walk_triple_indirect_block E (EXT2_LAST_DOUBLE_INDIRECT + 1) (indirect3 (req_inode w)) w)
          (\<lambda>(rc, nr, w). Inr (rc, w \<lparr> req_inode := req_inode w \<lparr> indirect3 := nr \<rparr> \<rparr>))
      else Inr (0, w))"

definition next_area ::
    "('d blocklist_walk_t \<Rightarrow> ext2_stop + int \<times> 'd blocklist_walk_t) \<Rightarrow> int \<times> 'd blocklist_walk_t \<Rightarrow>
     ext2_stop + int \<times> 'd blocklist_walk_t" where
  "next_area f = (\<lambda>(rc, w). if rc \<noteq> 0 then Inr (rc, w) else f w)"

definition walk_areas :: "('d, 'c) ext2_env \<Rightarrow> 'd blocklist_walk_t \<Rightarrow> ext2_stop + int \<times> 'd blocklist_walk_t" where
  "walk_areas E w =
     sbind (sbind (sbind (walk_direct E w) (next_area (walk_indirect E))) (next_area (walk_double_indirect E)))
       (next_area (walk_triple_indirect E))"

text \<open>
  Result: the return value, the inode, the buffer of the caller and the file system. Every part is
  returned on errors, too, since the code has changed the structures in memory.
\<close>

definition fs_ext2_inode_rw ::
    "('d, 'c) ext2_env \<Rightarrow> ext2_inode_data_t \<Rightarrow> int \<Rightarrow> int \<Rightarrow> u8 list \<Rightarrow> ext2_op \<Rightarrow> 'd ext2_fs \<Rightarrow>
     ext2_stop + int \<times> ext2_inode_data_t \<times> u8 list \<times> 'd ext2_fs" where
  "fs_ext2_inode_rw E idata bytes offset data op fs =
     (if bytes \<le> 0 \<or> (word_of_int offset \<ge> i_size (ext2_inode idata) \<and> op = EXT2_OP_READ) then Inr (0, idata, data, fs)
      else sbind (udivmod (inode_nr (vfs_inode idata) - 1) (s_inodes_per_group (ext2_super (fs_meta fs)))) (\<lambda>(group_nr, _).
        sbind (walk_areas E (init_request (ext2_inode idata) bytes offset data (inode_dev (vfs_inode idata)) op fs group_nr)) (\<lambda>(rc, w).
          if rc \<noteq> 0 then Inr (- EIO, idata \<lparr> ext2_inode := req_inode w \<rparr>, req_data w, req_fs w)
          else
            let extend = (req_offset w + bytes_processed w > i_size (req_inode w) \<and> op = EXT2_OP_WRITE \<and> bytes_processed w > 0);
                new_end = req_offset w + bytes_processed w;
                ino = (if extend then (req_inode w) \<lparr> i_size := new_end \<rparr> else req_inode w);
                vfs = (if extend then (vfs_inode idata) \<lparr> inode_size := new_end \<rparr> else vfs_inode idata);
                changed = (op = EXT2_OP_WRITE \<or> op = EXT2_OP_TRUNC);
                ino = (if changed then ino \<lparr> i_mtime := env_time E \<rparr> else ino);
                vfs = (if changed then vfs \<lparr> inode_mtime := env_time E \<rparr> else vfs);
                idata = idata \<lparr> vfs_inode := vfs, ext2_inode := ino \<rparr>
            in sbind (if changed then put_inode E (req_fs w) (inode_nr vfs) ino else Inr (0, req_fs w)) (\<lambda>(rc, fs).
              if rc \<noteq> 0 then Inr (- EIO, idata, req_data w, fs)
              else if op = EXT2_OP_WRITE \<and> bytes_processed w = 0 then Inr (- ENOSPC, idata, req_data w, fs)
              else Inr (sint (bytes_processed w), idata, req_data w, fs)))))"

definition fs_ext2_inode_read ::
    "('d, 'c) ext2_env \<Rightarrow> ext2_inode_data_t \<Rightarrow> int \<Rightarrow> int \<Rightarrow> u8 list \<Rightarrow> 'd ext2_fs \<Rightarrow>
     ext2_stop + int \<times> ext2_inode_data_t \<times> u8 list \<times> 'd ext2_fs" where
  "fs_ext2_inode_read E idata bytes offset data fs = fs_ext2_inode_rw E idata bytes offset data EXT2_OP_READ fs"

definition fs_ext2_inode_write ::
    "('d, 'c) ext2_env \<Rightarrow> ext2_inode_data_t \<Rightarrow> int \<Rightarrow> int \<Rightarrow> u8 list \<Rightarrow> 'd ext2_fs \<Rightarrow>
     ext2_stop + int \<times> ext2_inode_data_t \<times> u8 list \<times> 'd ext2_fs" where
  "fs_ext2_inode_write E idata bytes offset data fs = fs_ext2_inode_rw E idata bytes offset data EXT2_OP_WRITE fs"

definition fs_ext2_inode_flush ::
    "('d, 'c) ext2_env \<Rightarrow> ext2_inode_data_t \<Rightarrow> 'd ext2_fs \<Rightarrow> ext2_stop + int \<times> ext2_inode_data_t \<times> 'd ext2_fs" where
  "fs_ext2_inode_flush E idata fs =
     (let vfs = vfs_inode idata;
          ino = (ext2_inode idata) \<lparr> i_mtime := inode_mtime vfs, i_atime := inode_atime vfs, i_mode := ucast (inode_mode vfs) \<rparr>
      in sbind (put_inode E fs (inode_nr vfs) ino) (\<lambda>(rc, fs).
           Inr (if rc \<noteq> 0 then - EIO else 0, idata \<lparr> ext2_inode := ino \<rparr>, fs)))"

definition fs_blocks :: "u32 \<Rightarrow> u32" where
  "fs_blocks n = n div 1024 + (if n mod 1024 \<noteq> 0 then 1 else 0)"

definition fs_ext2_inode_trunc ::
    "('d, 'c) ext2_env \<Rightarrow> ext2_inode_data_t \<Rightarrow> u32 \<Rightarrow> 'd ext2_fs \<Rightarrow> ext2_stop + int \<times> ext2_inode_data_t \<times> 'd ext2_fs" where
  "fs_ext2_inode_trunc E idata new_size fs =
     (let set_size = (\<lambda>idata. idata \<lparr> vfs_inode := (vfs_inode idata) \<lparr> inode_size := new_size \<rparr>,
                                       ext2_inode := (ext2_inode idata) \<lparr> i_size := new_size \<rparr> \<rparr>);
          finish = (\<lambda>idata fs. sbind (put_inode E fs (inode_nr (vfs_inode idata)) (ext2_inode idata)) (\<lambda>(rc, fs).
                      Inr (if rc \<noteq> 0 then EIO else 0, idata, fs)))
      in if new_size > i_size (ext2_inode idata) then finish (set_size idata) fs
         else if \<not> S_ISREG (inode_mode (vfs_inode idata)) \<and> \<not> S_ISDIR (inode_mode (vfs_inode idata)) then Inr (0, idata, fs)
         else let new_blocks = fs_blocks new_size; old_blocks = fs_blocks (i_size (ext2_inode idata))
         in if new_blocks \<noteq> old_blocks then
              sbind (fs_ext2_inode_rw E idata (sint ((old_blocks - new_blocks) * 1024)) (sint (new_blocks * 1024)) [] EXT2_OP_TRUNC fs)
                (\<lambda>(rc, idata, _, fs).
                if rc < 0 then Inr (EIO, idata, fs)
                else let ino = ext2_inode idata;
                         ino = (if new_blocks \<le> EXT2_LAST_DIRECT + 1 then ino \<lparr> indirect1 := 0 \<rparr> else ino);
                         ino = (if new_blocks \<le> EXT2_LAST_INDIRECT + 1 then ino \<lparr> indirect2 := 0 \<rparr> else ino);
                         ino = (if new_blocks \<le> EXT2_LAST_DOUBLE_INDIRECT + 1 then ino \<lparr> indirect3 := 0 \<rparr> else ino)
                     in finish (set_size (idata \<lparr> ext2_inode := ino \<rparr>)) fs)
            else finish (set_size idata) fs)"

text \<open>Failures are only reported on the console.\<close>

definition wipe_inode ::
    "('d, 'c) ext2_env \<Rightarrow> ext2_inode_data_t \<Rightarrow> 'd ext2_fs \<Rightarrow> ext2_stop + ext2_inode_data_t \<times> 'd ext2_fs" where
  "wipe_inode E idata fs =
     sbind (fs_ext2_inode_trunc E idata 0 fs) (\<lambda>(_, idata, fs).
       sbind (deallocate_inode E (vfs_inode idata) fs) (\<lambda>(_, fs). Inr (idata, fs)))"

end
