(* ===== verification/Ext2_Files.thy ===== *)
theory Ext2_Files
  imports Ext2_Walk
begin

unbundle bit_operations_syntax

text \<open>
  What a file is: the block map that the direct, indirect, double and triple indirect blocks define,
  and the walk as a sequence of states. A walk that finds every block it needs goes through the states
  \<open>S 0, S 1, \<dots>\<close> of which each results from the one before by processing the next block of the
  file, whatever the four areas of the file it crosses. \<open>tab\<close> says what the indirect block with a
  given number contains.
\<close>

subsection \<open>The block map\<close>

definition bmap :: "(u32 \<Rightarrow> u32 list) \<Rightarrow> ext2_inode_t \<Rightarrow> nat \<Rightarrow> u32" where
  "bmap tab ino k =
     (if k < 12 then direct ino ! k
      else if k < 268 then tab (indirect1 ino) ! (k - 12)
      else if k < 65804 then tab (tab (indirect2 ino) ! ((k - 268) div 256)) ! ((k - 268) mod 256)
      else tab (tab (tab (indirect3 ino) ! ((k - 65804) div 65536)) ! ((k - 65804) mod 65536 div 256)) ! ((k - 65804) mod 256))"

text \<open>The indirect blocks on the way to block \<open>k\<close> of the file.\<close>

definition ipath :: "(u32 \<Rightarrow> u32 list) \<Rightarrow> ext2_inode_t \<Rightarrow> nat \<Rightarrow> u32 list" where
  "ipath tab ino k =
     (if k < 12 then []
      else if k < 268 then [indirect1 ino]
      else if k < 65804 then [indirect2 ino, tab (indirect2 ino) ! ((k - 268) div 256)]
      else [indirect3 ino, tab (indirect3 ino) ! ((k - 65804) div 65536),
            tab (tab (indirect3 ino) ! ((k - 65804) div 65536)) ! ((k - 65804) mod 65536 div 256)])"

subsection \<open>Sequences of states\<close>

definition walk_state :: "(nat \<Rightarrow> 'd blocklist_walk_t) \<Rightarrow> nat \<Rightarrow> nat \<Rightarrow> ext2_inode_t \<Rightarrow> nat \<Rightarrow> bool" where
  "walk_state S F L ino j \<longleftrightarrow>
     first_block (S j) = of_nat F \<and> last_block (S j) = of_nat L \<and> blocks_processed (S j) = of_nat j \<and>
     \<not> do_zero (S j) \<and> \<not> do_deallocate (S j) \<and> \<not> abort (S j) \<and> req_inode (S j) = ino"

definition walk_states ::
    "('d, 'c) ext2_env \<Rightarrow> (nat \<Rightarrow> 'd blocklist_walk_t) \<Rightarrow> nat \<Rightarrow> nat \<Rightarrow> ext2_inode_t \<Rightarrow> (u32 \<Rightarrow> u32 list) \<Rightarrow> bool" where
  "walk_states E S F L ino tab \<longleftrightarrow>
     F \<le> L \<and> L < 4194304 \<and> length (direct ino) = 12 \<and> (\<forall>b. length (tab b) = 256) \<and>
     (\<forall>j \<le> L + 1 - F. walk_state S F L ino j) \<and>
     (\<forall>j < L + 1 - F. (do_allocate (S j) \<longrightarrow> bmap tab ino (F + j) \<noteq> 0) \<and>
        call_process_block E (set_byte_range (S j)) (bmap tab ino (F + j)) = Inr (0, S (Suc j)) \<and>
        (\<forall>b \<in> set (ipath tab ino (F + j)). \<forall>d e. load_indirect_block E (S j) b d e = Inr (Some (tab b), b, d, e, S j)))"

lemma walk_statesD:
  assumes "walk_states E S F L ino tab"
  shows "F \<le> L" "L < 4194304" "length (direct ino) = 12" "length (tab b) = 256"
    and "j \<le> L + 1 - F \<Longrightarrow> walk_state S F L ino j"
    and "j < L + 1 - F \<Longrightarrow> do_allocate (S j) \<Longrightarrow> bmap tab ino (F + j) \<noteq> 0"
    and "j < L + 1 - F \<Longrightarrow> call_process_block E (set_byte_range (S j)) (bmap tab ino (F + j)) = Inr (0, S (Suc j))"
    and "j < L + 1 - F \<Longrightarrow> b \<in> set (ipath tab ino (F + j)) \<Longrightarrow>
      load_indirect_block E (S j) b d e = Inr (Some (tab b), b, d, e, S j)"
  using assms unfolding walk_states_def by blast+

lemma walk_stateD:
  assumes "walk_state S F L ino j"
  shows "first_block (S j) = of_nat F" "last_block (S j) = of_nat L" "blocks_processed (S j) = of_nat j"
    "\<not> do_zero (S j)" "\<not> do_deallocate (S j)" "\<not> abort (S j)" "req_inode (S j) = ino"
  using assms unfolding walk_state_def by blast+

lemma blocks_left_iff:
  assumes ws: "walk_states E S F L ino tab" and j: "j \<le> L + 1 - F"
  shows "blocks_processed (S j) < last_block (S j) - first_block (S j) + 1 \<longleftrightarrow> j < L + 1 - F"
proof -
  have FL: "F \<le> L" "L < 4194304" using walk_statesD(1,2) [OF ws] by simp_all
  have "(of_nat L - of_nat F + 1 :: u32) = of_nat (L + 1 - F)" using FL by (simp add: of_nat_diff)
  moreover have "unat (of_nat (L + 1 - F) :: u32) = L + 1 - F" "unat (of_nat j :: u32) = j"
    using FL j by (intro of_nat_unat_u32; linarith)+
  ultimately show ?thesis by (simp only: walk_stateD [OF walk_statesD(5) [OF ws j]] word_less_nat_alt)
qed

text \<open>The number of blocks of the walk in front of block \<open>s\<close> of the file.\<close>

definition done_before :: "nat \<Rightarrow> nat \<Rightarrow> nat \<Rightarrow> nat" where
  "done_before F L s = min (L + 1) s - F"

lemma walk_blocklist_states:
  assumes ws: "walk_states E S F L ino tab" and "j + m \<le> L + 1 - F"
    and "\<forall>t < m. i + t < length bl \<and> bl ! (i + t) = bmap tab ino (F + j + t)"
  shows "walk_blocklist E m bl i d e (S j) = Inr (0, bl, d, S (j + m))"
  using assms(2,3)
proof (induction m arbitrary: i j)
  case 0
  then show ?case by simp
next
  case (Suc m)
  have j: "j < L + 1 - F" using Suc.prems(1) by simp
  have st: "walk_state S F L ino (Suc j)" using j by (intro walk_statesD(5) [OF ws]) simp
  have i: "i < length bl" "bl ! i = bmap tab ino (F + j)" using Suc.prems(2) [rule_format, of 0] by simp_all
  have alloc: "\<not> (do_allocate (S j) \<and> bl ! i = 0)" using walk_statesD(6) [OF ws j] i(2) by simp
  have "walk_blocklist E m bl (Suc i) d e (S (Suc j)) = Inr (0, bl, d, S (Suc j + m))"
  proof (rule Suc.IH)
    show "\<forall>t < m. Suc i + t < length bl \<and> bl ! (Suc i + t) = bmap tab ino (F + Suc j + t)"
      using Suc.prems(2) by (metis Suc_mono add_Suc add_Suc_right)
  qed (use Suc.prems(1) in simp)
  then show ?case
    using i walk_statesD(7) [OF ws j] walk_stateD(4) [OF st]
    unfolding walk_blocklist.simps if_not_P [OF alloc] sbind.simps by simp
qed

lemma walk_indirect_states:
  assumes ws: "walk_states E S F L ino tab" and s: "s + 256 < 4294967296"
    and cov: "\<forall>k. s \<le> k \<and> k < s + 256 \<longrightarrow> nr \<in> set (ipath tab ino k) \<and> bmap tab ino k = tab nr ! (k - s)"
  shows "walk_indirect_block E (of_nat s) nr d (S (done_before F L s)) = Inr (0, nr, d, S (done_before F L (s + 256)))"
proof -
  let ?j = "done_before F L s"
  have FL: "F \<le> L" "L < 4194304" using walk_statesD(1,2) [OF ws] by simp_all
  have st: "walk_state S F L ino ?j" by (intro walk_statesD(5) [OF ws]) (simp add: done_before_def)
  have st2: "walk_state S F L ino (done_before F L (s + 256))" by (intro walk_statesD(5) [OF ws]) (simp add: done_before_def)
  define A where "A = max F s"
  define Z where "Z = min L (s + 255)"
  have u: "unat (of_nat F :: u32) = F" "unat (of_nat L :: u32) = L" "unat (of_nat s :: u32) = s" "unat (of_nat (s + 255) :: u32) = s + 255"
    using FL s by (simp_all only: of_nat_unat_u32)
  have start: "(if first_block (S ?j) < of_nat s then of_nat s else first_block (S ?j)) = (of_nat A :: u32)"
    using u by (simp add: walk_stateD [OF st] A_def word_less_nat_alt max_def)
  have e: "(of_nat s + EXT2_INDIRECT_BLOCKS - 1 :: u32) = of_nat (s + 255)" by simp
  have fin: "(if last_block (S ?j) \<le> of_nat (s + 255) then last_block (S ?j) else of_nat (s + 255)) = (of_nat Z :: u32)"
    unfolding walk_stateD(2) [OF st] Z_def word_le_nat_alt u by (simp add: min_def)
  have uA: "unat (of_nat A :: u32) = A" and uZ: "unat (of_nat Z :: u32) = Z"
    using FL s by (simp_all add: A_def Z_def of_nat_unat_u32)
  show ?thesis
  proof (cases "Z < A")
    case True
    then have "done_before F L (s + 256) = ?j" using FL by (auto simp: done_before_def A_def Z_def)
    moreover have "(of_nat Z :: u32) < of_nat A" using True by (simp only: word_less_nat_alt uA uZ)
    ultimately show ?thesis unfolding walk_indirect_block_def Let_def e start fin by simp
  next
    case False
    have j: "?j < L + 1 - F" "F + ?j = A" using False FL by (auto simp: done_before_def A_def Z_def)
    have jm: "?j + (Z + 1 - A) = done_before F L (s + 256)" using False FL by (auto simp: done_before_def A_def Z_def)
    have "nr \<in> set (ipath tab ino (F + ?j))" using cov j(2) False by (auto simp: A_def Z_def)
    note load = walk_statesD(8) [OF ws j(1) this, of d 0]
    have first: "unat (of_nat A - of_nat s :: u32) = A - s"
      by (subst unat_sub) (simp_all add: word_le_nat_alt uA u, simp add: A_def)
    have "unat (of_nat Z - of_nat A :: u32) = Z - A"
      using False by (subst unat_sub) (simp_all add: word_le_nat_alt uA uZ)
    then have cnt: "unat (of_nat Z - of_nat A + 1 :: u32) = Z + 1 - A"
      using False FL by (subst unat_add_no_wrap) (auto simp: Z_def)
    have "walk_blocklist E (Z + 1 - A) (tab nr) (A - s) False 0 (S ?j) = Inr (0, tab nr, False, S (?j + (Z + 1 - A)))"
    proof (rule walk_blocklist_states [OF ws])
      show "\<forall>t < Z + 1 - A. A - s + t < length (tab nr) \<and> tab nr ! (A - s + t) = bmap tab ino (F + ?j + t)"
      proof (intro allI impI)
        fix t assume t: "t < Z + 1 - A"
        then have "s \<le> A + t \<and> A + t < s + 256" by (auto simp: A_def Z_def)
        then have "tab nr ! (A + t - s) = bmap tab ino (A + t)" using cov by simp
        moreover have "A - s + t = A + t - s" by (simp add: A_def)
        ultimately show "A - s + t < length (tab nr) \<and> tab nr ! (A - s + t) = bmap tab ino (F + ?j + t)"
          using t walk_statesD(4) [OF ws, of nr] by (auto simp: j(2) Z_def A_def)
      qed
    qed (use jm in \<open>auto simp: done_before_def\<close>)
    note wb = this [unfolded jm]
    have "\<not> (of_nat Z :: u32) < of_nat A" using False unfolding word_less_nat_alt uA uZ .
    then show ?thesis
      unfolding walk_indirect_block_def Let_def e start fin
      using load walk_stateD(5) [OF st2] by (simp only: if_False sbind.simps prod.case option.case first cnt wb)
        (simp add: write_back_def release_indirect_def)
  qed
qed

text \<open>The loop over a double indirect block.\<close>

lemma walk_indirect_blocks_states:
  assumes ws: "walk_states E S F L ino tab" and s: "s + 65536 < 4294967296" and n: "p + n = 256" and bl: "length bl = 256"
    and cov: "\<forall>k. s \<le> k \<and> k < s + 65536 \<longrightarrow> bl ! ((k - s) div 256) \<in> set (ipath tab ino k) \<and>
      bmap tab ino k = tab (bl ! ((k - s) div 256)) ! ((k - s) mod 256)"
  shows "\<exists>p'. walk_indirect_blocks E (of_nat s) n p bl d (S (done_before F L (s + p * 256))) =
    Inr (0, p', bl, d, S (done_before F L (s + 65536)))"
  using n
proof (induction n arbitrary: p)
  case 0
  then show ?case by simp
next
  case (Suc n)
  let ?j = "done_before F L (s + p * 256)"
  have FL: "F \<le> L" "L < 4194304" using walk_statesD(1,2) [OF ws] by simp_all
  have st: "walk_state S F L ino ?j" by (intro walk_statesD(5) [OF ws]) (simp add: done_before_def)
  have more: "blocks_processed (S ?j) < last_block (S ?j) - first_block (S ?j) + 1 \<longleftrightarrow> ?j < L + 1 - F"
    by (rule blocks_left_iff [OF ws]) (simp add: done_before_def)
  show ?case
  proof (cases "?j < L + 1 - F")
    case False
    then have "?j = done_before F L (s + 65536)" using Suc.prems by (auto simp: done_before_def)
    then show ?thesis using more False by simp
  next
    case True
    have p: "p < 256" using Suc.prems by simp
    have "walk_indirect_block E (of_nat (s + p * 256)) (bl ! p) d (S ?j) =
        Inr (0, bl ! p, d, S (done_before F L (s + p * 256 + 256)))"
    proof (rule walk_indirect_states [OF ws])
      show "\<forall>k. s + p * 256 \<le> k \<and> k < s + p * 256 + 256 \<longrightarrow>
          bl ! p \<in> set (ipath tab ino k) \<and> bmap tab ino k = tab (bl ! p) ! (k - (s + p * 256))"
      proof (intro allI impI)
        fix k assume k: "s + p * 256 \<le> k \<and> k < s + p * 256 + 256"
        then obtain r where r: "k = s + p * 256 + r" "r < 256" by (metis le_iff_add nat_add_left_cancel_less)
        then have "(k - s) div 256 = p" "(k - s) mod 256 = k - (s + p * 256)" by simp_all
        moreover have "k < s + 65536" using r p by linarith
        ultimately show "bl ! p \<in> set (ipath tab ino k) \<and> bmap tab ino k = tab (bl ! p) ! (k - (s + p * 256))"
          using cov [rule_format, of k] r(1) by simp
      qed
    qed (use s p in linarith)
    moreover have "\<not> abort (S (done_before F L (s + p * 256 + 256)))"
      by (intro walk_stateD(6) [OF walk_statesD(5) [OF ws]]) (simp add: done_before_def)
    moreover have "s + p * 256 + 256 = s + Suc p * 256" by simp
    ultimately show ?thesis
      using Suc.IH [of "Suc p"] Suc.prems True more p bl by (auto simp: Let_def)
  qed
qed

lemma walk_double_states:
  assumes ws: "walk_states E S F L ino tab" and s: "s + 65536 < 4294967296"
    and cov: "\<forall>k. s \<le> k \<and> k < s + 65536 \<longrightarrow> nr \<in> set (ipath tab ino k) \<and> tab nr ! ((k - s) div 256) \<in> set (ipath tab ino k) \<and>
      bmap tab ino k = tab (tab nr ! ((k - s) div 256)) ! ((k - s) mod 256)"
  shows "walk_double_indirect_block E (of_nat s) nr d (S (done_before F L s)) = Inr (0, nr, d, S (done_before F L (s + 65536)))"
proof -
  let ?j = "done_before F L s"
  have FL: "F \<le> L" "L < 4194304" using walk_statesD(1,2) [OF ws] by simp_all
  have st: "walk_state S F L ino ?j" and st2: "walk_state S F L ino (done_before F L (s + 65536))"
    by (intro walk_statesD(5) [OF ws]; simp add: done_before_def)+
  have u: "unat (of_nat F :: u32) = F" "unat (of_nat L :: u32) = L" "unat (of_nat s :: u32) = s"
      "unat (of_nat (s + 65535) :: u32) = s + 65535"
    using FL s by (simp_all only: of_nat_unat_u32)
  have e: "(of_nat s + EXT2_DOUBLE_INDIRECT_BLOCKS - 1 :: u32) = of_nat (s + 65535)" by simp
  have out: "(first_block (S ?j) > of_nat (s + 65535) \<or> last_block (S ?j) < of_nat s) \<longleftrightarrow> F > s + 65535 \<or> L < s"
    unfolding walk_stateD [OF st] word_less_nat_alt u ..
  show ?thesis
  proof (cases "F > s + 65535 \<or> L < s")
    case True
    then have "done_before F L (s + 65536) = ?j" by (auto simp: done_before_def)
    then show ?thesis unfolding walk_double_indirect_block_def Let_def e out using True by simp
  next
    case False
    have j: "?j < L + 1 - F" "F + ?j = max F s" using False FL by (auto simp: done_before_def)
    have "s \<le> max F s" "max F s < s + 65536" using False by auto
    then have "nr \<in> set (ipath tab ino (F + ?j))" unfolding j(2) using cov by blast
    note load = walk_statesD(8) [OF ws j(1) this, of d 0]
    have "\<exists>p'. walk_indirect_blocks E (of_nat s) 256 0 (tab nr) False (S (done_before F L (s + 0 * 256))) =
        Inr (0, p', tab nr, False, S (done_before F L (s + 65536)))"
      by (rule walk_indirect_blocks_states [OF ws s]) (use walk_statesD(4) [OF ws] cov in auto)
    then obtain p' where "walk_indirect_blocks E (of_nat s) 256 0 (tab nr) False (S ?j) =
        Inr (0, p', tab nr, False, S (done_before F L (s + 65536)))" by auto
    then show ?thesis
      unfolding walk_double_indirect_block_def Let_def e out if_not_P [OF False] load sbind.simps prod.case option.case
      using walk_stateD(5) [OF st2] by (simp add: write_back_def release_indirect_def)
  qed
qed

lemma walk_double_blocks_states:
  assumes ws: "walk_states E S F L ino tab" and s: "s + 16777216 < 4294967296" and n: "p + n = 256" and bl: "length bl = 256"
    and cov: "\<forall>k. s \<le> k \<and> k < s + 16777216 \<longrightarrow> bl ! ((k - s) div 65536) \<in> set (ipath tab ino k) \<and>
      tab (bl ! ((k - s) div 65536)) ! ((k - s) mod 65536 div 256) \<in> set (ipath tab ino k) \<and>
      bmap tab ino k = tab (tab (bl ! ((k - s) div 65536)) ! ((k - s) mod 65536 div 256)) ! ((k - s) mod 256)"
  shows "\<exists>p'. walk_double_indirect_blocks E (of_nat s) n p bl d (S (done_before F L (s + p * 65536))) =
    Inr (0, p', bl, d, S (done_before F L (s + 16777216)))"
  using n
proof (induction n arbitrary: p)
  case 0
  then show ?case by simp
next
  case (Suc n)
  let ?j = "done_before F L (s + p * 65536)"
  have more: "blocks_processed (S ?j) < last_block (S ?j) - first_block (S ?j) + 1 \<longleftrightarrow> ?j < L + 1 - F"
    by (rule blocks_left_iff [OF ws]) (simp add: done_before_def)
  show ?case
  proof (cases "?j < L + 1 - F")
    case False
    then have "?j = done_before F L (s + 16777216)" using Suc.prems by (auto simp: done_before_def)
    then show ?thesis using more False by simp
  next
    case True
    have p: "p < 256" using Suc.prems by simp
    have "walk_double_indirect_block E (of_nat (s + p * 65536)) (bl ! p) d (S ?j) =
        Inr (0, bl ! p, d, S (done_before F L (s + p * 65536 + 65536)))"
    proof (rule walk_double_states [OF ws])
      show "\<forall>k. s + p * 65536 \<le> k \<and> k < s + p * 65536 + 65536 \<longrightarrow>
          bl ! p \<in> set (ipath tab ino k) \<and> tab (bl ! p) ! ((k - (s + p * 65536)) div 256) \<in> set (ipath tab ino k) \<and>
          bmap tab ino k = tab (tab (bl ! p) ! ((k - (s + p * 65536)) div 256)) ! ((k - (s + p * 65536)) mod 256)"
      proof (intro allI impI)
        fix k assume k: "s + p * 65536 \<le> k \<and> k < s + p * 65536 + 65536"
        then obtain r where r: "k = s + p * 65536 + r" "r < 65536" by (metis le_iff_add nat_add_left_cancel_less)
        then have "k - s = p * 65536 + r" "k - (s + p * 65536) = r" by simp_all
        moreover have "(p * 65536 + r) div 65536 = p" "(p * 65536 + r) mod 65536 = r" using r(2) by simp_all
        moreover have "(p * 65536 + r) mod 256 = r mod 256"
        proof -
          have "p * 65536 + r = r + (p * 256) * 256" by simp
          then show ?thesis by (simp only: mod_mult_self1)
        qed
        moreover have "k < s + 16777216" using r p by linarith
        ultimately show "bl ! p \<in> set (ipath tab ino k) \<and> tab (bl ! p) ! ((k - (s + p * 65536)) div 256) \<in> set (ipath tab ino k) \<and>
            bmap tab ino k = tab (tab (bl ! p) ! ((k - (s + p * 65536)) div 256)) ! ((k - (s + p * 65536)) mod 256)"
          using cov [rule_format, of k] k by simp
      qed
    qed (use s p in linarith)
    moreover have "\<not> abort (S (done_before F L (s + p * 65536 + 65536)))"
      by (intro walk_stateD(6) [OF walk_statesD(5) [OF ws]]) (simp add: done_before_def)
    moreover have "s + p * 65536 + 65536 = s + Suc p * 65536" by simp
    ultimately show ?thesis
      using Suc.IH [of "Suc p"] Suc.prems True more p bl by (auto simp: Let_def)
  qed
qed

lemma walk_triple_states:
  assumes ws: "walk_states E S F L ino tab" and left: "done_before F L 65804 < L + 1 - F"
  shows "walk_triple_indirect_block E 65804 (indirect3 ino) (S (done_before F L 65804)) = Inr (0, indirect3 ino, S (L + 1 - F))"
proof -
  let ?j = "done_before F L 65804" and ?nr = "indirect3 ino"
  have FL: "F \<le> L" "L < 4194304" using walk_statesD(1,2) [OF ws] by simp_all
  have k: "\<not> F + ?j < 65804" using left FL by (auto simp: done_before_def)
  have "?nr \<in> set (ipath tab ino (F + ?j))" using k by (simp add: ipath_def)
  note load = walk_statesD(8) [OF ws left this, of False 0]
  have fin: "done_before F L (65804 + 16777216) = L + 1 - F" using FL by (simp add: done_before_def)
  have "\<exists>p'. walk_double_indirect_blocks E (of_nat 65804) 256 0 (tab ?nr) False (S (done_before F L (65804 + 0 * 65536))) =
      Inr (0, p', tab ?nr, False, S (done_before F L (65804 + 16777216)))"
    by (rule walk_double_blocks_states [OF ws])
      (use walk_statesD(4) [OF ws] in \<open>auto simp: bmap_def ipath_def\<close>)
  then obtain p' where "walk_double_indirect_blocks E 65804 256 0 (tab ?nr) False (S ?j) =
      Inr (0, p', tab ?nr, False, S (L + 1 - F))" unfolding fin by auto
  then show ?thesis
    unfolding walk_triple_indirect_block_def load sbind.simps prod.case option.case
    using walk_stateD(5) [OF walk_statesD(5) [OF ws order_refl]] by (simp add: write_back_def release_indirect_def)
qed

lemma same_inode: "req_inode w = ino \<Longrightarrow> w \<lparr> req_inode := ino \<rparr> = w"
  by simp

lemma done_before_state:
  assumes ws: "walk_states E S F L ino tab"
  shows "walk_state S F L ino (done_before F L s)"
    and "blocks_left (S (done_before F L s)) \<longleftrightarrow> done_before F L s < L + 1 - F"
    and "first_block (S (done_before F L s)) \<le> c \<longleftrightarrow> F \<le> unat c"
proof -
  have FL: "F \<le> L" "L < 4194304" using walk_statesD(1,2) [OF ws] by simp_all
  show st: "walk_state S F L ino (done_before F L s)" by (intro walk_statesD(5) [OF ws]) (simp add: done_before_def)
  show "blocks_left (S (done_before F L s)) \<longleftrightarrow> done_before F L s < L + 1 - F"
    unfolding blocks_left_def by (rule blocks_left_iff [OF ws]) (simp add: done_before_def)
  have "unat (of_nat F :: u32) = F" using FL by (simp add: of_nat_unat_u32)
  then show "first_block (S (done_before F L s)) \<le> c \<longleftrightarrow> F \<le> unat c"
    by (simp only: walk_stateD(1) [OF st] word_le_nat_alt)
qed

lemma walk_direct_states:
  assumes ws: "walk_states E S F L ino tab"
  shows "walk_direct E (S 0) = Inr (0, S (done_before F L 12))"
proof (cases "F \<le> 11")
  case True
  have FL: "F \<le> L" "L < 4194304" using walk_statesD(1,2) [OF ws] by simp_all
  have st: "walk_state S F L ino 0" by (rule walk_statesD(5) [OF ws]) simp
  have u: "unat (of_nat F :: u32) = F" "unat (of_nat L :: u32) = L" using FL by (simp_all add: of_nat_unat_u32)
  define Z where "Z = min L 11"
  have uZ: "unat (of_nat Z :: u32) = Z" by (rule of_nat_unat_u32) (simp add: Z_def)
  have fin: "(if last_block (S 0) > EXT2_LAST_DIRECT then EXT2_LAST_DIRECT else last_block (S 0)) = (of_nat Z :: u32)"
    unfolding walk_stateD(2) [OF st] word_less_nat_alt u by (auto simp: Z_def)
  have ZF: "F \<le> Z" using True FL by (simp add: Z_def)
  then have "unat (of_nat Z - of_nat F :: u32) = Z - F" by (subst unat_sub) (simp_all add: word_le_nat_alt uZ u)
  then have cnt: "unat (of_nat Z - of_nat F + 1 :: u32) = Z + 1 - F"
    using ZF by (subst unat_add_no_wrap) (auto simp: Z_def)
  have jm: "0 + (Z + 1 - F) = done_before F L 12" by (auto simp: done_before_def Z_def)
  have "walk_blocklist E (Z + 1 - F) (direct ino) F False 0 (S 0) = Inr (0, direct ino, False, S (0 + (Z + 1 - F)))"
    by (rule walk_blocklist_states [OF ws]) (use walk_statesD(3) [OF ws] in \<open>auto simp: Z_def bmap_def\<close>)
  note wb = this [unfolded jm]
  have "first_block (S 0) \<le> EXT2_LAST_DIRECT" using True u by (simp add: walk_stateD [OF st] word_le_nat_alt)
  then show ?thesis
    unfolding walk_direct_def Let_def fin walk_stateD(7) [OF st] walk_stateD(1) [OF st] cnt u wb
    using walk_stateD(7) [OF done_before_state(1) [OF ws]] by (simp add: same_inode)
next
  case False
  have FL: "F \<le> L" "L < 4194304" using walk_statesD(1,2) [OF ws] by simp_all
  have z: "done_before F L 12 = 0" using False by (simp add: done_before_def)
  then have "\<not> first_block (S 0) \<le> EXT2_LAST_DIRECT"
    using done_before_state(3) [OF ws, of 12 EXT2_LAST_DIRECT] False by simp
  then show ?thesis using z by (simp add: walk_direct_def)
qed

lemma walk_indirect_area:
  assumes ws: "walk_states E S F L ino tab"
  shows "walk_indirect E (S (done_before F L 12)) = Inr (0, S (done_before F L 268))"
proof (cases "done_before F L 12 < L + 1 - F \<and> F \<le> 267")
  case True
  have "walk_indirect_block E (of_nat 12) (indirect1 ino) False (S (done_before F L 12)) =
      Inr (0, indirect1 ino, False, S (done_before F L (12 + 256)))"
    by (rule walk_indirect_states [OF ws]) (auto simp: ipath_def bmap_def)
  then show ?thesis
    using True walk_stateD(7) [OF done_before_state(1) [OF ws]]
    by (simp add: walk_indirect_def done_before_state(2,3) [OF ws] same_inode)
next
  case False
  then have "done_before F L 12 = done_before F L 268" by (auto simp: done_before_def)
  then show ?thesis using False by (auto simp: walk_indirect_def done_before_state(2,3) [OF ws])
qed

lemma walk_double_area:
  assumes ws: "walk_states E S F L ino tab"
  shows "walk_double_indirect E (S (done_before F L 268)) = Inr (0, S (done_before F L 65804))"
proof (cases "done_before F L 268 < L + 1 - F \<and> F \<le> 65803")
  case True
  have "walk_double_indirect_block E (of_nat 268) (indirect2 ino) False (S (done_before F L 268)) =
      Inr (0, indirect2 ino, False, S (done_before F L (268 + 65536)))"
    by (rule walk_double_states [OF ws]) (auto simp: ipath_def bmap_def)
  then show ?thesis
    using True walk_stateD(6,7) [OF done_before_state(1) [OF ws]]
    by (simp add: walk_double_indirect_def done_before_state(2,3) [OF ws] same_inode)
next
  case False
  then have "done_before F L 268 = done_before F L 65804" by (auto simp: done_before_def)
  then show ?thesis using False by (auto simp: walk_double_indirect_def done_before_state(2,3) [OF ws])
qed

lemma walk_triple_area:
  assumes ws: "walk_states E S F L ino tab"
  shows "walk_triple_indirect E (S (done_before F L 65804)) = Inr (0, S (L + 1 - F))"
proof (cases "done_before F L 65804 < L + 1 - F")
  case True
  then show ?thesis
    using walk_triple_states [OF ws] walk_stateD(6,7) [OF done_before_state(1) [OF ws]]
      walk_stateD(7) [OF walk_statesD(5) [OF ws order_refl]]
    by (simp add: walk_triple_indirect_def done_before_state(2) [OF ws] same_inode)
next
  case False
  then have "\<not> blocks_left (S (done_before F L 65804))" by (simp add: done_before_state(2) [OF ws])
  moreover have "done_before F L 65804 = L + 1 - F" using False by (simp add: done_before_def)
  ultimately show ?thesis by (simp add: walk_triple_indirect_def)
qed

lemma walk_areas_states:
  assumes ws: "walk_states E S F L ino tab"
  shows "walk_areas E (S 0) = Inr (0, S (L + 1 - F))"
  by (simp add: walk_areas_def next_area_def walk_direct_states [OF ws] walk_indirect_area [OF ws]
      walk_double_area [OF ws] walk_triple_area [OF ws])

end
