(* ===== verification/Ext2_Read.thy ===== *)
theory Ext2_Read
  imports Ext2_Files
begin

unbundle bit_operations_syntax

text \<open>
  Reading a file. The contents of a file are what the block map and the blocks of the disk say, with
  zeroes where a block is missing; the walk of a read goes through the file block by block and stores
  exactly these bytes.
\<close>

subsection \<open>Contents of a file\<close>

definition tables :: "u8 list \<Rightarrow> u32 \<Rightarrow> u32 list" where
  "tables D b = (if b = 0 then replicate 256 0 else ld32s (disk_block D (unat b)) 0 256)"

definition file_byte :: "u8 list \<Rightarrow> ext2_inode_t \<Rightarrow> nat \<Rightarrow> u8" where
  "file_byte D ino p =
     (let b = bmap (tables D) ino (p div 1024) in if b = 0 then 0 else D ! (unat b * 1024 + p mod 1024))"

definition file_bytes :: "u8 list \<Rightarrow> ext2_inode_t \<Rightarrow> nat \<Rightarrow> nat \<Rightarrow> u8 list" where
  "file_bytes D ino off n = map (file_byte D ino) [off..<off + n]"

text \<open>Every block on the way to the blocks \<open>F\<close> to \<open>L\<close> of the file lies on the disk.\<close>

definition blocks_exist :: "u8 list \<Rightarrow> ext2_inode_t \<Rightarrow> nat \<Rightarrow> nat \<Rightarrow> bool" where
  "blocks_exist D ino F L \<longleftrightarrow>
     (\<forall>k. F \<le> k \<and> k \<le> L \<longrightarrow> (\<forall>b \<in> set (bmap (tables D) ino k # ipath (tables D) ino k). (unat b + 1) * 1024 \<le> length D))"

lemma length_ld32s [simp]: "length (ld32s bs i n) = n"
  by (simp add: ld32s_def)

lemma length_tables [simp]: "length (tables D b) = 256"
  by (simp add: tables_def)

lemma file_bytes_append: "file_bytes D ino off (a + b) = file_bytes D ino off a @ file_bytes D ino (off + a) b"
  using upt_add_eq_append [of off "off + a" b] by (simp add: file_bytes_def add.assoc)

lemma length_file_bytes [simp]: "length (file_bytes D ino off n) = n"
  by (simp add: file_bytes_def)

text \<open>The part of a file that lies in one block.\<close>

lemma file_bytes_block:
  assumes "x + m \<le> 1024" "bmap (tables D) ino k \<noteq> 0 \<longrightarrow> (unat (bmap (tables D) ino k) + 1) * 1024 \<le> length D"
  shows "file_bytes D ino (k * 1024 + x) m =
    (if bmap (tables D) ino k = 0 then replicate m 0 else take m (drop (unat (bmap (tables D) ino k) * 1024 + x) D))"
proof (rule nth_equalityI)
  fix t assume "t < length (file_bytes D ino (k * 1024 + x) m)"
  then have t: "t < m" by simp
  have "x + t < 1024" using t assms(1) by linarith
  then have "(k * 1024 + (x + t)) div 1024 = k" "(k * 1024 + (x + t)) mod 1024 = x + t" by simp_all
  then show "file_bytes D ino (k * 1024 + x) m ! t =
      (if bmap (tables D) ino k = 0 then replicate m 0 else take m (drop (unat (bmap (tables D) ino k) * 1024 + x) D)) ! t"
    using t assms by (auto simp: file_bytes_def file_byte_def add.assoc)
qed (use assms in auto)

lemma splice_append: "length xs + length ys \<le> length zs \<Longrightarrow> splice (splice zs 0 xs) (length xs) ys = splice zs 0 (xs @ ys)"
  by (simp add: splice_def add.commute)

subsection \<open>The bytes of each block\<close>

text \<open>
  A transfer of \<open>n\<close> bytes at \<open>off\<close>: the bytes that are done after \<open>j\<close> blocks and the first and last
  byte of each block.
\<close>

definition bytes_done :: "nat \<Rightarrow> nat \<Rightarrow> nat \<Rightarrow> nat" where
  "bytes_done off n j = min n (j * 1024 - off mod 1024)"

definition byte_from :: "nat \<Rightarrow> nat \<Rightarrow> nat" where
  "byte_from off j = (if j = 0 then off mod 1024 else 0)"

definition byte_to :: "nat \<Rightarrow> nat \<Rightarrow> nat \<Rightarrow> nat" where
  "byte_to off n j = (if j = (off + n - 1) div 1024 - off div 1024 then (off + n - 1) mod 1024 else 1023)"

lemma bytes_done_step:
  assumes "0 < n" "j < (off + n - 1) div 1024 + 1 - off div 1024"
  shows "(off div 1024 + j) * 1024 + byte_from off j = off + bytes_done off n j"
    and "bytes_done off n (Suc j) = bytes_done off n j + (byte_to off n j - byte_from off j + 1)"
    and "byte_from off j \<le> byte_to off n j" "byte_to off n j < 1024"
proof -
  obtain F r where o: "off = F * 1024 + r" "r < 1024" by (metis div_mod_decomp mod_less_divisor zero_less_numeral)
  obtain L q where e: "off + n - 1 = L * 1024 + q" "q < 1024" by (metis div_mod_decomp mod_less_divisor zero_less_numeral)
  have d: "off div 1024 = F" "off mod 1024 = r" "(off + n - 1) div 1024 = L" "(off + n - 1) mod 1024 = q"
    using o e by simp_all
  have n: "n + r + F * 1024 = L * 1024 + q + 1" using o e assms(1) by linarith
  have j: "j + F \<le> L" using assms(2) unfolding d by linarith
  have last: "j = L - F \<longleftrightarrow> j + F = L" using j by linarith
  have bf: "byte_from off j = (if j = 0 then r else 0)" by (simp only: byte_from_def d)
  have bt: "byte_to off n j = (if j + F = L then q else 1023)" by (simp only: byte_to_def d last)
  have P: "bytes_done off n j = j * 1024 - r" "bytes_done off n (Suc j) = (if j + F = L then n else Suc j * 1024 - r)"
    using n j e(2) by (auto simp: bytes_done_def d(2))
  have r0: "r \<le> q" if "j + F = L" "j = 0" using that n assms(1) by linarith
  show "(off div 1024 + j) * 1024 + byte_from off j = off + bytes_done off n j"
    unfolding d bf P using o by (cases j) auto
  show "byte_from off j \<le> byte_to off n j" "byte_to off n j < 1024"
    unfolding bf bt using r0 o(2) e(2) by auto
  show "bytes_done off n (Suc j) = bytes_done off n j + (byte_to off n j - byte_from off j + 1)"
    unfolding bf bt P using n o(2) r0 by (cases j) auto
qed

lemma bytes_done_all:
  assumes "0 < n"
  shows "bytes_done off n ((off + n - 1) div 1024 + 1 - off div 1024) = n" "bytes_done off n 0 = 0"
proof -
  obtain F r where o: "off = F * 1024 + r" "r < 1024" by (metis div_mod_decomp mod_less_divisor zero_less_numeral)
  obtain L q where e: "off + n - 1 = L * 1024 + q" "q < 1024" by (metis div_mod_decomp mod_less_divisor zero_less_numeral)
  have d: "off div 1024 = F" "off mod 1024 = r" "(off + n - 1) div 1024 = L" using o e by simp_all
  have n: "n + r + F * 1024 = L * 1024 + q + 1" using o e assms(1) by linarith
  have "n \<le> (L + 1 - F) * 1024 - r" using n e(2) by (simp add: diff_mult_distrib)
  then show "bytes_done off n ((off + n - 1) div 1024 + 1 - off div 1024) = n" unfolding bytes_done_def d by simp
qed (simp add: bytes_done_def)

text \<open>A request for \<open>n\<close> bytes at \<open>off\<close> after \<open>j\<close> blocks.\<close>

definition transfer_at :: "nat \<Rightarrow> nat \<Rightarrow> nat \<Rightarrow> 'd blocklist_walk_t \<Rightarrow> bool" where
  "transfer_at off n j w \<longleftrightarrow>
     blocks_processed w = of_nat j \<and> bytes_processed w = of_nat (bytes_done off n j) \<and>
     first_block w = of_nat (off div 1024) \<and> last_block w = of_nat ((off + n - 1) div 1024) \<and>
     req_offset w = of_nat off \<and> req_bytes w = of_nat n"

abbreviation transfer_blocks :: "nat \<Rightarrow> nat \<Rightarrow> nat" where
  "transfer_blocks off n \<equiv> (off + n - 1) div 1024 + 1 - off div 1024"

definition at_block :: "nat \<Rightarrow> nat \<Rightarrow> nat \<Rightarrow> 'd blocklist_walk_t \<Rightarrow> 'd blocklist_walk_t" where
  "at_block off n j w = w \<lparr> first_byte := of_nat (byte_from off j), last_byte := of_nat (byte_to off n j) \<rparr>"

lemma unat_mod_1024: "m < 4294967296 \<Longrightarrow> (of_nat m :: u32) mod 1024 = of_nat (m mod 1024)"
  by (simp add: word_unat_eq_iff unat_mod of_nat_unat_u32 mod_less_eq_dividend le_less_trans)

lemma set_byte_range_at:
  assumes w: "transfer_at off n j w" and n: "0 < n" "off + n \<le> 2147483648" and j: "j < transfer_blocks off n"
  shows "set_byte_range w = at_block off n j w"
proof -
  let ?F = "off div 1024" and ?L = "(off + n - 1) div 1024"
  have FL: "?F \<le> ?L" using n(1) by (intro div_le_mono) linarith
  have small: "?L < 2097152" using n by (simp add: div_less_iff_less_mult)
  have "(of_nat ?L - of_nat ?F :: u32) = of_nat (?L - ?F)" using FL by (simp add: of_nat_diff)
  moreover have "unat (of_nat (?L - ?F) :: u32) = ?L - ?F" "unat (of_nat j :: u32) = j"
    using small j by (intro of_nat_unat_u32; linarith)+
  ultimately have "(of_nat j :: u32) = of_nat ?L - of_nat ?F \<longleftrightarrow> j = ?L - ?F" "(of_nat j :: u32) = 0 \<longleftrightarrow> j = 0"
    by (simp_all only: word_unat_eq_iff) simp_all
  moreover have "(of_nat n + of_nat off - 1 :: u32) = of_nat (off + n - 1)" using n(1) by (simp add: of_nat_diff)
  then have "(of_nat n + of_nat off - 1 :: u32) mod 1024 = of_nat ((off + n - 1) mod 1024)"
    using n by (simp only: unat_mod_1024)
  moreover have "(of_nat off :: u32) mod 1024 = of_nat (off mod 1024)" using n by (intro unat_mod_1024) linarith
  ultimately show ?thesis
    using w unfolding transfer_at_def set_byte_range_def at_block_def byte_from_def byte_to_def by (simp only: if_distrib) simp
qed

lemma block_length:
  assumes n: "0 < n" and j: "j < transfer_blocks off n"
  shows "unat (of_nat (byte_to off n j) - of_nat (byte_from off j) + 1 :: u32) = byte_to off n j - byte_from off j + 1"
proof -
  note b = bytes_done_step(3,4) [OF n j]
  have u: "unat (of_nat (byte_to off n j) :: u32) = byte_to off n j" "unat (of_nat (byte_from off j) :: u32) = byte_from off j"
    using b by (intro of_nat_unat_u32; linarith)+
  have "unat (of_nat (byte_to off n j) - of_nat (byte_from off j) :: u32) = byte_to off n j - byte_from off j"
    using b(1) by (subst unat_sub) (simp_all add: word_le_nat_alt u)
  then show ?thesis using b by (subst unat_add_no_wrap) auto
qed

subsection \<open>The walk of a read\<close>

definition read_state :: "u8 list \<Rightarrow> nat \<Rightarrow> nat \<Rightarrow> 'd blocklist_walk_t \<Rightarrow> nat \<Rightarrow> 'd blocklist_walk_t" where
  "read_state D off n w j =
     w \<lparr> req_data := splice (req_data w) 0 (file_bytes D (req_inode w) off (bytes_done off n j)),
         blocks_processed := of_nat j, bytes_processed := of_nat (bytes_done off n j),
         first_byte := (if j = 0 then first_byte w else of_nat (byte_from off (j - 1))),
         last_byte := (if j = 0 then last_byte w else of_nat (byte_to off n (j - 1))) \<rparr>"

definition reads :: "nat \<Rightarrow> nat \<Rightarrow> 'd blocklist_walk_t \<Rightarrow> bool" where
  "reads off n w \<longleftrightarrow>
     transfer_at off n 0 w \<and> 0 < n \<and> off + n \<le> 2147483648 \<and> n \<le> length (req_data w) \<and> process_block w = EXT2_OP_READ \<and>
     \<not> do_allocate w \<and> \<not> do_deallocate w \<and> \<not> do_zero w \<and> \<not> abort w \<and> length (direct (req_inode w)) = 12"

lemma transfer_at_read_state: "transfer_at off n 0 w \<Longrightarrow> transfer_at off n j (read_state D off n w j)"
  by (simp add: transfer_at_def read_state_def)

lemma bytes_done_le: "bytes_done off n j \<le> n"
  by (simp add: bytes_done_def)

lemma read_block_ok:
  assumes "(if nr \<noteq> 0 then read_device E (req_device w) (req_fs w) nr (last_byte w - first_byte w + 1) (first_byte w)
      else Inr (0, replicate (unat (last_byte w - first_byte w + 1)) 0)) = Inr (0, bs)"
    and "put_tmp (req_data w) (unat (bytes_processed w)) bs = Inr xs"
  shows "read_block E w nr = Inr (0, block_done (w \<lparr> req_data := xs \<rparr>))"
  unfolding read_block_def Let_def assms(1) using assms(2) by simp

lemma div_1024_word: "m < 4294967296 \<Longrightarrow> (of_nat m :: u32) div 1024 = of_nat (m div 1024)"
  by (simp add: word_unat_eq_iff unat_div of_nat_unat_u32 div_le_dividend le_less_trans)

text \<open>The request of a read of \<open>m\<close> bytes, of which \<open>n\<close> lie in the file.\<close>

lemma reads_init_request:
  assumes "off < unat (i_size ino)" "unat (i_size ino) < 2147483648" "0 < m" "m < 2147483648"
    and "n = min m (unat (i_size ino) - off)" "n \<le> length buf" "length (direct ino) = 12"
  shows "reads off n (init_request ino (int m) (int off) buf dev EXT2_OP_READ fs g)"
proof -
  have n: "0 < n" "off + n < 2147483648" using assms by auto
  have u: "unat (of_nat m + of_nat off :: u32) = m + off" "unat (of_nat off :: u32) = off"
    using assms of_nat_unat_u32 [of "m + off"] of_nat_unat_u32 [of off] by simp_all
  have b: "(if (of_nat m + of_nat off :: u32) > i_size ino then i_size ino - of_nat off else of_nat m) = of_nat n"
  proof (cases "unat (i_size ino) < m + off")
    case True
    then have "n = unat (i_size ino) - off" using assms by simp
    moreover have "(of_nat (unat (i_size ino) - off) :: u32) = i_size ino - of_nat off" using assms(1) by (simp add: of_nat_diff)
    ultimately show ?thesis using True by (simp only: word_less_nat_alt u) simp
  next
    case False
    then have "n = m" using assms by simp
    then show ?thesis using False by (simp only: word_less_nat_alt u) simp
  qed
  have "(of_nat off + of_nat n - 1 :: u32) = of_nat (off + n - 1)" using n by (simp add: of_nat_diff)
  then have "(of_nat off + of_nat n - 1 :: u32) div 1024 = of_nat ((off + n - 1) div 1024)"
    using n by (simp only: div_1024_word)
  moreover have "c_div (int off) 1024 = int (off div 1024)" unfolding c_div_def zdiv_int by simp
  ultimately show ?thesis
    using n assms(6,7) b bytes_done_all(2) [OF n(1), of off]
    by (simp add: reads_def transfer_at_def init_request_def Let_def)
qed

context block_device
begin

lemma read_step:
  assumes E: "ext2_device E (req_device w) rd wr" and d: "ready (fs_dev (req_fs w))" "disk (fs_dev (req_fs w)) = D" "1024 dvd length D"
    and w: "reads off n w" and j: "j < transfer_blocks off n"
    and b: "(unat (bmap (tables D) (req_inode w) (off div 1024 + j)) + 1) * 1024 \<le> length D"
  shows "call_process_block E (set_byte_range (read_state D off n w j)) (bmap (tables D) (req_inode w) (off div 1024 + j)) =
    Inr (0, read_state D off n w (Suc j))"
proof -
  let ?b = "bmap (tables D) (req_inode w) (off div 1024 + j)" and ?s = "read_state D off n w j"
  let ?x = "byte_from off j" and ?m = "byte_to off n j - byte_from off j + 1"
  have w': "transfer_at off n 0 w" "0 < n" "off + n \<le> 2147483648" "n \<le> length (req_data w)" "process_block w = EXT2_OP_READ"
    using w by (simp_all add: reads_def)
  note bd = bytes_done_step [OF w'(2) j]
  have sr: "set_byte_range ?s = at_block off n j ?s" by (rule set_byte_range_at [OF transfer_at_read_state [OF w'(1)] w'(2,3) j])
  have xm: "?x + ?m \<le> 1024" using bd(3,4) by linarith
  have ux: "unat (of_nat ?x :: u32) = ?x" using xm by (intro of_nat_unat_u32) linarith
  have um: "unat (of_nat (byte_to off n j) - of_nat ?x + 1 :: u32) = ?m" by (rule block_length [OF w'(2) j])
  have "(of_nat (byte_to off n j) - of_nat ?x + 1 :: u32) \<noteq> 0" using um by (metis add_gr_0 less_numeral_extra(1) less_not_refl unat_0)
  then have rdev: "read_device E (req_device w) (req_fs w) ?b (of_nat (byte_to off n j) - of_nat ?x + 1) (of_nat ?x) =
      Inr (0, take ?m (drop (unat ?b * 1024 + ?x) D))"
    using read_device_disk [OF E d(1)] b xm d(2,3) by (simp add: um ux)
  have fb: "file_bytes D (req_inode w) (off + bytes_done off n j) ?m =
      (if ?b = 0 then replicate ?m 0 else take ?m (drop (unat ?b * 1024 + ?x) D))"
    using file_bytes_block [OF xm, of D "req_inode w" "off div 1024 + j"] b unfolding bd(1) by simp
  have bytes: "(if ?b \<noteq> 0 then read_device E (req_device w) (req_fs w) ?b (of_nat (byte_to off n j) - of_nat ?x + 1) (of_nat ?x)
      else Inr (0, replicate ?m 0)) = Inr (0, file_bytes D (req_inode w) (off + bytes_done off n j) ?m)"
    unfolding fb rdev by simp
  have done_n: "bytes_done off n (Suc j) \<le> n" by (rule bytes_done_le)
  have ud: "unat (of_nat (bytes_done off n j) :: u32) = bytes_done off n j"
    using bytes_done_le [of off n j] w'(3) by (intro of_nat_unat_u32) linarith
  have put: "put_tmp (req_data ?s) (bytes_done off n j) (file_bytes D (req_inode w) (off + bytes_done off n j) ?m) =
      Inr (splice (req_data w) 0 (file_bytes D (req_inode w) off (bytes_done off n (Suc j))))"
    using splice_append [of "file_bytes D (req_inode w) off (bytes_done off n j)" "file_bytes D (req_inode w) (off + bytes_done off n j) ?m" "req_data w"]
      done_n w'(4) bytes_done_le [of off n j] unfolding bd(2) file_bytes_append by (simp add: put_tmp_def read_state_def)
  have "(of_nat (bytes_done off n j) + (of_nat (byte_to off n j) - of_nat ?x + 1) :: u32) = of_nat (bytes_done off n (Suc j))"
    unfolding bd(2) using bd(3) by (simp add: of_nat_diff)
  then have st: "block_done ((at_block off n j ?s) \<lparr> req_data := splice (req_data w) 0 (file_bytes D (req_inode w) off (bytes_done off n (Suc j))) \<rparr>) =
      read_state D off n w (Suc j)"
    by (simp add: at_block_def read_state_def block_done_def add.commute)
  have f: "first_byte (at_block off n j ?s) = of_nat ?x" "last_byte (at_block off n j ?s) = of_nat (byte_to off n j)"
      "req_device (at_block off n j ?s) = req_device w" "req_fs (at_block off n j ?s) = req_fs w" "req_data (at_block off n j ?s) = req_data ?s"
      "bytes_processed (at_block off n j ?s) = of_nat (bytes_done off n j)" "process_block (at_block off n j ?s) = EXT2_OP_READ"
    using w'(5) by (simp_all add: at_block_def read_state_def)
  have "read_block E (at_block off n j ?s) ?b = Inr (0, read_state D off n w (Suc j))"
    unfolding st [symmetric] by (rule read_block_ok) (unfold f um ud, rule bytes, rule put)
  then show ?thesis unfolding sr call_process_block_def f by simp
qed

lemma load_existing:
  assumes E: "ext2_device E (req_device w) rd wr" and d: "ready (fs_dev (req_fs w))" "disk (fs_dev (req_fs w)) = D" "1024 dvd length D"
    and b: "(unat b + 1) * 1024 \<le> length D" "b = 0 \<longrightarrow> \<not> do_allocate w"
  shows "load_indirect_block E w b dt e = Inr (Some (tables D b), b, dt, e, w)"
proof -
  have "env_mem E 1024" using E by (simp add: ext2_device_def)
  moreover have "read_device E (req_device w) (req_fs w) b 1024 0 = Inr (0, disk_block D (unat b))"
    using read_device_disk [OF E d(1), of 1024 b 0] d(2,3) b by (simp add: disk_block_def)
  ultimately show ?thesis using b(2) by (simp add: load_indirect_block_def tables_def)
qed

lemma walk_states_read:
  assumes E: "ext2_device E (req_device w) rd wr" and d: "ready (fs_dev (req_fs w))" "disk (fs_dev (req_fs w)) = D" "1024 dvd length D"
    and w: "reads off n w" and ex: "blocks_exist D (req_inode w) (off div 1024) ((off + n - 1) div 1024)"
  shows "walk_states E (read_state D off n w) (off div 1024) ((off + n - 1) div 1024) (req_inode w) (tables D)"
proof -
  have w': "transfer_at off n 0 w" "0 < n" "off + n \<le> 2147483648" using w by (simp_all add: reads_def)
  have FL: "off div 1024 \<le> (off + n - 1) div 1024" using w'(2) by (intro div_le_mono) linarith
  have "(off + n - 1) div 1024 < 4194304" using w'(3) by (simp add: div_less_iff_less_mult)
  moreover have "walk_state (read_state D off n w) (off div 1024) ((off + n - 1) div 1024) (req_inode w) j" for j
    using w by (simp add: walk_state_def read_state_def reads_def transfer_at_def)
  moreover have "(unat b + 1) * 1024 \<le> length D"
    if "j < transfer_blocks off n" "b \<in> set (bmap (tables D) (req_inode w) (off div 1024 + j) # ipath (tables D) (req_inode w) (off div 1024 + j))" for j b
  proof -
    have "off div 1024 \<le> off div 1024 + j \<and> off div 1024 + j \<le> (off + n - 1) div 1024" using that(1) FL by linarith
    then show ?thesis using ex that(2) unfolding blocks_exist_def by blast
  qed
  moreover have "load_indirect_block E (read_state D off n w j) b dt e = Inr (Some (tables D b), b, dt, e, read_state D off n w j)"
    if "(unat b + 1) * 1024 \<le> length D" for j b dt e
    by (rule load_existing) (use E d that w in \<open>simp_all add: read_state_def reads_def\<close>)
  ultimately show ?thesis
    using FL w read_step [OF E d w] unfolding walk_states_def by (auto simp: reads_def read_state_def)
qed

lemma inode_read_disk:
  assumes E: "ext2_device E (inode_dev (vfs_inode idata)) rd wr"
    and d: "ready (fs_dev fs)" "disk (fs_dev fs) = D" "1024 dvd length D"
    and grp: "s_inodes_per_group (ext2_super (fs_meta fs)) \<noteq> 0"
    and ino: "ext2_inode idata = ino" "length (direct ino) = 12" "unat (i_size ino) < 2147483648"
    and m: "off < unat (i_size ino)" "0 < m" "m < 2147483648" "n = min m (unat (i_size ino) - off)" "n \<le> length buf"
    and ex: "blocks_exist D ino (off div 1024) ((off + n - 1) div 1024)"
  shows "fs_ext2_inode_read E idata (int m) (int off) buf fs = Inr (int n, idata, splice buf 0 (file_bytes D ino off n), fs)"
proof -
  define g where "g = (inode_nr (vfs_inode idata) - 1) div s_inodes_per_group (ext2_super (fs_meta fs))"
  define w where "w = init_request ino (int m) (int off) buf (inode_dev (vfs_inode idata)) EXT2_OP_READ fs g"
  have w: "reads off n w" unfolding w_def by (rule reads_init_request) (use ino m in simp_all)
  have f: "req_device w = inode_dev (vfs_inode idata)" "req_fs w = fs" "req_inode w = ino" "req_data w = buf"
      "blocks_processed w = 0" "bytes_processed w = 0"
    by (simp_all add: w_def init_request_def Let_def)
  have n: "0 < n" "n < 2147483648" using m ino(3) by auto
  have "walk_states E (read_state D off n w) (off div 1024) ((off + n - 1) div 1024) (req_inode w) (tables D)"
    by (rule walk_states_read) (use E d w ex f in simp_all)
  from walk_areas_states [OF this]
  have "walk_areas E (read_state D off n w 0) = Inr (0, read_state D off n w (transfer_blocks off n))" .
  moreover have "read_state D off n w 0 = w"
    using bytes_done_all(2) [OF n(1), of off] f by (simp add: read_state_def splice_def file_bytes_def)
  moreover define r where "r = read_state D off n w (transfer_blocks off n)"
  ultimately have walk: "walk_areas E w = Inr (0, r)" by simp
  have out: "req_data r = splice buf 0 (file_bytes D ino off n)" "bytes_processed r = of_nat n" "req_inode r = ino" "req_fs r = fs"
    unfolding r_def read_state_def bytes_done_all(1) [OF n(1), of off] using f by simp_all
  have "\<not> (of_nat off :: u32) \<ge> i_size ino" using m(1) ino(3) by (simp add: word_le_nat_alt of_nat_unat_u32)
  moreover have "udivmod (inode_nr (vfs_inode idata) - 1) (s_inodes_per_group (ext2_super (fs_meta fs))) =
      Inr (g, (inode_nr (vfs_inode idata) - 1) mod s_inodes_per_group (ext2_super (fs_meta fs)))"
    using grp by (simp add: udivmod_def g_def)
  ultimately show ?thesis
    using m(2) ino(1) n(2) unfolding fs_ext2_inode_read_def fs_ext2_inode_rw_def
    by (simp add: w_def [symmetric] walk out sint_block Let_def)
qed

end

end
