(* ===== verification/Ext2_Alloc.thy ===== *)
theory Ext2_Alloc
  imports Ext2_Bitmap
begin

unbundle bit_operations_syntax

text \<open>
  Correctness of the block bitmaps. A file system with the layout that the code expects (one copy of
  the superblock and of the descriptor table at the start of each group, then the block bitmap) is
  described by which blocks are in use; allocation takes a free block, marks it and nothing else, and
  releasing a block is the inverse.
\<close>

subsection \<open>Bits\<close>

lemma bitfield_get_iff: "BITFIELD_GET_BIT bm i \<noteq> 0 \<longleftrightarrow> bit (bm ! (i div 8)) (i mod 8)"
  by (simp only: BITFIELD_GET_BIT_def and_one_eq bit_iff_odd_drop_bit even_iff_mod_2_eq_zero)

lemma same_bit: "i div 8 = j div 8 \<and> i mod 8 = j mod 8 \<longleftrightarrow> i = (j :: nat)"
  by (metis div_mult_mod_eq)

lemma bitfield_set:
  assumes "i div 8 < length bm" "j div 8 < length bm"
  shows "BITFIELD_GET_BIT (BITFIELD_SET_BIT bm i) j \<noteq> 0 \<longleftrightarrow> BITFIELD_GET_BIT bm j \<noteq> 0 \<or> i = j"
proof -
  have "i mod 8 < 8" "j mod 8 < 8" by simp_all
  then have "bit (bm ! (j div 8) OR push_bit (i mod 8) (1 :: u8)) (j mod 8) \<longleftrightarrow> bit (bm ! (j div 8)) (j mod 8) \<or> i mod 8 = j mod 8"
    by (auto simp: bit_or_iff bit_push_bit_iff bit_exp_iff)
  then show ?thesis
    unfolding bitfield_get_iff BITFIELD_SET_BIT_def using assms same_bit [of i j] by (auto simp: nth_list_update)
qed

lemma bitfield_clear:
  assumes "i div 8 < length bm" "j div 8 < length bm"
  shows "BITFIELD_GET_BIT (BITFIELD_CLEAR_BIT bm i) j \<noteq> 0 \<longleftrightarrow> BITFIELD_GET_BIT bm j \<noteq> 0 \<and> i \<noteq> j"
proof -
  have "i mod 8 < 8" "j mod 8 < 8" by simp_all
  then have "bit (bm ! (j div 8) AND NOT (push_bit (i mod 8) (1 :: u8))) (j mod 8) \<longleftrightarrow> bit (bm ! (j div 8)) (j mod 8) \<and> i mod 8 \<noteq> j mod 8"
    by (auto simp: bit_and_iff bit_not_iff bit_push_bit_iff bit_exp_iff)
  then show ?thesis
    unfolding bitfield_get_iff BITFIELD_CLEAR_BIT_def using assms same_bit [of i j] by (auto simp: nth_list_update)
qed

lemma length_bitfield [simp]: "length (BITFIELD_SET_BIT bm i) = length bm" "length (BITFIELD_CLEAR_BIT bm i) = length bm"
  by (simp_all add: BITFIELD_SET_BIT_def BITFIELD_CLEAR_BIT_def)

text \<open>Setting and clearing a bit that was clear gives the old bit field.\<close>

lemma bitfield_clear_set:
  assumes "i div 8 < length bm" "BITFIELD_GET_BIT bm i = 0"
  shows "BITFIELD_CLEAR_BIT (BITFIELD_SET_BIT bm i) i = bm"
proof -
  have "\<not> bit (bm ! (i div 8)) (i mod 8)" using bitfield_get_iff [of bm i] assms(2) by simp
  then have "(bm ! (i div 8) OR push_bit (i mod 8) 1) AND NOT (push_bit (i mod 8) (1 :: u8)) = bm ! (i div 8)"
    by (intro bit_eqI) (auto simp: bit_and_iff bit_or_iff bit_not_iff bit_push_bit_iff bit_exp_iff)
  then show ?thesis using assms(1) by (simp add: BITFIELD_CLEAR_BIT_def BITFIELD_SET_BIT_def)
qed

text \<open>The search finds the first free entry.\<close>

lemma scan_bitmap_found:
  "scan_bitmap bm i n = Inr (Some k) \<Longrightarrow>
    i \<le> k \<and> k < i + n \<and> k div 8 < length bm \<and> BITFIELD_GET_BIT bm k = 0 \<and> (\<forall>l. i \<le> l \<and> l < k \<longrightarrow> BITFIELD_GET_BIT bm l \<noteq> 0)"
proof (induction bm i n rule: scan_bitmap.induct)
  case (2 bm i n)
  then show ?case by (auto simp: less_Suc_eq_le Suc_le_eq split: if_splits) (metis le_neq_implies_less)
qed simp

lemma scan_bitmap_none:
  "scan_bitmap bm i n = Inr None \<Longrightarrow> \<forall>l. i \<le> l \<and> l < i + n \<longrightarrow> BITFIELD_GET_BIT bm l \<noteq> 0"
proof (induction bm i n rule: scan_bitmap.induct)
  case (2 bm i n)
  then show ?case by (auto split: if_splits) (metis Suc_leI le_neq_implies_less)
qed auto

lemma scan_bitmap_total: "i + n \<le> 8 * length bm \<Longrightarrow> \<exists>r. scan_bitmap bm i n = Inr r"
proof (induction bm i n rule: scan_bitmap.induct)
  case (2 bm i n)
  then show ?case by (auto simp: not_le div_less_iff_less_mult)
qed simp

subsection \<open>Layout\<close>

text \<open>
  Block 1 holds the superblock, the descriptor table starts in block 2, and each group starts with
  copies of both, followed by its block bitmap. The inode bitmaps and tables do not matter here.
\<close>

definition meta_ok :: "ext2_metadata_t \<Rightarrow> bool" where
  "meta_ok m \<longleftrightarrow>
     length (s_uuid (ext2_super m)) = 4 \<and> s_first_data_block (ext2_super m) = 1 \<and>
     0 < unat (s_blocks_per_group (ext2_super m)) \<and> unat (s_blocks_per_group (ext2_super m)) \<le> 8192 \<and>
     bgdt m \<noteq> [] \<and> unat (bgdt_size m) = length (bgdt m) \<and> 32 * length (bgdt m) \<le> 1024 * unat (bgdt_blocks m) \<and>
     (\<forall>g < length (bgdt m). length (bg_reserved (bgdt m ! g)) = 12 \<and>
        unat (bg_block_bitmap (bgdt m ! g)) = g * unat (s_blocks_per_group (ext2_super m)) + unat (bgdt_blocks m) + 2)"

definition layout_ok :: "ext2_metadata_t \<Rightarrow> u8 list \<Rightarrow> bool" where
  "layout_ok m D \<longleftrightarrow>
     meta_ok m \<and> length D < 2147483648 \<and>
     ((length (bgdt m) - 1) * unat (s_blocks_per_group (ext2_super m)) + unat (bgdt_blocks m) + 3) * 1024 \<le> length D"

lemma meta_okD:
  assumes "meta_ok m"
  shows "length (s_uuid (ext2_super m)) = 4" "s_first_data_block (ext2_super m) = 1"
    "0 < unat (s_blocks_per_group (ext2_super m))" "unat (s_blocks_per_group (ext2_super m)) \<le> 8192"
    "bgdt m \<noteq> []" "unat (bgdt_size m) = length (bgdt m)" "32 * length (bgdt m) \<le> 1024 * unat (bgdt_blocks m)"
    and "g < length (bgdt m) \<Longrightarrow> length (bg_reserved (bgdt m ! g)) = 12"
    and "g < length (bgdt m) \<Longrightarrow>
      unat (bg_block_bitmap (bgdt m ! g)) = g * unat (s_blocks_per_group (ext2_super m)) + unat (bgdt_blocks m) + 2"
  using assms unfolding meta_ok_def by blast+

text \<open>The block bitmap of group \<open>g\<close> and the state of its entries.\<close>

definition bitmap_of :: "ext2_metadata_t \<Rightarrow> u8 list \<Rightarrow> nat \<Rightarrow> u8 list" where
  "bitmap_of m D g = disk_block D (unat (bg_block_bitmap (bgdt m ! g)))"

definition used_at :: "ext2_metadata_t \<Rightarrow> u8 list \<Rightarrow> nat \<Rightarrow> nat \<Rightarrow> bool" where
  "used_at m D g i \<longleftrightarrow> BITFIELD_GET_BIT (bitmap_of m D g) i \<noteq> 0"

definition block_at :: "ext2_metadata_t \<Rightarrow> nat \<Rightarrow> nat \<Rightarrow> u32" where
  "block_at m g i = of_nat (g * unat (s_blocks_per_group (ext2_super m)) + 1 + i)"

text \<open>Bytes that the allocation of blocks does not touch.\<close>

definition metadata_byte :: "ext2_metadata_t \<Rightarrow> nat \<Rightarrow> bool" where
  "metadata_byte m p \<longleftrightarrow>
     1024 \<le> p \<and> p < (unat (bgdt_blocks m) + 2) * 1024 \<or>
     (\<exists>g < length (bgdt m). p div 1024 = unat (bg_block_bitmap (bgdt m ! g)))"

lemma bitmap_block_bound:
  assumes "layout_ok m D" "g < length (bgdt m)"
  shows "(unat (bg_block_bitmap (bgdt m ! g)) + 1) * 1024 \<le> length D" "unat (bgdt_blocks m) + 2 \<le> unat (bg_block_bitmap (bgdt m ! g))"
proof -
  have m: "meta_ok m" using assms by (simp add: layout_ok_def)
  have "g * unat (s_blocks_per_group (ext2_super m)) \<le> (length (bgdt m) - 1) * unat (s_blocks_per_group (ext2_super m))"
    using assms(2) by (intro mult_le_mono1) linarith
  then have "(g * unat (s_blocks_per_group (ext2_super m)) + unat (bgdt_blocks m) + 2 + 1) * 1024 \<le>
      ((length (bgdt m) - 1) * unat (s_blocks_per_group (ext2_super m)) + unat (bgdt_blocks m) + 3) * 1024"
    by (intro mult_le_mono1) simp
  then show "(unat (bg_block_bitmap (bgdt m ! g)) + 1) * 1024 \<le> length D"
    unfolding meta_okD(9) [OF m assms(2)] by (rule order_trans) (use assms(1) in \<open>simp add: layout_ok_def\<close>)
  show "unat (bgdt_blocks m) + 2 \<le> unat (bg_block_bitmap (bgdt m ! g))" unfolding meta_okD(9) [OF m assms(2)] by simp
qed

lemma length_bitmap_of: "layout_ok m D \<Longrightarrow> g < length (bgdt m) \<Longrightarrow> length (bitmap_of m D g) = 1024"
  using bitmap_block_bound [of m D g] by (simp add: bitmap_of_def length_disk_block)

lemma bitmap_block_inj:
  assumes "meta_ok m" "g < length (bgdt m)" "h < length (bgdt m)" "bg_block_bitmap (bgdt m ! g) = bg_block_bitmap (bgdt m ! h)"
  shows "g = h"
proof -
  have "g * unat (s_blocks_per_group (ext2_super m)) = h * unat (s_blocks_per_group (ext2_super m))"
    using meta_okD(9) [OF assms(1,2)] meta_okD(9) [OF assms(1,3)] arg_cong [OF assms(4), of unat] by linarith
  then show ?thesis using meta_okD(3) [OF assms(1)] by simp
qed

subsection \<open>Writing the metadata\<close>

lemma length_st32s [simp]: "length (st32s ws) = 4 * length ws"
  by (induction ws) (simp_all add: st32s_def)

lemma length_super_bytes: "length (s_uuid s) = 4 \<Longrightarrow> length (super_bytes s) = 120"
  by (simp add: super_bytes_def)

lemma length_bgd_bytes: "length (bg_reserved g) = 12 \<Longrightarrow> length (bgd_bytes g) = 32"
  by (simp add: bgd_bytes_def)

lemma length_bgdt_bytes: "(\<forall>g \<in> set gs. length (bg_reserved g) = 12) \<Longrightarrow> length (bgdt_bytes gs) = 32 * length gs"
  by (induction gs) (simp_all add: bgdt_bytes_def length_bgd_bytes)

definition meta_written :: "ext2_metadata_t \<Rightarrow> u8 list \<Rightarrow> u8 list" where
  "meta_written m D = splice (splice D 2048 (bgdt_bytes (bgdt m))) 1024 (super_bytes (ext2_super m))"

lemma meta_sizes:
  assumes "layout_ok m D"
  shows "length (super_bytes (ext2_super m)) = 120" "length (bgdt_bytes (bgdt m)) = 32 * length (bgdt m)"
    "2048 + 32 * length (bgdt m) \<le> (unat (bgdt_blocks m) + 2) * 1024" "(unat (bgdt_blocks m) + 2) * 1024 \<le> length D"
proof -
  have m: "meta_ok m" using assms by (simp add: layout_ok_def)
  show "length (super_bytes (ext2_super m)) = 120" by (rule length_super_bytes [OF meta_okD(1) [OF m]])
  show "length (bgdt_bytes (bgdt m)) = 32 * length (bgdt m)"
    using meta_okD(8) [OF m] by (intro length_bgdt_bytes) (auto simp: in_set_conv_nth)
  show "2048 + 32 * length (bgdt m) \<le> (unat (bgdt_blocks m) + 2) * 1024" using meta_okD(7) [OF m] by simp
  show "(unat (bgdt_blocks m) + 2) * 1024 \<le> length D" using assms by (simp add: layout_ok_def)
qed

lemma descriptor_bytes:
  assumes "layout_ok m D"
  shows "unat (bgdt_size m * of_nat sizeof_bgd) = 32 * length (bgdt m)"
proof -
  have m: "meta_ok m" "length D < 2147483648" using assms by (simp_all add: layout_ok_def)
  have "bgdt_size m = of_nat (length (bgdt m))" using meta_okD(6) [OF m(1)] by (metis of_nat_unat ucast_id)
  then have "bgdt_size m * of_nat sizeof_bgd = (of_nat (32 * length (bgdt m)) :: u32)" by simp
  moreover have "unat (of_nat (32 * length (bgdt m)) :: u32) = 32 * length (bgdt m)"
    using meta_sizes(3,4) [OF assms] m(2) by (intro of_nat_unat_u32) linarith
  ultimately show ?thesis by (simp only:)
qed

lemma meta_written_frame:
  assumes "layout_ok m D" "x < length D" "x < 1024 \<or> (unat (bgdt_blocks m) + 2) * 1024 \<le> x"
  shows "meta_written m D ! x = D ! x" "length (meta_written m D) = length D"
  using assms meta_sizes [OF assms(1)] by (auto simp: meta_written_def nth_splice)

subsection \<open>Changing a bitmap\<close>

definition fs_good ::
    "(int \<Rightarrow> int \<Rightarrow> 'd \<Rightarrow> int \<times> u8 list) \<Rightarrow> (int \<Rightarrow> int \<Rightarrow> u8 list \<Rightarrow> 'd \<Rightarrow> int \<times> 'd) \<Rightarrow> ('d \<Rightarrow> u8 list) \<Rightarrow> ('d \<Rightarrow> bool) \<Rightarrow>
     ('d, 'c) ext2_env \<Rightarrow> 'd ext2_fs \<Rightarrow> bool" where
  "fs_good rd wr disk ready E fs \<longleftrightarrow>
     ext2_device E (meta_device (fs_meta fs)) rd wr \<and> ready (fs_dev fs) \<and> 1024 dvd length (disk (fs_dev fs)) \<and>
     layout_ok (fs_meta fs) (disk (fs_dev fs))"

text \<open>The counters of free blocks of a group and of the file system.\<close>

definition count_free :: "nat \<Rightarrow> u16 \<Rightarrow> u32 \<Rightarrow> ext2_metadata_t \<Rightarrow> ext2_metadata_t" where
  "count_free g a b m = m
     \<lparr> bgdt := (bgdt m)[g := (bgdt m ! g) \<lparr> bg_free_blocks_count := bg_free_blocks_count (bgdt m ! g) + a \<rparr>],
       ext2_super := (ext2_super m) \<lparr> s_free_blocks_count := s_free_blocks_count (ext2_super m) + b \<rparr> \<rparr>"

lemma count_free_simps [simp]:
  "meta_device (count_free g a b m) = meta_device m" "bgdt_size (count_free g a b m) = bgdt_size m"
  "bgdt_blocks (count_free g a b m) = bgdt_blocks m" "length (bgdt (count_free g a b m)) = length (bgdt m)"
  "s_blocks_per_group (ext2_super (count_free g a b m)) = s_blocks_per_group (ext2_super m)"
  "s_inodes_per_group (ext2_super (count_free g a b m)) = s_inodes_per_group (ext2_super m)"
  by (simp_all add: count_free_def)

lemma count_free_bitmap [simp]:
  "h < length (bgdt m) \<Longrightarrow> bg_block_bitmap (bgdt (count_free g a b m) ! h) = bg_block_bitmap (bgdt m ! h)"
  "h < length (bgdt m) \<Longrightarrow> bg_inode_table (bgdt (count_free g a b m) ! h) = bg_inode_table (bgdt m ! h)"
  "h < length (bgdt m) \<Longrightarrow> bg_reserved (bgdt (count_free g a b m) ! h) = bg_reserved (bgdt m ! h)"
  by (cases "h = g"; simp add: count_free_def)+

lemma meta_ok_count_free: "meta_ok m \<Longrightarrow> meta_ok (count_free g a b m)"
  unfolding meta_ok_def by simp (simp add: count_free_def)

lemma metadata_byte_count_free: "metadata_byte (count_free g a b m) p = metadata_byte m p"
  by (simp add: metadata_byte_def cong: conj_cong)

lemma disk_block_eqI:
  assumes "length D' = length D" "(b + 1) * 1024 \<le> length D" "\<And>p. b * 1024 \<le> p \<Longrightarrow> p < (b + 1) * 1024 \<Longrightarrow> D' ! p = D ! p"
  shows "disk_block D' b = disk_block D b"
proof (rule nth_equalityI)
  show "length (disk_block D' b) = length (disk_block D b)" using assms by (simp add: length_disk_block)
  fix i assume "i < length (disk_block D' b)"
  then have "i < 1024" using assms by (simp add: length_disk_block)
  then show "disk_block D' b ! i = disk_block D b ! i" using assms by (simp add: nth_disk_block)
qed

lemma disk_block_splice:
  assumes "(b + 1) * 1024 \<le> length D" "length bs = 1024"
  shows "disk_block (splice D (b * 1024) bs) b = bs"
    and "c \<noteq> b \<Longrightarrow> (c + 1) * 1024 \<le> length D \<Longrightarrow> disk_block (splice D (b * 1024) bs) c = disk_block D c"
proof -
  show "disk_block (splice D (b * 1024) bs) b = bs" using take_drop_splice [of "b * 1024" bs D] assms by (simp add: disk_block_def)
  show "disk_block (splice D (b * 1024) bs) c = disk_block D c" if "c \<noteq> b" "(c + 1) * 1024 \<le> length D"
  proof (rule disk_block_eqI)
    fix p assume p: "c * 1024 \<le> p" "p < (c + 1) * 1024"
    have "\<not> (b * 1024 \<le> p \<and> p < b * 1024 + length bs)" using that(1) p assms(2) by (cases b c rule: linorder_cases) auto
    then show "splice D (b * 1024) bs ! p = D ! p" using p that(2) assms by (subst nth_splice) auto
  qed (use assms that in auto)
qed

context block_device
begin

lemma put_meta_disk:
  assumes E: "ext2_device E (meta_device (fs_meta fs)) rd wr" and d: "ready (fs_dev fs)" "1024 dvd length (disk (fs_dev fs))"
    and l: "layout_ok (fs_meta fs) (disk (fs_dev fs))"
  obtains d where "put_meta E fs = Inr (0, fs \<lparr> fs_dev := d \<rparr>)" "ready d" "disk d = meta_written (fs_meta fs) (disk (fs_dev fs))"
proof -
  let ?m = "fs_meta fs" and ?D = "disk (fs_dev fs)"
  have m: "meta_ok ?m" using l by (simp add: layout_ok_def)
  note sz = meta_sizes [OF l]
  have n: "unat (bgdt_size ?m * of_nat sizeof_bgd) = length (bgdt_bytes (bgdt ?m))"
    unfolding sz by (rule descriptor_bytes [OF l])
  have ne: "bgdt_bytes (bgdt ?m) \<noteq> []" "super_bytes (ext2_super ?m) \<noteq> []"
    using sz(1,2) meta_okD(5) [OF m] by auto
  have fd: "s_first_data_block (ext2_super ?m) + 1 = 2" using meta_okD(2) [OF m] by simp
  obtain d1 where d1: "write_device E (meta_device ?m) fs 2 (bgdt_bytes (bgdt ?m)) 0 = Inr (0, fs \<lparr> fs_dev := d1 \<rparr>)" "ready d1"
      "disk d1 = splice ?D 2048 (bgdt_bytes (bgdt ?m))"
    using write_device_disk [OF E d ne(1), of 2 0] sz by auto
  have len: "length (disk d1) = length ?D" using sz unfolding d1(3) by simp
  obtain d2 where d2: "write_device E (meta_device ?m) (fs \<lparr> fs_dev := d1 \<rparr>) 1 (super_bytes (ext2_super ?m)) 0 =
        Inr (0, fs \<lparr> fs_dev := d2 \<rparr>)" "ready d2" "disk d2 = splice (disk d1) 1024 (super_bytes (ext2_super ?m))"
    using write_device_disk [of E "meta_device ?m" "fs \<lparr> fs_dev := d1 \<rparr>" "super_bytes (ext2_super ?m)" 1 0] E d1(2) d(2) ne(2) sz len
    by auto
  show ?thesis
  proof (rule that [of d2])
    show "put_meta E fs = Inr (0, fs \<lparr> fs_dev := d2 \<rparr>)"
      unfolding put_meta_def Let_def n fd using d1(1) d2(1) by simp
    show "disk d2 = meta_written ?m ?D" unfolding d2(3) d1(3) meta_written_def ..
  qed (rule d2(2))
qed

lemma fs_goodD:
  assumes "fs_good rd wr disk ready E fs"
  shows "ext2_device E (meta_device (fs_meta fs)) rd wr" "ready (fs_dev fs)" "1024 dvd length (disk (fs_dev fs))"
    "layout_ok (fs_meta fs) (disk (fs_dev fs))" "meta_ok (fs_meta fs)"
  using assms by (simp_all add: fs_good_def layout_ok_def)

lemma read_bitmap:
  assumes "fs_good rd wr disk ready E fs" "g < length (bgdt (fs_meta fs))"
  shows "dev_read E fs (bg_block_bitmap (bgdt (fs_meta fs) ! g)) 1024 0 = Inr (0, bitmap_of (fs_meta fs) (disk (fs_dev fs)) g)"
  using read_device_disk [OF fs_goodD(1-3) [OF assms(1)], of 1024 "bg_block_bitmap (bgdt (fs_meta fs) ! g)" 0]
    bitmap_block_bound(1) [OF fs_goodD(4) [OF assms(1)] assms(2)]
  by (simp add: bitmap_of_def disk_block_def)

text \<open>The bitmap of a group and the counters are written; the other bitmaps and blocks stay.\<close>

lemma write_bitmap:
  assumes good: "fs_good rd wr disk ready E fs" and g: "g < length (bgdt (fs_meta fs))" and bm: "length bm = 1024"
    and m': "m' = count_free g a b (fs_meta fs)"
  obtains d e where "dev_write E fs (bg_block_bitmap (bgdt (fs_meta fs) ! g)) bm 0 = Inr (0, fs \<lparr> fs_dev := d \<rparr>)"
    "put_meta E (fs \<lparr> fs_dev := d, fs_meta := m' \<rparr>) = Inr (0, fs \<lparr> fs_dev := e, fs_meta := m' \<rparr>)"
    "fs_good rd wr disk ready E (fs \<lparr> fs_dev := e, fs_meta := m' \<rparr>)"
    "\<And>h. h < length (bgdt (fs_meta fs)) \<Longrightarrow>
      bitmap_of m' (disk e) h = (if h = g then bm else bitmap_of (fs_meta fs) (disk (fs_dev fs)) h)"
    "length (disk e) = length (disk (fs_dev fs))"
    "\<And>p. p < length (disk e) \<Longrightarrow> \<not> metadata_byte (fs_meta fs) p \<Longrightarrow> disk e ! p = disk (fs_dev fs) ! p"
proof -
  let ?m = "fs_meta fs" and ?D = "disk (fs_dev fs)" and ?b = "unat (bg_block_bitmap (bgdt (fs_meta fs) ! g))"
  note G = fs_goodD [OF good]
  have bb: "(?b + 1) * 1024 \<le> length ?D" "unat (bgdt_blocks ?m) + 2 \<le> ?b" by (rule bitmap_block_bound [OF G(4) g])+
  have ne: "bm \<noteq> []" using bm by auto
  obtain d where d: "write_device E (meta_device ?m) fs (bg_block_bitmap (bgdt ?m ! g)) bm 0 = Inr (0, fs \<lparr> fs_dev := d \<rparr>)" "ready d"
      "disk d = splice ?D (?b * 1024) bm"
    using write_device_disk [OF G(1-3) ne, of "bg_block_bitmap (bgdt ?m ! g)" 0] bb(1) bm by auto
  have len: "length (disk d) = length ?D" using bb(1) bm unfolding d(3) by simp
  have l: "layout_ok m' (disk d)"
    using G(4) meta_ok_count_free [of ?m g a b] by (simp add: layout_ok_def len m')
  define x where "x = fs \<lparr> fs_dev := d, fs_meta := m' \<rparr>"
  have x: "fs_dev x = d" "fs_meta x = m'" "meta_device m' = meta_device ?m" by (simp_all add: x_def m')
  obtain e where e: "put_meta E x = Inr (0, x \<lparr> fs_dev := e \<rparr>)" "ready e" "disk e = meta_written (fs_meta x) (disk (fs_dev x))"
    by (rule put_meta_disk [of E x]) (use G(1,3) d(2) l len x in simp_all)
  note e = e(1) [unfolded x_def] e(2) e(3) [unfolded x]
  have le: "length (disk e) = length ?D"
    using meta_sizes [OF l] len unfolding e(3) meta_written_def by simp
  have far: "disk e ! p = disk d ! p" if "p < length (disk e)" "p < 1024 \<or> (unat (bgdt_blocks ?m) + 2) * 1024 \<le> p" for p
    unfolding e(3) using that le len by (intro meta_written_frame(1) [OF l]) (simp_all add: m')
  have bit: "disk_block (disk e) c = disk_block (disk d) c" if "unat (bgdt_blocks ?m) + 2 \<le> c" "(c + 1) * 1024 \<le> length ?D" for c
    using that le len far by (intro disk_block_eqI) auto
  show ?thesis
  proof (rule that [of d e])
    show "fs_good rd wr disk ready E (fs \<lparr> fs_dev := e, fs_meta := m' \<rparr>)"
      using G l e(2) le len by (simp add: fs_good_def layout_ok_def m')
    show "bitmap_of m' (disk e) h = (if h = g then bm else bitmap_of ?m ?D h)" if h: "h < length (bgdt ?m)" for h
    proof -
      note hb = bitmap_block_bound [OF G(4) h]
      have "bitmap_of m' (disk e) h = disk_block (disk d) (unat (bg_block_bitmap (bgdt ?m ! h)))"
        using bit hb h by (simp add: bitmap_of_def m')
      moreover have "h \<noteq> g \<Longrightarrow> unat (bg_block_bitmap (bgdt ?m ! h)) \<noteq> ?b"
        using bitmap_block_inj [OF G(5) h g] by (auto simp: word_unat_eq_iff)
      ultimately show ?thesis
        using disk_block_splice [OF bb(1) bm] hb(1) unfolding d(3) by (auto simp: bitmap_of_def)
    qed
    show "disk e ! p = ?D ! p" if p: "p < length (disk e)" "\<not> metadata_byte ?m p" for p
    proof -
      have "p < 1024 \<or> (unat (bgdt_blocks ?m) + 2) * 1024 \<le> p" "p div 1024 \<noteq> ?b" using p(2) g unfolding metadata_byte_def by auto
      moreover from this(2) have "\<not> (?b * 1024 \<le> p \<and> p < ?b * 1024 + length bm)" using bm by (auto simp: div_nat_eqI)
      moreover from this have "disk d ! p = ?D ! p" unfolding d(3) using p(1) le bb(1) bm by (subst nth_splice) auto
      ultimately show ?thesis using far p(1) by simp
    qed
  qed (use d(1) e(1) le in auto)
qed

end

subsection \<open>Allocation\<close>

text \<open>Block \<open>nr\<close> is taken: it was free, it is in use now, the counters are adjusted, and no other block and no byte outside the metadata has changed.\<close>

definition takes_block :: "ext2_metadata_t \<Rightarrow> u8 list \<Rightarrow> ext2_metadata_t \<Rightarrow> u8 list \<Rightarrow> u32 \<Rightarrow> bool" where
  "takes_block m D m' D' nr \<longleftrightarrow>
     (\<exists>g i. g < length (bgdt m) \<and> i < unat (s_blocks_per_group (ext2_super m)) \<and> nr = block_at m g i \<and> \<not> used_at m D g i \<and>
        m' = count_free g (- 1) (- 1) m \<and>
        (\<forall>h < length (bgdt m). \<forall>k < 8192. used_at m' D' h k \<longleftrightarrow> used_at m D h k \<or> (h = g \<and> k = i))) \<and>
     length D' = length D \<and> (\<forall>p < length D. \<not> metadata_byte m p \<longrightarrow> D' ! p = D ! p)"

text \<open>No block of the group can be allocated.\<close>

definition group_full :: "ext2_metadata_t \<Rightarrow> u8 list \<Rightarrow> nat \<Rightarrow> bool" where
  "group_full m D g \<longleftrightarrow>
     bg_free_blocks_count (bgdt m ! g) = 0 \<or> (\<exists>n. blocks_in_group m g = Inr n \<and> (\<forall>k < unat n. used_at m D g k))"

text \<open>The two outcomes of an attempt: nothing changes because \<open>none\<close> holds, or a block is taken.\<close>

definition alloc_outcome ::
    "('d ext2_fs \<Rightarrow> bool) \<Rightarrow> ('d \<Rightarrow> u8 list) \<Rightarrow> 'd ext2_fs \<Rightarrow> int \<Rightarrow> bool \<Rightarrow> ext2_stop + u32 \<times> int \<times> 'd ext2_fs \<Rightarrow> bool" where
  "alloc_outcome good disk fs errno none r \<longleftrightarrow>
     (r = Inr (0, errno, fs) \<and> none) \<or>
     (\<exists>nr fs'. r = Inr (nr, errno, fs') \<and> nr \<noteq> 0 \<and> good fs' \<and>
        takes_block (fs_meta fs) (disk (fs_dev fs)) (fs_meta fs') (disk (fs_dev fs')) nr)"

lemma alloc_outcome_mono: "alloc_outcome good disk fs errno A r \<Longrightarrow> (A \<Longrightarrow> B) \<Longrightarrow> alloc_outcome good disk fs errno B r"
  unfolding alloc_outcome_def by blast

lemma blocks_in_group_ok:
  assumes "meta_ok m"
  obtains n where "blocks_in_group m g = Inr n" "0 < unat n" "unat n \<le> unat (s_blocks_per_group (ext2_super m))"
proof -
  let ?s = "s_blocks_per_group (ext2_super m)" and ?r = "s_blocks_count (ext2_super m) mod s_blocks_per_group (ext2_super m)"
  have s: "0 < unat ?s" by (rule meta_okD(3) [OF assms])
  then have nz: "?s \<noteq> 0" by auto
  have "unat ?r < unat ?s" using s by (simp add: unat_mod)
  then show ?thesis
    using that [of ?r] that [of ?s] s nz unfolding blocks_in_group_def Let_def
    by (cases "?r = 0"; cases "bgdt_size m - 1 = of_nat g div of_nat sizeof_bgd") (auto simp: udivmod_def unat_gt_0)
qed

lemma block_at_bound:
  assumes "layout_ok m D" "g < length (bgdt m)" "i \<le> 8192"
  shows "unat (block_at m g i) = g * unat (s_blocks_per_group (ext2_super m)) + 1 + i"
    "of_nat i + bg_block_bitmap (bgdt m ! g) - bgdt_blocks m - 1 = block_at m g i"
proof -
  have m: "meta_ok m" "length D < 2147483648" using assms(1) by (simp_all add: layout_ok_def)
  note b = meta_okD(9) [OF m(1) assms(2)] bitmap_block_bound [OF assms(1,2)]
  have "unat (bg_block_bitmap (bgdt m ! g)) * 1024 + 1024 \<le> length D" using b(2) by simp
  then have "g * unat (s_blocks_per_group (ext2_super m)) + 1 + i < 4294967296" using b(1) m(2) assms(3) by linarith
  then show "unat (block_at m g i) = g * unat (s_blocks_per_group (ext2_super m)) + 1 + i"
    unfolding block_at_def by (rule of_nat_unat_u32)
  have "bg_block_bitmap (bgdt m ! g) = of_nat (g * unat (s_blocks_per_group (ext2_super m)) + unat (bgdt_blocks m) + 2)"
    using b(1) by (metis of_nat_unat ucast_id)
  then show "of_nat i + bg_block_bitmap (bgdt m ! g) - bgdt_blocks m - 1 = block_at m g i"
    by (simp add: block_at_def algebra_simps)
qed

context block_device
begin

lemma allocate_in_group_outcome:
  assumes good: "fs_good rd wr disk ready E fs" and g: "g < length (bgdt (fs_meta fs))"
  shows "alloc_outcome (fs_good rd wr disk ready E) disk fs errno (group_full (fs_meta fs) (disk (fs_dev fs)) g)
    (allocate_block_in_group E g errno fs)"
proof (cases "bg_free_blocks_count (bgdt (fs_meta fs) ! g) = 0")
  case True
  then show ?thesis using g by (simp add: alloc_outcome_def allocate_block_in_group_def group_full_def)
next
  case False
  let ?m = "fs_meta fs" and ?D = "disk (fs_dev fs)" and ?bm = "bitmap_of (fs_meta fs) (disk (fs_dev fs)) g"
  note G = fs_goodD [OF good]
  obtain n where n: "blocks_in_group ?m g = Inr n" "0 < unat n" "unat n \<le> unat (s_blocks_per_group (ext2_super ?m))"
    by (rule blocks_in_group_ok [OF G(5)])
  have lb: "length ?bm = 1024" by (rule length_bitmap_of [OF G(4) g])
  have n8: "unat n \<le> 8192" using n(3) meta_okD(4) [OF G(5)] by linarith
  then obtain r where r: "scan_bitmap ?bm 0 (unat n) = Inr r" using scan_bitmap_total [of 0 "unat n" ?bm] lb by auto
  note steps = read_bitmap [OF good g] n(1) r
  show ?thesis
  proof (cases r)
    case None
    then have "\<forall>k < unat n. used_at ?m ?D g k" using scan_bitmap_none [of ?bm 0 "unat n"] r by (simp add: used_at_def)
    then have "group_full ?m ?D g" using n(1) by (auto simp: group_full_def)
    then show ?thesis using False g None steps by (simp add: alloc_outcome_def allocate_block_in_group_def)
  next
    case (Some i)
    note sc = scan_bitmap_found [OF r [unfolded Some]]
    have i: "i < unat n" "i div 8 < 1024" "BITFIELD_GET_BIT ?bm i = 0" using sc lb by simp_all
    have i8: "i \<le> 8192" using i(1) n8 by linarith
    note nr = block_at_bound [OF G(4) g i8]
    have nz: "block_at ?m g i \<noteq> 0" using nr(1) by (metis add_gr_0 less_numeral_extra(1) less_not_refl unat_0)
    then have nz': "of_nat i + bg_block_bitmap (bgdt ?m ! g) - bgdt_blocks ?m \<noteq> 1" using nr(2) by auto
    define m' where "m' = count_free g (- 1) (- 1) ?m"
    have lset: "length (BITFIELD_SET_BIT ?bm i) = 1024" using lb by simp
    obtain d e where w: "dev_write E fs (bg_block_bitmap (bgdt ?m ! g)) (BITFIELD_SET_BIT ?bm i) 0 = Inr (0, fs \<lparr> fs_dev := d \<rparr>)"
        "put_meta E (fs \<lparr> fs_dev := d, fs_meta := m' \<rparr>) = Inr (0, fs \<lparr> fs_dev := e, fs_meta := m' \<rparr>)"
        "fs_good rd wr disk ready E (fs \<lparr> fs_dev := e, fs_meta := m' \<rparr>)"
      and bits: "\<And>h. h < length (bgdt ?m) \<Longrightarrow> bitmap_of m' (disk e) h = (if h = g then BITFIELD_SET_BIT ?bm i else bitmap_of ?m ?D h)"
      and len: "length (disk e) = length ?D" and frame: "\<And>p. p < length (disk e) \<Longrightarrow> \<not> metadata_byte ?m p \<Longrightarrow> disk e ! p = ?D ! p"
      by (rule write_bitmap [OF good g lset m'_def]) blast
    have upd: "update_super (\<lambda>s. s \<lparr> s_free_blocks_count := s_free_blocks_count s - 1 \<rparr>)
        (update_bgd g (\<lambda>b. b \<lparr> bg_free_blocks_count := bg_free_blocks_count b - 1 \<rparr>) (fs \<lparr> fs_dev := d \<rparr>)) = fs \<lparr> fs_dev := d, fs_meta := m' \<rparr>"
      by (simp add: update_super_def update_bgd_def m'_def count_free_def)
    have used: "used_at m' (disk e) h k \<longleftrightarrow> used_at ?m ?D h k \<or> (h = g \<and> k = i)" if "h < length (bgdt ?m)" "k < 8192" for h k
      using bitfield_set [of i ?bm k] that i(2) lb bits [OF that(1)] by (auto simp: used_at_def)
    have tk: "takes_block ?m ?D m' (disk e) (block_at ?m g i)"
      unfolding takes_block_def using g i n(3) len frame used
      by (intro conjI exI [of _ g] exI [of _ i]) (auto simp: used_at_def m'_def)
    have "allocate_block_in_group E g errno fs = Inr (block_at ?m g i, errno, fs \<lparr> fs_dev := e, fs_meta := m' \<rparr>)"
      unfolding allocate_block_in_group_def Let_def using False g steps Some nr(2) nz' w(1,2) upd by simp
    then show ?thesis unfolding alloc_outcome_def using nz w(3) tk by simp
  qed
qed

lemma allocate_any_outcome:
  assumes good: "fs_good rd wr disk ready E fs" and gs: "\<forall>g \<in> set gs. g < length (bgdt (fs_meta fs))"
  shows "alloc_outcome (fs_good rd wr disk ready E) disk fs errno
    (\<forall>g \<in> set gs. g \<noteq> p \<longrightarrow> group_full (fs_meta fs) (disk (fs_dev fs)) g) (allocate_block_any E gs p errno fs)"
  using gs
proof (induction gs)
  case Nil
  then show ?case by (simp add: alloc_outcome_def)
next
  case (Cons g gs)
  then have IH: "alloc_outcome (fs_good rd wr disk ready E) disk fs errno
      (\<forall>g \<in> set gs. g \<noteq> p \<longrightarrow> group_full (fs_meta fs) (disk (fs_dev fs)) g) (allocate_block_any E gs p errno fs)" by simp
  show ?case
  proof (cases "g = p")
    case True
    then show ?thesis using IH by (simp add: alloc_outcome_def)
  next
    case False
    have "g < length (bgdt (fs_meta fs))" using Cons.prems by simp
    from allocate_in_group_outcome [OF good this, of errno] show ?thesis
      using IH False unfolding alloc_outcome_def by (elim disjE exE conjE) simp_all
  qed
qed

text \<open>
  Allocation fails exactly if the superblock counts no free block or no group has one; then nothing
  changes, otherwise a free block is taken.
\<close>

lemma allocate_block_outcome:
  assumes good: "fs_good rd wr disk ready E fs" and g: "unat gn < length (bgdt (fs_meta fs))"
  shows "alloc_outcome (fs_good rd wr disk ready E) disk fs errno
    (s_free_blocks_count (ext2_super (fs_meta fs)) = 0 \<or>
     (\<forall>g < length (bgdt (fs_meta fs)). group_full (fs_meta fs) (disk (fs_dev fs)) g)) (allocate_block E gn errno fs)"
proof -
  let ?m = "fs_meta fs"
  have size: "unat (bgdt_size ?m) = length (bgdt ?m)" by (rule meta_okD(6) [OF fs_goodD(5) [OF good]])
  then have in_range: "\<not> gn \<ge> bgdt_size ?m" using g by (simp add: word_le_nat_alt)
  show ?thesis
  proof (cases "s_free_blocks_count (ext2_super ?m) = 0")
    case True
    then show ?thesis using in_range by (simp add: allocate_block_def alloc_outcome_def)
  next
    case False
    have "\<forall>g \<in> set [0..<unat (bgdt_size ?m)]. g < length (bgdt ?m)" using size by simp
    note rest = allocate_any_outcome [OF good this, of errno "unat gn"]
    from allocate_in_group_outcome [OF good g, of errno] show ?thesis
      unfolding alloc_outcome_def [where r = "allocate_block_in_group E (unat gn) errno fs"]
    proof (elim disjE exE conjE)
      assume none: "allocate_block_in_group E (unat gn) errno fs = Inr (0, errno, fs)" and full: "group_full ?m (disk (fs_dev fs)) (unat gn)"
      have "allocate_block E gn errno fs = allocate_block_any E [0..<unat (bgdt_size ?m)] (unat gn) errno fs"
        using False in_range none by (simp add: allocate_block_def)
      moreover have "\<forall>g < length (bgdt ?m). group_full ?m (disk (fs_dev fs)) g"
        if "\<forall>g \<in> set [0..<unat (bgdt_size ?m)]. g \<noteq> unat gn \<longrightarrow> group_full ?m (disk (fs_dev fs)) g"
      proof (intro allI impI)
        fix g assume "g < length (bgdt ?m)"
        then have "g \<in> set [0..<unat (bgdt_size ?m)]" by (simp add: size)
        then show "group_full ?m (disk (fs_dev fs)) g" using that full by (cases "g = unat gn") blast+
      qed
      ultimately show ?thesis using alloc_outcome_mono [OF rest] by presburger
    next
      fix nr fs'
      assume "allocate_block_in_group E (unat gn) errno fs = Inr (nr, errno, fs')" "nr \<noteq> 0" "fs_good rd wr disk ready E fs'"
        "takes_block ?m (disk (fs_dev fs)) (fs_meta fs') (disk (fs_dev fs')) nr"
      then show ?thesis using False in_range by (simp add: allocate_block_def alloc_outcome_def)
    qed
  qed
qed

end

subsection \<open>Release\<close>

definition releases_block :: "ext2_metadata_t \<Rightarrow> u8 list \<Rightarrow> ext2_metadata_t \<Rightarrow> u8 list \<Rightarrow> nat \<Rightarrow> nat \<Rightarrow> bool" where
  "releases_block m D m' D' g i \<longleftrightarrow>
     m' = count_free g 1 1 m \<and>
     (\<forall>h < length (bgdt m). bitmap_of m' D' h = (if h = g then BITFIELD_CLEAR_BIT (bitmap_of m D g) i else bitmap_of m D h)) \<and>
     length D' = length D \<and> (\<forall>p < length D. \<not> metadata_byte m p \<longrightarrow> D' ! p = D ! p)"

lemma block_location:
  assumes "layout_ok m D" "g < length (bgdt m)" "i < unat (s_blocks_per_group (ext2_super m))"
  shows "udivmod (block_at m g i - 1) (s_blocks_per_group (ext2_super m)) = Inr (of_nat g, of_nat i)"
    "unat (of_nat g :: u32) = g" "unat (of_nat i :: u32) = i"
proof -
  let ?s = "s_blocks_per_group (ext2_super m)"
  have m: "meta_ok m" using assms(1) by (simp add: layout_ok_def)
  have i8: "i \<le> 8192" using assms(3) meta_okD(4) [OF m] by linarith
  have b: "g * unat ?s + 1 + i < 4294967296" using block_at_bound(1) [OF assms(1,2) i8] unat_u32_less [of "block_at m g i"] by linarith
  have "g \<le> g * unat ?s" using meta_okD(3) [OF m] by simp
  then show u: "unat (of_nat g :: u32) = g" "unat (of_nat i :: u32) = i" using b by (intro of_nat_unat_u32; linarith)+
  have "block_at m g i - 1 = of_nat (g * unat ?s + i)" by (simp add: block_at_def)
  moreover have "unat (of_nat (g * unat ?s + i) :: u32) = g * unat ?s + i" using b by (intro of_nat_unat_u32) linarith
  ultimately have "unat ((block_at m g i - 1) div ?s) = g" "unat ((block_at m g i - 1) mod ?s) = i"
    using assms(3) by (simp_all only: unat_div unat_mod) simp_all
  then have "(block_at m g i - 1) div ?s = of_nat g" "(block_at m g i - 1) mod ?s = of_nat i" using u by (metis word_unat_eq_iff)+
  then show "udivmod (block_at m g i - 1) ?s = Inr (of_nat g, of_nat i)" using meta_okD(3) [OF m] by (auto simp: udivmod_def)
qed

context block_device
begin

lemma deallocate_block_outcome:
  assumes good: "fs_good rd wr disk ready E fs" and g: "g < length (bgdt (fs_meta fs))"
    and i: "i < unat (s_blocks_per_group (ext2_super (fs_meta fs)))"
  shows "if used_at (fs_meta fs) (disk (fs_dev fs)) g i
    then \<exists>fs'. deallocate_block E (block_at (fs_meta fs) g i) fs = Inr (0, fs') \<and> fs_good rd wr disk ready E fs' \<and>
      releases_block (fs_meta fs) (disk (fs_dev fs)) (fs_meta fs') (disk (fs_dev fs')) g i
    else deallocate_block E (block_at (fs_meta fs) g i) fs = Inl Ext2_panic"
proof -
  let ?m = "fs_meta fs" and ?D = "disk (fs_dev fs)" and ?bm = "bitmap_of (fs_meta fs) (disk (fs_dev fs)) g"
  note G = fs_goodD [OF good]
  note loc = block_location [OF G(4) g i]
  have lb: "length ?bm = 1024" by (rule length_bitmap_of [OF G(4) g])
  have i8: "i div 8 < 1024" using i meta_okD(4) [OF G(5)] by (simp add: div_less_iff_less_mult)
  have in_range: "\<not> (of_nat g :: u32) \<ge> bgdt_size ?m" using g meta_okD(6) [OF G(5)] loc(2) by (simp add: word_le_nat_alt)
  show ?thesis
  proof (cases "used_at ?m ?D g i")
    case False
    then show ?thesis
      unfolding deallocate_block_def Let_def
      using loc in_range g read_bitmap [OF good g] lb i8 by (simp add: used_at_def)
  next
    case True
    define m' where "m' = count_free g 1 1 ?m"
    have lclr: "length (BITFIELD_CLEAR_BIT ?bm i) = 1024" using lb by simp
    obtain d e where w: "dev_write E fs (bg_block_bitmap (bgdt ?m ! g)) (BITFIELD_CLEAR_BIT ?bm i) 0 = Inr (0, fs \<lparr> fs_dev := d \<rparr>)"
        "put_meta E (fs \<lparr> fs_dev := d, fs_meta := m' \<rparr>) = Inr (0, fs \<lparr> fs_dev := e, fs_meta := m' \<rparr>)"
        "fs_good rd wr disk ready E (fs \<lparr> fs_dev := e, fs_meta := m' \<rparr>)"
      and bits: "\<And>h. h < length (bgdt ?m) \<Longrightarrow> bitmap_of m' (disk e) h = (if h = g then BITFIELD_CLEAR_BIT ?bm i else bitmap_of ?m ?D h)"
      and len: "length (disk e) = length ?D" and frame: "\<And>p. p < length (disk e) \<Longrightarrow> \<not> metadata_byte ?m p \<Longrightarrow> disk e ! p = ?D ! p"
      by (rule write_bitmap [OF good g lclr m'_def]) blast
    have upd: "update_bgd g (\<lambda>b. b \<lparr> bg_free_blocks_count := bg_free_blocks_count b + 1 \<rparr>)
        (update_super (\<lambda>s. s \<lparr> s_free_blocks_count := s_free_blocks_count s + 1 \<rparr>) (fs \<lparr> fs_dev := d \<rparr>)) = fs \<lparr> fs_dev := d, fs_meta := m' \<rparr>"
      by (simp add: update_super_def update_bgd_def m'_def count_free_def)
    have "releases_block ?m ?D m' (disk e) g i"
      unfolding releases_block_def using bits len frame by (auto simp: m'_def)
    moreover have "deallocate_block E (block_at ?m g i) fs = Inr (0, fs \<lparr> fs_dev := e, fs_meta := m' \<rparr>)"
      unfolding deallocate_block_def Let_def
      using True loc in_range g read_bitmap [OF good g] lb i8 w(1,2) upd by (simp add: used_at_def)
    ultimately show ?thesis using True w(3) by auto
  qed
qed

end

end
