(* ===== verification/Ext2_Properties.thy ===== *)
theory Ext2_Properties
  imports Ext2_Read Ext2_Alloc
begin

unbundle bit_operations_syntax

text \<open>
  What the modelled part of the Ext2 file system guarantees, on the RAM disk: structures survive the
  trip to the disk and back, blocks are handed out at most once, and reading a file returns its
  contents. The last theorem is about a case in which the code does not do what it is meant to do.
\<close>

subsection \<open>Structures on the disk\<close>

lemma ld32s_skip: "length xs \<le> i \<Longrightarrow> ld32s (xs @ ys) i n = ld32s ys (i - length xs) n"
  unfolding ld32s_def by (intro map_cong refl) (simp add: ld32_skip)

lemma ld32s_st32s: "ld32s (st32s ws @ ys) 0 (length ws) = ws"
proof (induction ws)
  case Nil
  then show ?case by (simp add: ld32s_def)
next
  case (Cons w ws)
  have "ld32s (st32s (w # ws) @ ys) 0 (length (w # ws)) = ld32 (st32 w @ st32s ws @ ys) 0 # ld32s (st32 w @ st32s ws @ ys) 4 (length ws)"
    by (simp add: ld32s_def st32s_def map_upt_Suc del: upt_Suc)
  also have "ld32s (st32 w @ st32s ws @ ys) 4 (length ws) = ws" using Cons.IH by (simp add: ld32s_skip)
  finally show ?case by simp
qed

lemma ld32s_st32s_n: "length ws = n \<Longrightarrow> ld32s (st32s ws @ ys) 0 n = ws" "length ws = n \<Longrightarrow> ld32s (st32s ws) 0 n = ws"
  using ld32s_st32s [of ws ys] ld32s_st32s [of ws "[]"] by simp_all

lemmas struct_simps = ld16_skip ld32_skip ld32s_skip ld32s_st32s_n

lemma inode_of_bytes: "length (direct i) = 12 \<Longrightarrow> length (i_osd2 i) = 3 \<Longrightarrow> inode_of (inode_bytes i) = i"
  by (simp add: inode_of_def inode_bytes_def struct_simps)

lemma super_of_bytes: "length (s_uuid s) = 4 \<Longrightarrow> super_of (super_bytes s) = s"
  by (simp add: super_of_def super_bytes_def struct_simps)

lemma bgd_of_bytes: "length (bg_reserved g) = 12 \<Longrightarrow> bgd_of (bgd_bytes g) = g"
  by (simp add: bgd_of_def bgd_bytes_def struct_simps)

lemma length_inode_bytes: "length (direct i) = 12 \<Longrightarrow> length (i_osd2 i) = 3 \<Longrightarrow> length (inode_bytes i) = 128"
  by (simp add: inode_bytes_def)

lemma bgdt_of_bytes:
  assumes "\<forall>g \<in> set gs. length (bg_reserved g) = 12"
  shows "bgdt_of (length gs) (bgdt_bytes gs) = gs"
proof -
  have "take 32 (drop (32 * k) (bgdt_bytes gs)) = bgd_bytes (gs ! k)" if "k < length gs" for k
    using that assms
  proof (induction gs arbitrary: k)
    case (Cons g gs)
    then have "length (bgd_bytes g) = 32" by (simp add: length_bgd_bytes)
    then show ?case using Cons by (cases k) (simp_all add: bgdt_bytes_def)
  qed simp
  then have "map (\<lambda>k. bgd_of (take 32 (drop (32 * k) (bgdt_bytes gs)))) [0..<length gs] = map (\<lambda>k. gs ! k) [0..<length gs]"
    using assms by (intro map_cong refl) (simp add: bgd_of_bytes)
  then show ?thesis unfolding bgdt_of_def map_nth .
qed

lemma take_drop_splice_other:
  assumes "p + length bs \<le> length D" "q + n \<le> p \<or> p + length bs \<le> q" "q + n \<le> length D"
  shows "take n (drop q (splice D p bs)) = take n (drop q D)"
proof (rule nth_equalityI)
  fix i assume "i < length (take n (drop q (splice D p bs)))"
  then have i: "i < n" using assms by simp
  then have "\<not> (p \<le> q + i \<and> q + i < p + length bs)" using assms by linarith
  then have "splice D p bs ! (q + i) = D ! (q + i)" using assms i by (subst nth_splice) auto
  then show "take n (drop q (splice D p bs)) ! i = take n (drop q D) ! i" using i assms by simp
qed (use assms in simp)

context block_device
begin

lemma get_inode_disk:
  assumes E: "ext2_device E (meta_device (fs_meta fs)) rd wr" and d: "ready (fs_dev fs)" "1024 dvd length (disk (fs_dev fs))"
    and loc: "inode_location (fs_meta fs) nr = Inr (b, k)" "unat b * 1024 + unat (k * 128) + 128 \<le> length (disk (fs_dev fs))"
  shows "get_ext2_inode E fs nr = Inr (Some (inode_of (take 128 (drop (unat b * 1024 + unat (k * 128)) (disk (fs_dev fs))))))"
proof -
  have "env_mem E 128" using E by (simp add: ext2_device_def)
  then show ?thesis
    using read_device_disk [OF E d, of 128 b "k * 128"] loc by (simp add: get_ext2_inode_def)
qed

lemma put_inode_disk:
  assumes E: "ext2_device E (meta_device (fs_meta fs)) rd wr" and d: "ready (fs_dev fs)" "1024 dvd length (disk (fs_dev fs))"
    and loc: "inode_location (fs_meta fs) nr = Inr (b, k)" "unat b * 1024 + unat (k * 128) + 128 \<le> length (disk (fs_dev fs))"
    and i: "length (direct i) = 12" "length (i_osd2 i) = 3"
  obtains d' where "put_inode E fs nr i = Inr (0, fs \<lparr> fs_dev := d' \<rparr>)" "ready d'"
    "disk d' = splice (disk (fs_dev fs)) (unat b * 1024 + unat (k * 128)) (inode_bytes i)"
proof -
  have len: "length (inode_bytes i) = 128" by (rule length_inode_bytes [OF i])
  then have ne: "inode_bytes i \<noteq> []" by auto
  obtain d' where "write_device E (meta_device (fs_meta fs)) fs b (inode_bytes i) (k * 128) = Inr (0, fs \<lparr> fs_dev := d' \<rparr>)" "ready d'"
      "disk d' = splice (disk (fs_dev fs)) (unat b * 1024 + unat (k * 128)) (inode_bytes i)"
    by (rule write_device_disk [OF E d ne]) (use loc len in simp_all)
  then show ?thesis using loc(1) by (intro that [of d']) (simp_all add: put_inode_def)
qed

lemma put_get_inode:
  assumes E: "ext2_device E (meta_device (fs_meta fs)) rd wr" and d: "ready (fs_dev fs)" "1024 dvd length (disk (fs_dev fs))"
    and loc: "inode_location (fs_meta fs) nr = Inr (b, k)" "unat b * 1024 + unat (k * 128) + 128 \<le> length (disk (fs_dev fs))"
    and i: "length (direct i) = 12" "length (i_osd2 i) = 3"
  shows "\<exists>fs'. put_inode E fs nr i = Inr (0, fs') \<and> get_ext2_inode E fs' nr = Inr (Some i) \<and>
    (\<forall>nr' b' k'. inode_location (fs_meta fs) nr' = Inr (b', k') \<and> unat b' * 1024 + unat (k' * 128) + 128 \<le> length (disk (fs_dev fs)) \<and>
       (unat b' * 1024 + unat (k' * 128) + 128 \<le> unat b * 1024 + unat (k * 128) \<or>
        unat b * 1024 + unat (k * 128) + 128 \<le> unat b' * 1024 + unat (k' * 128)) \<longrightarrow>
       get_ext2_inode E fs' nr' = get_ext2_inode E fs nr')"
proof -
  have len: "length (inode_bytes i) = 128" by (rule length_inode_bytes [OF i])
  obtain d' where p: "put_inode E fs nr i = Inr (0, fs \<lparr> fs_dev := d' \<rparr>)" "ready d'"
      "disk d' = splice (disk (fs_dev fs)) (unat b * 1024 + unat (k * 128)) (inode_bytes i)"
    by (rule put_inode_disk [OF assms])
  have ld: "length (disk d') = length (disk (fs_dev fs))" using loc(2) len unfolding p(3) by simp
  have get: "get_ext2_inode E (fs \<lparr> fs_dev := d' \<rparr>) nr' = Inr (Some (inode_of (take 128 (drop (unat b' * 1024 + unat (k' * 128)) (disk d')))))"
    if "inode_location (fs_meta fs) nr' = Inr (b', k')" "unat b' * 1024 + unat (k' * 128) + 128 \<le> length (disk (fs_dev fs))" for nr' b' k'
    using get_inode_disk [of E "fs \<lparr> fs_dev := d' \<rparr>" nr' b' k'] E d(2) p(2) ld that by simp
  have "take 128 (drop (unat b * 1024 + unat (k * 128)) (disk d')) = inode_bytes i"
    unfolding p(3) using take_drop_splice [of "unat b * 1024 + unat (k * 128)" "inode_bytes i" "disk (fs_dev fs)"] loc(2) len by simp
  then have "get_ext2_inode E (fs \<lparr> fs_dev := d' \<rparr>) nr = Inr (Some i)" using get [OF loc] inode_of_bytes [OF i] by simp
  moreover have "get_ext2_inode E (fs \<lparr> fs_dev := d' \<rparr>) nr' = get_ext2_inode E fs nr'"
    if "inode_location (fs_meta fs) nr' = Inr (b', k')" "unat b' * 1024 + unat (k' * 128) + 128 \<le> length (disk (fs_dev fs))"
      "unat b' * 1024 + unat (k' * 128) + 128 \<le> unat b * 1024 + unat (k * 128) \<or>
       unat b * 1024 + unat (k * 128) + 128 \<le> unat b' * 1024 + unat (k' * 128)" for nr' b' k'
    unfolding get [OF that(1,2)] get_inode_disk [OF E d that(1,2)] p(3)
    using take_drop_splice_other [of "unat b * 1024 + unat (k * 128)" "inode_bytes i" "disk (fs_dev fs)" "unat b' * 1024 + unat (k' * 128)" 128]
      loc(2) len that(2,3) by simp
  ultimately show ?thesis using p(1) by blast
qed

lemma put_read_meta:
  assumes good: "fs_good rd wr disk ready E fs" and mt: "env_meta E"
    and size: "bgdt_size (fs_meta fs) = s_blocks_count (ext2_super (fs_meta fs)) div s_blocks_per_group (ext2_super (fs_meta fs)) + 1"
      "bgdt_blocks (fs_meta fs) = (bgdt_size (fs_meta fs) * 32 - 1) div 1024 + 1"
  shows "\<exists>d'. put_meta E fs = Inr (0, fs \<lparr> fs_dev := d' \<rparr>) \<and> read_meta E (meta_device (fs_meta fs)) d' = Inr (Some (fs_meta fs))"
proof -
  let ?m = "fs_meta fs" and ?D = "disk (fs_dev fs)"
  note G = fs_goodD [OF good]
  note sz = meta_sizes [OF G(4)]
  obtain d' where p: "put_meta E fs = Inr (0, fs \<lparr> fs_dev := d' \<rparr>)" "ready d'" "disk d' = meta_written ?m ?D"
    by (rule put_meta_disk [OF G(1-4)])
  have len: "length (disk d') = length ?D" using sz unfolding p(3) meta_written_def by simp
  have n0: "length (bgdt ?m) \<noteq> 0" using meta_okD(5) [OF G(5)] by simp
  have n: "unat (bgdt_size ?m * 32) = 32 * length (bgdt ?m)" using descriptor_bytes [OF G(4)] by simp
  then have nz: "bgdt_size ?m * 32 \<noteq> 0" using n0 by (metis mult_eq_0_iff unat_0 zero_neq_numeral)
  have rd: "bc_read_bytes (env_mem E) (env_junk E) (env_drv E) b x (meta_device ?m) 0 d' = Inr (0, take (unat x) (drop (unat b * 1024) (disk d')))"
    if "x \<noteq> 0" "unat b * 1024 + unat x \<le> length ?D" for b x
    using bc_read_bytes_disk [of "env_drv E" "meta_device ?m" d' "unat x" "unat b" 0 "env_mem E" "env_junk E"] G(1,3) p(2) len that
    by (simp add: ext2_device_def unat_gt_0)
  have "take 120 (drop 1024 (disk d')) = super_bytes (ext2_super ?m)"
    unfolding p(3) meta_written_def
    using take_drop_splice [of 1024 "super_bytes (ext2_super ?m)" "splice ?D 2048 (bgdt_bytes (bgdt ?m))"] sz by simp
  then have s: "super_of (take 120 (drop 1024 (disk d'))) = ext2_super ?m" by (simp add: super_of_bytes meta_okD(1) [OF G(5)])
  have "take (32 * length (bgdt ?m)) (drop 2048 (disk d')) = bgdt_bytes (bgdt ?m)"
    unfolding p(3) meta_written_def
    using take_drop_splice_other [of 1024 "super_bytes (ext2_super ?m)" "splice ?D 2048 (bgdt_bytes (bgdt ?m))" 2048 "32 * length (bgdt ?m)"]
      take_drop_splice [of 2048 "bgdt_bytes (bgdt ?m)" ?D] sz by simp
  moreover have "\<forall>g \<in> set (bgdt ?m). length (bg_reserved g) = 12" using meta_okD(8) [OF G(5)] by (auto simp: in_set_conv_nth)
  ultimately have g: "bgdt_of (length (bgdt ?m)) (take (32 * length (bgdt ?m)) (drop 2048 (disk d'))) = bgdt ?m"
    by (simp add: bgdt_of_bytes)
  define q where "q = s_blocks_count (ext2_super ?m) div s_blocks_per_group (ext2_super ?m)"
  have q: "q + 1 = bgdt_size ?m" using size(1) by (simp add: q_def)
  then have q32: "q * 32 + 32 = bgdt_size ?m * 32" by (metis distrib_right mult_1)
  have ud: "udivmod (s_blocks_count (ext2_super ?m)) (s_blocks_per_group (ext2_super ?m)) =
      Inr (q, s_blocks_count (ext2_super ?m) mod s_blocks_per_group (ext2_super ?m))"
    using meta_okD(3) [OF G(5)] by (auto simp: udivmod_def q_def)
  have mem: "env_mem E x" for x using G(1) by (simp add: ext2_device_def)
  have r1: "bc_read_bytes (env_mem E) (env_junk E) (env_drv E) 1 120 (meta_device ?m) 0 d' = Inr (0, take 120 (drop 1024 (disk d')))"
    using rd [of 120 1] sz by simp
  have r2: "bc_read_bytes (env_mem E) (env_junk E) (env_drv E) 2 (bgdt_size ?m * 32) (meta_device ?m) 0 d' =
      Inr (0, take (32 * length (bgdt ?m)) (drop 2048 (disk d')))"
    using rd [OF nz, of 2] sz n by simp
  have "read_meta E (meta_device ?m) d' = Inr (Some ?m)"
    unfolding read_meta_def Let_def using mt mem r1 s ud q q32 meta_okD(2,6) [OF G(5)] r2 g
    by (simp flip: size(2))
  then show ?thesis using p(1) by blast
qed

end

subsection \<open>Truncating holes\<close>

text \<open>A walk that releases blocks goes through holes without any access to the disk, but it marks the list as changed.\<close>

definition whole_blocks :: "'d blocklist_walk_t \<Rightarrow> bool" where
  "whole_blocks w \<longleftrightarrow> req_offset w mod 1024 = 0 \<and> (req_bytes w + req_offset w - 1) mod 1024 = 1023"

lemma walk_blocklist_holes:
  assumes "process_block w = EXT2_OP_TRUNC" "\<not> do_allocate w" "do_zero w" "whole_blocks w" "\<forall>t < n. i + t < length bl \<and> bl ! (i + t) = 0"
  shows "\<exists>y z. walk_blocklist E n bl i dt e w =
    Inr (0, bl, dt \<or> 0 < n, w \<lparr> blocks_processed := blocks_processed w + of_nat n,
      bytes_processed := bytes_processed w + of_nat n * 1024, first_byte := y, last_byte := z \<rparr>)"
  using assms
proof (induction n arbitrary: i dt w)
  case 0
  have "w = w \<lparr> blocks_processed := blocks_processed w + of_nat 0, bytes_processed := bytes_processed w + of_nat 0 * 1024,
      first_byte := first_byte w, last_byte := last_byte w \<rparr>" by simp
  then have "walk_blocklist E 0 bl i dt e w = Inr (0, bl, dt \<or> 0 < (0 :: nat), w \<lparr> blocks_processed := blocks_processed w + of_nat 0,
      bytes_processed := bytes_processed w + of_nat 0 * 1024, first_byte := first_byte w, last_byte := last_byte w \<rparr>)" by simp
  then show ?case by blast
next
  case (Suc n)
  have i: "i < length bl" "bl ! i = 0" using Suc.prems(5) [rule_format, of 0] by simp_all
  define v where "v = block_done (set_byte_range w)"
  have range: "set_byte_range w = w \<lparr> first_byte := 0, last_byte := 1023 \<rparr>"
    using Suc.prems(4) by (simp add: set_byte_range_def whole_blocks_def)
  have v: "process_block v = EXT2_OP_TRUNC" "\<not> do_allocate v" "do_zero v" "whole_blocks v"
    using Suc.prems(1-4) by (simp_all add: v_def block_done_def range whole_blocks_def)
  have rest: "\<forall>t < n. Suc i + t < length bl \<and> bl ! (Suc i + t) = 0"
    using Suc.prems(5) by (metis Suc_mono add_Suc add_Suc_right)
  obtain y z where IH: "walk_blocklist E n bl (Suc i) True e v =
      Inr (0, bl, True, v \<lparr> blocks_processed := blocks_processed v + of_nat n, bytes_processed := bytes_processed v + of_nat n * 1024,
        first_byte := y, last_byte := z \<rparr>)"
    using Suc.IH [OF v rest, of True] by auto
  have "process_block (set_byte_range w) = EXT2_OP_TRUNC" using Suc.prems(1) by (simp add: range)
  then have st: "call_process_block E (set_byte_range w) 0 = Inr (0, v)"
    by (simp add: call_process_block_def truncate_block_def v_def)
  have upd: "bl[i := 0] = bl" using i by (metis list_update_id)
  have "v \<lparr> blocks_processed := blocks_processed v + of_nat n, bytes_processed := bytes_processed v + of_nat n * 1024, first_byte := y, last_byte := z \<rparr> =
      w \<lparr> blocks_processed := blocks_processed w + of_nat (Suc n), bytes_processed := bytes_processed w + of_nat (Suc n) * 1024, first_byte := y, last_byte := z \<rparr>"
    by (simp add: v_def block_done_def range distrib_right)
  then show ?case using i Suc.prems(2) st v(3) upd IH by (intro exI [of _ y] exI [of _ z]) simp
qed

lemma st32s_zeroes: "st32s (replicate n 0) = replicate (4 * n) 0"
proof (induction n)
  case (Suc n)
  have "st32 0 = replicate 4 (0 :: u8)" by code_simp
  then show ?case using Suc by (simp add: st32s_def replicate_add [symmetric])
qed (simp add: st32s_def)

lemma fs_blocks_eq: "unat s < 2147483648 \<Longrightarrow> fs_blocks s = of_nat (blocks_for (unat s))"
proof -
  assume s: "unat s < 2147483648"
  have d: "unat (s div 1024) = unat s div 1024" "unat (s mod 1024) = unat s mod 1024" by (simp_all add: unat_div unat_mod)
  have z: "s mod 1024 = 0 \<longleftrightarrow> unat s mod 1024 = 0" using d(2) by (metis unat_eq_zero)
  have f: "unat (fs_blocks s) = unat s div 1024 + (if unat s mod 1024 = 0 then 0 else 1)"
    unfolding fs_blocks_def z using d(1) s by (subst unat_add_no_wrap) auto
  have "unat s div 1024 + (if unat s mod 1024 = 0 then 0 else 1) = blocks_for (unat s)"
  proof -
    define q r where "q = unat s div 1024" and "r = unat s mod 1024"
    have "unat s = 1024 * q + r" "r < 1024" by (simp_all add: q_def r_def)
    then have "(unat s + 1023) div 1024 = q + (if r = 0 then 0 else 1)" by (intro div_nat_eqI) auto
    then show ?thesis by (simp only: blocks_for_def q_def r_def)
  qed
  then show "fs_blocks s = of_nat (blocks_for (unat s))" using f by (metis of_nat_unat ucast_id)
qed

context block_device
begin

text \<open>An indirect block that is missing is written back as block 0 of the device.\<close>

lemma walk_indirect_hole:
  assumes E: "ext2_device E (req_device w) rd wr" and d: "ready (fs_dev (req_fs w))" "1024 dvd length (disk (fs_dev (req_fs w)))" "disk (fs_dev (req_fs w)) \<noteq> []"
    and w: "process_block w = EXT2_OP_TRUNC" "\<not> do_allocate w" "do_zero w" "whole_blocks w"
      "first_block w \<le> 12" "12 \<le> last_block w" "last_block w \<le> 267"
  shows "\<exists>y z d'. walk_indirect_block E 12 0 dt w =
      Inr (0, 0, dt, w \<lparr> blocks_processed := blocks_processed w + (last_block w - 11), bytes_processed := bytes_processed w + (last_block w - 11) * 1024, first_byte := y, last_byte := z,
        req_fs := (req_fs w) \<lparr> fs_dev := d' \<rparr> \<rparr>) \<and>
    ready d' \<and> disk d' = splice (disk (fs_dev (req_fs w))) 0 (replicate 1024 0)"
proof -
  have start: "(if first_block w < 12 then 12 else first_block w) = 12" using w(5) by auto
  have fin: "(if last_block w \<le> 267 then last_block w else 267) = last_block w" using w(7) by simp
  have ne: "\<not> last_block w < 12" using w(6) by (simp add: not_less)
  have u: "unat (last_block w - 12 + 1) = unat (last_block w) - 11" "unat (last_block w) \<le> 267" "12 \<le> unat (last_block w)"
  proof -
    show b: "unat (last_block w) \<le> 267" "12 \<le> unat (last_block w)" using w(6,7) by (simp_all add: word_le_nat_alt)
    have "unat (last_block w - 12) = unat (last_block w) - 12" using w(6) by (simp add: unat_sub)
    then show "unat (last_block w - 12 + 1) = unat (last_block w) - 11" using b by (subst unat_add_no_wrap) auto
  qed
  have load: "load_indirect_block E w 0 dt 0 = Inr (Some (replicate 256 0), 0, dt, 0, w)"
    using E w(2) by (simp add: load_indirect_block_def ext2_device_def)
  have pr: "\<forall>t < unat (last_block w) - 11. 0 + t < length (replicate 256 (0 :: u32)) \<and> replicate 256 (0 :: u32) ! (0 + t) = 0"
    using u(2) by auto
  have cnt: "of_nat (unat (last_block w) - 11) = last_block w - 11" using u(3) by (simp add: of_nat_diff)
  obtain y z where walk: "walk_blocklist E (unat (last_block w) - 11) (replicate 256 0) 0 False 0 w =
      Inr (0, replicate 256 0, True, w \<lparr> blocks_processed := blocks_processed w + (last_block w - 11), bytes_processed := bytes_processed w + (last_block w - 11) * 1024, first_byte := y, last_byte := z \<rparr>)"
    using walk_blocklist_holes [OF w(1-4) pr, of E False 0] u(3) unfolding cnt by auto
  have big: "1024 \<le> length (disk (fs_dev (req_fs w)))" using d(2,3) by (auto dest: dvd_imp_le)
  have zs: "replicate 1024 (0 :: u8) \<noteq> []" by simp
  obtain d' where wr: "write_device E (req_device w) (req_fs w) 0 (replicate 1024 0) 0 = Inr (0, (req_fs w) \<lparr> fs_dev := d' \<rparr>)" "ready d'"
      "disk d' = splice (disk (fs_dev (req_fs w))) (unat (0 :: u32) * 1024 + unat (0 :: u32)) (replicate 1024 0)"
    by (rule write_device_disk [OF E d(1,2) zs, of 0 0]) (use big in simp_all)
  have e: "(12 + EXT2_INDIRECT_BLOCKS - 1 :: u32) = 267" "unat (12 - 12 :: u32) = 0" by simp_all
  have z4: "st32s (replicate 256 0) = replicate 1024 0" using st32s_zeroes [of 256] by simp
  have "walk_indirect_block E 12 0 dt w =
      Inr (0, 0, dt, w \<lparr> blocks_processed := blocks_processed w + (last_block w - 11), bytes_processed := bytes_processed w + (last_block w - 11) * 1024, first_byte := y, last_byte := z,
        req_fs := (req_fs w) \<lparr> fs_dev := d' \<rparr> \<rparr>)"
    unfolding walk_indirect_block_def Let_def e start fin if_not_P [OF ne] load sbind.simps prod.case option.case u(1) walk
      write_back_def z4 release_indirect_def using wr(1) by simp
  then show ?thesis using wr(2,3) by auto
qed

lemma walk_areas_sparse:
  assumes E: "ext2_device E (req_device w) rd wr" and d: "ready (fs_dev (req_fs w))" "1024 dvd length (disk (fs_dev (req_fs w)))" "disk (fs_dev (req_fs w)) \<noteq> []"
    and w: "process_block w = EXT2_OP_TRUNC" "\<not> do_allocate w" "do_zero w" "whole_blocks w"
      "first_block w = 0" "last_block w = of_nat (n - 1)" "12 < n" "n \<le> 268" "blocks_processed w = 0" "bytes_processed w = 0"
    and ino: "direct (req_inode w) = replicate 12 0" "indirect1 (req_inode w) = 0"
  shows "\<exists>y z d'. walk_areas E w = Inr (0, w \<lparr> blocks_processed := of_nat n, bytes_processed := of_nat n * 1024, first_byte := y, last_byte := z,
      req_fs := (req_fs w) \<lparr> fs_dev := d' \<rparr> \<rparr>) \<and> ready d' \<and> disk d' = splice (disk (fs_dev (req_fs w))) 0 (replicate 1024 0)"
proof -
  have u: "unat (of_nat (n - 1) :: u32) = n - 1" "unat (of_nat n :: u32) = n" using w(8) by (intro of_nat_unat_u32; linarith)+
  have l: "last_block w > 11" "12 \<le> last_block w" "last_block w \<le> 267"
    using w(6-8) u(1) by (simp_all add: word_less_nat_alt word_le_nat_alt)
  have n: "last_block w + 1 = of_nat n" using w(6,7) by (simp add: of_nat_diff)
  have pr: "\<forall>t < 12. 0 + t < length (direct (req_inode w)) \<and> direct (req_inode w) ! (0 + t) = 0" using ino(1) by auto
  obtain y z where dir: "walk_blocklist E 12 (direct (req_inode w)) 0 False 0 w = Inr (0, direct (req_inode w), True,
      w \<lparr> blocks_processed := 12, bytes_processed := 12288, first_byte := y, last_byte := z \<rparr>)"
    using walk_blocklist_holes [OF w(1-4) pr, of E False 0] w(9,10) by auto
  define v where "v = w \<lparr> blocks_processed := 12, bytes_processed := 12288, first_byte := y, last_byte := z \<rparr>"
  have "unat (11 - 0 + 1 :: u32) = 12" by simp
  then have a1: "walk_direct E w = Inr (0, v)"
    unfolding walk_direct_def Let_def using l(1) w(5) dir by (simp add: v_def)
  have v: "process_block v = EXT2_OP_TRUNC" "\<not> do_allocate v" "do_zero v" "whole_blocks v" "first_block v \<le> 12" "12 \<le> last_block v" "last_block v \<le> 267"
      "ext2_device E (req_device v) rd wr" "req_fs v = req_fs w"
    using w(1-5) l E by (simp_all add: v_def whole_blocks_def)
  have d2: "ready (fs_dev (req_fs v))" "1024 dvd length (disk (fs_dev (req_fs v)))" "disk (fs_dev (req_fs v)) \<noteq> []" unfolding v(9) by (rule d)+
  obtain y z d' where i: "walk_indirect_block E 12 0 False v =
      Inr (0, 0, False, v \<lparr> blocks_processed := blocks_processed v + (last_block v - 11), bytes_processed := bytes_processed v + (last_block v - 11) * 1024,
        first_byte := y, last_byte := z, req_fs := (req_fs v) \<lparr> fs_dev := d' \<rparr> \<rparr>)" "ready d'"
      "disk d' = splice (disk (fs_dev (req_fs v))) 0 (replicate 1024 0)"
    using walk_indirect_hole [OF v(8) d2 v(1-7), of False] by blast
  define x where "x = w \<lparr> blocks_processed := of_nat n, bytes_processed := of_nat n * 1024, first_byte := y, last_byte := z,
      req_fs := (req_fs w) \<lparr> fs_dev := d' \<rparr> \<rparr>"
  have cnt: "12 + (last_block w - 11) = of_nat n" using n by (simp add: algebra_simps)
  then have "12288 + (last_block w - 11) * 1024 = of_nat n * 1024" by (simp flip: cnt add: distrib_right)
  then have i': "walk_indirect_block E 12 0 False v = Inr (0, 0, False, x)" using i(1) cnt by (simp add: v_def x_def)
  have left: "blocks_left v" using l u w(5-8) n by (simp add: blocks_left_def v_def word_less_nat_alt)
  have "req_inode x \<lparr> indirect1 := 0 \<rparr> = req_inode x" using ino(2) by (simp add: x_def)
  then have "x \<lparr> req_inode := req_inode x \<lparr> indirect1 := 0 \<rparr> \<rparr> = x" by simp
  then have a2: "walk_indirect E v = Inr (0, x)"
    unfolding walk_indirect_def using left i' w(5) ino(2) by (simp add: v_def)
  have "\<not> blocks_left x" using n w(5) by (simp add: blocks_left_def x_def)
  then have a3: "walk_double_indirect E x = Inr (0, x)" "walk_triple_indirect E x = Inr (0, x)"
    by (simp_all add: walk_double_indirect_def walk_triple_indirect_def)
  have "walk_areas E w = Inr (0, x)" by (simp add: walk_areas_def next_area_def a1 a2 a3)
  then show ?thesis using i(2,3) unfolding x_def v(9) by blast
qed

lemma inode_rw_sparse:
  assumes E: "ext2_device E (inode_dev (vfs_inode idata)) rd wr" "meta_device (fs_meta fs) = inode_dev (vfs_inode idata)"
    and d: "ready (fs_dev fs)" "1024 dvd length (disk (fs_dev fs))"
    and loc: "inode_location (fs_meta fs) (inode_nr (vfs_inode idata)) = Inr (b, k)" "1 \<le> unat b"
      "unat b * 1024 + unat (k * 128) + 128 \<le> length (disk (fs_dev fs))"
    and ino: "direct (ext2_inode idata) = replicate 12 0" "indirect1 (ext2_inode idata) = 0" "length (i_osd2 (ext2_inode idata)) = 3"
    and n: "12 < n" "n \<le> 268" "m = n * 1024"
  shows "\<exists>idata' d'. fs_ext2_inode_rw E idata (int m) 0 [] EXT2_OP_TRUNC fs = Inr (int m, idata', [], fs \<lparr> fs_dev := d' \<rparr>) \<and>
    idata' = idata \<lparr> vfs_inode := (vfs_inode idata) \<lparr> inode_mtime := env_time E \<rparr>, ext2_inode := (ext2_inode idata) \<lparr> i_mtime := env_time E \<rparr> \<rparr> \<and>
    ready d' \<and> length (disk d') = length (disk (fs_dev fs)) \<and> take 1024 (disk d') = replicate 1024 0"
proof -
  define g where "g = (inode_nr (vfs_inode idata) - 1) div s_inodes_per_group (ext2_super (fs_meta fs))"
  define w where "w = init_request (ext2_inode idata) (int m) 0 [] (inode_dev (vfs_inode idata)) EXT2_OP_TRUNC fs g"
  have u: "unat (of_nat m :: u32) = m" using n(2,3) by (intro of_nat_unat_u32) linarith
  have u1: "unat (of_nat m - 1 :: u32) = m - 1" using u n(1,3) by (subst unat_sub) (simp_all add: word_le_nat_alt)
  have "(m - 1) div 1024 = n - 1" "(m - 1) mod 1024 = 1023"
    using n(1) unfolding n(3) by (intro div_nat_eqI mod_nat_eqI; simp add: diff_mult_distrib)+
  then have q: "unat ((of_nat m - 1 :: u32) div 1024) = n - 1" "unat ((of_nat m - 1 :: u32) mod 1024) = 1023"
    using u1 by (simp_all add: unat_div unat_mod)
  have q': "(of_nat m - 1 :: u32) div 1024 = of_nat (n - 1)" "(of_nat m - 1 :: u32) mod 1024 = 1023"
    using q by (metis of_nat_unat ucast_id) (metis q(2) of_nat_numeral of_nat_unat ucast_id)
  have w: "process_block w = EXT2_OP_TRUNC" "\<not> do_allocate w" "do_zero w" "first_block w = 0" "blocks_processed w = 0" "bytes_processed w = 0"
      "req_device w = inode_dev (vfs_inode idata)" "req_fs w = fs" "req_inode w = ext2_inode idata" "req_data w = []" "req_offset w = 0"
      "req_bytes w = of_nat m"
    unfolding w_def init_request_def Let_def by (simp_all add: c_div_def)
  have lb: "last_block w = of_nat (n - 1)" "whole_blocks w"
    unfolding whole_blocks_def w(11,12) using q' unfolding w_def init_request_def Let_def by simp_all
  have ne: "disk (fs_dev fs) \<noteq> []" "1024 \<le> length (disk (fs_dev fs))" using loc(2,3) by auto
  obtain y z e where a: "walk_areas E w = Inr (0, w \<lparr> blocks_processed := of_nat n, bytes_processed := of_nat m, first_byte := y, last_byte := z,
      req_fs := fs \<lparr> fs_dev := e \<rparr> \<rparr>)" "ready e" "disk e = splice (disk (fs_dev fs)) 0 (replicate 1024 0)"
    using walk_areas_sparse [of E w n] E(1) d ne w lb ino n by auto
  have len: "length (disk e) = length (disk (fs_dev fs))" unfolding a(3) using ne(2) by simp
  define j where "j = (ext2_inode idata) \<lparr> i_mtime := env_time E \<rparr>"
  have j: "length (direct j) = 12" "length (i_osd2 j) = 3" by (simp_all add: j_def ino)
  obtain d' where p: "put_inode E (fs \<lparr> fs_dev := e \<rparr>) (inode_nr (vfs_inode idata)) j = Inr (0, fs \<lparr> fs_dev := d' \<rparr>)" "ready d'"
      "disk d' = splice (disk e) (unat b * 1024 + unat (k * 128)) (inode_bytes j)"
    using put_inode_disk [of E "fs \<lparr> fs_dev := e \<rparr>" "inode_nr (vfs_inode idata)" b k j] E a(2) d(2) len loc j by auto
  have m: "0 < m" "(of_nat n * 1024 :: u32) = of_nat m" using n(1) by (simp_all add: n(3))
  have lj: "length (inode_bytes j) = 128" by (rule length_inode_bytes [OF j])
  have "take 1024 (disk d') = take 1024 (disk e)"
    using take_drop_splice_other [of "unat b * 1024 + unat (k * 128)" "inode_bytes j" "disk e" 0 1024] p(3) lj len loc(2,3) ne(2) by simp
  also have "\<dots> = replicate 1024 0" unfolding a(3) using take_drop_splice [of 0 "replicate 1024 0" "disk (fs_dev fs)"] ne(2) by simp
  finally have z: "take 1024 (disk d') = replicate 1024 0" .
  have "udivmod (inode_nr (vfs_inode idata) - 1) (s_inodes_per_group (ext2_super (fs_meta fs))) =
      Inr (g, (inode_nr (vfs_inode idata) - 1) mod s_inodes_per_group (ext2_super (fs_meta fs)))"
    using loc(1) by (auto simp: inode_location_def udivmod_def g_def split: if_splits)
  moreover have "sint (of_nat m :: u32) = int m" using n by (intro sint_block) simp
  ultimately have "fs_ext2_inode_rw E idata (int m) 0 [] EXT2_OP_TRUNC fs = Inr (int m,
      idata \<lparr> vfs_inode := (vfs_inode idata) \<lparr> inode_mtime := env_time E \<rparr>, ext2_inode := j \<rparr>, [], fs \<lparr> fs_dev := d' \<rparr>)"
    unfolding fs_ext2_inode_rw_def using n(1) a(1) p(1) w m by (simp add: w_def [symmetric] Let_def j_def [symmetric])
  then show ?thesis using p(2,3) z lj len loc(3) j_def by auto
qed

lemma inode_trunc_sparse:
  assumes E: "ext2_device E (inode_dev (vfs_inode idata)) rd wr" "meta_device (fs_meta fs) = inode_dev (vfs_inode idata)"
    and d: "ready (fs_dev fs)" "1024 dvd length (disk (fs_dev fs))"
    and loc: "inode_location (fs_meta fs) (inode_nr (vfs_inode idata)) = Inr (b, k)" "1 \<le> unat b"
      "unat b * 1024 + unat (k * 128) + 128 \<le> length (disk (fs_dev fs))"
    and ino: "direct (ext2_inode idata) = replicate 12 0" "indirect1 (ext2_inode idata) = 0" "length (i_osd2 (ext2_inode idata)) = 3"
    and reg: "S_ISREG (inode_mode (vfs_inode idata))"
    and size: "12 * 1024 < unat (i_size (ext2_inode idata))" "unat (i_size (ext2_inode idata)) \<le> 268 * 1024"
  shows "\<exists>idata' fs'. fs_ext2_inode_trunc E idata 0 fs = Inr (0, idata', fs') \<and> i_size (ext2_inode idata') = 0 \<and>
    take 1024 (disk (fs_dev fs')) = replicate 1024 0"
proof -
  define n where "n = blocks_for (unat (i_size (ext2_inode idata)))"
  have n: "12 < n" "n \<le> 268"
    using size unfolding n_def blocks_for_def
    by (simp_all add: less_eq_div_iff_mult_less_eq Suc_le_eq [symmetric] div_le_mono [of _ "268 * 1024 + 1023" 1024, simplified])
  have fb: "fs_blocks (i_size (ext2_inode idata)) = of_nat n" "fs_blocks 0 = 0"
    unfolding n_def using size by (simp add: fs_blocks_eq) (simp add: fs_blocks_def)
  have u: "unat (of_nat n :: u32) = n" using n by (intro of_nat_unat_u32) linarith
  then have nz: "(of_nat n :: u32) \<noteq> 0" using n by auto
  have sb: "sint ((of_nat n - 0) * 1024 :: u32) = int (n * 1024)" using sint_block [of "n * 1024"] n by simp
  define i1 where "i1 = idata \<lparr> vfs_inode := (vfs_inode idata) \<lparr> inode_mtime := env_time E \<rparr>,
      ext2_inode := (ext2_inode idata) \<lparr> i_mtime := env_time E \<rparr> \<rparr>"
  obtain e where rw: "fs_ext2_inode_rw E idata (int (n * 1024)) 0 [] EXT2_OP_TRUNC fs = Inr (int (n * 1024), i1, [], fs \<lparr> fs_dev := e \<rparr>)"
      "ready e" "length (disk e) = length (disk (fs_dev fs))" "take 1024 (disk e) = replicate 1024 0"
    using inode_rw_sparse [OF E d loc ino n refl] unfolding i1_def by blast
  define j where "j = (ext2_inode i1) \<lparr> indirect1 := 0, indirect2 := 0, indirect3 := 0, i_size := 0 \<rparr>"
  have j: "length (direct j) = 12" "length (i_osd2 j) = 3" by (simp_all add: j_def i1_def ino)
  obtain d' where p: "put_inode E (fs \<lparr> fs_dev := e \<rparr>) (inode_nr (vfs_inode idata)) j = Inr (0, fs \<lparr> fs_dev := d' \<rparr>)"
      "disk d' = splice (disk e) (unat b * 1024 + unat (k * 128)) (inode_bytes j)"
    using put_inode_disk [of E "fs \<lparr> fs_dev := e \<rparr>" "inode_nr (vfs_inode idata)" b k j] E rw(2,3) d(2) loc j by auto
  have z: "take 1024 (disk d') = replicate 1024 0"
    using take_drop_splice_other [of "unat b * 1024 + unat (k * 128)" "inode_bytes j" "disk e" 0 1024] p(2)
      length_inode_bytes [OF j] rw(3,4) loc(2,3) by simp
  define i2 where "i2 = i1 \<lparr> vfs_inode := (vfs_inode i1) \<lparr> inode_size := 0 \<rparr>, ext2_inode := j \<rparr>"
  have "fs_ext2_inode_trunc E idata 0 fs = Inr (0, i2, fs \<lparr> fs_dev := d' \<rparr>)"
    unfolding fs_ext2_inode_trunc_def fb sb Let_def using reg nz rw(1) p(1)
    by (simp add: i2_def j_def i1_def)
  then show ?thesis using z by (auto simp: i2_def j_def)
qed

end

subsection \<open>Taking and releasing a block\<close>

lemma count_free_inverse: "g < length (bgdt m) \<Longrightarrow> count_free g 1 1 (count_free g (- 1) (- 1) m) = m"
  by (simp add: count_free_def)

lemma used_at_released:
  assumes "releases_block m D m' D' g i" "layout_ok m D" "h < length (bgdt m)" "i < 8192" "k < 8192"
  shows "used_at m' D' h k \<longleftrightarrow> used_at m D h k \<and> \<not> (h = g \<and> k = i)"
proof -
  have "i div 8 < 1024" "k div 8 < 1024" using assms(4,5) by (simp_all add: div_less_iff_less_mult)
  then have c: "BITFIELD_GET_BIT (BITFIELD_CLEAR_BIT (bitmap_of m D h) i) k \<noteq> 0 \<longleftrightarrow> BITFIELD_GET_BIT (bitmap_of m D h) k \<noteq> 0 \<and> i \<noteq> k"
    using bitfield_clear [of i "bitmap_of m D h" k] length_bitmap_of [OF assms(2,3)] by simp
  have "bitmap_of m' D' h = (if h = g then BITFIELD_CLEAR_BIT (bitmap_of m D g) i else bitmap_of m D h)"
    using assms(1,3) unfolding releases_block_def by blast
  then show ?thesis using c unfolding used_at_def by (cases "h = g") auto
qed

context block_device
begin

lemma allocate_release:
  assumes good: "fs_good rd wr disk ready E fs" and g: "unat gn < length (bgdt (fs_meta fs))"
    and al: "allocate_block E gn errno fs = Inr (nr, e, fs')" "nr \<noteq> 0"
  shows "\<exists>fs''. deallocate_block E nr fs' = Inr (0, fs'') \<and> fs_meta fs'' = fs_meta fs \<and>
    (\<forall>h < length (bgdt (fs_meta fs)). \<forall>k < 8192.
       used_at (fs_meta fs'') (disk (fs_dev fs'')) h k \<longleftrightarrow> used_at (fs_meta fs) (disk (fs_dev fs)) h k) \<and>
    (\<forall>p < length (disk (fs_dev fs)). \<not> metadata_byte (fs_meta fs) p \<longrightarrow> disk (fs_dev fs'') ! p = disk (fs_dev fs) ! p) \<and>
    deallocate_block E nr fs'' = Inl Ext2_panic"
proof -
  let ?m = "fs_meta fs" and ?D = "disk (fs_dev fs)" and ?m' = "fs_meta fs'" and ?D' = "disk (fs_dev fs')"
  have good': "fs_good rd wr disk ready E fs'" and tk: "takes_block ?m ?D ?m' ?D' nr"
    using allocate_block_outcome [OF good g, of errno] al unfolding alloc_outcome_def by auto
  obtain g i where i: "g < length (bgdt ?m)" "i < unat (s_blocks_per_group (ext2_super ?m))" "nr = block_at ?m g i" "\<not> used_at ?m ?D g i"
      and m': "?m' = count_free g (- 1) (- 1) ?m"
      and us: "\<forall>h < length (bgdt ?m). \<forall>k < 8192. used_at ?m' ?D' h k \<longleftrightarrow> used_at ?m ?D h k \<or> (h = g \<and> k = i)"
      and fr: "length ?D' = length ?D" "\<forall>p < length ?D. \<not> metadata_byte ?m p \<longrightarrow> ?D' ! p = ?D ! p"
    using tk unfolding takes_block_def by blast
  have i8: "i < 8192" using i(2) meta_okD(4) [OF fs_goodD(5) [OF good]] by simp
  have u: "used_at ?m' ?D' g i" using us i(1) i8 by blast
  have nr: "nr = block_at ?m' g i" by (simp add: i(3) m' block_at_def)
  have g': "g < length (bgdt ?m')" "i < unat (s_blocks_per_group (ext2_super ?m'))" using i(1,2) by (simp_all add: m')
  obtain fs'' where d: "deallocate_block E nr fs' = Inr (0, fs'')" "fs_good rd wr disk ready E fs''"
      "releases_block ?m' ?D' (fs_meta fs'') (disk (fs_dev fs'')) g i"
    using deallocate_block_outcome [OF good' g'] u unfolding nr by auto
  have m'': "fs_meta fs'' = ?m" using d(3) count_free_inverse [OF i(1)] by (simp add: releases_block_def m')
  have us'': "used_at ?m (disk (fs_dev fs'')) h k \<longleftrightarrow> used_at ?m ?D h k" if "h < length (bgdt ?m)" "k < 8192" for h k
    using used_at_released [OF d(3) fs_goodD(4) [OF good'], of h k] us that i(4) i8 unfolding m'' by (auto simp: m')
  have "deallocate_block E nr fs'' = Inl Ext2_panic"
    using deallocate_block_outcome [OF d(2), of g i] us'' [OF i(1) i8] i by (simp add: m'')
  moreover have "\<forall>p < length ?D. \<not> metadata_byte ?m p \<longrightarrow> disk (fs_dev fs'') ! p = ?D ! p"
    using d(3) fr unfolding releases_block_def by (simp add: m' metadata_byte_count_free)
  ultimately show ?thesis using d(1) m'' us'' by auto
qed

end

subsection \<open>A small file system\<close>

text \<open>
  A RAM disk of eight blocks with one group: the super block in block 1, the group descriptors in
  block 2, the bitmaps in blocks 3 and 4, the inodes in block 5. Block 7 is a block of a file.
\<close>

definition sample_super :: ext2_superblock_t where
  "sample_super =
     \<lparr> s_inodes_count = 8, s_blocks_count = 8, s_r_blocks_count = 0, s_free_blocks_count = 2, s_free_inode_count = 7,
       s_first_data_block = 1, s_log_block_size = 0, s_log_frag_size = 0, s_blocks_per_group = 8192, s_frags_per_group = 8192,
       s_inodes_per_group = 8, s_mtime = 0, s_wtime = 0, s_mnt_count = 0, s_max_mnt_count = 0, s_magic = 0xEF53, s_state = 1,
       s_errors = 1, s_minor_rev_level = 0, s_last_check = 0, s_check_interval = 0, s_creator_os = 0, s_rev_level = 1,
       s_def_res_uid = 0, s_def_res_gid = 0, s_first_ino = 11, s_inode_size = 128, s_block_group_nr = 0, s_feature_compat = 0,
       s_feature_incompat = 0, s_feature_ro_compat = 0, s_uuid = [0, 0, 0, 0] \<rparr>"

definition sample_meta :: ext2_metadata_t where
  "sample_meta =
     \<lparr> ext2_super = sample_super,
       bgdt = [\<lparr> bg_block_bitmap = 3, bg_inode_bitmap = 4, bg_inode_table = 5, bg_free_blocks_count = 2, bg_free_inodes_count = 7,
                 bg_used_dirs_count = 1, bg_pad = 0, bg_reserved = replicate 12 0 \<rparr>],
       meta_device = 0x100, bgdt_size = 1, bgdt_blocks = 1 \<rparr>"

definition sample_fs :: "ramdisk ext2_fs" where
  "sample_fs = \<lparr> fs_dev = \<lparr> have_ramdisk = True, ramdisk_start = 0x100000, ramdisk_end = 0x101FFF,
                            ram = (\<lambda>a. if a \<ge> 0x101C00 then 7 else 0) \<rparr>,
                 fs_meta = sample_meta \<rparr>"

definition sample_env :: "(ramdisk, unit) ext2_env" where
  "sample_env = \<lparr> env_mem = (\<lambda>_. True), env_junk = (\<lambda>_. 0), env_meta = True, env_drv = (\<lambda>_. Driver_blk ramdisk_ops),
                  env_time = 99, env_stack = 0 \<rparr>"

text \<open>A regular file of the given size with one block and a sequence of holes.\<close>

definition sample_inode :: "u32 list \<Rightarrow> u32 \<Rightarrow> ext2_inode_data_t" where
  "sample_inode blocks sz =
     \<lparr> vfs_inode = \<lparr> inode_size = sz, inode_nr = 2, inode_dev = 0x100, inode_mode = 0x8180, inode_owner = 0, inode_link_count = 1,
                     inode_group = 0, inode_s_dev = 0, inode_mtime = 0, inode_atime = 0, mount_point = False \<rparr>,
       ext2_inode = \<lparr> i_mode = 0x8180, i_uid = 0, i_size = sz, i_atime = 0, i_ctime = 0, i_mtime = 0, i_dtime = 0, i_gid = 0,
                      i_link_count = 1, i_blocks = 2, i_flags = 0, i_osd1 = 0, direct = blocks @ replicate (12 - length blocks) 0,
                      indirect1 = 0, indirect2 = 0, indirect3 = 0, i_generation = 0, i_file_acl = 0, i_dir_acl = 0, i_faddr = 0,
                      i_osd2 = [0, 0, 0] \<rparr> \<rparr>"

lemma sample_inode_simps [simp]:
  "inode_dev (vfs_inode (sample_inode bs sz)) = 0x100" "inode_nr (vfs_inode (sample_inode bs sz)) = 2"
  "i_size (ext2_inode (sample_inode bs sz)) = sz" "direct (ext2_inode (sample_inode bs sz)) = bs @ replicate (12 - length bs) 0"
  "indirect1 (ext2_inode (sample_inode bs sz)) = 0" "i_osd2 (ext2_inode (sample_inode bs sz)) = [0, 0, 0]"
  "S_ISREG (inode_mode (vfs_inode (sample_inode bs sz)))"
  by (simp_all add: sample_inode_def S_ISREG_def)

lemma sample_device: "ext2_device sample_env 0x100 (ramdisk_read 0) (ramdisk_write 0)"
proof -
  have "MINOR 256 = 0" by code_simp
  then show ?thesis by (simp add: ext2_device_def serves_def sample_env_def dm_get_blk_dev_ops_def ramdisk_ops_def)
qed

lemma sample_disk: "ramdisk_ready (fs_dev sample_fs)" "length (ramdisk_bytes (fs_dev sample_fs)) = 8192"
  by (simp_all add: sample_fs_def ramdisk_ready_def length_ramdisk_bytes)

lemma sample_meta_simps [simp]:
  "fs_meta sample_fs = sample_meta" "meta_device sample_meta = 0x100" "length (bgdt sample_meta) = 1" "ext2_super sample_meta = sample_super"
  "s_inodes_per_group sample_super = 8"
  by (simp_all add: sample_fs_def sample_meta_def sample_super_def)

lemma sample_good: "fs_good (ramdisk_read 0) (ramdisk_write 0) ramdisk_bytes ramdisk_ready sample_env sample_fs"
  unfolding fs_good_def using sample_device sample_disk
  by (simp add: layout_ok_def meta_ok_def) (simp add: sample_meta_def sample_super_def)

lemma sample_byte: "i < 8192 \<Longrightarrow> ramdisk_bytes (fs_dev sample_fs) ! i = (if 7168 \<le> i then 7 else 0)"
proof -
  assume i: "i < 8192"
  have "unat (0x100000 + of_nat i :: u32) = 0x100000 + i" using i of_nat_unat_u32 [of "0x100000 + i"] by simp
  then show ?thesis using i by (simp add: sample_fs_def ramdisk_bytes_def word_le_nat_alt)
qed

lemma sample_location: "inode_location sample_meta 2 = Inr (5, 1)" "inode_location sample_meta 3 = Inr (5, 2)"
  by (simp_all add: inode_location_def udivmod_def) (simp_all add: sample_meta_def)

lemma sample_not_full: "\<not> group_full sample_meta (ramdisk_bytes (fs_dev sample_fs)) 0"
proof -
  have b: "blocks_in_group sample_meta 0 = Inr 8" "bg_free_blocks_count (bgdt sample_meta ! 0) = 2" "bg_block_bitmap (bgdt sample_meta ! 0) = 3"
    by (simp_all add: blocks_in_group_def udivmod_def sample_meta_def sample_super_def)
  have "bitmap_of sample_meta (ramdisk_bytes (fs_dev sample_fs)) 0 ! 0 = 0"
    unfolding bitmap_of_def b(3) disk_block_def using sample_byte [of 3072] sample_disk(2) by simp
  then have "\<not> used_at sample_meta (ramdisk_bytes (fs_dev sample_fs)) 0 0"
    unfolding used_at_def BITFIELD_GET_BIT_def by simp
  moreover have "(0 :: nat) < unat (8 :: u32)" by simp
  ultimately show ?thesis unfolding group_full_def b(1,2) by (auto intro: exI [of _ 0])
qed

subsection \<open>Properties\<close>

text \<open>
  (C3) Reading a file of an Ext2 file system on a RAM disk. A call of \<open>fs_ext2_inode_read\<close> with an
  offset inside the file returns the number of bytes asked for, or the number of bytes up to the end
  of the file, and puts exactly these bytes of the file at the start of the buffer: byte \<open>p\<close> of a file
  is byte \<open>p mod 1024\<close> of the block to which the direct blocks and the single, double and triple
  indirect blocks on the disk lead, and 0 in a hole. Neither the inode nor the disk changes.
\<close>

theorem ext2_read_file:
  assumes "ext2_device E (inode_dev (vfs_inode idata)) (ramdisk_read 0) (ramdisk_write 0)"
    and "ramdisk_ready (fs_dev fs)" "1024 dvd length (ramdisk_bytes (fs_dev fs))"
    and "s_inodes_per_group (ext2_super (fs_meta fs)) \<noteq> 0"
    and "length (direct (ext2_inode idata)) = 12" "unat (i_size (ext2_inode idata)) < 2147483648"
    and "off < unat (i_size (ext2_inode idata))" "0 < m" "m < 2147483648"
    and "n = min m (unat (i_size (ext2_inode idata)) - off)" "n \<le> length buf"
    and "blocks_exist (ramdisk_bytes (fs_dev fs)) (ext2_inode idata) (off div 1024) ((off + n - 1) div 1024)"
  shows "fs_ext2_inode_read E idata (int m) (int off) buf fs =
    Inr (int n, idata, splice buf 0 (file_bytes (ramdisk_bytes (fs_dev fs)) (ext2_inode idata) off n), fs)"
  by (rule ram_dev.inode_read_disk [OF assms(1,2) refl assms(3,4) refl assms(5-12)])

theorem ext2_read_file_witness:
  "fs_ext2_inode_read sample_env (sample_inode [7, 0] 1025) 3000 1023 [1, 2, 3, 4] sample_fs =
    Inr (2, sample_inode [7, 0] 1025, [7, 0, 3, 4], sample_fs)"
proof -
  let ?D = "ramdisk_bytes (fs_dev sample_fs)" and ?i = "sample_inode [7, 0] 1025"
  have b: "bmap (tables ?D) (ext2_inode ?i) 0 = 7" "bmap (tables ?D) (ext2_inode ?i) (Suc 0) = 0"
    by (simp_all add: bmap_def)
  have ex: "blocks_exist ?D (ext2_inode ?i) 0 1"
    using b by (auto simp: blocks_exist_def ipath_def sample_disk(2) le_Suc_eq)
  have "[1023..<1025] = [1023, 1024]" by (simp add: upt_rec)
  then have sp: "splice [1, 2, 3, 4] 0 (file_bytes ?D (ext2_inode ?i) 1023 2) = [7, 0, 3, 4]"
    using b by (simp add: file_bytes_def file_byte_def sample_byte splice_def)
  have "fs_ext2_inode_read sample_env ?i (int 3000) (int 1023) [1, 2, 3, 4] sample_fs =
      Inr (int 2, ?i, splice [1, 2, 3, 4] 0 (file_bytes ?D (ext2_inode ?i) 1023 2), sample_fs)"
    by (rule ext2_read_file) (use sample_device sample_disk ex in \<open>simp_all del: upt_Suc\<close>)
  then show ?thesis unfolding sp by simp
qed

text \<open>
  (C8) Allocating a block on an Ext2 file system whose metadata is laid out as the code expects. Either
  nothing changes and 0 is returned, and then the super block counts no free block or every group is
  exhausted, or the number of a block is returned that was free in the bitmap of its group: its bit is
  now set on the disk, no other bit of any bitmap has changed, the counters of free blocks of the group
  and of the file system are one lower, and no byte outside the super block, the group descriptors and
  the bitmaps has changed. In particular a block in use is never handed out.
\<close>

theorem ext2_allocate_block:
  assumes "fs_good (ramdisk_read 0) (ramdisk_write 0) ramdisk_bytes ramdisk_ready E fs"
    and "unat group_nr < length (bgdt (fs_meta fs))"
  shows "allocate_block E group_nr errno fs = Inr (0, errno, fs) \<and>
      (s_free_blocks_count (ext2_super (fs_meta fs)) = 0 \<or>
       (\<forall>g < length (bgdt (fs_meta fs)). group_full (fs_meta fs) (ramdisk_bytes (fs_dev fs)) g)) \<or>
    (\<exists>nr fs'. allocate_block E group_nr errno fs = Inr (nr, errno, fs') \<and> nr \<noteq> 0 \<and>
       fs_good (ramdisk_read 0) (ramdisk_write 0) ramdisk_bytes ramdisk_ready E fs' \<and>
       takes_block (fs_meta fs) (ramdisk_bytes (fs_dev fs)) (fs_meta fs') (ramdisk_bytes (fs_dev fs')) nr)"
  using ram_dev.allocate_block_outcome [OF assms, of errno] unfolding alloc_outcome_def .

theorem ext2_allocate_block_witness:
  "\<exists>nr fs'. allocate_block sample_env 0 0 sample_fs = Inr (nr, 0, fs') \<and> nr \<noteq> 0 \<and>
     takes_block sample_meta (ramdisk_bytes (fs_dev sample_fs)) (fs_meta fs') (ramdisk_bytes (fs_dev fs')) nr"
  using ext2_allocate_block [OF sample_good, of 0 0] sample_not_full by (auto simp: sample_super_def)

text \<open>
  (C9) Releasing the block that an allocation returned restores the metadata, the bitmaps and everything
  else on the disk, and releasing it once more is detected as a fatal error.
\<close>

theorem ext2_allocate_release:
  assumes "fs_good (ramdisk_read 0) (ramdisk_write 0) ramdisk_bytes ramdisk_ready E fs"
    and "unat group_nr < length (bgdt (fs_meta fs))"
    and "allocate_block E group_nr errno fs = Inr (nr, e, fs')" "nr \<noteq> 0"
  shows "\<exists>fs''. deallocate_block E nr fs' = Inr (0, fs'') \<and> fs_meta fs'' = fs_meta fs \<and>
    (\<forall>h < length (bgdt (fs_meta fs)). \<forall>k < 8192.
       used_at (fs_meta fs'') (ramdisk_bytes (fs_dev fs'')) h k \<longleftrightarrow> used_at (fs_meta fs) (ramdisk_bytes (fs_dev fs)) h k) \<and>
    (\<forall>p < length (ramdisk_bytes (fs_dev fs)). \<not> metadata_byte (fs_meta fs) p \<longrightarrow>
       ramdisk_bytes (fs_dev fs'') ! p = ramdisk_bytes (fs_dev fs) ! p) \<and>
    deallocate_block E nr fs'' = Inl Ext2_panic"
  by (rule ram_dev.allocate_release [OF assms])

theorem ext2_allocate_release_witness:
  "\<exists>nr fs' fs''. allocate_block sample_env 0 0 sample_fs = Inr (nr, 0, fs') \<and> nr \<noteq> 0 \<and>
     deallocate_block sample_env nr fs' = Inr (0, fs'') \<and> fs_meta fs'' = sample_meta \<and> deallocate_block sample_env nr fs'' = Inl Ext2_panic"
proof -
  obtain nr fs' where al: "allocate_block sample_env 0 0 sample_fs = Inr (nr, 0, fs')" "nr \<noteq> 0"
    using ram_dev.allocate_block_outcome [OF sample_good, of 0 0] sample_not_full by (auto simp: alloc_outcome_def sample_super_def)
  then show ?thesis using ext2_allocate_release [OF sample_good, of 0 0 nr 0 fs'] by auto
qed

text \<open>
  (C10) An inode written to its place in the inode table is what is read back afterwards, and every inode
  whose place does not overlap with it is what it was.
\<close>

theorem ext2_inode_round_trip:
  assumes "ext2_device E (meta_device (fs_meta fs)) (ramdisk_read 0) (ramdisk_write 0)"
    and "ramdisk_ready (fs_dev fs)" "1024 dvd length (ramdisk_bytes (fs_dev fs))"
    and "inode_location (fs_meta fs) nr = Inr (b, k)" "unat b * 1024 + unat (k * 128) + 128 \<le> length (ramdisk_bytes (fs_dev fs))"
    and "length (direct i) = 12" "length (i_osd2 i) = 3"
  shows "\<exists>fs'. put_inode E fs nr i = Inr (0, fs') \<and> get_ext2_inode E fs' nr = Inr (Some i) \<and>
    (\<forall>nr' b' k'. inode_location (fs_meta fs) nr' = Inr (b', k') \<and>
       unat b' * 1024 + unat (k' * 128) + 128 \<le> length (ramdisk_bytes (fs_dev fs)) \<and>
       (unat b' * 1024 + unat (k' * 128) + 128 \<le> unat b * 1024 + unat (k * 128) \<or>
        unat b * 1024 + unat (k * 128) + 128 \<le> unat b' * 1024 + unat (k' * 128)) \<longrightarrow>
       get_ext2_inode E fs' nr' = get_ext2_inode E fs nr')"
  by (rule ram_dev.put_get_inode [OF assms])

theorem ext2_inode_round_trip_witness:
  "\<exists>fs'. put_inode sample_env sample_fs 2 (ext2_inode (sample_inode [7] 1024)) = Inr (0, fs') \<and>
     get_ext2_inode sample_env fs' 2 = Inr (Some (ext2_inode (sample_inode [7] 1024))) \<and>
     get_ext2_inode sample_env fs' 3 = get_ext2_inode sample_env sample_fs 3"
  using ext2_inode_round_trip [of sample_env sample_fs 2 5 1 "ext2_inode (sample_inode [7] 1024)"]
    sample_device sample_disk sample_location by fastforce

text \<open>
  (C11) The super block and the group descriptors of a mounted file system that are written to the disk
  give the same metadata when the file system is mounted again.
\<close>

theorem ext2_metadata_round_trip:
  assumes "fs_good (ramdisk_read 0) (ramdisk_write 0) ramdisk_bytes ramdisk_ready E fs" "env_meta E"
    and "bgdt_size (fs_meta fs) = s_blocks_count (ext2_super (fs_meta fs)) div s_blocks_per_group (ext2_super (fs_meta fs)) + 1"
    and "bgdt_blocks (fs_meta fs) = (bgdt_size (fs_meta fs) * 32 - 1) div 1024 + 1"
  shows "\<exists>d'. put_meta E fs = Inr (0, fs \<lparr> fs_dev := d' \<rparr>) \<and> read_meta E (meta_device (fs_meta fs)) d' = Inr (Some (fs_meta fs))"
  by (rule ram_dev.put_read_meta [OF assms])

theorem ext2_metadata_round_trip_witness:
  "\<exists>d'. put_meta sample_env sample_fs = Inr (0, sample_fs \<lparr> fs_dev := d' \<rparr>) \<and> read_meta sample_env 0x100 d' = Inr (Some sample_meta)"
  using ext2_metadata_round_trip [OF sample_good] by (simp add: sample_env_def sample_meta_def sample_super_def)

text \<open>
  (C40) Truncating a sparse file overwrites block 0 of the device. If a regular file that is longer than its
  direct blocks has a hole there and no indirect block, \<open>fs_ext2_inode_trunc\<close> to length 0 succeeds, but
  it has written the zeroed copy of the missing indirect block to block number 0, so the boot block is lost.
\<close>

theorem truncate_hole_clears_block_0:
  assumes "ext2_device E (inode_dev (vfs_inode idata)) (ramdisk_read 0) (ramdisk_write 0)" "meta_device (fs_meta fs) = inode_dev (vfs_inode idata)"
    and "ramdisk_ready (fs_dev fs)" "1024 dvd length (ramdisk_bytes (fs_dev fs))"
    and "inode_location (fs_meta fs) (inode_nr (vfs_inode idata)) = Inr (b, k)" "1 \<le> unat b"
      "unat b * 1024 + unat (k * 128) + 128 \<le> length (ramdisk_bytes (fs_dev fs))"
    and "direct (ext2_inode idata) = replicate 12 0" "indirect1 (ext2_inode idata) = 0" "length (i_osd2 (ext2_inode idata)) = 3"
    and "S_ISREG (inode_mode (vfs_inode idata))"
    and "12 * 1024 < unat (i_size (ext2_inode idata))" "unat (i_size (ext2_inode idata)) \<le> 268 * 1024"
  shows "\<exists>idata' fs'. fs_ext2_inode_trunc E idata 0 fs = Inr (0, idata', fs') \<and> i_size (ext2_inode idata') = 0 \<and>
    take 1024 (ramdisk_bytes (fs_dev fs')) = replicate 1024 0"
  by (rule ram_dev.inode_trunc_sparse [OF assms])

theorem truncate_hole_clears_block_0_witness:
  "\<exists>fs idata' fs'. ramdisk_bytes (fs_dev fs) ! 0 = 7 \<and> fs_ext2_inode_trunc sample_env (sample_inode [] 13000) 0 fs = Inr (0, idata', fs') \<and>
     ramdisk_bytes (fs_dev fs') ! 0 = 0"
proof -
  define fs where "fs = sample_fs \<lparr> fs_dev := (fs_dev sample_fs) \<lparr> ram := (\<lambda>_. 7) \<rparr> \<rparr>"
  have fs: "fs_meta fs = sample_meta" "ramdisk_ready (fs_dev fs)" "length (ramdisk_bytes (fs_dev fs)) = 8192"
      "ramdisk_bytes (fs_dev fs) ! 0 = 7"
    by (simp_all add: fs_def sample_fs_def ramdisk_ready_def length_ramdisk_bytes) (simp add: ramdisk_bytes_def)
  obtain idata' fs' where t: "fs_ext2_inode_trunc sample_env (sample_inode [] 13000) 0 fs = Inr (0, idata', fs')"
      "take 1024 (ramdisk_bytes (fs_dev fs')) = replicate 1024 0"
    using truncate_hole_clears_block_0 [of sample_env "sample_inode [] 13000" fs 5 1] sample_device sample_location fs(1-3) by auto
  then have "ramdisk_bytes (fs_dev fs') ! 0 = 0" by (metis nth_replicate nth_take zero_less_numeral)
  then show ?thesis using t(1) fs(4) by blast
qed

end
