(* ===== verification/Spec2Isabelle.thy ===== *)
theory Spec2Isabelle
  imports Tcp_Properties Pipe Lists Sched_Properties Heap_Properties Ip_Properties Ext2_Properties
begin

text \<open>
  A verification library for parts of ctOS, a 32-bit operating system kernel with its C library,
  written in C. Source paths below are relative to \<^verbatim>\<open>src/\<close>.

  \<^bold>\<open>Parts of the program and the theories that model them.\<close>

  \<^item> \<^emph>\<open>TCP\<close> (\<^verbatim>\<open>kernel/tcp.c\<close>, \<^verbatim>\<open>include/tcp.h\<close>): \<open>Wire\<close> has headers, byte order and the
    checksum; \<open>Tcp_Base\<close> the socket and its sequence arithmetic; \<open>Tcp_Output\<close> the transmission of
    segments, \<open>Tcp_Input\<close> their reception, \<open>Tcp_Sockets\<close> the table of sockets, \<open>Tcp\<close> the calls of
    the socket layer, the timer tick and \<^verbatim>\<open>tcp_rx_msg\<close>. A socket is a record with the fields of
    \<^verbatim>\<open>socket_t\<close> and its control block; the system is a store of sockets by number with reference
    counts and locks. \<open>Ring\<close> relates the ring buffers (free-running 32-bit indices into an array) to
    lists. The lemmas about them are in \<open>Tcp_Send\<close>, \<open>Tcp_Window\<close>, \<open>Tcp_Receive\<close>, \<open>Tcp_Machine\<close> and
    \<open>Tcp_Properties\<close>: the segments carry the byte stream, stay within the windows and are
    acknowledged and delivered in order; every reachable state change follows RFC 793.
  \<^item> \<^emph>\<open>Pipes\<close> (\<^verbatim>\<open>kernel/fs_pipe.c\<close>): \<open>Pipe\<close>. A monitor whose critical sections are functions on
    the pipe; a step relation interleaves readers, writers, signals and opens and closes.
  \<^item> \<^emph>\<open>List macros\<close> (\<^verbatim>\<open>include/lists.h\<close>): \<open>Lists\<close>. Pointers are maps; the macros refine the
    operations on lists.
  \<^item> \<^emph>\<open>Scheduler\<close> (\<^verbatim>\<open>kernel/sched.c\<close>): \<open>Sched\<close>, \<open>Sched_Properties\<close>. Run queues per CPU built
    from the list macros; a step relation runs the operations in any order on any CPU.
  \<^item> \<^emph>\<open>Heap\<close> (\<^verbatim>\<open>lib/internal/heap.c\<close>): \<open>Heap\<close> is the code over a memory of bytes,
    \<open>Heap_Chunks\<close> relates memory to a list of chunks, \<open>Heap_Alloc\<close> and \<open>Heap_Free\<close> show what
    allocation and release do to it, \<open>Heap_Properties\<close> states what callers rely on.
  \<^item> \<^emph>\<open>Network messages, interfaces and IP\<close> (\<^verbatim>\<open>kernel/net.c\<close>, \<^verbatim>\<open>kernel/net_if.c\<close>,
    \<^verbatim>\<open>kernel/ip.c\<close>): \<open>Net_Msg\<close> is the message buffer that the layers share, \<open>Routing\<close> the cards
    and the routing table, \<open>Ip_Reassembly\<close> the reassembly of fragments over the bytes of its buffers,
    \<open>Ip_Output\<close> \<^verbatim>\<open>ip_tx_msg\<close> with fragmentation, \<open>Ip_Input\<close> \<^verbatim>\<open>ip_rx_msg\<close> and the raw
    sockets. \<open>Ip_Holes\<close>, \<open>Ip_Slots\<close> and \<open>Ip_Datagram\<close> relate the list of holes inside the buffer to the set
    of fragments that have arrived, \<open>Ip_Fragment\<close> describes the fragments that are sent,
    \<open>Ip_Properties\<close> shows that datagrams are put together in any order of their fragments and that
    a message survives the way from one host to another.
  \<^item> \<^emph>\<open>Block devices\<close> (\<^verbatim>\<open>kernel/dm.c\<close>, \<^verbatim>\<open>driver/ramdisk.c\<close>,
    \<^verbatim>\<open>kernel/blockcache.c\<close>): \<open>Block_Device\<close> has the table of drivers, the RAM disk and the
    locale \<open>block_device\<close>, the contract between a driver and the block layer, which the RAM disk is shown to
    fulfil; \<open>Block_Cache\<close> has the transfers of bytes. Under the contract they read and replace exactly the
    bytes asked for.
  \<^item> \<^emph>\<open>Ext2\<close> (\<^verbatim>\<open>kernel/fs_ext2.c\<close>): \<open>Ext2_Disk\<close> has the structures on the disk, mounting and
    the inode table, \<open>Ext2_Bitmap\<close> the allocation of blocks and inodes, \<open>Ext2_Walk\<close> the walk through
    direct and indirect blocks and reading, writing and truncating. \<open>Ext2_Files\<close> proves once what the walk
    visits, for any operation that finds its blocks and keeps the lists of blocks; \<open>Ext2_Read\<close> applies this to reading, \<open>Ext2_Alloc\<close> relates the
    bitmaps on the disk to the set of blocks in use, and \<open>Ext2_Properties\<close> states the results on the RAM
    disk. The lemmas behind them use the contract \<open>block_device\<close> only.

  \<open>Prelude\<close> has the types, error numbers and generic lemmas that all of them share.

  \<^bold>\<open>Conventions.\<close> Machine integers are words of their width (or \<open>int\<close> where the code
  checks the range itself). A function that can fail, panic or dereference a null pointer returns a
  sum or an option; a loop that need not end is a \<open>partial_function (option)\<close> whose value \<open>None\<close> means
  that it does not return, and every claim that it returns is proved as such. Critical sections
  are single steps. Code outside the modelled files (IP output of TCP, memory allocation, random
  numbers, the extension of the heap, the drivers other than the RAM disk) is a parameter; what fresh
  memory or an uninitialised variable contains is an argument, too.

  \<^bold>\<open>Bounds.\<close> \<open>close_depth\<close> (2) bounds the recursion from a listening socket to the
  connections in its queue, which have no queue of their own; the option parser of TCP is fuelled
  only in the bound of its proof: 40 bytes of options are read in at most 41 rounds. The theorems
  about the heap assume that addresses stay below \<open>2 ^ 32\<close> and the heap below \<open>2 ^ 31\<close> bytes, which is what
  its own validation accepts. Devices are smaller than \<open>2 ^ 31\<close> bytes, since block counts and offsets
  are signed in the code; reassembly is shown for datagrams of at most 65512 octets whose
  fragments do not overlap and are cut at multiples of 8, as \<^verbatim>\<open>ip_tx_msg\<close> cuts them.

  \<^bold>\<open>Not modelled.\<close> Drivers and the hardware layer (the behaviour of the devices is not in
  the sources), the boot code that walks tables of the firmware, user programs, ARP, ICMP and UDP, the
  process and the memory manager, the virtual file system, and of Ext2 the directories and the caches
  of inodes and mounted file systems.
\<close>

end
